(* ===== verification/Prelude.thy ===== *)
theory Prelude
  imports Complex_Main "HOL-Library.Word"
begin

text \<open>
  Shared vocabulary of the development: the error values that stand for the C++ exceptions and
  for undefined behaviour, the result and outcome types of the operations, the operations of
  \<^verbatim>\<open>QVector\<close> the sources use (an index outside the vector is undefined
  behaviour, never a silent default), decimal numerals of
  \<^verbatim>\<open>QString::number\<close> and \<^verbatim>\<open>QString::toInt\<close>, and the
  generic lemmas on them.
\<close>

named_theorems vec_simps \<open>equations of the checked vector operations on indices in range\<close>
named_theorems state_defs \<open>definitions of the state-changing operations\<close>

subsection \<open>Errors\<close>

text \<open>
  \<^verbatim>\<open>Undefined\<close> is what the C++ standard or Qt leave undefined (an index out
  of range, a null pointer that is dereferenced): no handler of the program intercepts it.
  The other constructors are exceptions. \<^verbatim>\<open>ThrownQString\<close> is the
  \<^verbatim>\<open>QString\<close> that \<^verbatim>\<open>LabelManager::checkLabel\<close> throws,
  which is not a \<^verbatim>\<open>std::exception\<close>.
\<close>

datatype error =
    ShapeException string
  | CanvasException string
  | StdException string
  | ThrownQString string
  | Undefined string

type_synonym 'a result = "error + 'a"

text \<open>
  The outcome of an operation on a state: the state it leaves and the error that is propagating,
  if any. The state survives an exception, because C++ does not roll back what was written.
\<close>

type_synonym 's outcome = "'s \<times> error option"

fun is_std_exception :: "error \<Rightarrow> bool" where
  "is_std_exception (ShapeException _) = True"
| "is_std_exception (CanvasException _) = True"
| "is_std_exception (StdException _) = True"
| "is_std_exception (ThrownQString _) = False"
| "is_std_exception (Undefined _) = False"

text \<open>\<^verbatim>\<open>try { ... } catch (const std::exception& e) { qWarning() << e.what(); }\<close>\<close>

fun catch_std :: "'s outcome \<Rightarrow> 's outcome" where
  "catch_std (s, Some e) = (if is_std_exception e then (s, None) else (s, Some e))"
| "catch_std (s, None) = (s, None)"

fun and_then :: "'s outcome \<Rightarrow> ('s \<Rightarrow> 's outcome) \<Rightarrow> 's outcome" where
  "and_then (s, None) f = f s"
| "and_then (s, Some e) f = (s, Some e)"

fun bind_result :: "'a result \<Rightarrow> ('a \<Rightarrow> 'b result) \<Rightarrow> 'b result" where
  "bind_result (Inl e) f = Inl e"
| "bind_result (Inr x) f = f x"

lemma bind_result_Inr_iff [simp]:
  "bind_result r f = Inr y \<longleftrightarrow> (\<exists>x. r = Inr x \<and> f x = Inr y)"
  by (cases r) auto

lemma bind_result_cong [fundef_cong]:
  "r = r' \<Longrightarrow> (\<And>x. r' = Inr x \<Longrightarrow> f x = g x) \<Longrightarrow> bind_result r f = bind_result r' g"
  by (cases r') auto

lemma bind_result_Inl_iff:
  "bind_result r f = Inl e \<longleftrightarrow> r = Inl e \<or> (\<exists>x. r = Inr x \<and> f x = Inl e)"
  by (cases r) auto

text \<open>A loop that collects the values of a fallible body and stops at the first error.\<close>

fun map_result :: "('a \<Rightarrow> 'b result) \<Rightarrow> 'a list \<Rightarrow> 'b list result" where
  "map_result f [] = Inr []"
| "map_result f (x # xs) = bind_result (f x) (\<lambda>y. bind_result (map_result f xs) (\<lambda>ys. Inr (y # ys)))"

lemma map_result_total: "(\<And>x. x \<in> set xs \<Longrightarrow> f x = Inr (g x)) \<Longrightarrow> map_result f xs = Inr (map g xs)"
  by (induction xs) auto

lemma map_result_ex: "(\<And>x. x \<in> set xs \<Longrightarrow> \<exists>y. f x = Inr y) \<Longrightarrow> \<exists>ys. map_result f xs = Inr ys"
  by (induction xs) auto

lemma catch_std_None [simp]: "snd r = None \<Longrightarrow> catch_std r = r"
  by (cases r rule: catch_std.cases) auto

lemma fst_catch_std [simp]: "fst (catch_std r) = fst r"
  by (cases r rule: catch_std.cases) auto

lemma catch_std_error:
  "snd (catch_std r) = Some e \<Longrightarrow> \<not> is_std_exception e"
  by (cases r rule: catch_std.cases) (auto split: if_splits)

text \<open>The 32-bit \<^verbatim>\<open>int\<close> and the conversion of a wider integer to it, which wraps.\<close>

definition fits_int :: "int \<Rightarrow> bool" where
  "fits_int n \<longleftrightarrow> - (2 ^ 31) \<le> n \<and> n < 2 ^ 31"

definition to_int32 :: "int \<Rightarrow> int" where
  "to_int32 n = (n + 2 ^ 31) mod 2 ^ 32 - 2 ^ 31"

lemma to_int32_id [simp]: "fits_int n \<Longrightarrow> to_int32 n = n"
  by (simp add: fits_int_def to_int32_def)

text \<open>Running a fallible operation that writes nothing before it fails.\<close>

fun lift_result :: "'s \<Rightarrow> 's result \<Rightarrow> 's outcome" where
  "lift_result s (Inl e) = (s, Some e)"
| "lift_result s (Inr s') = (s', None)"

lemma and_then_None_iff:
  "snd (and_then r f) = None \<longleftrightarrow> snd r = None \<and> snd (f (fst r)) = None"
  by (cases r; cases "snd r") auto

subsection \<open>Vectors\<close>

definition vec_at :: "'a list \<Rightarrow> int \<Rightarrow> 'a result" where
  "vec_at xs i = (if 0 \<le> i \<and> i < int (length xs) then Inr (xs ! nat i)
                  else Inl (Undefined ''QVector::at''))"

definition vec_replace :: "'a list \<Rightarrow> int \<Rightarrow> 'a \<Rightarrow> 'a list result" where
  "vec_replace xs i v = (if 0 \<le> i \<and> i < int (length xs) then Inr (xs[nat i := v])
                         else Inl (Undefined ''QVector::replace''))"

definition list_insert :: "nat \<Rightarrow> 'a \<Rightarrow> 'a list \<Rightarrow> 'a list" where
  "list_insert n v xs = take n xs @ v # drop n xs"

definition list_remove :: "nat \<Rightarrow> 'a list \<Rightarrow> 'a list" where
  "list_remove n xs = take n xs @ drop (Suc n) xs"

definition vec_insert :: "'a list \<Rightarrow> int \<Rightarrow> 'a \<Rightarrow> 'a list result" where
  "vec_insert xs i v = (if 0 \<le> i \<and> i \<le> int (length xs) then Inr (list_insert (nat i) v xs)
                        else Inl (Undefined ''QVector::insert''))"

definition vec_erase :: "'a list \<Rightarrow> int \<Rightarrow> 'a list result" where
  "vec_erase xs i = (if 0 \<le> i \<and> i < int (length xs) then Inr (list_remove (nat i) xs)
                     else Inl (Undefined ''QVector::erase''))"

lemma vec_at_in [vec_simps]: "0 \<le> i \<Longrightarrow> i < int (length xs) \<Longrightarrow> vec_at xs i = Inr (xs ! nat i)"
  by (simp add: vec_at_def)

lemma vec_at_nat [vec_simps]: "n < length xs \<Longrightarrow> vec_at xs (int n) = Inr (xs ! n)"
  by (simp add: vec_at_def)

lemma vec_replace_in [vec_simps]:
  "0 \<le> i \<Longrightarrow> i < int (length xs) \<Longrightarrow> vec_replace xs i v = Inr (xs[nat i := v])"
  by (simp add: vec_replace_def)

lemma vec_insert_in [vec_simps]:
  "0 \<le> i \<Longrightarrow> i \<le> int (length xs) \<Longrightarrow> vec_insert xs i v = Inr (list_insert (nat i) v xs)"
  by (simp add: vec_insert_def)

lemma vec_erase_in [vec_simps]:
  "0 \<le> i \<Longrightarrow> i < int (length xs) \<Longrightarrow> vec_erase xs i = Inr (list_remove (nat i) xs)"
  by (simp add: vec_erase_def)

lemma length_list_insert [simp]: "length (list_insert n v xs) = Suc (length xs)"
  by (simp add: list_insert_def)

lemma length_list_remove [simp]:
  "length (list_remove n xs) = (if n < length xs then length xs - 1 else length xs)"
  by (auto simp: list_remove_def)

lemma map_list_insert: "map f (list_insert n v xs) = list_insert n (f v) (map f xs)"
  by (simp add: list_insert_def take_map drop_map)

lemma map_list_remove: "map f (list_remove n xs) = list_remove n (map f xs)"
  by (simp add: list_remove_def take_map drop_map)

lemma set_list_remove: "set (list_remove n xs) \<subseteq> set xs"
  by (auto simp: list_remove_def dest: in_set_takeD in_set_dropD)

lemma set_list_insert: "set (list_insert n v xs) = insert v (set xs)"
proof -
  have "set xs = set (take n xs) \<union> set (drop n xs)"
    by (metis append_take_drop_id set_append)
  then show ?thesis by (auto simp: list_insert_def)
qed

lemma list_remove_insert [simp]:
  "n \<le> length xs \<Longrightarrow> list_remove n (list_insert n v xs) = xs"
  by (simp add: list_remove_def list_insert_def min_def)

lemma list_remove_append_last [simp]: "list_remove (length xs) (xs @ [v]) = xs"
  by (simp add: list_remove_def)

lemma list_remove_last: "xs \<noteq> [] \<Longrightarrow> list_remove (length xs - 1) xs = butlast xs"
  by (simp add: list_remove_def butlast_conv_take)

lemma distinct_list_remove: "distinct xs \<Longrightarrow> distinct (list_remove n xs)"
  by (simp add: list_remove_def set_take_disj_set_drop_if_distinct)

lemma list_remove_not_mem:
  "distinct xs \<Longrightarrow> n < length xs \<Longrightarrow> xs ! n \<notin> set (list_remove n xs)"
proof -
  assume d: "distinct xs" and n: "n < length xs"
  from n have "distinct (take n xs @ xs ! n # drop (Suc n) xs)"
    using d id_take_nth_drop[OF n] by simp
  then show ?thesis by (auto simp: list_remove_def)
qed

lemma list_remove_mem:
  "m < length xs \<Longrightarrow> m \<noteq> n \<Longrightarrow> xs ! m \<in> set (list_remove n xs)"
proof -
  assume m: "m < length xs" and ne: "m \<noteq> n"
  show ?thesis
  proof (cases "m < n")
    case True
    then have "xs ! m = take n xs ! m" and "m < length (take n xs)" using m by auto
    then show ?thesis unfolding list_remove_def by (metis UnCI nth_mem set_append)
  next
    case False
    then have "xs ! m = drop (Suc n) xs ! (m - Suc n)" and "m - Suc n < length (drop (Suc n) xs)"
      using m ne by auto
    then show ?thesis unfolding list_remove_def by (metis UnCI nth_mem set_append)
  qed
qed

subsection \<open>Truncation of a double to an int\<close>

text \<open>The conversion of a floating-point value to an integer type drops the fraction.\<close>

definition trunc :: "rat \<Rightarrow> int" where
  "trunc r = (if 0 \<le> r then \<lfloor>r\<rfloor> else - \<lfloor>- r\<rfloor>)"

lemma trunc_of_int [simp]: "trunc (of_int i) = i"
  by (simp add: trunc_def flip: of_int_minus)

lemma trunc_mono: "a \<le> b \<Longrightarrow> trunc a \<le> trunc b"
proof -
  assume ab: "a \<le> b"
  show ?thesis
  proof (cases "0 \<le> a")
    case True
    with ab show ?thesis by (simp add: trunc_def floor_mono)
  next
    case neg: False
    then have a: "trunc a \<le> 0" by (simp add: trunc_def)
    show ?thesis
    proof (cases "0 \<le> b")
      case True
      then have "0 \<le> trunc b" by (simp add: trunc_def)
      with a show ?thesis by simp
    next
      case False
      with neg ab show ?thesis by (simp add: trunc_def floor_mono)
    qed
  qed
qed

lemma trunc_numeral [simp]: "trunc (numeral n) = numeral n" "trunc 0 = 0" "trunc 1 = 1"
  using trunc_of_int[of "numeral n"] trunc_of_int[of 0] trunc_of_int[of 1] by simp_all

text \<open>The conversion of a double to an int drops the fraction; out of the range of int it is undefined.\<close>

definition double_to_int :: "rat \<Rightarrow> int result" where
  "double_to_int r = (if fits_int (trunc r) then Inr (trunc r) else Inl (Undefined ''double out of the range of int''))"

lemma double_to_int_of_int [simp]: "fits_int i \<Longrightarrow> double_to_int (of_int i) = Inr i"
  by (simp add: double_to_int_def)

text \<open>Division of C++ ints truncates towards zero.\<close>

definition c_div :: "int \<Rightarrow> int \<Rightarrow> int" where
  "c_div a b = sgn a * sgn b * (\<bar>a\<bar> div \<bar>b\<bar>)"

lemma c_div_2: "c_div a 2 = (if 0 \<le> a then a div 2 else - (- a div 2))"
  by (auto simp: c_div_def sgn_if)

subsection \<open>Decimal numerals\<close>

text \<open>
  \<^verbatim>\<open>QString::number(int)\<close> prints a decimal numeral, with a leading minus
  sign for a negative value; \<^verbatim>\<open>QString::toInt\<close> reads one and returns 0
  for a string that is no numeral.
\<close>

definition digit_char :: "nat \<Rightarrow> char" where
  "digit_char d = char_of (48 + d)"

definition char_digit :: "char \<Rightarrow> nat option" where
  "char_digit c = (let k = (of_char c :: nat) in if 48 \<le> k \<and> k \<le> 57 then Some (k - 48) else None)"

fun nat_digits :: "nat \<Rightarrow> string" where
  "nat_digits n = (if n < 10 then [digit_char n]
                   else nat_digits (n div 10) @ [digit_char (n mod 10)])"

declare nat_digits.simps [simp del]

fun read_digits :: "nat \<Rightarrow> string \<Rightarrow> nat option" where
  "read_digits acc [] = Some acc"
| "read_digits acc (c # cs) =
     (case char_digit c of None \<Rightarrow> None | Some d \<Rightarrow> read_digits (10 * acc + d) cs)"

definition QString_number :: "int \<Rightarrow> string" where
  "QString_number i = (if i < 0 then CHR ''-'' # nat_digits (nat (- i)) else nat_digits (nat i))"

definition QString_toInt :: "string \<Rightarrow> int" where
  "QString_toInt s =
     (case s of
        [] \<Rightarrow> 0
      | c # cs \<Rightarrow>
          (if c = CHR ''-'' then (if cs = [] then 0 else
             (case read_digits 0 cs of None \<Rightarrow> 0 | Some n \<Rightarrow> - int n))
           else (case read_digits 0 s of None \<Rightarrow> 0 | Some n \<Rightarrow> int n)))"

lemma char_digit_digit_char [simp]: "d < 10 \<Longrightarrow> char_digit (digit_char d) = Some d"
  by (simp add: char_digit_def digit_char_def Let_def)

lemma digit_char_not_minus: "d < 10 \<Longrightarrow> digit_char d \<noteq> CHR ''-''"
proof
  assume d: "d < 10" and "digit_char d = CHR ''-''"
  then have "char_digit (CHR ''-'') = Some d" using char_digit_digit_char by metis
  then show False by (simp add: char_digit_def Let_def)
qed

lemma read_digits_append:
  "read_digits acc (xs @ ys) =
     (case read_digits acc xs of None \<Rightarrow> None | Some a \<Rightarrow> read_digits a ys)"
  by (induction xs arbitrary: acc) (auto split: option.splits)

lemma nat_digits_not_Nil [simp]: "nat_digits n \<noteq> []"
  by (subst nat_digits.simps) simp

lemma nat_digits_chars: "c \<in> set (nat_digits n) \<Longrightarrow> \<exists>d < 10. c = digit_char d"
  by (induction n rule: nat_digits.induct) (subst (asm) nat_digits.simps, force split: if_splits)

lemma read_nat_digits: "read_digits 0 (nat_digits n) = Some n"
proof (induction n rule: nat_digits.induct)
  case (1 n)
  show ?case
  proof (cases "n < 10")
    case True
    then show ?thesis by (subst nat_digits.simps) simp
  next
    case False
    with 1 have "read_digits 0 (nat_digits (n div 10)) = Some (n div 10)" by simp
    with False show ?thesis by (subst nat_digits.simps) (simp add: read_digits_append)
  qed
qed

lemma nat_digits_inject [simp]: "nat_digits m = nat_digits n \<longleftrightarrow> m = n"
  by (metis option.inject read_nat_digits)

lemma toInt_number [simp]: "QString_toInt (QString_number i) = i"
proof (cases "i < 0")
  case True
  then show ?thesis
    by (simp add: QString_number_def QString_toInt_def read_nat_digits)
next
  case False
  obtain c cs where cs: "nat_digits (nat i) = c # cs"
    by (cases "nat_digits (nat i)") auto
  then have "c \<noteq> CHR ''-''"
    using nat_digits_chars[of c "nat i"] digit_char_not_minus by auto
  with False cs read_nat_digits[of "nat i"] show ?thesis
    by (simp add: QString_number_def QString_toInt_def)
qed

lemma number_inject [simp]: "QString_number i = QString_number j \<longleftrightarrow> i = j"
  by (metis toInt_number)

lemma number_not_Nil [simp]: "QString_number i \<noteq> []"
  by (simp add: QString_number_def)

end
