(* ===== verification/Qt_Values.thy ===== *)
theory Qt_Values
  imports Prelude
begin

text \<open>
  The value types of Qt that the sources compute with: points, sizes, rectangles, colours and
  images. Coordinates (\<^verbatim>\<open>qreal\<close>, a \<^verbatim>\<open>double\<close>) are exact
  rationals: every finite double is one, and the rounding of the results of operations is not
  modelled. Points form an abelian group, so the library's lemmas on sums and differences
  apply to them.
\<close>

subsection \<open>Points\<close>

datatype QPointF = QPointF (px: rat) (py: rat)

lemma QPointF_eq_iff: "p = q \<longleftrightarrow> px p = px q \<and> py p = py q"
  by (cases p; cases q) auto

instantiation QPointF :: ab_group_add
begin

definition zero_QPointF :: QPointF where
  "0 = QPointF 0 0"

definition plus_QPointF :: "QPointF \<Rightarrow> QPointF \<Rightarrow> QPointF" where
  "p + q = QPointF (px p + px q) (py p + py q)"

definition minus_QPointF :: "QPointF \<Rightarrow> QPointF \<Rightarrow> QPointF" where
  "p - q = QPointF (px p - px q) (py p - py q)"

definition uminus_QPointF :: "QPointF \<Rightarrow> QPointF" where
  "- p = QPointF (- px p) (- py p)"

instance
  by standard
     (simp_all add: zero_QPointF_def plus_QPointF_def minus_QPointF_def uminus_QPointF_def)

end

lemma px_simps [simp]:
  "px (p + q) = px p + px q" "px (p - q) = px p - px q" "px 0 = 0" "px (- p) = - px p"
  by (simp_all add: zero_QPointF_def plus_QPointF_def minus_QPointF_def uminus_QPointF_def)

lemma py_simps [simp]:
  "py (p + q) = py p + py q" "py (p - q) = py p - py q" "py 0 = 0" "py (- p) = - py p"
  by (simp_all add: zero_QPointF_def plus_QPointF_def minus_QPointF_def uminus_QPointF_def)

text \<open>\<^verbatim>\<open>qreal * QPointF\<close>\<close>

definition scaleP :: "rat \<Rightarrow> QPointF \<Rightarrow> QPointF" where
  "scaleP c p = QPointF (c * px p) (c * py p)"

lemma scaleP_simps [simp]: "px (scaleP c p) = c * px p" "py (scaleP c p) = c * py p"
  by (simp_all add: scaleP_def)

definition manhattanLength :: "QPointF \<Rightarrow> rat" where
  "manhattanLength p = \<bar>px p\<bar> + \<bar>py p\<bar>"

definition dot :: "QPointF \<Rightarrow> QPointF \<Rightarrow> rat" where
  "dot p q = px p * px q + py p * py q"

definition norm2 :: "QPointF \<Rightarrow> rat" where
  "norm2 p = dot p p"

lemma norm2_nonneg [simp]: "0 \<le> norm2 p"
  by (simp add: norm2_def dot_def)

lemma norm2_eq_0: "norm2 p = 0 \<longleftrightarrow> p = 0"
  by (cases p) (auto simp: norm2_def dot_def zero_QPointF_def add_nonneg_eq_0_iff)

lemma norm2_le_manhattan: "norm2 p \<le> (manhattanLength p)\<^sup>2"
proof -
  have "(manhattanLength p)\<^sup>2 = norm2 p + 2 * (\<bar>px p\<bar> * \<bar>py p\<bar>)"
    by (simp add: manhattanLength_def norm2_def dot_def power2_eq_square algebra_simps
        flip: abs_mult)
  then show ?thesis by simp
qed

subsection \<open>Sizes and rectangles\<close>

record QSize =
  sz_width :: int
  sz_height :: int

record QRectF =
  rx :: rat
  ry :: rat
  rw :: rat
  rh :: rat

definition rect_of_corners :: "QPointF \<Rightarrow> QPointF \<Rightarrow> QRectF" where
  "rect_of_corners p q = \<lparr>rx = px p, ry = py p, rw = px q - px p, rh = py q - py p\<rparr>"

definition rect_topLeft :: "QRectF \<Rightarrow> QPointF" where
  "rect_topLeft r = QPointF (rx r) (ry r)"

text \<open>
  \<^verbatim>\<open>QRectF::contains\<close>: inside or on the edge, whichever way the two corners
  are ordered; a rectangle with no extent in one direction contains no point.
\<close>

definition rect_contains :: "QRectF \<Rightarrow> QPointF \<Rightarrow> bool" where
  "rect_contains r p \<longleftrightarrow>
     rw r \<noteq> 0 \<and> rh r \<noteq> 0 \<and>
     min (rx r) (rx r + rw r) \<le> px p \<and> px p \<le> max (rx r) (rx r + rw r) \<and>
     min (ry r) (ry r + rh r) \<le> py p \<and> py p \<le> max (ry r) (ry r + rh r)"

subsection \<open>Colours\<close>

datatype QColor = QColor (color_valid: bool) (red: int) (green: int) (blue: int) (alpha: int)

text \<open>The default-constructed colour is invalid and black.\<close>

definition QColor_default :: QColor where
  "QColor_default = QColor False 0 0 0 255"

text \<open>\<^verbatim>\<open>QColor(int r, int g, int b, int a)\<close> is invalid if a component is outside 0..255.\<close>

definition QColor_rgba :: "int \<Rightarrow> int \<Rightarrow> int \<Rightarrow> int \<Rightarrow> QColor" where
  "QColor_rgba r g b a =
     (if r \<in> {0..255} \<and> g \<in> {0..255} \<and> b \<in> {0..255} \<and> a \<in> {0..255}
      then QColor True r g b a else QColor False 0 0 0 255)"

definition QColor_rgb :: "int \<Rightarrow> int \<Rightarrow> int \<Rightarrow> QColor" where
  "QColor_rgb r g b = QColor_rgba r g b 255"

definition color_white :: QColor where
  "color_white = QColor True 255 255 255 255"

subsection \<open>Images\<close>

text \<open>
  A non-null image: its size in pixels and its buffer. In \<^verbatim>\<open>Format_RGB888\<close>
  a pixel takes three bytes and every scan line is padded to a multiple of four bytes.
  A null image is \<^verbatim>\<open>None\<close> wherever the sources can hold one.
\<close>

record QImage =
  img_w :: nat
  img_h :: nat
  img_rgb888 :: bool
  img_bits :: "8 word list"

definition bytesPerLine :: "QImage \<Rightarrow> nat" where
  "bytesPerLine i = (3 * img_w i + 3) div 4 * 4"

definition wf_rgb888 :: "QImage \<Rightarrow> bool" where
  "wf_rgb888 i \<longleftrightarrow> img_rgb888 i \<and> 0 < img_w i \<and> 0 < img_h i \<and>
     length (img_bits i) = bytesPerLine i * img_h i"

definition img_size :: "QImage \<Rightarrow> QSize" where
  "img_size i = \<lparr>sz_width = int (img_w i), sz_height = int (img_h i)\<rparr>"

end
