(* ===== verification/Polygon_Points.thy ===== *)
theory Polygon_Points
  imports Qt_Values
begin

text \<open>
  \<^verbatim>\<open>YShape::YPolygonPoints\<close> of \<^verbatim>\<open>src/annotations/shape.h\<close> and
  \<^verbatim>\<open>shape.cc\<close>: the vertex buffer of a shape, kept twice, with the origin in the
  image centre (\<^verbatim>\<open>m_oriPoints\<close>) and in its top left corner
  (\<^verbatim>\<open>m_imgPoints\<close>). The interface the shapes rely on is the locale
  \<^verbatim>\<open>vertex_buffer\<close>, an abstract list of points with a second view of it;
  the buffer of the sources is shown to implement it.
\<close>

record YPolygonPoints =
  m_imgPoints :: "QPointF list"
  m_oriPoints :: "QPointF list"
  pts_offset :: QPointF

definition YPolygonPoints_empty :: YPolygonPoints where
  "YPolygonPoints_empty = \<lparr>m_imgPoints = [], m_oriPoints = [], pts_offset = QPointF 0 0\<rparr>"

definition YPolygonPoints_setImgWH :: "QSize \<Rightarrow> YPolygonPoints \<Rightarrow> YPolygonPoints" where
  "YPolygonPoints_setImgWH s p =
     p\<lparr>pts_offset := QPointF (of_int (sz_width s) / 2) (of_int (sz_height s) / 2)\<rparr>"

definition YPolygonPoints_append :: "QPointF \<Rightarrow> YPolygonPoints \<Rightarrow> YPolygonPoints" where
  "YPolygonPoints_append point p =
     p\<lparr>m_oriPoints := m_oriPoints p @ [point],
       m_imgPoints := m_imgPoints p @ [point + pts_offset p]\<rparr>"

definition YPolygonPoints_getImgPoints :: "YPolygonPoints \<Rightarrow> QPointF list" where
  "YPolygonPoints_getImgPoints p = m_imgPoints p"

definition YPolygonPoints_getOriPoints :: "YPolygonPoints \<Rightarrow> QPointF list" where
  "YPolygonPoints_getOriPoints p = m_oriPoints p"

definition YPolygonPoints_size :: "YPolygonPoints \<Rightarrow> int" where
  "YPolygonPoints_size p = int (length (m_oriPoints p))"

text \<open>
  The guards of \<^verbatim>\<open>at\<close>, \<^verbatim>\<open>replace\<close> and \<^verbatim>\<open>insert\<close>
  compare with \<^verbatim>\<open>size() < idx\<close>, so they let \<^verbatim>\<open>idx = size()\<close> and
  negative indices through to \<^verbatim>\<open>QVector\<close>.
\<close>

definition YPolygonPoints_at :: "YPolygonPoints \<Rightarrow> int \<Rightarrow> QPointF result" where
  "YPolygonPoints_at p idx =
     (if YPolygonPoints_size p < idx then Inl (ShapeException ''at: idx out of range'')
      else vec_at (m_oriPoints p) idx)"

definition YPolygonPoints_replace :: "QPointF \<Rightarrow> int \<Rightarrow> YPolygonPoints \<Rightarrow> YPolygonPoints result" where
  "YPolygonPoints_replace point pos p =
     (if YPolygonPoints_size p < pos then Inl (ShapeException ''replace: idx out of range'')
      else bind_result (vec_replace (m_oriPoints p) pos point) (\<lambda>ori.
           bind_result (vec_replace (m_imgPoints p) pos (point + pts_offset p)) (\<lambda>img.
           Inr (p\<lparr>m_oriPoints := ori, m_imgPoints := img\<rparr>))))"

definition YPolygonPoints_insert :: "QPointF \<Rightarrow> int \<Rightarrow> YPolygonPoints \<Rightarrow> YPolygonPoints result" where
  "YPolygonPoints_insert point pos p =
     (if YPolygonPoints_size p < pos then Inl (ShapeException ''insert: idx out of range'')
      else bind_result (vec_insert (m_oriPoints p) pos point) (\<lambda>ori.
           bind_result (vec_insert (m_imgPoints p) pos (point + pts_offset p)) (\<lambda>img.
           Inr (p\<lparr>m_oriPoints := ori, m_imgPoints := img\<rparr>))))"

definition YPolygonPoints_erase :: "int \<Rightarrow> YPolygonPoints \<Rightarrow> YPolygonPoints result" where
  "YPolygonPoints_erase idx p =
     (if idx \<ge> YPolygonPoints_size p then Inl (ShapeException ''erase: idx out of range'')
      else bind_result (vec_erase (m_oriPoints p) idx) (\<lambda>ori.
           bind_result (vec_erase (m_imgPoints p) idx) (\<lambda>img.
           Inr (p\<lparr>m_oriPoints := ori, m_imgPoints := img\<rparr>))))"

text \<open>
  \<^verbatim>\<open>QPolygonF::containsPoint(point, Qt::WindingFill)\<close> belongs to Qt: it is the
  parameter \<^verbatim>\<open>containsPoint\<close> of the model.
\<close>

definition YPolygonPoints_containsPoint ::
    "(QPointF list \<Rightarrow> QPointF \<Rightarrow> bool) \<Rightarrow> YPolygonPoints \<Rightarrow> QPointF \<Rightarrow> bool" where
  "YPolygonPoints_containsPoint containsPoint p point = containsPoint (m_oriPoints p) point"

text \<open>The two views agree up to the offset.\<close>

definition views_agree :: "YPolygonPoints \<Rightarrow> bool" where
  "views_agree p \<longleftrightarrow> m_imgPoints p = map (\<lambda>q. q + pts_offset p) (m_oriPoints p)"

lemma views_agree_length: "views_agree p \<Longrightarrow> length (m_imgPoints p) = length (m_oriPoints p)"
  by (simp add: views_agree_def)

lemma views_agree_empty [simp]: "views_agree YPolygonPoints_empty"
  by (simp add: views_agree_def YPolygonPoints_empty_def)

lemma views_agree_setImgWH: "m_oriPoints p = [] \<Longrightarrow> views_agree p \<Longrightarrow>
    views_agree (YPolygonPoints_setImgWH s p)"
  by (simp add: views_agree_def YPolygonPoints_setImgWH_def)

lemma at_nat: "i < length (m_oriPoints p) \<Longrightarrow> YPolygonPoints_at p (int i) = Inr (m_oriPoints p ! i)"
  by (simp add: YPolygonPoints_at_def YPolygonPoints_size_def vec_simps)

lemma size_replace: "YPolygonPoints_replace q i p = Inr p' \<Longrightarrow> YPolygonPoints_size p' = YPolygonPoints_size p"
  by (auto simp: YPolygonPoints_replace_def YPolygonPoints_size_def vec_replace_def split: if_splits)

lemma replace_in_range:
  "views_agree p \<Longrightarrow> 0 \<le> pos \<Longrightarrow> pos < YPolygonPoints_size p \<Longrightarrow>
   YPolygonPoints_replace point pos p =
     Inr (p\<lparr>m_oriPoints := (m_oriPoints p)[nat pos := point],
            m_imgPoints := (m_imgPoints p)[nat pos := point + pts_offset p]\<rparr>)"
  by (simp add: YPolygonPoints_replace_def YPolygonPoints_size_def views_agree_length vec_simps)

lemma insert_in_range:
  "views_agree p \<Longrightarrow> 0 \<le> pos \<Longrightarrow> pos \<le> YPolygonPoints_size p \<Longrightarrow>
   YPolygonPoints_insert point pos p =
     Inr (p\<lparr>m_oriPoints := list_insert (nat pos) point (m_oriPoints p),
            m_imgPoints := list_insert (nat pos) (point + pts_offset p) (m_imgPoints p)\<rparr>)"
  by (simp add: YPolygonPoints_insert_def YPolygonPoints_size_def views_agree_length vec_simps)

lemma erase_in_range:
  "views_agree p \<Longrightarrow> 0 \<le> idx \<Longrightarrow> idx < YPolygonPoints_size p \<Longrightarrow>
   YPolygonPoints_erase idx p =
     Inr (p\<lparr>m_oriPoints := list_remove (nat idx) (m_oriPoints p),
            m_imgPoints := list_remove (nat idx) (m_imgPoints p)\<rparr>)"
  by (simp add: YPolygonPoints_erase_def YPolygonPoints_size_def views_agree_length vec_simps)

subsection \<open>The interface\<close>

text \<open>
  What the shapes rely on: a buffer denotes a list of points (\<^verbatim>\<open>view\<close>), the
  image view is that list shifted by an offset no vertex operation changes, and the operations
  in range act as the list operations of the same name.
\<close>

locale vertex_buffer =
  fixes inv :: "'b \<Rightarrow> bool"
    and view :: "'b \<Rightarrow> QPointF list"
    and img :: "'b \<Rightarrow> QPointF list"
    and shift :: "'b \<Rightarrow> QPointF"
    and app :: "QPointF \<Rightarrow> 'b \<Rightarrow> 'b"
    and repl :: "QPointF \<Rightarrow> int \<Rightarrow> 'b \<Rightarrow> 'b result"
    and ins :: "QPointF \<Rightarrow> int \<Rightarrow> 'b \<Rightarrow> 'b result"
    and del :: "int \<Rightarrow> 'b \<Rightarrow> 'b result"
  assumes img_view: "inv b \<Longrightarrow> img b = map (\<lambda>p. p + shift b) (view b)"
    and app_law: "inv b \<Longrightarrow> inv (app p b) \<and> view (app p b) = view b @ [p] \<and> shift (app p b) = shift b"
    and repl_law: "inv b \<Longrightarrow> 0 \<le> i \<Longrightarrow> i < int (length (view b)) \<Longrightarrow>
          \<exists>b'. repl p i b = Inr b' \<and> inv b' \<and> view b' = (view b)[nat i := p] \<and> shift b' = shift b"
    and ins_law: "inv b \<Longrightarrow> 0 \<le> i \<Longrightarrow> i \<le> int (length (view b)) \<Longrightarrow>
          \<exists>b'. ins p i b = Inr b' \<and> inv b' \<and> view b' = list_insert (nat i) p (view b) \<and> shift b' = shift b"
    and del_law: "inv b \<Longrightarrow> 0 \<le> i \<Longrightarrow> i < int (length (view b)) \<Longrightarrow>
          \<exists>b'. del i b = Inr b' \<and> inv b' \<and> view b' = list_remove (nat i) (view b) \<and> shift b' = shift b"
    and view_inj: "inv b \<Longrightarrow> inv b' \<Longrightarrow> view b = view b' \<Longrightarrow> shift b = shift b' \<Longrightarrow> b = b'"
begin

lemma del_app_last:
  assumes "inv b"
  shows "del (int (length (view b))) (app p b) = Inr b"
proof -
  have a: "inv (app p b)" "view (app p b) = view b @ [p]" "shift (app p b) = shift b"
    using app_law[OF assms] by auto
  then have "int (length (view b)) < int (length (view (app p b)))" by simp
  with a obtain b' where b': "del (int (length (view b))) (app p b) = Inr b'" "inv b'"
      "view b' = list_remove (length (view b)) (view (app p b))" "shift b' = shift (app p b)"
    using del_law[of "app p b" "int (length (view b))"] by auto
  with a have "b' = b" using view_inj[OF b'(2) assms] by simp
  with b' show ?thesis by simp
qed

lemma del_ins:
  assumes "inv b" "0 \<le> i" "i \<le> int (length (view b))"
  shows "bind_result (ins p i b) (del i) = Inr b"
proof -
  obtain c where c: "ins p i b = Inr c" "inv c" "view c = list_insert (nat i) p (view b)"
      "shift c = shift b"
    using ins_law[OF assms] by blast
  then have "i < int (length (view c))" using assms by simp
  then obtain d where d: "del i c = Inr d" "inv d" "view d = list_remove (nat i) (view c)"
      "shift d = shift c"
    using del_law[OF c(2) assms(2)] by blast
  have "view d = view b" using c d assms by (simp add: nat_le_iff)
  with c d assms have "d = b" by (metis view_inj)
  with c d show ?thesis by simp
qed

lemma repl_same:
  assumes "inv b" "0 \<le> i" "i < int (length (view b))"
  shows "repl (view b ! nat i) i b = Inr b"
proof -
  obtain c where c: "repl (view b ! nat i) i b = Inr c" "inv c"
      "view c = (view b)[nat i := view b ! nat i]" "shift c = shift b"
    using repl_law[OF assms] by blast
  then have "c = b" using view_inj[OF c(2) assms(1)] by simp
  with c show ?thesis by simp
qed

lemma img_length: "inv b \<Longrightarrow> length (img b) = length (view b)"
  by (simp add: img_view)

end

lemma app_agree: "views_agree b \<Longrightarrow> views_agree (YPolygonPoints_append p b)"
  by (simp add: views_agree_def YPolygonPoints_append_def)

interpretation ypts: vertex_buffer views_agree m_oriPoints m_imgPoints pts_offset
    YPolygonPoints_append YPolygonPoints_replace YPolygonPoints_insert YPolygonPoints_erase
proof (unfold_locales, goal_cases)
  case (1 b)
  then show ?case by (simp add: views_agree_def)
next
  case (2 b p)
  then show ?case by (simp add: app_agree) (simp add: YPolygonPoints_append_def)
next
  case (3 b i p)
  then show ?case
    by (simp add: replace_in_range YPolygonPoints_size_def views_agree_def map_update)
next
  case (4 b i p)
  then show ?case
    by (simp add: insert_in_range YPolygonPoints_size_def views_agree_def map_list_insert)
next
  case (5 b i)
  then show ?case
    by (simp add: erase_in_range YPolygonPoints_size_def views_agree_def map_list_remove)
next
  case (6 b b')
  then show ?case by (cases b; cases b') (simp add: views_agree_def)
qed

text \<open>
  C20. Whatever vertex operation succeeds on a buffer whose two views agree leaves a buffer whose
  two views agree: the image coordinates that are saved are always the edited coordinates plus
  the offset.
\<close>

theorem vertex_ops_keep_views_agreeing:
  assumes "views_agree b"
  shows "views_agree (YPolygonPoints_append p b) \<and>
    (YPolygonPoints_replace p i b = Inr c \<or> YPolygonPoints_insert p i b = Inr c \<or>
     YPolygonPoints_erase i b = Inr c \<longrightarrow> views_agree c)"
  using assms
  by (auto simp: YPolygonPoints_append_def YPolygonPoints_replace_def YPolygonPoints_insert_def
      YPolygonPoints_erase_def views_agree_def vec_replace_def vec_insert_def vec_erase_def
      map_update map_list_insert map_list_remove split: if_splits)

definition sample_points :: YPolygonPoints where
  "sample_points = YPolygonPoints_append (QPointF 1 2) (YPolygonPoints_append (QPointF 3 4)
     (YPolygonPoints_setImgWH \<lparr>sz_width = 640, sz_height = 512\<rparr> YPolygonPoints_empty))"

lemmas sample_points_eval = sample_points_def YPolygonPoints_append_def YPolygonPoints_setImgWH_def
  YPolygonPoints_empty_def YPolygonPoints_size_def QPointF_eq_iff

theorem vertex_ops_keep_views_agreeing_witness:
  "YPolygonPoints_erase 0 sample_points =
     Inr \<lparr>m_imgPoints = [QPointF 321 258], m_oriPoints = [QPointF 1 2], pts_offset = QPointF 320 256\<rparr> \<and>
   views_agree \<lparr>m_imgPoints = [QPointF 321 258], m_oriPoints = [QPointF 1 2], pts_offset = QPointF 320 256\<rparr>"
proof -
  have e: "YPolygonPoints_erase 0 sample_points =
     Inr \<lparr>m_imgPoints = [QPointF 321 258], m_oriPoints = [QPointF 1 2], pts_offset = QPointF 320 256\<rparr>"
    by (simp add: sample_points_eval YPolygonPoints_erase_def vec_erase_def list_remove_def)
  have "views_agree sample_points" by (simp add: views_agree_def sample_points_eval)
  from vertex_ops_keep_views_agreeing[OF this, of "QPointF 0 0" 0] e show ?thesis by simp
qed

text \<open>
  Appending a vertex and erasing the last one, and inserting a vertex and erasing it again,
  give back exactly the buffer there was, both views and the offset included.
\<close>

theorem vertex_round_trips:
  assumes "views_agree b"
  shows "YPolygonPoints_erase (YPolygonPoints_size b) (YPolygonPoints_append p b) = Inr b \<and>
    (0 \<le> i \<and> i \<le> YPolygonPoints_size b \<longrightarrow>
       bind_result (YPolygonPoints_insert p i b) (YPolygonPoints_erase i) = Inr b)"
  using ypts.del_app_last[OF assms] ypts.del_ins[OF assms]
  by (simp add: YPolygonPoints_size_def)

theorem vertex_round_trips_witness:
  "YPolygonPoints_erase 2 (YPolygonPoints_append (QPointF 7 7) sample_points) = Inr sample_points \<and>
   bind_result (YPolygonPoints_insert (QPointF 9 9) 1 sample_points) (YPolygonPoints_erase 1) =
     Inr sample_points"
proof -
  have "views_agree sample_points" "YPolygonPoints_size sample_points = 2"
    by (simp_all add: views_agree_def sample_points_eval)
  with vertex_round_trips[of sample_points "QPointF 7 7" 0]
    vertex_round_trips[of sample_points "QPointF 9 9" 1]
  show ?thesis by simp
qed

text \<open>
  What \<^verbatim>\<open>YPolygonPoints::at\<close> does on every index: the guard throws only
  beyond \<^verbatim>\<open>size()\<close>, so \<^verbatim>\<open>at(size())\<close> and negative indices
  read outside the vector.
\<close>

theorem at_guard_is_off_by_one:
  "YPolygonPoints_at p idx =
     (if idx > YPolygonPoints_size p then Inl (ShapeException ''at: idx out of range'')
      else if idx = YPolygonPoints_size p \<or> idx < 0 then Inl (Undefined ''QVector::at'')
      else Inr (YPolygonPoints_getOriPoints p ! nat idx))"
  by (simp add: YPolygonPoints_at_def YPolygonPoints_size_def vec_at_def
      YPolygonPoints_getOriPoints_def)

end
