(* ===== verification/Geometry.thy ===== *)
theory Geometry
  imports Qt_Values
begin

text \<open>
  The free geometric functions of \<^verbatim>\<open>src/annotations/shape.cc\<close>
  (\<^verbatim>\<open>GetFootOfPerpendicular\<close>, \<^verbatim>\<open>Circle\<close>,
  \<^verbatim>\<open>judge\<close>) and of \<^verbatim>\<open>src/annotations/ycurve.cpp\<close>
  (\<^verbatim>\<open>deCasteljau\<close>). \<^verbatim>\<open>judge\<close> is shown equivalent to a
  statement about the segment and the disc, and the in-place De Casteljau loops to the
  Bernstein form of the Bezier curve.
\<close>

subsection \<open>Foot of the perpendicular\<close>

definition GetFootOfPerpendicular :: "QPointF \<Rightarrow> QPointF \<Rightarrow> QPointF \<Rightarrow> QPointF" where
  "GetFootOfPerpendicular pt begin end =
     (let dx = px begin - px end; dy = py begin - py end
      in if \<bar>dx\<bar> < 1 \<and> \<bar>dy\<bar> < 1 then begin
         else let u = (px pt - px begin) * (px begin - px end) + (py pt - py begin) * (py begin - py end);
                  u' = u / (dx * dx + dy * dy);
                  x = px begin + u' * dx;
                  y = py begin + u' * dy
              in QPointF x y)"

lemma GetFoot_regular:
  assumes "\<not> (\<bar>px b - px e\<bar> < 1 \<and> \<bar>py b - py e\<bar> < 1)"
  shows "GetFootOfPerpendicular pt b e = b + scaleP (dot (pt - b) (b - e) / norm2 (b - e)) (b - e)"
  using assms by (auto simp: GetFootOfPerpendicular_def Let_def QPointF_eq_iff dot_def norm2_def)

lemma regular_distinct: "\<not> (\<bar>px b - px e\<bar> < 1 \<and> \<bar>py b - py e\<bar> < 1) \<Longrightarrow> norm2 (b - e) \<noteq> 0"
  by (auto simp: norm2_eq_0)

lemma dot_add: "dot (p + q) r = dot p r + dot q r" "dot r (p + q) = dot r p + dot r q"
  and dot_diff: "dot (p - q) r = dot p r - dot q r" "dot r (p - q) = dot r p - dot r q"
  and dot_scale: "dot (scaleP c p) r = c * dot p r" "dot r (scaleP c p) = c * dot r p"
  by (simp_all add: dot_def algebra_simps)

lemmas dot_simps = dot_add dot_diff dot_scale

lemma dot_commute: "dot p q = dot q p"
  by (simp add: dot_def)

lemma norm2_scale: "norm2 (scaleP c p) = c\<^sup>2 * norm2 p"
  by (simp add: norm2_def dot_scale power2_eq_square)

lemma norm2_add_orthogonal: "dot p q = 0 \<Longrightarrow> norm2 (p + q) = norm2 p + norm2 q"
  by (simp add: norm2_def dot_add dot_commute)

lemma dot_residual: "dot (p - scaleP u d) d = dot p d - u * norm2 d"
  by (simp add: dot_diff dot_scale norm2_def)

lemma foot_orthogonal:
  assumes "\<not> (\<bar>px b - px e\<bar> < 1 \<and> \<bar>py b - py e\<bar> < 1)"
  shows "dot (pt - GetFootOfPerpendicular pt b e) (b - e) = 0"
proof -
  let ?d = "b - e" and ?u = "dot (pt - b) (b - e) / norm2 (b - e)"
  have "pt - GetFootOfPerpendicular pt b e = (pt - b) - scaleP ?u ?d"
    using GetFoot_regular[OF assms] by simp
  then have "dot (pt - GetFootOfPerpendicular pt b e) ?d = dot (pt - b) ?d - ?u * norm2 ?d"
    by (simp only: dot_residual)
  with regular_distinct[OF assms] show ?thesis by simp
qed

text \<open>
  For a segment longer than one pixel in some direction, the foot of the perpendicular lies
  on the line through the two ends, the vector to it is orthogonal to the segment, and no point
  of the line is nearer to the given point.
\<close>

theorem foot_of_perpendicular_is_nearest:
  assumes "\<not> (\<bar>px b - px e\<bar> < 1 \<and> \<bar>py b - py e\<bar> < 1)"
  shows "(\<exists>s. GetFootOfPerpendicular pt b e = b + scaleP s (b - e)) \<and>
         dot (pt - GetFootOfPerpendicular pt b e) (b - e) = 0 \<and>
         norm2 (pt - GetFootOfPerpendicular pt b e) \<le> norm2 (pt - (b + scaleP s (b - e)))"
proof -
  let ?f = "GetFootOfPerpendicular pt b e" and ?u = "dot (pt - b) (b - e) / norm2 (b - e)"
  have f: "?f = b + scaleP ?u (b - e)" by (rule GetFoot_regular[OF assms])
  have orth: "dot (pt - ?f) (b - e) = 0" by (rule foot_orthogonal[OF assms])
  have split: "pt - (b + scaleP s (b - e)) = (pt - ?f) + scaleP (?u - s) (b - e)"
    by (simp add: f QPointF_eq_iff algebra_simps)
  have "norm2 (pt - (b + scaleP s (b - e))) = norm2 (pt - ?f) + (?u - s)\<^sup>2 * norm2 (b - e)"
    unfolding split using orth by (simp add: norm2_add_orthogonal dot_scale norm2_scale)
  then have "norm2 (pt - ?f) \<le> norm2 (pt - (b + scaleP s (b - e)))" by simp
  with f orth show ?thesis by blast
qed

theorem foot_of_perpendicular_is_nearest_witness:
  "norm2 (QPointF 3 4 - GetFootOfPerpendicular (QPointF 3 4) (QPointF 0 0) (QPointF 10 0))
     \<le> norm2 (QPointF 3 4 - (QPointF 0 0 + scaleP (- 1 / 2) (QPointF 0 0 - QPointF 10 0))) \<and>
   GetFootOfPerpendicular (QPointF 3 4) (QPointF 0 0) (QPointF 10 0) = QPointF 3 0"
  using foot_of_perpendicular_is_nearest[of "QPointF 0 0" "QPointF 10 0" "QPointF 3 4" "- 1 / 2"]
  by (simp add: GetFootOfPerpendicular_def)

subsection \<open>Segment against circle\<close>

record Circle =
  c_r :: rat
  c_x :: rat
  c_y :: rat

definition Circle_of :: "rat \<Rightarrow> QPointF \<Rightarrow> Circle" where
  "Circle_of r pt = \<lparr>c_r = r, c_x = px pt, c_y = py pt\<rparr>"

definition judge :: "QPointF \<Rightarrow> QPointF \<Rightarrow> Circle \<Rightarrow> bool" where
  "judge p1 p2 c =
     (let flag1 = (px p1 - c_x c) * (px p1 - c_x c) + (py p1 - c_y c) * (py p1 - c_y c) \<le> c_r c * c_r c;
          flag2 = (px p2 - c_x c) * (px p2 - c_x c) + (py p2 - c_y c) * (py p2 - c_y c) \<le> c_r c * c_r c
      in if flag1 \<and> flag2 then False
         else if flag1 \<or> flag2 then False
         else let A = py p1 - py p2;
                  B = px p2 - px p1;
                  C = px p1 * py p2 - px p2 * py p1;
                  dist = A * c_x c + B * c_y c + C;
                  dist1 = dist * dist;
                  dist2 = (A * A + B * B) * c_r c * c_r c
              in if dist1 > dist2 then False
                 else let angle1 = (c_x c - px p1) * (px p2 - px p1) + (c_y c - py p1) * (py p2 - py p1);
                          angle2 = (c_x c - px p2) * (px p1 - px p2) + (c_y c - py p2) * (py p1 - py p2)
                      in (if angle1 > 0 \<and> angle2 > 0 then True else False))"

definition cross :: "QPointF \<Rightarrow> QPointF \<Rightarrow> rat" where
  "cross p q = px p * py q - py p * px q"

lemma judge_vector_form:
  fixes p1 p2 pt :: QPointF
  defines "d \<equiv> p2 - p1" and "e \<equiv> pt - p1"
  shows "judge p1 p2 (Circle_of r pt) \<longleftrightarrow>
     r * r < norm2 e \<and> r * r < norm2 (d - e) \<and>
     (cross d e)\<^sup>2 \<le> norm2 d * (r * r) \<and> 0 < dot e d \<and> dot e d < norm2 d"
proof -
  have 1: "(px p1 - px pt) * (px p1 - px pt) + (py p1 - py pt) * (py p1 - py pt) = norm2 e"
    and 2: "(px p2 - px pt) * (px p2 - px pt) + (py p2 - py pt) * (py p2 - py pt) = norm2 (d - e)"
    and 3: "(py p1 - py p2) * px pt + (px p2 - px p1) * py pt + (px p1 * py p2 - px p2 * py p1)
            = cross d e"
    and 4: "((py p1 - py p2) * (py p1 - py p2) + (px p2 - px p1) * (px p2 - px p1)) * r * r
            = norm2 d * (r * r)"
    and 5: "(px pt - px p1) * (px p2 - px p1) + (py pt - py p1) * (py p2 - py p1) = dot e d"
    and 6: "(px pt - px p2) * (px p1 - px p2) + (py pt - py p2) * (py p1 - py p2) = norm2 d - dot e d"
    unfolding d_def e_def by (simp_all add: norm2_def dot_def cross_def algebra_simps)
  show ?thesis
    unfolding judge_def Circle_of_def Let_def Circle.simps 1 2 3 4 5 6
    by (auto simp: power2_eq_square)
qed

lemma segment_distance:
  "norm2 d * norm2 (scaleP t d - e) = (t * norm2 d - dot e d)\<^sup>2 + (cross d e)\<^sup>2"
  by (simp add: norm2_def dot_def cross_def power2_eq_square algebra_simps)

lemma segment_parabola:
  "norm2 (scaleP t d - e) = t\<^sup>2 * norm2 d - 2 * t * dot e d + norm2 e"
  by (simp add: norm2_def dot_def power2_eq_square algebra_simps)

lemma disc_meets_segment_iff:
  assumes e: "R < norm2 e" and de: "R < norm2 (d - e)"
  shows "(cross d e)\<^sup>2 \<le> norm2 d * R \<and> 0 < dot e d \<and> dot e d < norm2 d \<longleftrightarrow>
         (\<exists>t. 0 < t \<and> t < 1 \<and> norm2 (scaleP t d - e) \<le> R)"
proof (intro iffI; (elim conjE exE)?)
  assume c: "(cross d e)\<^sup>2 \<le> norm2 d * R" and a1: "0 < dot e d" and a2: "dot e d < norm2 d"
  let ?t = "dot e d / norm2 d"
  have D: "0 < norm2 d" using a1 a2 by simp
  have "norm2 d * norm2 (scaleP ?t d - e) = (cross d e)\<^sup>2"
    unfolding segment_distance using D by simp
  with c have "norm2 d * norm2 (scaleP ?t d - e) \<le> norm2 d * R" by simp
  with D have "norm2 (scaleP ?t d - e) \<le> R" by simp
  moreover have "0 < ?t" "?t < 1" using a1 a2 D by simp_all
  ultimately show "\<exists>t. 0 < t \<and> t < 1 \<and> norm2 (scaleP t d - e) \<le> R" by blast
next
  fix t assume t: "0 < t" "t < 1" and f: "norm2 (scaleP t d - e) \<le> R"
  let ?D = "norm2 d" and ?k = "dot e d"
  have "(cross d e)\<^sup>2 \<le> ?D * norm2 (scaleP t d - e)"
    unfolding segment_distance by simp
  also have "\<dots> \<le> ?D * R" using f by (simp add: mult_left_mono)
  finally have c: "(cross d e)\<^sup>2 \<le> ?D * R" .
  have "t * (t * ?D - 2 * ?k) < 0"
    using f e by (simp add: segment_parabola power2_eq_square algebra_simps)
  then have "t * ?D < 2 * ?k" using t by (simp add: mult_less_0_iff)
  moreover have "0 \<le> t * ?D" using t by simp
  ultimately have a1: "0 < ?k" by linarith
  have "norm2 (d - e) = ?D - 2 * ?k + norm2 e"
    using segment_parabola[of 1 d e] by (simp add: scaleP_def)
  with f de have "0 < (1 - t) * (?D * (1 + t) - 2 * ?k)"
    by (simp add: segment_parabola power2_eq_square algebra_simps)
  then have b: "2 * ?k < ?D * (1 + t)" using t by (simp add: zero_less_mult_iff)
  then have "0 < ?D * (1 + t)" using a1 by linarith
  then have "0 < ?D" using t by (simp add: zero_less_mult_iff)
  then have "?D * (1 + t) < ?D * 2" using t by simp
  with b have a2: "?k < ?D" by linarith
  from c a1 a2 show "(cross d e)\<^sup>2 \<le> ?D * R \<and> 0 < ?k \<and> ?k < ?D" by blast
qed

lemma judge_inner_point:
  "judge p1 p2 (Circle_of r pt) \<longleftrightarrow>
     r * r < norm2 (p1 - pt) \<and> r * r < norm2 (p2 - pt) \<and>
     (\<exists>t. 0 < t \<and> t < 1 \<and> norm2 (p1 + scaleP t (p2 - p1) - pt) \<le> r * r)"
proof -
  have n: "norm2 (p1 - pt) = norm2 (pt - p1)" "norm2 (p2 - pt) = norm2 (p2 - p1 - (pt - p1))"
    by (simp_all add: norm2_def dot_def algebra_simps)
  have s: "p1 + scaleP t (p2 - p1) - pt = scaleP t (p2 - p1) - (pt - p1)" for t by simp
  show ?thesis
    unfolding judge_vector_form n s
    using disc_meets_segment_iff[of "r * r" "pt - p1" "p2 - p1"] by blast
qed

text \<open>
  C26. \<^verbatim>\<open>judge\<close> holds exactly when both ends of the segment are outside the disc
  of radius r around the point and some inner point of the segment is in it.
\<close>

theorem judge_iff_inner_point_in_disc:
  "judge p1 p2 (Circle_of r pt) \<longleftrightarrow>
     r * r < norm2 (p1 - pt) \<and> r * r < norm2 (p2 - pt) \<and>
     (\<exists>t. 0 < t \<and> t < 1 \<and> norm2 (p1 + scaleP t (p2 - p1) - pt) \<le> r * r)"
  by (rule judge_inner_point)

subsection \<open>De Casteljau's algorithm\<close>

text \<open>
  The two loops of \<^verbatim>\<open>deCasteljau\<close> on the local copy of the control points:
  pass k overwrites the first n - k points by the interpolation of neighbours.
\<close>

function dc_inner :: "rat \<Rightarrow> nat \<Rightarrow> nat \<Rightarrow> QPointF list \<Rightarrow> QPointF list" where
  "dc_inner t i m ps =
     (if i < m then dc_inner t (Suc i) m (ps[i := scaleP (1 - t) (ps ! i) + scaleP t (ps ! (i + 1))])
      else ps)"
  by pat_completeness auto
termination
  by (relation "measure (\<lambda>(t, i, m, ps). m - i)") auto

function dc_outer :: "rat \<Rightarrow> nat \<Rightarrow> nat \<Rightarrow> QPointF list \<Rightarrow> QPointF list" where
  "dc_outer t k n ps = (if k < n then dc_outer t (Suc k) n (dc_inner t 0 (n - k) ps) else ps)"
  by pat_completeness auto
termination
  by (relation "measure (\<lambda>(t, k, n, ps). n - k)") auto

declare dc_inner.simps [simp del] dc_outer.simps [simp del]

definition deCasteljau :: "QPointF list \<Rightarrow> rat \<Rightarrow> QPointF result" where
  "deCasteljau controlPoints t = vec_at (dc_outer t 1 (length controlPoints) controlPoints) 0"

lemma length_dc_inner [simp]: "length (dc_inner t i m ps) = length ps"
proof (induction t i m ps rule: dc_inner.induct)
  case (1 t i m ps)
  then show ?case by (subst dc_inner.simps) simp
qed

lemma length_dc_outer [simp]: "length (dc_outer t k n ps) = length ps"
proof (induction t k n ps rule: dc_outer.induct)
  case (1 t k n ps)
  then show ?case by (subst dc_outer.simps) simp
qed

lemma dc_inner_nth:
  "m < length ps \<Longrightarrow> j < length ps \<Longrightarrow>
   dc_inner t i m ps ! j =
     (if i \<le> j \<and> j < m then scaleP (1 - t) (ps ! j) + scaleP t (ps ! (j + 1)) else ps ! j)"
proof (induction t i m ps rule: dc_inner.induct)
  case (1 t i m ps)
  show ?case
  proof (cases "i < m")
    case True
    with 1 show ?thesis by (subst dc_inner.simps) (auto simp: nth_list_update)
  next
    case False
    then show ?thesis by (subst dc_inner.simps) auto
  qed
qed

text \<open>The Bernstein form, on one coordinate of the control points.\<close>

definition bernstein :: "rat \<Rightarrow> nat \<Rightarrow> (nat \<Rightarrow> rat) \<Rightarrow> nat \<Rightarrow> rat" where
  "bernstein t k f i = (\<Sum>j\<le>k. of_nat (k choose j) * t ^ j * (1 - t) ^ (k - j) * f (i + j))"

lemma bernstein_0 [simp]: "bernstein t 0 f i = f i"
  by (simp add: bernstein_def)

lemma bernstein_Suc:
  "bernstein t (Suc k) f i = (1 - t) * bernstein t k f i + t * bernstein t k f (Suc i)"
proof -
  let ?b = "\<lambda>n j. of_nat (n choose j) * t ^ j * (1 - t) ^ (n - j) :: rat"
  let ?u = "\<lambda>j. if j \<le> k then (1 - t) * (?b k j * f (i + j)) else 0"
  let ?v = "\<lambda>j. case j of 0 \<Rightarrow> 0 | Suc j' \<Rightarrow> t * (?b k j' * f (i + Suc j'))"
  have step: "?b (Suc k) j * f (i + j) = ?u j + ?v j" if "j \<le> Suc k" for j
  proof (cases j)
    case 0
    then show ?thesis by simp
  next
    case (Suc j')
    show ?thesis
    proof (cases "j \<le> k")
      case True
      then have "Suc k - j = Suc (k - j)" "k - j' = Suc (k - j)" using Suc by auto
      with True Suc show ?thesis by (simp add: algebra_simps)
    next
      case False
      with that Suc have "j' = k" by simp
      with Suc show ?thesis by simp
    qed
  qed
  have "bernstein t (Suc k) f i = (\<Sum>j\<le>Suc k. ?u j) + (\<Sum>j\<le>Suc k. ?v j)"
    unfolding bernstein_def sum.distrib[symmetric] using step by (intro sum.cong) auto
  also have "(\<Sum>j\<le>Suc k. ?u j) = (1 - t) * bernstein t k f i"
    by (simp add: bernstein_def sum_distrib_left)
  also have "(\<Sum>j\<le>Suc k. ?v j) = t * bernstein t k f (Suc i)"
    by (subst sum.atMost_Suc_shift) (simp add: bernstein_def sum_distrib_left)
  finally show ?thesis .
qed

definition dc_level :: "rat \<Rightarrow> QPointF list \<Rightarrow> nat \<Rightarrow> nat \<Rightarrow> QPointF" where
  "dc_level t ps k i =
     QPointF (bernstein t k (\<lambda>j. px (ps ! j)) i) (bernstein t k (\<lambda>j. py (ps ! j)) i)"

lemma dc_level_Suc:
  "dc_level t ps (Suc k) i = scaleP (1 - t) (dc_level t ps k i) + scaleP t (dc_level t ps k (Suc i))"
  by (simp add: dc_level_def bernstein_Suc QPointF_eq_iff)

lemma dc_outer_levels:
  "length qs = n \<Longrightarrow> 1 \<le> k \<Longrightarrow> k \<le> n \<Longrightarrow>
   (\<And>j. j + k \<le> n \<Longrightarrow> qs ! j = dc_level t ps (k - 1) j) \<Longrightarrow>
   dc_outer t k n qs ! 0 = dc_level t ps (n - 1) 0"
proof (induction t k n qs rule: dc_outer.induct)
  case (1 t k n qs)
  show ?case
  proof (cases "k < n")
    case False
    with "1.prems" have "k = n" by simp
    with "1.prems" show ?thesis by (subst dc_outer.simps) simp
  next
    case True
    have "dc_inner t 0 (n - k) qs ! j = dc_level t ps (Suc k - 1) j" if "j + Suc k \<le> n" for j
    proof -
      have "k = Suc (k - 1)" and "j < n - k" using "1.prems" that by simp_all
      then show ?thesis
        using that "1.prems" dc_level_Suc[of t ps "k - 1" j]
        by (simp add: dc_inner_nth)
    qed
    then have "dc_outer t (Suc k) n (dc_inner t 0 (n - k) qs) ! 0 = dc_level t ps (n - 1) 0"
      using "1.IH"[OF True] "1.prems" True by simp
    with True show ?thesis by (subst dc_outer.simps) simp
  qed
qed

lemma deCasteljau_level:
  assumes "ps \<noteq> []"
  shows "deCasteljau ps t = Inr (dc_level t ps (length ps - 1) 0)"
proof -
  have "dc_outer t 1 (length ps) ps ! 0 = dc_level t ps (length ps - 1) 0"
    using assms by (intro dc_outer_levels) (auto simp: dc_level_def Suc_le_eq)
  with assms show ?thesis by (simp add: deCasteljau_def vec_at_def)
qed

text \<open>
  C25. On a non-empty vector of control points the in-place loops compute the point of the Bezier
  curve in Bernstein form; on an empty one the access to the first point is undefined.
\<close>

theorem deCasteljau_bernstein:
  "deCasteljau ps t =
     (if ps = [] then Inl (Undefined ''QVector::at'')
      else Inr (QPointF
        (\<Sum>j\<le>length ps - 1. of_nat ((length ps - 1) choose j) * t ^ j * (1 - t) ^ (length ps - 1 - j) * px (ps ! j))
        (\<Sum>j\<le>length ps - 1. of_nat ((length ps - 1) choose j) * t ^ j * (1 - t) ^ (length ps - 1 - j) * py (ps ! j))))"
proof (cases "ps = []")
  case True
  then show ?thesis by (simp add: deCasteljau_def dc_outer.simps vec_at_def)
next
  case False
  then show ?thesis by (simp add: deCasteljau_level dc_level_def bernstein_def)
qed

lemma bernstein_bounds:
  assumes "0 \<le> t" "t \<le> 1" "\<And>j. j \<le> k \<Longrightarrow> a \<le> f (i + j) \<and> f (i + j) \<le> b"
  shows "a \<le> bernstein t k f i \<and> bernstein t k f i \<le> b"
  using assms(3)
proof (induction k arbitrary: i)
  case 0
  then show ?case by simp
next
  case (Suc k)
  have "a \<le> bernstein t k f i \<and> bernstein t k f i \<le> b" by (rule Suc.IH) (simp add: Suc.prems)
  moreover have "a \<le> bernstein t k f (Suc i) \<and> bernstein t k f (Suc i) \<le> b"
    by (rule Suc.IH) (use Suc.prems in \<open>metis Suc_le_mono add_Suc add_Suc_right\<close>)
  ultimately have lo: "(1 - t) * a + t * a \<le> (1 - t) * bernstein t k f i + t * bernstein t k f (Suc i)"
    and hi: "(1 - t) * bernstein t k f i + t * bernstein t k f (Suc i) \<le> (1 - t) * b + t * b"
    using assms(1,2) by (auto intro!: add_mono mult_left_mono)
  have "(1 - t) * a + t * a = a" "(1 - t) * b + t * b = b" by (simp_all add: algebra_simps)
  with lo hi show ?case by (simp add: bernstein_Suc)
qed

lemma bernstein_at_0: "bernstein 0 k f i = f i"
  by (induction k) (simp_all add: bernstein_Suc)

lemma bernstein_at_1: "bernstein 1 k f i = f (i + k)"
  by (induction k arbitrary: i) (simp_all add: bernstein_Suc)

text \<open>
  The curve starts in the first control point and ends in the last one, and for parameters
  between 0 and 1 (the ones \<^verbatim>\<open>yCurve::draw\<close> uses) it stays in every axis-parallel
  box that holds the control points.
\<close>

theorem deCasteljau_curve:
  assumes "ps \<noteq> []"
  shows "deCasteljau ps 0 = Inr (hd ps) \<and> deCasteljau ps 1 = Inr (last ps) \<and>
    (0 \<le> t \<and> t \<le> 1 \<and> (\<forall>p\<in>set ps. x0 \<le> px p \<and> px p \<le> x1 \<and> y0 \<le> py p \<and> py p \<le> y1) \<longrightarrow>
     (\<exists>q. deCasteljau ps t = Inr q \<and> x0 \<le> px q \<and> px q \<le> x1 \<and> y0 \<le> py q \<and> py q \<le> y1))"
proof (intro conjI impI)
  show "deCasteljau ps 0 = Inr (hd ps)"
    using assms by (simp add: deCasteljau_level dc_level_def bernstein_at_0 hd_conv_nth)
  show "deCasteljau ps 1 = Inr (last ps)"
    using assms by (simp add: deCasteljau_level dc_level_def bernstein_at_1 last_conv_nth)
  assume *: "0 \<le> t \<and> t \<le> 1 \<and> (\<forall>p\<in>set ps. x0 \<le> px p \<and> px p \<le> x1 \<and> y0 \<le> py p \<and> py p \<le> y1)"
  have in_box: "ps ! (0 + j) \<in> set ps" if "j \<le> length ps - 1" for j
    using assms that by (simp add: Suc_le_eq less_Suc_eq_le[symmetric])
  have "x0 \<le> bernstein t (length ps - 1) (\<lambda>j. px (ps ! j)) 0 \<and>
        bernstein t (length ps - 1) (\<lambda>j. px (ps ! j)) 0 \<le> x1"
    using * in_box by (intro bernstein_bounds) auto
  moreover have "y0 \<le> bernstein t (length ps - 1) (\<lambda>j. py (ps ! j)) 0 \<and>
        bernstein t (length ps - 1) (\<lambda>j. py (ps ! j)) 0 \<le> y1"
    using * in_box by (intro bernstein_bounds) auto
  ultimately show "\<exists>q. deCasteljau ps t = Inr q \<and> x0 \<le> px q \<and> px q \<le> x1 \<and> y0 \<le> py q \<and> py q \<le> y1"
    using assms by (simp add: deCasteljau_level dc_level_def)
qed

theorem deCasteljau_curve_witness:
  "deCasteljau [QPointF 0 0, QPointF 4 8] 1 = Inr (QPointF 4 8) \<and>
   (\<exists>q. deCasteljau [QPointF 0 0, QPointF 4 8] (1/2) = Inr q \<and>
        0 \<le> px q \<and> px q \<le> 4 \<and> 0 \<le> py q \<and> py q \<le> 8)"
  using deCasteljau_curve[of "[QPointF 0 0, QPointF 4 8]" "1/2" 0 4 0 8] by simp

end
