(* ===== verification/Qt_Map.thy ===== *)
theory Qt_Map
  imports Prelude "HOL-Library.Char_ord" "HOL-Library.List_Lexorder"
begin

text \<open>
  \<^verbatim>\<open>QMap\<close>: a map that is iterated in the order of its keys. It is an association
  list with strictly increasing keys. The interface a client relies on is the locale
  \<^verbatim>\<open>key_ordered_map\<close>.
\<close>

type_synonym ('k, 'v) qmap = "('k \<times> 'v) list"

definition qmap_wf :: "('k::linorder, 'v) qmap \<Rightarrow> bool" where
  "qmap_wf m \<longleftrightarrow> sorted (map fst m) \<and> distinct (map fst m)"

definition qmap_find :: "('k, 'v) qmap \<Rightarrow> 'k \<Rightarrow> 'v option" where
  "qmap_find m k = map_of m k"

fun qmap_insert :: "'k::linorder \<Rightarrow> 'v \<Rightarrow> ('k, 'v) qmap \<Rightarrow> ('k, 'v) qmap" where
  "qmap_insert k v [] = [(k, v)]"
| "qmap_insert k v ((k', v') # m) =
     (if k < k' then (k, v) # (k', v') # m
      else if k = k' then (k, v) # m
      else (k', v') # qmap_insert k v m)"

definition qmap_remove :: "'k \<Rightarrow> ('k, 'v) qmap \<Rightarrow> ('k, 'v) qmap" where
  "qmap_remove k m = filter (\<lambda>kv. fst kv \<noteq> k) m"

definition qmap_values :: "('k, 'v) qmap \<Rightarrow> 'v list" where
  "qmap_values m = map snd m"

lemma qmap_insert_keys: "fst ` set (qmap_insert k v m) = insert k (fst ` set m)"
  by (induction k v m rule: qmap_insert.induct) (simp_all add: insert_commute)

lemma qmap_wf_Cons: "qmap_wf (kv # m) \<longleftrightarrow> (\<forall>x\<in>fst ` set m. fst kv < x) \<and> qmap_wf m"
  by (auto simp: qmap_wf_def less_le)

lemma qmap_wf_Nil [simp]: "qmap_wf []"
  by (simp add: qmap_wf_def)

lemma qmap_wf_insert: "qmap_wf m \<Longrightarrow> qmap_wf (qmap_insert k v m)"
proof (induction k v m rule: qmap_insert.induct)
  case (2 k v k' v' m)
  consider "k < k'" | "k = k'" | "k' < k" by (rule linorder_cases)
  then show ?case
  proof cases
    case 1
    with "2.prems" have "\<forall>x\<in>fst ` set m. k < x"
      using less_trans[OF 1] by (auto simp: qmap_wf_Cons)
    with 1 "2.prems" show ?thesis by (simp add: qmap_wf_Cons)
  next
    case 2
    with "2.prems" show ?thesis by (auto simp: qmap_wf_Cons)
  next
    case 3
    then have "\<not> k < k'" "k \<noteq> k'" by auto
    with 2 3 show ?thesis by (simp add: qmap_wf_Cons qmap_insert_keys)
  qed
qed (simp add: qmap_wf_def)

lemma qmap_wf_remove: "qmap_wf m \<Longrightarrow> qmap_wf (qmap_remove k m)"
  by (induction m) (auto simp: qmap_remove_def qmap_wf_Cons)

lemma qmap_find_insert_at:
  "qmap_find (qmap_insert k v m) x = (if x = k then Some v else qmap_find m x)"
  by (induction k v m rule: qmap_insert.induct) (auto simp: qmap_find_def)

lemma qmap_find_insert: "qmap_find (qmap_insert k v m) = (qmap_find m)(k \<mapsto> v)"
  by (rule ext) (simp add: qmap_find_insert_at)

lemma qmap_find_remove: "qmap_find (qmap_remove k m) = (qmap_find m)(k := None)"
  by (induction m) (auto simp: qmap_find_def qmap_remove_def fun_eq_iff)

lemma qmap_find_Nil [simp]: "qmap_find [] k = None"
  by (simp add: qmap_find_def)

lemma qmap_find_SomeD: "qmap_find m k = Some v \<Longrightarrow> (k, v) \<in> set m"
  by (simp add: qmap_find_def map_of_SomeD)

lemma qmap_find_mem: "qmap_wf m \<Longrightarrow> (k, v) \<in> set m \<Longrightarrow> qmap_find m k = Some v"
  by (simp add: qmap_find_def qmap_wf_def)

lemma qmap_insert_last: "(\<forall>x\<in>fst ` set m. x < k) \<Longrightarrow> qmap_insert k v m = m @ [(k, v)]"
  by (induction m) auto

text \<open>Two well-formed maps with the same lookups are the same map.\<close>

lemma qmap_eqI:
  assumes "qmap_wf m" "qmap_wf m'" "qmap_find m = qmap_find m'"
  shows "m = m'"
proof -
  have "set m = set m'"
    using assms by (auto dest: qmap_find_mem qmap_find_SomeD) (metis qmap_find_mem qmap_find_SomeD)+
  moreover have "distinct m" "distinct m'" "sorted (map fst m)" "sorted (map fst m')"
    "inj_on fst (set m)"
    using assms by (auto simp: qmap_wf_def distinct_map)
  ultimately have "map fst m = map fst m'"
    using assms by (intro sorted_distinct_set_unique) (auto simp: qmap_wf_def)
  with \<open>set m = set m'\<close> \<open>inj_on fst (set m)\<close> show ?thesis
    by (intro map_inj_on[of fst m m']) auto
qed

locale key_ordered_map =
  fixes wf :: "'m \<Rightarrow> bool"
    and empty :: 'm
    and find :: "'m \<Rightarrow> 'k \<Rightarrow> 'v option"
    and ins :: "'k \<Rightarrow> 'v \<Rightarrow> 'm \<Rightarrow> 'm"
    and rem :: "'k \<Rightarrow> 'm \<Rightarrow> 'm"
  assumes wf_empty: "wf empty" and find_empty: "find empty k = None"
    and wf_ins: "wf m \<Longrightarrow> wf (ins k v m)" and find_ins: "wf m \<Longrightarrow> find (ins k v m) = (find m)(k \<mapsto> v)"
    and wf_rem: "wf m \<Longrightarrow> wf (rem k m)" and find_rem: "wf m \<Longrightarrow> find (rem k m) = (find m)(k := None)"
    and extensional: "wf m \<Longrightarrow> wf m' \<Longrightarrow> find m = find m' \<Longrightarrow> m = m'"
begin

lemma ins_twice: "wf m \<Longrightarrow> ins k v (ins k v' m) = ins k v m"
  by (rule extensional) (auto simp: wf_ins find_ins)

lemma ins_commute: "wf m \<Longrightarrow> k \<noteq> k' \<Longrightarrow> ins k v (ins k' v' m) = ins k' v' (ins k v m)"
  by (rule extensional) (auto simp: wf_ins find_ins fun_upd_twist)

lemma rem_ins_new: "wf m \<Longrightarrow> find m k = None \<Longrightarrow> rem k (ins k v m) = m"
  by (rule extensional) (auto simp: wf_ins wf_rem find_ins find_rem)

lemma ins_same: "wf m \<Longrightarrow> find m k = Some v \<Longrightarrow> ins k v m = m"
  by (rule extensional) (auto simp: wf_ins find_ins)

end

interpretation qm: key_ordered_map qmap_wf "[]" qmap_find qmap_insert qmap_remove
  by unfold_locales (auto intro: qmap_wf_insert qmap_wf_remove qmap_eqI
      simp: qmap_find_insert qmap_find_remove)

end
