(* ===== verification/Labels.thy ===== *)
theory Labels
  imports Qt_Values Qt_Map
begin

text \<open>
  \<^verbatim>\<open>LabelProperty\<close> and \<^verbatim>\<open>LabelManager\<close> of
  \<^verbatim>\<open>src/controllers/labelmanager.h\<close> and \<^verbatim>\<open>labelmanager.cpp\<close>.
  A Qt signal the manager emits is an element of the list an operation returns beside the new
  state. JSON values are Qt's (\<^verbatim>\<open>QJsonValue\<close>).
\<close>

subsection \<open>Qt's JSON values\<close>

datatype QJsonValue =
    JUndefined
  | JNull
  | JBool bool
  | JDouble rat
  | JString string
  | JArray "QJsonValue list"
  | JObject "(string \<times> QJsonValue) list"

type_synonym QJsonObject = "(string \<times> QJsonValue) list"

definition obj_contains :: "QJsonObject \<Rightarrow> string \<Rightarrow> bool" where
  "obj_contains j k = (map_of j k \<noteq> None)"

definition obj_value :: "QJsonObject \<Rightarrow> string \<Rightarrow> QJsonValue" where
  "obj_value j k = (case map_of j k of None \<Rightarrow> JUndefined | Some v \<Rightarrow> v)"

text \<open>\<^verbatim>\<open>QJsonArray::at\<close> out of range is the undefined value.\<close>

definition arr_at :: "QJsonValue list \<Rightarrow> nat \<Rightarrow> QJsonValue" where
  "arr_at a i = (if i < length a then a ! i else JUndefined)"

fun toDouble :: "QJsonValue \<Rightarrow> rat" where
  "toDouble (JDouble d) = d"
| "toDouble _ = 0"

subsection \<open>LabelProperty\<close>

record LabelProperty =
  lp_label :: string
  lp_color :: QColor
  lp_visible :: bool
  lp_id :: int
  lp_groupId :: int
  lp_description :: string

definition LabelProperty_default :: LabelProperty where
  "LabelProperty_default =
     \<lparr>lp_label = [], lp_color = QColor_default, lp_visible = True, lp_id = -1,
      lp_groupId = 0, lp_description = ''description''\<rparr>"

definition LabelProperty_new :: "string \<Rightarrow> QColor \<Rightarrow> bool \<Rightarrow> int \<Rightarrow> LabelProperty" where
  "LabelProperty_new label color visible i =
     \<lparr>lp_label = label, lp_color = color, lp_visible = visible, lp_id = i,
      lp_groupId = 0, lp_description = ''description''\<rparr>"

text \<open>The assignment operator copies four of the six fields.\<close>

definition LabelProperty_assign :: "LabelProperty \<Rightarrow> LabelProperty \<Rightarrow> LabelProperty" where
  "LabelProperty_assign this label =
     this\<lparr>lp_color := lp_color label, lp_id := lp_id label, lp_label := lp_label label,
          lp_visible := lp_visible label\<rparr>"

definition LabelProperty_setProperty ::
    "string \<Rightarrow> QColor \<Rightarrow> bool \<Rightarrow> int \<Rightarrow> LabelProperty \<Rightarrow> LabelProperty" where
  "LabelProperty_setProperty label color visible i this =
     this\<lparr>lp_label := label, lp_color := color, lp_visible := visible, lp_id := i\<rparr>"

definition LabelProperty_toJsonObject :: "LabelProperty \<Rightarrow> QJsonObject" where
  "LabelProperty_toJsonObject p =
     (let colorJson = [JDouble (of_int (red (lp_color p))), JDouble (of_int (green (lp_color p))),
                       JDouble (of_int (blue (lp_color p)))]
      in [(''label'', JString (lp_label p)),
          (''id'', JDouble (of_int (lp_id p))),
          (''color'', JArray colorJson),
          (''visible'', JBool (lp_visible p))])"

definition LabelProperty_fromJsonObject :: "QJsonObject \<Rightarrow> LabelProperty \<Rightarrow> LabelProperty result" where
  "LabelProperty_fromJsonObject json p0 =
     (let p1 = (if obj_contains json ''label'' then
                  (case obj_value json ''label'' of JString s \<Rightarrow> p0\<lparr>lp_label := s\<rparr> | _ \<Rightarrow> p0)
                else p0)
      in bind_result
           (if obj_contains json ''color'' then
              (case obj_value json ''color'' of
                 JArray a \<Rightarrow>
                   bind_result (double_to_int (toDouble (arr_at a 0))) (\<lambda>r.
                   bind_result (double_to_int (toDouble (arr_at a 1))) (\<lambda>g.
                   bind_result (double_to_int (toDouble (arr_at a 2))) (\<lambda>b.
                   Inr (p1\<lparr>lp_color := QColor_rgb r g b\<rparr>))))
               | _ \<Rightarrow> Inr p1)
            else Inr p1) (\<lambda>p2.
         let p3 = (if obj_contains json ''visible'' then
                     (case obj_value json ''visible'' of JBool b \<Rightarrow> p2\<lparr>lp_visible := b\<rparr> | _ \<Rightarrow> p2)
                   else p2)
         in if obj_contains json ''id'' then
              (case obj_value json ''id'' of
                 JDouble d \<Rightarrow> bind_result (double_to_int d) (\<lambda>i. Inr (p3\<lparr>lp_id := i\<rparr>))
               | _ \<Rightarrow> Inr p3)
            else Inr p3))"

subsection \<open>LabelManager\<close>

record LabelManager =
  labels :: "(string, LabelProperty) qmap"
  currentMaxId :: int

datatype lm_signal =
    LabelChanged
  | LabelRemoved string
  | LabelAdded string QColor bool int
  | VisibelChanged string bool
  | ColorChanged string QColor
  | AllCleared

definition LabelManager_new :: LabelManager where
  "LabelManager_new = \<lparr>labels = [], currentMaxId = 0\<rparr>"

definition LabelManager_checkLabel :: "string \<Rightarrow> LabelManager \<Rightarrow> unit result" where
  "LabelManager_checkLabel label m =
     (if qmap_find (labels m) label = None
      then Inl (ThrownQString (''can not find label '' @ label @ '' in label manager'')) else Inr ())"

definition LabelManager_hasLabel :: "string \<Rightarrow> LabelManager \<Rightarrow> bool" where
  "LabelManager_hasLabel label m = (qmap_find (labels m) label \<noteq> None)"

text \<open>The constant subscript of a \<^verbatim>\<open>QMap\<close> gives a default value for a missing key.\<close>

definition LabelManager_index :: "LabelManager \<Rightarrow> string \<Rightarrow> LabelProperty" where
  "LabelManager_index m label =
     (case qmap_find (labels m) label of None \<Rightarrow> LabelProperty_default | Some p \<Rightarrow> p)"

definition LabelManager_getLabels :: "LabelManager \<Rightarrow> LabelProperty list" where
  "LabelManager_getLabels m = qmap_values (labels m)"

definition LabelManager_getColor :: "string \<Rightarrow> LabelManager \<Rightarrow> QColor result" where
  "LabelManager_getColor label m =
     bind_result (LabelManager_checkLabel label m) (\<lambda>_. Inr (lp_color (LabelManager_index m label)))"

definition INT_MAX :: int where
  "INT_MAX = 2147483647"

text \<open>
  An id of -1 asks for the next free one; the increment of the largest int overflows. The subscript
  inserts a default property if there is none, and the assignment copies the fields it copies.
\<close>

definition LabelManager_addLabel ::
    "string \<Rightarrow> QColor \<Rightarrow> bool \<Rightarrow> int \<Rightarrow> LabelManager \<Rightarrow> (LabelManager \<times> lm_signal list) result" where
  "LabelManager_addLabel label color visible i m =
     (if i = -1 \<and> currentMaxId m = INT_MAX then Inl (Undefined ''signed overflow'')
      else let i' = (if i = -1 then currentMaxId m + 1 else i);
               cm = (if i = -1 then currentMaxId m + 1 else max i (currentMaxId m))
           in Inr (m\<lparr>currentMaxId := cm,
                     labels := qmap_insert label
                       (LabelProperty_assign (LabelManager_index m label) (LabelProperty_new label color visible i')) (labels m)\<rparr>,
                   [LabelAdded label color visible i', LabelChanged]))"

definition LabelManager_removeLabel :: "string \<Rightarrow> LabelManager \<Rightarrow> LabelManager \<times> lm_signal list" where
  "LabelManager_removeLabel label m =
     (m\<lparr>labels := qmap_remove label (labels m)\<rparr>, [LabelRemoved label, LabelChanged])"

definition LabelManager_setColor ::
    "string \<Rightarrow> QColor \<Rightarrow> LabelManager \<Rightarrow> (LabelManager \<times> lm_signal list) result" where
  "LabelManager_setColor label color m =
     bind_result (LabelManager_checkLabel label m) (\<lambda>_.
       let p = LabelManager_index m label
       in if lp_color p \<noteq> color
          then Inr (m\<lparr>labels := qmap_insert label (p\<lparr>lp_color := color\<rparr>) (labels m)\<rparr>,
                    [ColorChanged label color, LabelChanged])
          else Inr (m, []))"

definition LabelManager_setVisible ::
    "string \<Rightarrow> bool \<Rightarrow> LabelManager \<Rightarrow> (LabelManager \<times> lm_signal list) result" where
  "LabelManager_setVisible label visible m =
     bind_result (LabelManager_checkLabel label m) (\<lambda>_.
       let p = LabelManager_index m label
       in if lp_visible p \<noteq> visible
          then Inr (m\<lparr>labels := qmap_insert label (p\<lparr>lp_visible := visible\<rparr>) (labels m)\<rparr>,
                    [VisibelChanged label visible, LabelChanged])
          else Inr (m, []))"

definition LabelManager_allClear :: "LabelManager \<Rightarrow> LabelManager \<times> lm_signal list" where
  "LabelManager_allClear m = (m\<lparr>labels := [], currentMaxId := 0\<rparr>, [AllCleared])"

definition LabelManager_toJsonArray :: "LabelManager \<Rightarrow> QJsonValue list" where
  "LabelManager_toJsonArray m =
     map (\<lambda>p. JObject (LabelProperty_toJsonObject p)) (qmap_values (labels m))"

fun json_items :: "QJsonValue list \<Rightarrow> LabelProperty list result" where
  "json_items [] = Inr []"
| "json_items (JObject j # js) =
     bind_result (LabelProperty_fromJsonObject j LabelProperty_default) (\<lambda>item.
     bind_result (json_items js) (\<lambda>items. Inr (item # items)))"
| "json_items (_ # js) = json_items js"

fun add_items ::
    "LabelProperty list \<Rightarrow> LabelManager \<Rightarrow> (LabelManager \<times> lm_signal list) result" where
  "add_items [] m = Inr (m, [])"
| "add_items (p # ps) m =
     bind_result (LabelManager_addLabel (lp_label p) (lp_color p) (lp_visible p) (lp_id p) m) (\<lambda>(m1, s1).
     bind_result (add_items ps m1) (\<lambda>(m2, s2). Inr (m2, s1 @ s2)))"

definition LabelManager_fromJsonArray ::
    "QJsonValue list \<Rightarrow> LabelManager \<Rightarrow> (LabelManager \<times> lm_signal list) result" where
  "LabelManager_fromJsonArray json m = bind_result (json_items json) (\<lambda>items. add_items items m)"

definition LabelManager_fromJsonObject ::
    "QJsonObject \<Rightarrow> LabelManager \<Rightarrow> (LabelManager \<times> lm_signal list) result" where
  "LabelManager_fromJsonObject json m =
     (if obj_contains json ''labels'' then
        (case obj_value json ''labels'' of
           JArray a \<Rightarrow> LabelManager_fromJsonArray a m
         | _ \<Rightarrow> Inr (m, []))
      else Inr (m, []))"

subsection \<open>Invariant\<close>

text \<open>
  Every label is stored under its own name, has an id that was set and is at most
  \<^verbatim>\<open>currentMaxId\<close>, which never goes negative, and no operation sets a group or a
  description.
\<close>

definition lm_inv :: "LabelManager \<Rightarrow> bool" where
  "lm_inv m \<longleftrightarrow> qmap_wf (labels m) \<and> 0 \<le> currentMaxId m \<and>
     (\<forall>k p. qmap_find (labels m) k = Some p \<longrightarrow>
        lp_label p = k \<and> lp_id p \<noteq> -1 \<and> lp_id p \<le> currentMaxId m \<and> lp_groupId p = 0 \<and> lp_description p = ''description'')"

lemmas lm_op_defs = LabelManager_addLabel_def LabelManager_removeLabel_def LabelManager_setColor_def
  LabelManager_setVisible_def LabelManager_allClear_def LabelManager_checkLabel_def
  LabelManager_index_def LabelProperty_new_def LabelProperty_default_def LabelProperty_assign_def Let_def

lemmas lm_find = qmap_find_insert_at qmap_find_remove qmap_wf_insert qmap_wf_remove

lemma lm_inv_new: "lm_inv LabelManager_new"
  by (simp add: lm_inv_def LabelManager_new_def)

lemma assign_new:
  assumes "lm_inv m"
  shows "LabelProperty_assign (LabelManager_index m l) (LabelProperty_new l c v i) = LabelProperty_new l c v i"
  using assms by (auto simp: lm_inv_def LabelProperty_assign_def LabelManager_index_def LabelProperty_new_def LabelProperty_default_def
      split: option.split)

lemma lm_inv_add: "lm_inv m \<Longrightarrow> LabelManager_addLabel l c v i m = Inr (m', s) \<Longrightarrow> lm_inv m'"
  using assign_new[of m l c v]
  by (fastforce simp: lm_inv_def LabelManager_addLabel_def LabelProperty_new_def lm_find Let_def split: if_splits)

lemma lm_inv_remove: "lm_inv m \<Longrightarrow> lm_inv (fst (LabelManager_removeLabel l m))"
  by (simp add: lm_inv_def lm_op_defs lm_find)

lemma lm_inv_setColor: "lm_inv m \<Longrightarrow> LabelManager_setColor l c m = Inr (m', s) \<Longrightarrow> lm_inv m'"
  by (auto simp: lm_inv_def lm_op_defs lm_find split: if_splits)

lemma lm_inv_setVisible: "lm_inv m \<Longrightarrow> LabelManager_setVisible l v m = Inr (m', s) \<Longrightarrow> lm_inv m'"
  by (auto simp: lm_inv_def lm_op_defs lm_find split: if_splits)

lemma lm_inv_allClear: "lm_inv (fst (LabelManager_allClear m))"
  by (simp add: lm_inv_def lm_op_defs)

lemma lm_inv_add_items: "lm_inv m \<Longrightarrow> add_items ps m = Inr (m', s) \<Longrightarrow> lm_inv m'"
  by (induction ps arbitrary: m s) (auto dest: lm_inv_add)

subsection \<open>The manager as a step relation\<close>

inductive lm_step :: "LabelManager \<Rightarrow> LabelManager \<Rightarrow> bool" where
  lm_add: "LabelManager_addLabel l c v i m = Inr (m', s) \<Longrightarrow> lm_step m m'"
| lm_remove: "lm_step m (fst (LabelManager_removeLabel l m))"
| lm_color: "LabelManager_setColor l c m = Inr (m', s) \<Longrightarrow> lm_step m m'"
| lm_visible: "LabelManager_setVisible l v m = Inr (m', s) \<Longrightarrow> lm_step m m'"
| lm_clear: "lm_step m (fst (LabelManager_allClear m))"
| lm_json: "LabelManager_fromJsonObject j m = Inr (m', s) \<Longrightarrow> lm_step m m'"

inductive lm_reachable :: "LabelManager \<Rightarrow> bool" where
  lm_start: "lm_reachable LabelManager_new"
| lm_next: "lm_reachable m \<Longrightarrow> lm_step m m' \<Longrightarrow> lm_reachable m'"

lemma lm_step_inv: "lm_step m m' \<Longrightarrow> lm_inv m \<Longrightarrow> lm_inv m'"
proof (induction rule: lm_step.induct)
  case (lm_json j m m' s)
  then show ?case
    by (auto simp: LabelManager_fromJsonObject_def LabelManager_fromJsonArray_def
        intro: lm_inv_add_items split: if_splits QJsonValue.splits)
qed (auto intro: lm_inv_add lm_inv_remove lm_inv_setColor lm_inv_setVisible lm_inv_allClear)

lemma lm_reachable_inv: "lm_reachable m \<Longrightarrow> lm_inv m"
  by (induction rule: lm_reachable.induct) (auto intro: lm_inv_new lm_step_inv)

text \<open>
  C38. In every state the manager can reach, from its constructor by any sequence of its
  operations, adding a label with the default id -1 gives it a positive id that no other label
  has, stores exactly that property under its name, leaves the other labels alone and announces
  it; only the 32-bit overflow of the counter is left undefined.
\<close>

theorem addLabel_gives_fresh_id:
  assumes "lm_reachable m" and "currentMaxId m < INT_MAX"
  shows "\<exists>m' n. LabelManager_addLabel l c v (-1) m = Inr (m', [LabelAdded l c v n, LabelChanged]) \<and>
      0 < n \<and> (\<forall>k p. qmap_find (labels m) k = Some p \<longrightarrow> lp_id p \<noteq> n) \<and>
      qmap_find (labels m') = (qmap_find (labels m))(l \<mapsto> LabelProperty_new l c v n)"
proof -
  have inv: "lm_inv m" by (rule lm_reachable_inv[OF assms(1)])
  have "lp_id p \<noteq> currentMaxId m + 1" if "qmap_find (labels m) k = Some p" for k p
    using inv that by (fastforce simp: lm_inv_def)
  moreover have "0 < currentMaxId m + 1" using inv by (simp add: lm_inv_def)
  ultimately show ?thesis using assms(2)
    by (auto simp: LabelManager_addLabel_def Let_def qmap_find_insert assign_new[OF inv])
qed

lemma lm_reachable_one:
  "lm_reachable (LabelManager_new\<lparr>currentMaxId := 7,
     labels := [(''car'', LabelProperty_new ''car'' color_white True 7)]\<rparr>)"
  by (rule lm_next[OF lm_start], rule lm_add[of "''car''" color_white True 7])
     (simp add: lm_op_defs LabelManager_new_def INT_MAX_def)

theorem addLabel_gives_fresh_id_witness:
  "\<exists>m' n. LabelManager_addLabel ''bus'' color_white True (-1)
       (LabelManager_new\<lparr>currentMaxId := 7, labels := [(''car'', LabelProperty_new ''car'' color_white True 7)]\<rparr>)
     = Inr (m', [LabelAdded ''bus'' color_white True n, LabelChanged]) \<and> 0 < n \<and> n \<noteq> 7"
proof -
  let ?m = "LabelManager_new\<lparr>currentMaxId := 7,
    labels := [(''car'', LabelProperty_new ''car'' color_white True 7)]\<rparr>"
  have "currentMaxId ?m < INT_MAX" by (simp add: INT_MAX_def)
  from addLabel_gives_fresh_id[OF lm_reachable_one this, of "''bus''" color_white True]
  obtain m' n where r: "LabelManager_addLabel ''bus'' color_white True (-1) ?m =
      Inr (m', [LabelAdded ''bus'' color_white True n, LabelChanged])" "0 < n"
    and fresh: "\<forall>k p. qmap_find (labels ?m) k = Some p \<longrightarrow> lp_id p \<noteq> n"
    by blast
  have "qmap_find (labels ?m) ''car'' = Some (LabelProperty_new ''car'' color_white True 7)"
    by (simp add: qmap_find_def)
  with fresh have "n \<noteq> 7" by (metis LabelProperty.select_convs(4) LabelProperty_new_def)
  with r show ?thesis by blast
qed

text \<open>
  \<^verbatim>\<open>setColor\<close> on every branch: a missing label throws the
  \<^verbatim>\<open>QString\<close>, the same colour changes nothing and emits nothing, a new
  colour is written to that label alone, its other fields kept, and announced once.
\<close>

theorem setColor_behaviour:
  "case qmap_find (labels m) l of
     None \<Rightarrow> LabelManager_setColor l c m =
       Inl (ThrownQString (''can not find label '' @ l @ '' in label manager''))
   | Some p \<Rightarrow> \<exists>m'. LabelManager_setColor l c m =
         Inr (m', if lp_color p = c then [] else [ColorChanged l c, LabelChanged]) \<and>
       qmap_find (labels m') = (qmap_find (labels m))(l \<mapsto> p\<lparr>lp_color := c\<rparr>) \<and>
       currentMaxId m' = currentMaxId m"
proof (cases "qmap_find (labels m) l")
  case None
  then show ?thesis by (simp add: lm_op_defs)
next
  case (Some p)
  then have "(qmap_find (labels m))(l \<mapsto> p) = qmap_find (labels m)" by (simp add: fun_upd_idem)
  with Some show ?thesis by (auto simp: lm_op_defs qmap_find_insert)
qed

subsection \<open>JSON round trip\<close>

text \<open>A colour comes back without its alpha value and its validity.\<close>

definition json_color :: "QColor \<Rightarrow> QColor" where
  "json_color c = QColor True (red c) (green c) (blue c) 255"

text \<open>Ids are ints, and the components of a colour are bytes.\<close>

definition label_ranges :: "LabelProperty \<Rightarrow> bool" where
  "label_ranges p \<longleftrightarrow> fits_int (lp_id p) \<and> {red (lp_color p), green (lp_color p), blue (lp_color p)} \<subseteq> {0..255}"

lemma label_json_roundtrip:
  assumes "label_ranges p"
  shows "LabelProperty_fromJsonObject (LabelProperty_toJsonObject p) LabelProperty_default =
     Inr (LabelProperty_new (lp_label p) (json_color (lp_color p)) (lp_visible p) (lp_id p))"
proof -
  have "double_to_int (of_int x) = Inr x" if "x \<in> {red (lp_color p), green (lp_color p), blue (lp_color p), lp_id p}" for x
    using that assms by (intro double_to_int_of_int) (auto simp: label_ranges_def fits_int_def)
  moreover have "QColor_rgb (red (lp_color p)) (green (lp_color p)) (blue (lp_color p)) = json_color (lp_color p)"
    using assms by (simp add: label_ranges_def json_color_def QColor_rgb_def QColor_rgba_def)
  ultimately show ?thesis
    by (simp add: LabelProperty_fromJsonObject_def LabelProperty_toJsonObject_def Let_def
        obj_contains_def obj_value_def arr_at_def LabelProperty_default_def LabelProperty_new_def)
qed

lemma json_items_roundtrip:
  "(\<And>p. p \<in> set ps \<Longrightarrow> label_ranges p) \<Longrightarrow>
   json_items (map (\<lambda>p. JObject (LabelProperty_toJsonObject p)) ps) =
     Inr (map (\<lambda>p. LabelProperty_new (lp_label p) (json_color (lp_color p)) (lp_visible p) (lp_id p)) ps)"
  by (induction ps) (simp_all add: label_json_roundtrip)

lemma add_items_sorted:
  assumes "qmap_wf (acc @ kvs)"
    and "\<And>k p. (k, p) \<in> set kvs \<Longrightarrow> lp_id p \<noteq> -1 \<and> p = LabelProperty_new k (lp_color p) (lp_visible p) (lp_id p)"
  shows "\<exists>s n. add_items (map snd kvs) \<lparr>labels = acc, currentMaxId = n0\<rparr> =
     Inr (\<lparr>labels = acc @ kvs, currentMaxId = n\<rparr>, s)"
  using assms
proof (induction kvs arbitrary: acc n0)
  case Nil
  then show ?case by simp
next
  case (Cons kp kvs)
  obtain k p where kp: "kp = (k, p)" by (cases kp)
  then have p: "lp_id p \<noteq> -1" "p = LabelProperty_new k (lp_color p) (lp_visible p) (lp_id p)" using Cons.prems by auto
  then have l: "lp_label p = k" by (metis LabelProperty.select_convs(1) LabelProperty_new_def)
  have less: "\<forall>x\<in>fst ` set acc. x < k"
    using Cons.prems(1) kp by (auto simp: qmap_wf_def sorted_append less_le)
  then have "qmap_insert k p acc = acc @ [kp]" by (simp add: qmap_insert_last kp)
  moreover have "qmap_find acc k = None" using less by (auto simp: qmap_find_def map_of_eq_None_iff)
  then have "LabelProperty_assign (LabelManager_index \<lparr>labels = acc, currentMaxId = n0\<rparr> k) (LabelProperty_new k c v i) = LabelProperty_new k c v i" for c v i
    by (simp add: LabelProperty_assign_def LabelManager_index_def LabelProperty_new_def LabelProperty_default_def)
  moreover obtain s n where "add_items (map snd kvs)
      \<lparr>labels = acc @ [kp], currentMaxId = max (lp_id p) n0\<rparr> =
      Inr (\<lparr>labels = (acc @ [kp]) @ kvs, currentMaxId = n\<rparr>, s)"
    using Cons.IH[of "acc @ [kp]" "max (lp_id p) n0"] Cons.prems by auto
  ultimately show ?case using p(1) l kp p(2)[symmetric]
    by (simp add: LabelManager_addLabel_def Let_def)
qed

text \<open>
  C37. Saving the labels of a manager, whatever was added, recoloured, hidden and removed, as a JSON
  array and reading them into a fresh manager gives back the same labels in the same order, each with
  its name, id, visibility and the red, green and blue of its colour. The alpha value is lost: every
  colour comes back valid and opaque. The group and the description are not written either; they agree
  because no operation of the manager ever changes them. The ids have to be ints and the components of
  the colours bytes.
\<close>

theorem label_manager_json_roundtrip:
  assumes "lm_reachable m" and "\<forall>p\<in>set (LabelManager_getLabels m). label_ranges p"
  shows "\<exists>m' s. LabelManager_fromJsonArray (LabelManager_toJsonArray m) LabelManager_new = Inr (m', s) \<and>
           labels m' = map (\<lambda>(k, p). (k, p\<lparr>lp_color := json_color (lp_color p)\<rparr>)) (labels m)"
proof -
  let ?f = "\<lambda>p. LabelProperty_new (lp_label p) (json_color (lp_color p)) (lp_visible p) (lp_id p)"
  have inv: "lm_inv m" by (rule lm_reachable_inv[OF assms(1)])
  then have wf: "qmap_wf (labels m)" by (simp add: lm_inv_def)
  have p: "lp_label p = k \<and> lp_id p \<noteq> -1 \<and> ?f p = p\<lparr>lp_color := json_color (lp_color p)\<rparr>" if "(k, p) \<in> set (labels m)" for k p
    using inv qmap_find_mem[OF wf that] by (auto simp: lm_inv_def LabelProperty_new_def)
  then have kvs: "map (\<lambda>(k, p). (k, p\<lparr>lp_color := json_color (lp_color p)\<rparr>)) (labels m) = map (\<lambda>(k, p). (k, ?f p)) (labels m)"
    by (intro map_cong) (auto, metis)
  have "json_items (LabelManager_toJsonArray m) = Inr (map snd (map (\<lambda>(k, p). (k, ?f p)) (labels m)))"
    using assms(2) unfolding LabelManager_toJsonArray_def qmap_values_def
    by (subst json_items_roundtrip) (auto simp: LabelManager_getLabels_def qmap_values_def)
  moreover have "\<exists>s n. add_items (map snd (map (\<lambda>(k, p). (k, ?f p)) (labels m))) \<lparr>labels = [], currentMaxId = 0\<rparr> =
     Inr (\<lparr>labels = [] @ map (\<lambda>(k, p). (k, ?f p)) (labels m), currentMaxId = n\<rparr>, s)"
    using wf p by (intro add_items_sorted) (auto simp: qmap_wf_def LabelProperty_new_def comp_def case_prod_beta)
  ultimately show ?thesis unfolding kvs
    by (auto simp: LabelManager_fromJsonArray_def LabelManager_new_def)
qed

theorem label_manager_json_roundtrip_witness:
  "\<exists>m' s. LabelManager_fromJsonArray (LabelManager_toJsonArray
       (LabelManager_new\<lparr>currentMaxId := 7, labels := [(''car'', LabelProperty_new ''car'' color_white True 7)]\<rparr>))
       LabelManager_new = Inr (m', s) \<and> labels m' = [(''car'', LabelProperty_new ''car'' color_white True 7)]"
  using label_manager_json_roundtrip[OF lm_reachable_one]
  by (simp add: LabelManager_getLabels_def qmap_values_def LabelProperty_new_def label_ranges_def fits_int_def json_color_def
      color_white_def)

end
