(* ===== verification/Shapes.thy ===== *)
theory Shapes
  imports Polygon_Points Geometry Labels
begin

text \<open>
  \<^verbatim>\<open>YShape::Shape\<close> of \<^verbatim>\<open>src/annotations/shape.h\<close> and
  \<^verbatim>\<open>shape.cc\<close>, the overrides of its five subclasses
  (\<^verbatim>\<open>yrectangle.cc\<close>, \<^verbatim>\<open>yline.cc\<close>, \<^verbatim>\<open>ycurve.cpp\<close>,
  \<^verbatim>\<open>ypolygon.cc\<close>, \<^verbatim>\<open>ypolyline.cpp\<close>) and
  \<^verbatim>\<open>shapefactory.h\<close>. The dynamic class of an object is the field
  \<^verbatim>\<open>dyn_class\<close>; a virtual method dispatches on it. A method with an
  \<^verbatim>\<open>int&\<close> out-parameter takes the old value and returns the new one.
\<close>

subsection \<open>Data\<close>

datatype draw_mode_e = Rectangle | Line | Curve | Polygon | Polyline | None_mode

datatype shape_class = YRectangle | yLine | yCurve | YPolygon | YPolyline

record Shape =
  dyn_class :: shape_class
  m_points :: YPolygonPoints
  m_type :: draw_mode_e
  m_color :: QColor
  m_name :: string
  m_id :: int
  m_isClosed :: bool
  m_isDrag :: bool
  m_isPress :: bool
  m_isActive :: bool
  m_isSelect :: bool
  m_controlPtActive :: int
  m_senseDis :: int
  m_lineWidth :: rat
  m_pointSize :: rat
  m_disPoit :: QPointF
  m_label :: LabelProperty

definition Shape_new :: "shape_class \<Rightarrow> draw_mode_e \<Rightarrow> Shape" where
  "Shape_new cl type =
     \<lparr>dyn_class = cl, m_points = YPolygonPoints_empty, m_type = type, m_color = QColor_default,
      m_name = [], m_id = 0, m_isClosed = False, m_isDrag = False, m_isPress = False,
      m_isActive = False, m_isSelect = False, m_controlPtActive = -1, m_senseDis = 8,
      m_lineWidth = 1, m_pointSize = 5/2, m_disPoit = QPointF 0 0, m_label = LabelProperty_default\<rparr>"

subsection \<open>Names of the modes\<close>

fun Shape_drawModeToStr :: "draw_mode_e \<Rightarrow> string" where
  "Shape_drawModeToStr Rectangle = ''rectangle''"
| "Shape_drawModeToStr Line = ''line''"
| "Shape_drawModeToStr Curve = ''curve''"
| "Shape_drawModeToStr Polygon = ''polygon''"
| "Shape_drawModeToStr None_mode = ''none''"
| "Shape_drawModeToStr _ = ''''"

fun Shape_typeToString :: "draw_mode_e \<Rightarrow> string" where
  "Shape_typeToString Rectangle = ''Rectangle''"
| "Shape_typeToString Line = ''Line''"
| "Shape_typeToString Curve = ''Curve''"
| "Shape_typeToString Polygon = ''Ploygon''"
| "Shape_typeToString _ = ''''"

text \<open>The mode, and the new value of \<^verbatim>\<open>result\<close>: false for a name that is known.\<close>

definition Shape_stringToType :: "string \<Rightarrow> draw_mode_e \<times> bool" where
  "Shape_stringToType str =
     (if str = ''Rectangle'' then (Rectangle, False)
      else if str = ''Line'' then (Line, False)
      else if str = ''Curve'' then (Curve, False)
      else if str = ''Polygon'' then (Polygon, False)
      else (None_mode, True))"

text \<open>
  Reading back the printed name of a mode gives the mode and no error exactly for
  rectangles, lines and curves: the printed name of a polygon is misspelt and is not
  recognised, and polylines have no name.
\<close>

theorem type_name_roundtrip_iff:
  "Shape_stringToType (Shape_typeToString t) = (t, False) \<longleftrightarrow> t \<in> {Rectangle, Line, Curve}"
  by (cases t) (auto simp: Shape_stringToType_def)

subsection \<open>Accessors\<close>

definition Shape_name :: "Shape \<Rightarrow> string" where [simp]: "Shape_name s = m_name s"
definition Shape_id :: "Shape \<Rightarrow> int" where [simp]: "Shape_id s = m_id s"
definition Shape_color :: "Shape \<Rightarrow> QColor" where [simp]: "Shape_color s = m_color s"
definition Shape_isClosed :: "Shape \<Rightarrow> bool" where [simp]: "Shape_isClosed s = m_isClosed s"
definition Shape_setColor :: "QColor \<Rightarrow> Shape \<Rightarrow> Shape" where
  [simp]: "Shape_setColor c s = s\<lparr>m_color := c\<rparr>"
definition Shape_type :: "Shape \<Rightarrow> draw_mode_e" where [simp]: "Shape_type s = m_type s"
definition Shape_setType :: "draw_mode_e \<Rightarrow> Shape \<Rightarrow> Shape" where
  [simp]: "Shape_setType t s = s\<lparr>m_type := t\<rparr>"
definition Shape_setName :: "string \<Rightarrow> Shape \<Rightarrow> Shape" where
  [simp]: "Shape_setName n s = s\<lparr>m_name := n\<rparr>"
definition Shape_updateEndPt :: "QPointF \<Rightarrow> Shape \<Rightarrow> Shape" where
  [simp]: "Shape_updateEndPt p s = s\<lparr>m_disPoit := p\<rparr>"
definition Shape_points :: "Shape \<Rightarrow> YPolygonPoints" where [simp]: "Shape_points s = m_points s"
definition Shape_label :: "Shape \<Rightarrow> LabelProperty" where [simp]: "Shape_label s = m_label s"
definition Shape_isDrag :: "Shape \<Rightarrow> bool" where [simp]: "Shape_isDrag s = m_isDrag s"
definition Shape_setIsDrag :: "bool \<Rightarrow> Shape \<Rightarrow> Shape" where
  [simp]: "Shape_setIsDrag b s = s\<lparr>m_isDrag := b\<rparr>"
definition Shape_isPress :: "Shape \<Rightarrow> bool" where [simp]: "Shape_isPress s = m_isPress s"
definition Shape_isActive :: "Shape \<Rightarrow> bool" where [simp]: "Shape_isActive s = m_isActive s"
definition Shape_isSelect :: "Shape \<Rightarrow> bool" where [simp]: "Shape_isSelect s = m_isSelect s"
definition Shape_setIsPress :: "bool \<Rightarrow> Shape \<Rightarrow> Shape" where
  [simp]: "Shape_setIsPress b s = s\<lparr>m_isPress := b\<rparr>"
definition Shape_setIsActive :: "bool \<Rightarrow> Shape \<Rightarrow> Shape" where
  [simp]: "Shape_setIsActive b s = s\<lparr>m_isActive := b\<rparr>"
definition Shape_setIsSelect :: "bool \<Rightarrow> Shape \<Rightarrow> Shape" where
  [simp]: "Shape_setIsSelect b s = s\<lparr>m_isSelect := b\<rparr>"
definition Shape_setControlPtActive :: "int \<Rightarrow> Shape \<Rightarrow> Shape" where
  [simp]: "Shape_setControlPtActive i s = s\<lparr>m_controlPtActive := i\<rparr>"
definition Shape_setIsClosed :: "bool \<Rightarrow> Shape \<Rightarrow> Shape" where
  [simp]: "Shape_setIsClosed b s = s\<lparr>m_isClosed := b\<rparr>"
definition Shape_setClosed :: "Shape \<Rightarrow> Shape" where
  [simp]: "Shape_setClosed s = s\<lparr>m_isClosed := True\<rparr>"
definition Shape_lineWidth :: "Shape \<Rightarrow> rat" where [simp]: "Shape_lineWidth s = m_lineWidth s"
definition Shape_setLineWidth :: "rat \<Rightarrow> Shape \<Rightarrow> Shape" where
  [simp]: "Shape_setLineWidth w s = s\<lparr>m_lineWidth := w\<rparr>"

text \<open>The point size is a \<^verbatim>\<open>qreal\<close> that is read and written through an \<^verbatim>\<open>int\<close>.\<close>

definition Shape_pointSize :: "Shape \<Rightarrow> int" where "Shape_pointSize s = trunc (m_pointSize s)"
definition Shape_setPointSize :: "int \<Rightarrow> Shape \<Rightarrow> Shape" where
  "Shape_setPointSize n s = s\<lparr>m_pointSize := of_int n\<rparr>"
definition Shape_pointCount :: "Shape \<Rightarrow> int" where
  [simp]: "Shape_pointCount s = YPolygonPoints_size (m_points s)"
definition Shape_setimgWH :: "QSize \<Rightarrow> Shape \<Rightarrow> Shape" where
  "Shape_setimgWH sz s = s\<lparr>m_points := YPolygonPoints_setImgWH sz (m_points s)\<rparr>"
definition Shape_appendPoint :: "QPointF \<Rightarrow> Shape \<Rightarrow> Shape" where
  "Shape_appendPoint p s = s\<lparr>m_points := YPolygonPoints_append p (m_points s)\<rparr>"

text \<open>\<^verbatim>\<open>setLabel\<close> assigns through the pointer and copies the colour.\<close>

definition Shape_setLabel :: "LabelProperty \<Rightarrow> Shape \<Rightarrow> Shape" where
  "Shape_setLabel label s =
     s\<lparr>m_label := LabelProperty_assign (m_label s) label, m_color := lp_color label\<rparr>"

subsection \<open>Hit tests\<close>

function isPts_loop :: "Shape \<Rightarrow> QPointF \<Rightarrow> nat \<Rightarrow> int \<Rightarrow> (bool \<times> int) result" where
  "isPts_loop s pt i pos =
     (if int i < YPolygonPoints_size (m_points s) then
        bind_result (YPolygonPoints_at (m_points s) (int i)) (\<lambda>q.
          if manhattanLength (q - pt) \<le> of_int (m_senseDis s) then Inr (True, int i)
          else isPts_loop s pt (Suc i) pos)
      else Inr (False, pos))"
  by pat_completeness auto
termination
  by (relation "measure (\<lambda>(s, pt, i, pos). nat (YPolygonPoints_size (m_points s) - int i))") auto

definition Shape_isPtsHavPt :: "Shape \<Rightarrow> QPointF \<Rightarrow> int \<Rightarrow> (bool \<times> int) result" where
  "Shape_isPtsHavPt s pt pos = isPts_loop s pt 0 pos"

function isEdge_loop :: "Shape \<Rightarrow> QPointF \<Rightarrow> nat \<Rightarrow> int \<Rightarrow> (bool \<times> int) result" where
  "isEdge_loop s point i pos =
     (if int i < YPolygonPoints_size (m_points s) then
        bind_result (YPolygonPoints_at (m_points s) (int i)) (\<lambda>begin.
        bind_result (if int i + 1 < YPolygonPoints_size (m_points s)
                     then YPolygonPoints_at (m_points s) (int i + 1)
                     else YPolygonPoints_at (m_points s) 0) (\<lambda>end.
          if \<not> judge begin end (Circle_of (of_int (m_senseDis s)) point)
          then isEdge_loop s point (Suc i) pos
          else let FootPt = GetFootOfPerpendicular point begin end
               in if manhattanLength (point - FootPt) \<le> of_int (m_senseDis s)
                  then Inr (True, int i + 1)
                  else isEdge_loop s point (Suc i) pos))
      else Inr (False, pos))"
  by pat_completeness auto
termination
  by (relation "measure (\<lambda>(s, pt, i, pos). nat (YPolygonPoints_size (m_points s) - int i))") auto

declare isPts_loop.simps [simp del] isEdge_loop.simps [simp del]

definition Shape_isEdgeHavPt_base :: "Shape \<Rightarrow> QPointF \<Rightarrow> int \<Rightarrow> (bool \<times> int) result" where
  "Shape_isEdgeHavPt_base s point pos =
     (if YPolygonPoints_size (m_points s) < 2 then Inr (False, pos) else isEdge_loop s point 0 pos)"

definition yLine_isEdgeHavPt :: "QPointF \<Rightarrow> int \<Rightarrow> (bool \<times> int) result" where
  "yLine_isEdgeHavPt pt pos = Inr (False, pos)"

definition yCurve_isEdgeHavPt :: "QPointF \<Rightarrow> int \<Rightarrow> (bool \<times> int) result" where
  "yCurve_isEdgeHavPt pt pos = Inr (False, pos)"

definition Shape_isEdgeHavPt :: "Shape \<Rightarrow> QPointF \<Rightarrow> int \<Rightarrow> (bool \<times> int) result" where
  "Shape_isEdgeHavPt s pt pos =
     (case dyn_class s of
        yLine \<Rightarrow> yLine_isEdgeHavPt pt pos
      | yCurve \<Rightarrow> yCurve_isEdgeHavPt pt pos
      | _ \<Rightarrow> Shape_isEdgeHavPt_base s pt pos)"

definition Shape_isAreaHavPt_base ::
    "(QPointF list \<Rightarrow> QPointF \<Rightarrow> bool) \<Rightarrow> Shape \<Rightarrow> QPointF \<Rightarrow> bool" where
  "Shape_isAreaHavPt_base containsPoint s point =
     YPolygonPoints_containsPoint containsPoint (m_points s) point"

definition YRectangle_isAreaHavPt :: "Shape \<Rightarrow> QPointF \<Rightarrow> bool result" where
  "YRectangle_isAreaHavPt s pt =
     (if YPolygonPoints_size (m_points s) < 2 then Inr False
      else bind_result (vec_at (YPolygonPoints_getOriPoints (m_points s)) 0) (\<lambda>p0.
           bind_result (vec_at (YPolygonPoints_getOriPoints (m_points s)) 1) (\<lambda>p1.
           Inr (rect_contains (rect_of_corners p0 p1) pt))))"

definition yLine_isAreaHavPt :: "QPointF \<Rightarrow> bool" where "yLine_isAreaHavPt pt = False"
definition yCurve_isAreaHavPt :: "QPointF \<Rightarrow> bool" where "yCurve_isAreaHavPt pt = False"
definition YPolyline_isAreaHavPt :: "QPointF \<Rightarrow> bool" where "YPolyline_isAreaHavPt pt = False"

definition Shape_isAreaHavPt ::
    "(QPointF list \<Rightarrow> QPointF \<Rightarrow> bool) \<Rightarrow> Shape \<Rightarrow> QPointF \<Rightarrow> bool result" where
  "Shape_isAreaHavPt containsPoint s pt =
     (case dyn_class s of
        YRectangle \<Rightarrow> YRectangle_isAreaHavPt s pt
      | yLine \<Rightarrow> Inr (yLine_isAreaHavPt pt)
      | yCurve \<Rightarrow> Inr (yCurve_isAreaHavPt pt)
      | YPolyline \<Rightarrow> Inr (YPolyline_isAreaHavPt pt)
      | YPolygon \<Rightarrow> Inr (Shape_isAreaHavPt_base containsPoint s pt))"

subsection \<open>Editing\<close>

definition Shape_updatePoint :: "QPointF \<Rightarrow> int \<Rightarrow> Shape \<Rightarrow> (bool \<times> Shape) result" where
  "Shape_updatePoint point pos s =
     (if pos < YPolygonPoints_size (m_points s) \<and> pos \<ge> 0
      then bind_result (YPolygonPoints_replace point pos (m_points s)) (\<lambda>ps.
           Inr (True, s\<lparr>m_points := ps\<rparr>))
      else Inl (ShapeException ''<pos> out of range''))"

definition Shape_insertPoint_base :: "QPointF \<Rightarrow> int \<Rightarrow> Shape \<Rightarrow> (bool \<times> Shape) result" where
  "Shape_insertPoint_base point pos s =
     (if pos < YPolygonPoints_size (m_points s) \<and> pos \<ge> 0
      then bind_result (YPolygonPoints_insert point pos (m_points s)) (\<lambda>ps.
           Inr (True, s\<lparr>m_points := ps\<rparr>))
      else if pos = YPolygonPoints_size (m_points s)
      then Inr (True, s\<lparr>m_points := YPolygonPoints_append point (m_points s)\<rparr>)
      else Inr (True, s))"

definition YRectangle_insertPoint :: "QPointF \<Rightarrow> int \<Rightarrow> Shape \<Rightarrow> (bool \<times> Shape) result" where
  "YRectangle_insertPoint pt pos s = Inr (False, s)"
definition yLine_insertPoint :: "QPointF \<Rightarrow> int \<Rightarrow> Shape \<Rightarrow> (bool \<times> Shape) result" where
  "yLine_insertPoint pt pos s = Inr (False, s)"
definition yCurve_insertPoint :: "QPointF \<Rightarrow> int \<Rightarrow> Shape \<Rightarrow> (bool \<times> Shape) result" where
  "yCurve_insertPoint pt pos s = Inr (False, s)"

definition Shape_insertPoint :: "QPointF \<Rightarrow> int \<Rightarrow> Shape \<Rightarrow> (bool \<times> Shape) result" where
  "Shape_insertPoint point pos s =
     (case dyn_class s of
        YRectangle \<Rightarrow> YRectangle_insertPoint point pos s
      | yLine \<Rightarrow> yLine_insertPoint point pos s
      | yCurve \<Rightarrow> yCurve_insertPoint point pos s
      | _ \<Rightarrow> Shape_insertPoint_base point pos s)"

function move_loop :: "QPointF \<Rightarrow> nat \<Rightarrow> YPolygonPoints \<Rightarrow> YPolygonPoints result" where
  "move_loop point i ps =
     (if int i < YPolygonPoints_size ps then
        bind_result (YPolygonPoints_at ps (int i)) (\<lambda>q.
        bind_result (YPolygonPoints_replace (q + point) (int i) ps) (\<lambda>ps'.
        move_loop point (Suc i) ps'))
      else Inr ps)"
  by pat_completeness auto
termination
  by (relation "measure (\<lambda>(d, i, ps). nat (YPolygonPoints_size ps - int i))")
     (auto dest: size_replace)

declare move_loop.simps [simp del]

definition Shape_move :: "QPointF \<Rightarrow> Shape \<Rightarrow> (bool \<times> Shape) result" where
  "Shape_move point s =
     bind_result (move_loop point 0 (m_points s)) (\<lambda>ps. Inr (True, s\<lparr>m_points := ps\<rparr>))"

definition Shape_deletePoint :: "int \<Rightarrow> Shape \<Rightarrow> Shape result" where
  "Shape_deletePoint index s =
     (if index \<ge> YPolygonPoints_size (m_points s) then Inr s
      else bind_result (YPolygonPoints_erase index (m_points s)) (\<lambda>ps. Inr (s\<lparr>m_points := ps\<rparr>)))"

subsection \<open>The factory\<close>

fun ShapeFactory_create :: "draw_mode_e \<Rightarrow> Shape option" where
  "ShapeFactory_create Rectangle = Some (Shape_new YRectangle Rectangle)"
| "ShapeFactory_create Line = Some (Shape_new yLine Line)"
| "ShapeFactory_create Curve = Some (Shape_new yCurve Curve)"
| "ShapeFactory_create Polygon = Some (Shape_new YPolygon Polygon)"
| "ShapeFactory_create Polyline = Some (Shape_new YPolyline Polyline)"
| "ShapeFactory_create None_mode = None"

subsection \<open>Lemmas\<close>

definition shape_wf :: "Shape \<Rightarrow> bool" where
  "shape_wf s \<longleftrightarrow> views_agree (m_points s)"

definition near_vertex :: "Shape \<Rightarrow> QPointF \<Rightarrow> nat \<Rightarrow> bool" where
  "near_vertex s pt i \<longleftrightarrow> manhattanLength (m_oriPoints (m_points s) ! i - pt) \<le> of_int (m_senseDis s)"

definition edge_end :: "Shape \<Rightarrow> nat \<Rightarrow> QPointF" where
  "edge_end s i = m_oriPoints (m_points s) ! (Suc i mod length (m_oriPoints (m_points s)))"

definition near_edge :: "Shape \<Rightarrow> QPointF \<Rightarrow> nat \<Rightarrow> bool" where
  "near_edge s pt i \<longleftrightarrow>
     judge (m_oriPoints (m_points s) ! i) (edge_end s i) (Circle_of (of_int (m_senseDis s)) pt) \<and>
     manhattanLength (pt - GetFootOfPerpendicular pt (m_oriPoints (m_points s) ! i) (edge_end s i))
       \<le> of_int (m_senseDis s)"

abbreviation vertex_count :: "Shape \<Rightarrow> nat" where
  "vertex_count s \<equiv> length (m_oriPoints (m_points s))"

lemma find_upt_Suc:
  "i < n \<Longrightarrow> find P [i..<n] = (if P i then Some i else find P [Suc i..<n])"
  by (simp add: upt_conv_Cons)

lemma isPts_loop_step:
  assumes "i < vertex_count s"
  shows "isPts_loop s pt i pos =
     (if near_vertex s pt i then Inr (True, int i) else isPts_loop s pt (Suc i) pos)"
  using assms by (subst isPts_loop.simps) (simp add: YPolygonPoints_size_def at_nat near_vertex_def)

lemma isPts_loop_find:
  "isPts_loop s pt i pos =
     Inr (case find (near_vertex s pt) [i..<vertex_count s] of
            None \<Rightarrow> (False, pos) | Some j \<Rightarrow> (True, int j))"
proof (induction "vertex_count s - i" arbitrary: i)
  case 0
  then show ?case by (subst isPts_loop.simps) (simp add: YPolygonPoints_size_def)
next
  case (Suc n)
  then have "i < vertex_count s" and "n = vertex_count s - Suc i" by simp_all
  with Suc.hyps(1)[of "Suc i"] show ?case
    by (simp add: isPts_loop_step find_upt_Suc)
qed

lemma edge_end_at:
  assumes "i < vertex_count s"
  shows "(if int i + 1 < YPolygonPoints_size (m_points s) then YPolygonPoints_at (m_points s) (int i + 1)
          else YPolygonPoints_at (m_points s) 0) = Inr (edge_end s i)"
proof (cases "Suc i < vertex_count s")
  case True
  then show ?thesis using at_nat[OF True] by (simp add: YPolygonPoints_size_def edge_end_def add.commute)
next
  case False
  with assms have i: "vertex_count s = Suc i" by simp
  have "YPolygonPoints_at (m_points s) 0 = Inr (m_oriPoints (m_points s) ! 0)"
    using at_nat[of 0 "m_points s"] i by simp
  then show ?thesis by (simp add: YPolygonPoints_size_def edge_end_def i)
qed

lemma isEdge_loop_step:
  assumes "i < vertex_count s"
  shows "isEdge_loop s pt i pos =
     (if near_edge s pt i then Inr (True, int i + 1) else isEdge_loop s pt (Suc i) pos)"
proof -
  have g: "int i < YPolygonPoints_size (m_points s)" using assms by (simp add: YPolygonPoints_size_def)
  show ?thesis
    by (subst isEdge_loop.simps)
       (simp only: g if_True at_nat[OF assms] edge_end_at[OF assms] bind_result.simps Let_def
          near_edge_def de_Morgan_conj, simp)
qed

lemma isEdge_loop_find:
  "isEdge_loop s pt i pos =
     Inr (case find (near_edge s pt) [i..<vertex_count s] of
            None \<Rightarrow> (False, pos) | Some j \<Rightarrow> (True, int j + 1))"
proof (induction "vertex_count s - i" arbitrary: i)
  case 0
  then show ?case by (subst isEdge_loop.simps) (simp add: YPolygonPoints_size_def)
next
  case (Suc n)
  then have i: "i < vertex_count s" and "n = vertex_count s - Suc i" by simp_all
  with Suc.hyps(1)[of "Suc i"] show ?case
    by (simp add: isEdge_loop_step find_upt_Suc)
qed

lemma move_loop_result:
  "views_agree ps \<Longrightarrow>
   move_loop d i ps = Inr (ps\<lparr>m_oriPoints := take i (m_oriPoints ps) @ map (\<lambda>q. q + d) (drop i (m_oriPoints ps)),
                             m_imgPoints := take i (m_imgPoints ps) @ map (\<lambda>q. q + d) (drop i (m_imgPoints ps))\<rparr>)"
proof (induction d i ps rule: move_loop.induct)
  case (1 d i ps)
  note len = views_agree_length[OF "1.prems"]
  show ?case
  proof (cases "i < length (m_oriPoints ps)")
    case True
    then have g: "int i < YPolygonPoints_size ps" by (simp add: YPolygonPoints_size_def)
    let ?q = "m_oriPoints ps ! i"
    let ?ps = "ps\<lparr>m_oriPoints := (m_oriPoints ps)[i := ?q + d],
                  m_imgPoints := (m_imgPoints ps)[i := ?q + d + pts_offset ps]\<rparr>"
    have r: "YPolygonPoints_replace (?q + d) (int i) ps = Inr ?ps"
      using replace_in_range[OF "1.prems", of "int i"] g by simp
    have "views_agree ?ps" using "1.prems" by (simp add: views_agree_def map_update)
    then have IH: "move_loop d (Suc i) ?ps = Inr (?ps\<lparr>
        m_oriPoints := take (Suc i) (m_oriPoints ?ps) @ map (\<lambda>q. q + d) (drop (Suc i) (m_oriPoints ?ps)),
        m_imgPoints := take (Suc i) (m_imgPoints ?ps) @ map (\<lambda>q. q + d) (drop (Suc i) (m_imgPoints ?ps))\<rparr>)"
      by (rule "1.IH"[OF g at_nat[OF True] r])
    have img: "m_imgPoints ps ! i = ?q + pts_offset ps"
      using "1.prems" True by (simp add: views_agree_def)
    have "move_loop d i ps = move_loop d (Suc i) ?ps"
      by (subst move_loop.simps) (simp only: g if_True at_nat[OF True] bind_result.simps r)
    then show ?thesis
      using True len img unfolding IH
      by (simp add: take_Suc_conv_app_nth drop_update_cancel Cons_nth_drop_Suc[symmetric] algebra_simps)
  next
    case False
    with len show ?thesis by (subst move_loop.simps) (simp add: YPolygonPoints_size_def)
  qed
qed

subsection \<open>Hit tests and edits\<close>

text \<open>
  \<^verbatim>\<open>isPtsHavPt\<close> never fails; it reports the first vertex whose Manhattan
  distance to the mouse is within the sense distance, and leaves \<^verbatim>\<open>pos\<close> alone
  if there is none.
\<close>

theorem isPtsHavPt_first_vertex:
  "Shape_isPtsHavPt s pt pos =
     Inr (case find (near_vertex s pt) [0..<vertex_count s] of
            None \<Rightarrow> (False, pos) | Some j \<Rightarrow> (True, int j))"
  by (simp add: Shape_isPtsHavPt_def isPts_loop_find)

lemma isEdgeHavPt_base_find:
  "Shape_isEdgeHavPt_base s pt pos =
     Inr (case find (near_edge s pt) [0..<vertex_count s] of
            None \<Rightarrow> (False, pos) | Some j \<Rightarrow> (True, int j + 1))"
proof (cases "vertex_count s < 2")
  case False
  then show ?thesis
    by (simp add: Shape_isEdgeHavPt_base_def YPolygonPoints_size_def isEdge_loop_find)
next
  case True
  have "\<not> near_edge s pt j" if "j < vertex_count s" for j
  proof -
    have "j = 0" "vertex_count s = 1" using that True by auto
    then have "edge_end s j = m_oriPoints (m_points s) ! j" by (simp add: edge_end_def)
    then show ?thesis by (simp add: near_edge_def judge_def Let_def)
  qed
  then have "find (near_edge s pt) [0..<vertex_count s] = None" by (auto simp: find_None_iff)
  with True show ?thesis by (simp add: Shape_isEdgeHavPt_base_def YPolygonPoints_size_def)
qed

lemma edge_hit_bounds:
  "Shape_isEdgeHavPt s pt pos0 = Inr (True, pos) \<Longrightarrow>
   1 \<le> pos \<and> pos \<le> YPolygonPoints_size (m_points s) \<and> dyn_class s \<notin> {yLine, yCurve} \<and>
   near_edge s pt (nat pos - 1)"
  by (auto simp: Shape_isEdgeHavPt_def isEdgeHavPt_base_find yLine_isEdgeHavPt_def yCurve_isEdgeHavPt_def
      YPolygonPoints_size_def find_Some_iff nat_add_distrib split: shape_class.splits option.splits)

text \<open>
  C21. An edge hit is real and the position it reports is where the new vertex belongs: some
  inner point of the edge before that position lies within the sense distance of the mouse, both
  ends of that edge are further away, and inserting at that position (what the next mouse move
  does, for a polygon or polyline) puts the mouse point between the two ends of the edge.
\<close>

theorem edge_hit_inserts_between_ends:
  assumes "Shape_isEdgeHavPt s pt pos0 = Inr (True, pos)" and "shape_wf s"
    and "dyn_class s = YPolygon \<or> dyn_class s = YPolyline"
  shows "\<exists>ps s'. ps = m_oriPoints (m_points s) \<and> 1 \<le> pos \<and> pos \<le> int (length ps) \<and>
     (of_int (m_senseDis s))\<^sup>2 < norm2 (ps ! (nat pos - 1) - pt) \<and>
     (of_int (m_senseDis s))\<^sup>2 < norm2 (edge_end s (nat pos - 1) - pt) \<and>
     (\<exists>t. 0 < t \<and> t < 1 \<and>
        norm2 (ps ! (nat pos - 1) + scaleP t (edge_end s (nat pos - 1) - ps ! (nat pos - 1)) - pt)
          \<le> (of_int (m_senseDis s))\<^sup>2) \<and>
     Shape_insertPoint pt pos s = Inr (True, s') \<and> shape_wf s' \<and>
     m_oriPoints (m_points s') = take (nat pos) ps @ pt # drop (nat pos) ps"
proof -
  let ?ps = "m_oriPoints (m_points s)"
  have hit: "1 \<le> pos" "pos \<le> int (length ?ps)" "near_edge s pt (nat pos - 1)"
    using edge_hit_bounds[OF assms(1)] by (auto simp: YPolygonPoints_size_def)
  have seg: "(of_int (m_senseDis s))\<^sup>2 < norm2 (?ps ! (nat pos - 1) - pt) \<and>
     (of_int (m_senseDis s))\<^sup>2 < norm2 (edge_end s (nat pos - 1) - pt) \<and>
     (\<exists>t. 0 < t \<and> t < 1 \<and>
        norm2 (?ps ! (nat pos - 1) + scaleP t (edge_end s (nat pos - 1) - ?ps ! (nat pos - 1)) - pt)
          \<le> (of_int (m_senseDis s))\<^sup>2)"
    using hit(3) by (simp add: near_edge_def judge_inner_point power2_eq_square)
  have "\<exists>s'. Shape_insertPoint_base pt pos s = Inr (True, s') \<and> shape_wf s' \<and>
     m_oriPoints (m_points s') = take (nat pos) ?ps @ pt # drop (nat pos) ?ps"
  proof (cases "pos = int (length ?ps)")
    case True
    then show ?thesis using assms(2)
      by (simp add: Shape_insertPoint_base_def YPolygonPoints_size_def shape_wf_def app_agree)
         (simp add: YPolygonPoints_append_def)
  next
    case False
    obtain b where "YPolygonPoints_insert pt pos (m_points s) = Inr b" "views_agree b"
        "m_oriPoints b = list_insert (nat pos) pt ?ps"
      using ypts.ins_law[of "m_points s" pos pt] assms(2) hit by (auto simp: shape_wf_def)
    with False hit show ?thesis
      by (simp add: Shape_insertPoint_base_def YPolygonPoints_size_def shape_wf_def list_insert_def)
  qed
  with hit seg assms(3) show ?thesis by (auto simp: Shape_insertPoint_def)
qed

definition sample_triangle :: Shape where
  "sample_triangle = (Shape_new YPolygon Polygon)\<lparr>m_points :=
     \<lparr>m_imgPoints = [QPointF 0 0, QPointF 100 0, QPointF 100 100],
      m_oriPoints = [QPointF 0 0, QPointF 100 0, QPointF 100 100], pts_offset = QPointF 0 0\<rparr>\<rparr>"

lemma sample_triangle_hit:
  "Shape_isEdgeHavPt sample_triangle (QPointF 50 3) (-1) = Inr (True, 1)"
  by (simp add: Shape_isEdgeHavPt_def Shape_isEdgeHavPt_base_def sample_triangle_def Shape_new_def
      isEdge_loop.simps YPolygonPoints_size_def YPolygonPoints_at_def vec_at_def judge_def Circle_of_def
      GetFootOfPerpendicular_def manhattanLength_def Let_def)

theorem edge_hit_inserts_between_ends_witness:
  "\<exists>s'. Shape_insertPoint (QPointF 50 3) 1 sample_triangle = Inr (True, s') \<and>
     m_oriPoints (m_points s') = [QPointF 0 0, QPointF 50 3, QPointF 100 0, QPointF 100 100]"
  using edge_hit_inserts_between_ends[OF sample_triangle_hit]
  by (auto simp: sample_triangle_def Shape_new_def shape_wf_def views_agree_def zero_QPointF_def[symmetric])

lemma Shape_move_result:
  "shape_wf s \<Longrightarrow> Shape_move d s = Inr (True, s\<lparr>m_points := (m_points s)
     \<lparr>m_oriPoints := map (\<lambda>q. q + d) (m_oriPoints (m_points s)),
      m_imgPoints := map (\<lambda>q. q + d) (m_imgPoints (m_points s))\<rparr>\<rparr>)"
  by (simp add: Shape_move_def shape_wf_def move_loop_result)

text \<open>
  C22. Dragging a shape is a rigid translation: \<^verbatim>\<open>move\<close> always succeeds, adds the
  same vector to every vertex of both views, keeps the views in agreement and changes nothing
  else; moving back restores the shape.
\<close>

theorem move_translates:
  assumes "shape_wf s"
  shows "\<exists>s'. Shape_move d s = Inr (True, s') \<and> shape_wf s' \<and>
     m_oriPoints (m_points s') = map (\<lambda>q. q + d) (m_oriPoints (m_points s)) \<and>
     m_imgPoints (m_points s') = map (\<lambda>q. q + d) (m_imgPoints (m_points s)) \<and>
     s'\<lparr>m_points := m_points s\<rparr> = s \<and> Shape_move (- d) s' = Inr (True, s)"
proof -
  let ?s = "s\<lparr>m_points := (m_points s)\<lparr>m_oriPoints := map (\<lambda>q. q + d) (m_oriPoints (m_points s)),
      m_imgPoints := map (\<lambda>q. q + d) (m_imgPoints (m_points s))\<rparr>\<rparr>"
  have wf: "shape_wf ?s"
    using assms by (simp add: shape_wf_def views_agree_def algebra_simps)
  have "Shape_move (- d) ?s = Inr (True, s)"
    using Shape_move_result[OF wf, of "- d"] by (simp add: comp_def)
  with wf show ?thesis using Shape_move_result[OF assms, of d] by simp
qed

theorem move_translates_witness:
  "\<exists>s'. Shape_move (QPointF 5 (-5)) sample_triangle = Inr (True, s') \<and>
     Shape_move (- QPointF 5 (-5)) s' = Inr (True, sample_triangle)"
  using move_translates[of sample_triangle "QPointF 5 (-5)"]
  by (auto simp: shape_wf_def views_agree_def sample_triangle_def Shape_new_def zero_QPointF_def[symmetric])

lemma updatePoint_in_range:
  assumes "shape_wf s" "0 \<le> pos" "pos < YPolygonPoints_size (m_points s)"
  shows "\<exists>b. Shape_updatePoint p pos s = Inr (True, s\<lparr>m_points := b\<rparr>) \<and> views_agree b \<and>
     m_oriPoints b = (m_oriPoints (m_points s))[nat pos := p] \<and> pts_offset b = pts_offset (m_points s)"
  using assms ypts.repl_law[of "m_points s" pos p]
  by (auto simp: Shape_updatePoint_def shape_wf_def YPolygonPoints_size_def)

text \<open>
  \<^verbatim>\<open>updatePoint\<close> either replaces exactly the addressed vertex, in both views,
  or throws the \<^verbatim>\<open>ShapeException\<close>; it never reads outside the vector.
\<close>

theorem updatePoint_replaces_or_throws:
  assumes "shape_wf s"
  shows "if 0 \<le> pos \<and> pos < int (vertex_count s)
     then \<exists>s'. Shape_updatePoint p pos s = Inr (True, s') \<and> shape_wf s' \<and>
            m_oriPoints (m_points s') = (m_oriPoints (m_points s))[nat pos := p] \<and>
            m_imgPoints (m_points s') = (m_imgPoints (m_points s))[nat pos := p + pts_offset (m_points s)]
     else Shape_updatePoint p pos s = Inl (ShapeException ''<pos> out of range'')"
proof (cases "0 \<le> pos \<and> pos < int (vertex_count s)")
  case True
  then obtain b where b: "Shape_updatePoint p pos s = Inr (True, s\<lparr>m_points := b\<rparr>)" "views_agree b"
      "m_oriPoints b = (m_oriPoints (m_points s))[nat pos := p]" "pts_offset b = pts_offset (m_points s)"
    using updatePoint_in_range[OF assms] by (auto simp: YPolygonPoints_size_def)
  with assms have "m_imgPoints b = (m_imgPoints (m_points s))[nat pos := p + pts_offset (m_points s)]"
    by (simp add: views_agree_def shape_wf_def map_update)
  with True b show ?thesis by (auto simp: shape_wf_def)
next
  case False
  then show ?thesis by (auto simp: Shape_updatePoint_def YPolygonPoints_size_def)
qed

theorem updatePoint_replaces_or_throws_witness:
  "(\<exists>s'. Shape_updatePoint (QPointF 1 1) 0 sample_triangle = Inr (True, s')) \<and>
   Shape_updatePoint (QPointF 1 1) 3 sample_triangle = Inl (ShapeException ''<pos> out of range'')"
proof -
  have wf: "shape_wf sample_triangle"
    by (simp add: shape_wf_def views_agree_def sample_triangle_def zero_QPointF_def[symmetric])
  have "vertex_count sample_triangle = 3" by (simp add: sample_triangle_def)
  with updatePoint_replaces_or_throws[OF wf, of 0 "QPointF 1 1"]
    updatePoint_replaces_or_throws[OF wf, of 3 "QPointF 1 1"]
  show ?thesis by auto
qed

lemma insertPoint_wf: "shape_wf s \<Longrightarrow> Shape_insertPoint p i s = Inr (b, s') \<Longrightarrow> shape_wf s'"
  by (auto simp: Shape_insertPoint_def Shape_insertPoint_base_def YRectangle_insertPoint_def
      yLine_insertPoint_def yCurve_insertPoint_def shape_wf_def YPolygonPoints_append_def YPolygonPoints_insert_def
      vec_insert_def views_agree_def map_list_insert split: shape_class.splits if_splits)

lemma deletePoint_wf: "shape_wf s \<Longrightarrow> Shape_deletePoint i s = Inr s' \<Longrightarrow> shape_wf s'"
  by (auto simp: Shape_deletePoint_def shape_wf_def YPolygonPoints_erase_def vec_erase_def
      views_agree_def map_list_remove split: if_splits)

lemma appendPoint_wf: "shape_wf s \<Longrightarrow> shape_wf (Shape_appendPoint p s)"
  by (simp add: Shape_appendPoint_def shape_wf_def app_agree)

lemma insertPoint_total: "shape_wf s \<Longrightarrow> \<exists>b s'. Shape_insertPoint p i s = Inr (b, s')"
  using insert_in_range[of "m_points s" i p]
  by (auto simp: Shape_insertPoint_def Shape_insertPoint_base_def YRectangle_insertPoint_def
      yLine_insertPoint_def yCurve_insertPoint_def shape_wf_def split: shape_class.splits)

lemma isAreaHavPt_total: "\<exists>b. Shape_isAreaHavPt cp s p = Inr b"
  by (auto simp: Shape_isAreaHavPt_def YRectangle_isAreaHavPt_def YPolygonPoints_size_def
      YPolygonPoints_getOriPoints_def vec_at_def split: shape_class.splits)

lemma isEdgeHavPt_total: "\<exists>r. Shape_isEdgeHavPt s pt pos = Inr r"
  by (auto simp: Shape_isEdgeHavPt_def isEdgeHavPt_base_find yLine_isEdgeHavPt_def
      yCurve_isEdgeHavPt_def split: shape_class.splits)

lemma isPtsHavPt_total: "\<exists>r. Shape_isPtsHavPt s pt pos = Inr r"
  by (simp add: Shape_isPtsHavPt_def isPts_loop_find)

lemma isPtsHavPt_bounds:
  "Shape_isPtsHavPt s pt pos0 = Inr (True, pos) \<Longrightarrow> 0 \<le> pos \<and> pos < int (vertex_count s)"
  by (auto simp: Shape_isPtsHavPt_def isPts_loop_find find_Some_iff split: option.splits)

end
