(* ===== verification/Grisu2.thy ===== *)
theory Grisu2
  imports Prelude
begin

text \<open>
  The digits of a double: namespace \<^verbatim>\<open>dtoa_impl\<close> of \<^verbatim>\<open>3rd/nlohmannJson/json.hpp\<close>, the
  algorithm Grisu2. A double is given by its 64 bits. The arithmetic is that of
  \<^verbatim>\<open>uint64_t\<close> and \<^verbatim>\<open>uint32_t\<close>, numbers that wrap around at their width; an assertion that
  fails is undefined.
\<close>

subsection \<open>Machine numbers\<close>

definition u64 :: "nat \<Rightarrow> nat" where "u64 n = n mod 2 ^ 64"
definition u32 :: "nat \<Rightarrow> nat" where "u32 n = n mod 2 ^ 32"

lemma u64_id [simp]: "n < 2 ^ 64 \<Longrightarrow> u64 n = n"
  by (simp add: u64_def)

lemma u32_id [simp]: "n < 2 ^ 32 \<Longrightarrow> u32 n = n"
  by (simp add: u32_def)

definition JSON_ASSERT :: "bool \<Rightarrow> 'a result \<Rightarrow> 'a result" where
  "JSON_ASSERT b r = (if b then r else Inl (Undefined ''JSON_ASSERT''))"

lemma JSON_ASSERT_simps [simp]: "JSON_ASSERT True r = r" "JSON_ASSERT b r = Inr x \<longleftrightarrow> b \<and> r = Inr x"
  by (simp_all add: JSON_ASSERT_def)

subsection \<open>Numbers with a 64-bit significand\<close>

record diyfp =
  fp_f :: nat
  fp_e :: int

definition diyfp_sub :: "diyfp \<Rightarrow> diyfp \<Rightarrow> diyfp result" where
  "diyfp_sub x y =
     JSON_ASSERT (fp_e x = fp_e y) (JSON_ASSERT (fp_f y \<le> fp_f x) (Inr \<lparr>fp_f = fp_f x - fp_f y, fp_e = fp_e x\<rparr>))"

definition diyfp_mul :: "diyfp \<Rightarrow> diyfp \<Rightarrow> diyfp" where
  "diyfp_mul x y =
     (let u_lo = fp_f x mod 2 ^ 32; u_hi = fp_f x div 2 ^ 32;
          v_lo = fp_f y mod 2 ^ 32; v_hi = fp_f y div 2 ^ 32;
          p0 = u64 (u_lo * v_lo); p1 = u64 (u_lo * v_hi); p2 = u64 (u_hi * v_lo); p3 = u64 (u_hi * v_hi);
          p0_hi = p0 div 2 ^ 32;
          p1_lo = p1 mod 2 ^ 32; p1_hi = p1 div 2 ^ 32;
          p2_lo = p2 mod 2 ^ 32; p2_hi = p2 div 2 ^ 32;
          Q = u64 (p0_hi + p1_lo + p2_lo);
          Q' = u64 (Q + 2 ^ 31);
          h = u64 (p3 + p2_hi + p1_hi + Q' div 2 ^ 32)
      in \<lparr>fp_f = h, fp_e = fp_e x + fp_e y + 64\<rparr>)"

function normalize_loop :: "diyfp \<Rightarrow> diyfp" where
  "normalize_loop x =
     (if fp_f x \<noteq> 0 \<and> fp_f x div 2 ^ 63 = 0 then normalize_loop \<lparr>fp_f = u64 (2 * fp_f x), fp_e = fp_e x - 1\<rparr> else x)"
  by pat_completeness auto
termination
  by (relation "measure (\<lambda>x. 2 ^ 63 - fp_f x)") (auto simp: u64_def div_eq_0_iff)

declare normalize_loop.simps [simp del]

definition diyfp_normalize :: "diyfp \<Rightarrow> diyfp result" where
  "diyfp_normalize x = JSON_ASSERT (fp_f x \<noteq> 0) (Inr (normalize_loop x))"

text \<open>A shift by 64 or more is undefined as well.\<close>

definition diyfp_normalize_to :: "diyfp \<Rightarrow> int \<Rightarrow> diyfp result" where
  "diyfp_normalize_to x target_exponent =
     (let delta = fp_e x - target_exponent
      in JSON_ASSERT (0 \<le> delta \<and> delta < 64) (
         JSON_ASSERT (u64 (fp_f x * 2 ^ nat delta) div 2 ^ nat delta = fp_f x) (
         Inr \<lparr>fp_f = u64 (fp_f x * 2 ^ nat delta), fp_e = target_exponent\<rparr>)))"

subsection \<open>The boundaries of a double\<close>

record boundaries =
  b_w :: diyfp
  b_minus :: diyfp
  b_plus :: diyfp

text \<open>The bits of infinity; those of positive finite doubles are smaller.\<close>

definition infinity_bits :: nat where
  "infinity_bits = 2047 * 2 ^ 52"

definition double_diyfp :: "nat \<Rightarrow> diyfp" where
  "double_diyfp bits =
     (let E = bits div 2 ^ 52; F = bits mod 2 ^ 52
      in if E = 0 then \<lparr>fp_f = F, fp_e = - 1074\<rparr> else \<lparr>fp_f = F + 2 ^ 52, fp_e = int E - 1075\<rparr>)"

definition m_plus :: "nat \<Rightarrow> diyfp" where
  "m_plus bits = (let v = double_diyfp bits in \<lparr>fp_f = 2 * fp_f v + 1, fp_e = fp_e v - 1\<rparr>)"

definition m_minus :: "nat \<Rightarrow> diyfp" where
  "m_minus bits =
     (let v = double_diyfp bits; E = bits div 2 ^ 52; F = bits mod 2 ^ 52
      in if F = 0 \<and> E > 1 then \<lparr>fp_f = 4 * fp_f v - 1, fp_e = fp_e v - 2\<rparr>
         else \<lparr>fp_f = 2 * fp_f v - 1, fp_e = fp_e v - 1\<rparr>)"

definition compute_boundaries :: "nat \<Rightarrow> boundaries result" where
  "compute_boundaries bits =
     JSON_ASSERT (bits < infinity_bits) (JSON_ASSERT (bits > 0) (
     bind_result (diyfp_normalize (m_plus bits)) (\<lambda>w_plus.
     bind_result (diyfp_normalize_to (m_minus bits) (fp_e w_plus)) (\<lambda>w_minus.
     bind_result (diyfp_normalize (double_diyfp bits)) (\<lambda>w.
     Inr \<lparr>b_w = w, b_minus = w_minus, b_plus = w_plus\<rparr>)))))"

subsection \<open>Powers of ten\<close>

text \<open>Entries \<^verbatim>\<open>(f, e, k)\<close> with \<^verbatim>\<open>f * 2^e\<close> near \<^verbatim>\<open>10^k\<close>\<close>

definition kCachedPowers :: "(nat \<times> int \<times> int) list" where
  "kCachedPowers =
     [(0xAB70FE17C79AC6CA, - 1060, - 300), (0xFF77B1FCBEBCDC4F, - 1034, - 292), (0xBE5691EF416BD60C, - 1007, - 284),
      (0x8DD01FAD907FFC3C, - 980, - 276), (0xD3515C2831559A83, - 954, - 268), (0x9D71AC8FADA6C9B5, - 927, - 260),
      (0xEA9C227723EE8BCB, - 901, - 252), (0xAECC49914078536D, - 874, - 244), (0x823C12795DB6CE57, - 847, - 236),
      (0xC21094364DFB5637, - 821, - 228), (0x9096EA6F3848984F, - 794, - 220), (0xD77485CB25823AC7, - 768, - 212),
      (0xA086CFCD97BF97F4, - 741, - 204), (0xEF340A98172AACE5, - 715, - 196), (0xB23867FB2A35B28E, - 688, - 188),
      (0x84C8D4DFD2C63F3B, - 661, - 180), (0xC5DD44271AD3CDBA, - 635, - 172), (0x936B9FCEBB25C996, - 608, - 164),
      (0xDBAC6C247D62A584, - 582, - 156), (0xA3AB66580D5FDAF6, - 555, - 148), (0xF3E2F893DEC3F126, - 529, - 140),
      (0xB5B5ADA8AAFF80B8, - 502, - 132), (0x87625F056C7C4A8B, - 475, - 124), (0xC9BCFF6034C13053, - 449, - 116),
      (0x964E858C91BA2655, - 422, - 108), (0xDFF9772470297EBD, - 396, - 100), (0xA6DFBD9FB8E5B88F, - 369, - 92),
      (0xF8A95FCF88747D94, - 343, - 84), (0xB94470938FA89BCF, - 316, - 76), (0x8A08F0F8BF0F156B, - 289, - 68),
      (0xCDB02555653131B6, - 263, - 60), (0x993FE2C6D07B7FAC, - 236, - 52), (0xE45C10C42A2B3B06, - 210, - 44),
      (0xAA242499697392D3, - 183, - 36), (0xFD87B5F28300CA0E, - 157, - 28), (0xBCE5086492111AEB, - 130, - 20),
      (0x8CBCCC096F5088CC, - 103, - 12), (0xD1B71758E219652C, - 77, - 4), (0x9C40000000000000, - 50, 4),
      (0xE8D4A51000000000, - 24, 12), (0xAD78EBC5AC620000, 3, 20), (0x813F3978F8940984, 30, 28),
      (0xC097CE7BC90715B3, 56, 36), (0x8F7E32CE7BEA5C70, 83, 44), (0xD5D238A4ABE98068, 109, 52),
      (0x9F4F2726179A2245, 136, 60), (0xED63A231D4C4FB27, 162, 68), (0xB0DE65388CC8ADA8, 189, 76),
      (0x83C7088E1AAB65DB, 216, 84), (0xC45D1DF942711D9A, 242, 92), (0x924D692CA61BE758, 269, 100),
      (0xDA01EE641A708DEA, 295, 108), (0xA26DA3999AEF774A, 322, 116), (0xF209787BB47D6B85, 348, 124),
      (0xB454E4A179DD1877, 375, 132), (0x865B86925B9BC5C2, 402, 140), (0xC83553C5C8965D3D, 428, 148),
      (0x952AB45CFA97A0B3, 455, 156), (0xDE469FBD99A05FE3, 481, 164), (0xA59BC234DB398C25, 508, 172),
      (0xF6C69A72A3989F5C, 534, 180), (0xB7DCBF5354E9BECE, 561, 188), (0x88FCF317F22241E2, 588, 196),
      (0xCC20CE9BD35C78A5, 614, 204), (0x98165AF37B2153DF, 641, 212), (0xE2A0B5DC971F303A, 667, 220),
      (0xA8D9D1535CE3B396, 694, 228), (0xFB9B7CD9A4A7443C, 720, 236), (0xBB764C4CA7A44410, 747, 244),
      (0x8BAB8EEFB6409C1A, 774, 252), (0xD01FEF10A657842C, 800, 260), (0x9B10A4E5E9913129, 827, 268),
      (0xE7109BFBA19C0C9D, 853, 276), (0xAC2820D9623BF429, 880, 284), (0x80444B5E7AA7CF85, 907, 292),
      (0xBF21E44003ACDD2D, 933, 300), (0x8E679C2F5E44FF8F, 960, 308), (0xD433179D9C8CB841, 986, 316),
      (0x9E19DB92B4E31BA9, 1013, 324)]"

definition kAlpha :: int where "kAlpha = - 60"
definition kGamma :: int where "kGamma = - 32"

definition get_cached_power_for_binary_exponent :: "int \<Rightarrow> (nat \<times> int \<times> int) result" where
  "get_cached_power_for_binary_exponent e =
     JSON_ASSERT (- 1500 \<le> e) (JSON_ASSERT (e \<le> 1500) (
     let f = kAlpha - e - 1;
         k = c_div (f * 78913) (2 ^ 18) + (if f > 0 then 1 else 0);
         index = c_div (300 + k + (8 - 1)) 8
     in JSON_ASSERT (0 \<le> index) (JSON_ASSERT (index < 79) (
        case kCachedPowers ! nat index of (cf, ce, ck) \<Rightarrow>
          JSON_ASSERT (kAlpha \<le> ce + e + 64) (JSON_ASSERT (ce + e + 64 \<le> kGamma) (Inr (cf, ce, ck)))))))"

subsection \<open>Digits\<close>

text \<open>The number of digits, and the power of ten of the first one\<close>

definition find_largest_pow10 :: "nat \<Rightarrow> nat \<times> nat" where
  "find_largest_pow10 n =
     (if n \<ge> 1000000000 then (10, 1000000000)
      else if n \<ge> 100000000 then (9, 100000000)
      else if n \<ge> 10000000 then (8, 10000000)
      else if n \<ge> 1000000 then (7, 1000000)
      else if n \<ge> 100000 then (6, 100000)
      else if n \<ge> 10000 then (5, 10000)
      else if n \<ge> 1000 then (4, 1000)
      else if n \<ge> 100 then (3, 100)
      else if n \<ge> 10 then (2, 10)
      else (1, 1))"

text \<open>
  Decrementing the last digit while this brings the number closer to \<^verbatim>\<open>w\<close>. The tests come in an
  order in which no sum or difference wraps around.
\<close>

definition decrement_last :: "string \<Rightarrow> string" where
  "decrement_last buf = butlast buf @ [char_of (of_char (last buf) - 1 :: nat)]"

function round_loop :: "string \<Rightarrow> nat \<Rightarrow> nat \<Rightarrow> nat \<Rightarrow> nat \<Rightarrow> string result" where
  "round_loop buf distance delta rest ten_k =
     (if ten_k > 0 \<and> rest < distance \<and> delta - rest \<ge> ten_k \<and> (rest + ten_k < distance \<or> distance - rest > rest + ten_k - distance)
      then JSON_ASSERT (last buf \<noteq> CHR ''0'') (round_loop (decrement_last buf) distance delta (rest + ten_k) ten_k)
      else Inr buf)"
  by pat_completeness auto
termination
  by (relation "measure (\<lambda>(buf, distance, delta, rest, ten_k). distance - rest)") auto

declare round_loop.simps [simp del]

definition grisu2_round :: "string \<Rightarrow> nat \<Rightarrow> nat \<Rightarrow> nat \<Rightarrow> nat \<Rightarrow> string result" where
  "grisu2_round buf distance delta rest ten_k =
     JSON_ASSERT (length buf \<ge> 1) (JSON_ASSERT (distance \<le> delta) (JSON_ASSERT (rest \<le> delta) (JSON_ASSERT (ten_k > 0) (
     round_loop buf distance delta rest ten_k))))"

text \<open>
  The loop over the digits behind the point, with \<^verbatim>\<open>2^s\<close> for \<^verbatim>\<open>one\<close>. Every turn shifts a
  factor of two out of the fraction, so that the loop ends.
\<close>

lemma factors_shrink:
  assumes "0 < (10 * p) mod 2 ^ s"
  shows "card {j. j \<le> s \<and> \<not> 2 ^ j dvd (10 * p) mod (2 ^ s :: nat)} < card {j. j \<le> s \<and> \<not> 2 ^ j dvd p}"
proof (rule psubset_card_mono)
  have d: "2 ^ j dvd (10 * p) mod (2 ^ s :: nat)" if "2 ^ j dvd 10 * p" "j \<le> s" for j
    using that by (simp add: dvd_mod_iff le_imp_power_dvd)
  let ?S = "{j. j \<le> s \<and> \<not> 2 ^ j dvd p}"
  have "\<not> 2 ^ s dvd p" using assms by (metis dvd_imp_mod_0 dvd_mult less_irrefl)
  then have s: "s \<in> ?S" by simp
  define j where "j = (LEAST j. \<not> 2 ^ j dvd p)"
  have j: "\<not> 2 ^ j dvd p" "j \<le> s" using s LeastI[of "\<lambda>j. \<not> 2 ^ j dvd p" s] Least_le[of "\<lambda>j. \<not> 2 ^ j dvd p" s] by (simp_all add: j_def)
  then obtain i where i: "j = Suc i" by (cases j) auto
  have "2 ^ i dvd p" using not_less_Least[of i "\<lambda>j. \<not> 2 ^ j dvd p"] by (simp add: j_def[symmetric] i)
  then have "2 ^ j dvd 10 * p" using mult_dvd_mono[of 2 10 "2 ^ i" p] by (simp add: i)
  with d[of j] j show "{j. j \<le> s \<and> \<not> 2 ^ j dvd (10 * p) mod 2 ^ s} \<subset> ?S" using d by (auto intro: dvd_mult)
qed simp

function fraction_loop :: "nat \<Rightarrow> nat \<Rightarrow> nat \<Rightarrow> nat \<Rightarrow> nat \<Rightarrow> string \<Rightarrow> int \<Rightarrow> (string \<times> int) result" where
  "fraction_loop s p2 delta distance m buffer decimal_exponent =
     JSON_ASSERT (p2 \<le> (2 ^ 64 - 1) div 10) (
     let p2' = 10 * p2; d = p2' div 2 ^ s; r = p2' mod 2 ^ s
     in JSON_ASSERT (d \<le> 9) (
        let buffer' = buffer @ [digit_char d]; m' = m + 1; delta' = u64 (10 * delta); distance' = u64 (10 * distance)
        in if r \<le> delta'
           then bind_result (grisu2_round buffer' distance' delta' r (2 ^ s)) (\<lambda>b. Inr (b, decimal_exponent - int m'))
           else fraction_loop s r delta' distance' m' buffer' decimal_exponent))"
  by pat_completeness auto
termination
  by (relation "measure (\<lambda>(s, p2, delta, distance, m, buffer, dec). card {j. j \<le> s \<and> \<not> 2 ^ j dvd p2})") (auto intro!: factors_shrink)

declare fraction_loop.simps [simp del]

text \<open>The loop over the digits before the point\<close>

fun integral_loop :: "nat \<Rightarrow> nat \<Rightarrow> nat \<Rightarrow> nat \<Rightarrow> nat \<Rightarrow> nat \<Rightarrow> nat \<Rightarrow> string \<Rightarrow> int \<Rightarrow> (string \<times> int) result" where
  "integral_loop s p2 delta distance 0 p1 pow10 buffer decimal_exponent =
     JSON_ASSERT (p2 > delta) (fraction_loop s p2 delta distance 0 buffer decimal_exponent)"
| "integral_loop s p2 delta distance (Suc n) p1 pow10 buffer decimal_exponent =
     (let d = p1 div pow10; r = p1 mod pow10
      in JSON_ASSERT (d \<le> 9) (
         let buffer' = buffer @ [digit_char d]; rest = u64 (u64 (r * 2 ^ s) + p2)
         in if rest \<le> delta
            then bind_result (grisu2_round buffer' distance delta rest (u64 (pow10 * 2 ^ s))) (\<lambda>b. Inr (b, decimal_exponent + int n))
            else integral_loop s p2 delta distance n r (pow10 div 10) buffer' decimal_exponent))"

definition grisu2_digit_gen :: "int \<Rightarrow> diyfp \<Rightarrow> diyfp \<Rightarrow> diyfp \<Rightarrow> (string \<times> int) result" where
  "grisu2_digit_gen decimal_exponent M_minus w M_plus =
     JSON_ASSERT (kAlpha \<le> fp_e M_plus) (JSON_ASSERT (fp_e M_plus \<le> kGamma) (
     bind_result (diyfp_sub M_plus M_minus) (\<lambda>delta.
     bind_result (diyfp_sub M_plus w) (\<lambda>distance.
     let s = nat (- fp_e M_plus);
         p1 = u32 (fp_f M_plus div 2 ^ s);
         p2 = fp_f M_plus mod 2 ^ s
     in JSON_ASSERT (p1 > 0) (
        case find_largest_pow10 p1 of (k, pow10) \<Rightarrow>
          integral_loop s p2 (fp_f delta) (fp_f distance) k p1 pow10 [] decimal_exponent)))))"

definition grisu2_boundaries :: "diyfp \<Rightarrow> diyfp \<Rightarrow> diyfp \<Rightarrow> (string \<times> int) result" where
  "grisu2_boundaries mm v mp =
     JSON_ASSERT (fp_e mp = fp_e mm) (JSON_ASSERT (fp_e mp = fp_e v) (
     bind_result (get_cached_power_for_binary_exponent (fp_e mp)) (\<lambda>(cf, ce, ck).
     let c_minus_k = \<lparr>fp_f = cf, fp_e = ce\<rparr>;
         w = diyfp_mul v c_minus_k; w_minus = diyfp_mul mm c_minus_k; w_plus = diyfp_mul mp c_minus_k;
         M_minus = \<lparr>fp_f = u64 (fp_f w_minus + 1), fp_e = fp_e w_minus\<rparr>;
         M_plus = \<lparr>fp_f = u64 (fp_f w_plus + 2 ^ 64 - 1), fp_e = fp_e w_plus\<rparr>
     in grisu2_digit_gen (- ck) M_minus w M_plus)))"

definition grisu2 :: "nat \<Rightarrow> (string \<times> int) result" where
  "grisu2 bits = bind_result (compute_boundaries bits) (\<lambda>w. grisu2_boundaries (b_minus w) (b_w w) (b_plus w))"

end
