(* ===== verification/Rounding.thy ===== *)
theory Rounding
  imports Grisu2
begin

text \<open>
  The doubles of IEEE 754 and rounding to them: the nearest double of an exact number, ties to even. It
  is what \<^verbatim>\<open>strtod\<close> returns for a numeral, with no value for an overflow, and what the
  operations of the sources on doubles and the conversion of an integer to a double give, each rounded
  on its own. The one zero of the model stands for both zeros of the format.
\<close>

subsection \<open>Rounding\<close>

definition fp_value :: "diyfp \<Rightarrow> rat" where
  "fp_value x = of_nat (fp_f x) * 2 powi fp_e x"

text \<open>The value of the double with the given bits; the sign is kept apart.\<close>

definition double_value :: "nat \<Rightarrow> rat" where
  "double_value bits = fp_value (double_diyfp bits)"

definition round_half_even :: "rat \<Rightarrow> nat" where
  "round_half_even q =
     (let n = nat \<lfloor>q\<rfloor>; d = q - of_nat n in if d < 1 / 2 \<or> d = 1 / 2 \<and> even n then n else n + 1)"

text \<open>The exponent of the last place, and the number in units of it\<close>

function last_place :: "int \<Rightarrow> rat \<Rightarrow> int \<times> rat" where
  "last_place e q = (if q \<ge> 2 ^ 53 then last_place (e + 1) (q / 2) else (e, q))"
  by pat_completeness auto
termination
  by (relation "measure (\<lambda>(e, q). nat \<lceil>q\<rceil>)") (auto, linarith)

declare last_place.simps [simp del]

text \<open>
  The bits of the nearest double, for a number that is not negative. A significand that is rounded up to
  the next power of two carries into the exponent.
\<close>

definition round_bits :: "rat \<Rightarrow> nat" where
  "round_bits r = (case last_place (- 1074) (r / 2 powi (- 1074)) of (e, q) \<Rightarrow> nat (e + 1074) * 2 ^ 52 + round_half_even q)"

definition strtod_round :: "rat \<Rightarrow> rat option" where
  "strtod_round r = (let b = round_bits \<bar>r\<bar> in if b < infinity_bits then Some (sgn r * double_value b) else None)"

definition is_double :: "rat \<Rightarrow> bool" where
  "is_double r \<longleftrightarrow> strtod_round r = Some r"

lemma double_parts:
  assumes "0 < bits" "bits < infinity_bits"
  defines "v \<equiv> double_diyfp bits"
  shows "0 < fp_f v" "fp_f v < 2 ^ 53" "- 1074 \<le> fp_e v" "fp_e v \<le> 971" "bits mod 2 ^ 52 = 0 \<and> bits div 2 ^ 52 > 1 \<Longrightarrow> fp_f v = 2 ^ 52"
proof -
  have E: "bits div 2 ^ 52 < 2047" using assms(2) by (simp add: infinity_bits_def less_mult_imp_div_less)
  have F: "bits mod 2 ^ 52 < 2 ^ 52" by simp
  have "bits mod 2 ^ 52 \<noteq> 0" if "bits div 2 ^ 52 = 0" using assms(1) that div_mult_mod_eq[of bits "2 ^ 52"] by simp
  then show "0 < fp_f v" by (auto simp: v_def double_diyfp_def Let_def)
  show "fp_f v < 2 ^ 53" using F by (auto simp: v_def double_diyfp_def Let_def div_eq_0_iff)
  show "- 1074 \<le> fp_e v" "fp_e v \<le> 971" using E by (simp_all add: v_def double_diyfp_def Let_def)
  show "fp_f v = 2 ^ 52" if "bits mod 2 ^ 52 = 0 \<and> bits div 2 ^ 52 > 1" using that by (simp add: v_def double_diyfp_def Let_def)
qed

lemma round_near: "\<bar>q - of_nat n\<bar> < 1 / 2 \<Longrightarrow> 0 \<le> q \<Longrightarrow> round_half_even q = n"
proof -
  assume a: "\<bar>q - of_nat n\<bar> < 1 / 2" "0 \<le> q"
  show ?thesis
  proof (cases "q < of_nat n")
    case False
    then have "nat \<lfloor>q\<rfloor> = n" using a by (simp add: floor_eq_iff nat_eq_iff)
    with False a show ?thesis by (simp add: round_half_even_def Let_def)
  next
    case True
    then obtain m where m: "n = Suc m" using a(2) by (cases n) auto
    then have "\<lfloor>q\<rfloor> = int m" using a True by (simp add: floor_eq_iff)
    moreover have "1 / 2 < q - of_nat m" using a(1) unfolding m by (simp add: abs_if split: if_splits)
    ultimately show ?thesis using m by (simp add: round_half_even_def Let_def)
  qed
qed

lemma last_place_shift:
  "q < 2 ^ 53 \<Longrightarrow> k = 0 \<or> q \<ge> 2 ^ 52 \<Longrightarrow> last_place e (q * 2 ^ k) = (e + int k, q)"
proof (induction k arbitrary: e)
  case 0
  then show ?case by (subst last_place.simps) simp
next
  case (Suc k)
  have "(1 :: rat) \<le> 2 ^ k" by simp
  then have "2 ^ 52 * 1 \<le> q * 2 ^ k" using Suc.prems(2) by (intro mult_mono) simp_all
  then show ?case using Suc.IH[of "e + 1"] Suc.prems by (subst last_place.simps) simp
qed

lemma powi_quotient: "e \<le> e' \<Longrightarrow> (2 powi e' :: rat) / 2 powi e = 2 ^ nat (e' - e)"
  using power_int_diff[of "2 :: rat" e' e] by (simp add: power_int_def[of _ "e' - e"])

lemma last_place_unit:
  assumes "- 1074 \<le> e" "r = q * 2 powi e" "q < 2 ^ 53" "e = - 1074 \<or> q \<ge> 2 ^ 52"
  shows "last_place (- 1074) (r / 2 powi (- 1074)) = (e, q)"
proof -
  have "(2 powi e :: rat) / 2 powi (- 1074) = 2 ^ nat (e - (- 1074))" using assms(1) by (rule powi_quotient)
  also have "\<dots> = 2 ^ nat (e + 1074)" by simp
  finally have "r / 2 powi (- 1074) = q * 2 ^ nat (e + 1074)" unfolding assms(2) by (metis times_divide_eq_right)
  moreover have "last_place (- 1074) (q * 2 ^ nat (e + 1074)) = (e, q)"
    using last_place_shift[of q "nat (e + 1074)" "- 1074"] assms(1,3,4) by auto
  ultimately show ?thesis by (simp only:)
qed

lemma round_bits_unit:
  assumes "- 1074 \<le> e" "r = q * 2 powi e" "0 \<le> q" "q < 2 ^ 53" "e = - 1074 \<or> q \<ge> 2 ^ 52" "\<bar>q - of_nat n\<bar> < 1 / 2"
  shows "round_bits r = nat (e + 1074) * 2 ^ 52 + n"
  using last_place_unit[OF assms(1,2,4,5)] round_near[OF assms(6,3)] by (simp add: round_bits_def)

lemma double_bits: "nat (fp_e (double_diyfp b) + 1074) * 2 ^ 52 + fp_f (double_diyfp b) = b"
proof (cases "b div 2 ^ 52")
  case 0
  then show ?thesis by (simp add: double_diyfp_def Let_def div_eq_0_iff)
next
  case (Suc n)
  then show ?thesis using div_mult_mod_eq[of b "2 ^ 52"] by (simp add: double_diyfp_def Let_def nat_add_distrib algebra_simps)
qed

text \<open>Everything strictly between the boundaries of a double rounds to it.\<close>

lemma rounds_to:
  assumes "0 < b" "b < infinity_bits" "fp_value (m_minus b) < r" "r < fp_value (m_plus b)"
  shows "round_bits r = b"
proof -
  let ?f = "fp_f (double_diyfp b)" and ?e = "fp_e (double_diyfp b)"
  note dp = double_parts[OF assms(1,2)]
  define q where "q = r / 2 powi ?e"
  have r: "r = q * 2 powi ?e" by (simp add: q_def)
  have pos: "(0 :: rat) < 2 powi ?e" by simp
  have "fp_value (m_plus b) = (of_nat ?f + 1 / 2) * 2 powi ?e" by (simp add: fp_value_def m_plus_def Let_def power_int_diff algebra_simps)
  with assms(4) have up: "q < of_nat ?f + 1 / 2" unfolding r by simp
  have "fp_value (m_minus b) = (of_nat ?f - (if b mod 2 ^ 52 = 0 \<and> b div 2 ^ 52 > 1 then 1 / 4 else 1 / 2)) * 2 powi ?e"
    using dp(1) by (auto simp: fp_value_def m_minus_def Let_def power_int_diff of_nat_diff field_simps)
  with assms(3) have lo: "of_nat ?f - (if b mod 2 ^ 52 = 0 \<and> b div 2 ^ 52 > 1 then 1 / 4 else 1 / 2) < q" unfolding r by simp
  have f1: "1 \<le> (of_nat ?f :: rat)" "(of_nat ?f :: rat) \<le> 2 ^ 53 - 1"
    using dp(1,2) of_nat_mono[of ?f "2 ^ 53 - 1", where 'a = rat] by simp_all
  have q: "0 \<le> q" "q < 2 ^ 53" "\<bar>q - of_nat ?f\<bar> < 1 / 2" using up lo f1 by (auto simp: abs_if split: if_splits)
  show ?thesis
  proof (cases "?e = - 1074 \<or> q \<ge> 2 ^ 52")
    case True
    then show ?thesis using round_bits_unit[OF dp(3) r q(1,2) _ q(3)] double_bits[of b] by simp
  next
    case False
    have n: "b div 2 ^ 52 > 1" "2 ^ 52 \<le> ?f" using False by (auto simp: double_diyfp_def Let_def split: if_splits)
    then have "(2 ^ 52 :: rat) \<le> of_nat ?f" using of_nat_mono[of "2 ^ 52" ?f, where 'a = rat] by simp
    then have "(of_nat ?f :: rat) < of_nat (2 ^ 52 + 1)" using False q(3) by (simp add: abs_if split: if_splits)
    then have f: "?f = 2 ^ 52" using n(2) unfolding of_nat_less_iff by simp
    then have "b mod 2 ^ 52 = 0" using n(1) by (simp add: double_diyfp_def Let_def)
    with lo n(1) f have "2 ^ 52 - 1 / 4 < q" by simp
    then have "\<bar>2 * q - of_nat (2 ^ 53)\<bar> < 1 / 2" "2 ^ 52 \<le> 2 * q" "2 * q < 2 ^ 53" using False by (simp_all add: abs_if)
    moreover have "r = (2 * q) * 2 powi (?e - 1)" unfolding r by (simp add: power_int_diff)
    ultimately have "round_bits r = nat (?e - 1 + 1074) * 2 ^ 52 + 2 ^ 53"
      using round_bits_unit[of "?e - 1" r "2 * q" "2 ^ 53"] q(1) dp(3) False by simp
    moreover have "nat (?e + 1074) = Suc (nat (?e - 1 + 1074))" using False dp(3) by linarith
    ultimately show ?thesis using double_bits[of b] f by simp
  qed
qed

lemma round_bits_0 [simp]: "round_bits 0 = 0"
  using round_bits_unit[of "- 1074" 0 0 0] by simp

lemma double_value_0 [simp]: "double_value 0 = 0"
  by (simp add: double_value_def double_diyfp_def fp_value_def)

lemma between_boundaries:
  assumes "0 < b" "b < infinity_bits"
  shows "fp_value (m_minus b) < double_value b" "double_value b < fp_value (m_plus b)"
proof -
  note dp = double_parts[OF assms]
  show "double_value b < fp_value (m_plus b)"
    by (simp add: double_value_def fp_value_def m_plus_def Let_def power_int_diff)
  show "fp_value (m_minus b) < double_value b"
    using dp(1) by (simp add: double_value_def fp_value_def m_minus_def Let_def power_int_diff of_nat_diff field_simps)
qed

lemma round_bits_exact: "b < infinity_bits \<Longrightarrow> round_bits (double_value b) = b"
  using rounds_to[of b "double_value b"] between_boundaries[of b] by (cases "b = 0") simp_all

lemma double_value_nonneg: "0 \<le> double_value b"
  by (simp add: double_value_def fp_value_def)

text \<open>The doubles are the values of the bits of finite doubles, with either sign.\<close>

lemma is_double_iff: "is_double r \<longleftrightarrow> (\<exists>b<infinity_bits. \<bar>r\<bar> = double_value b)"
proof
  assume "is_double r"
  then have b: "round_bits \<bar>r\<bar> < infinity_bits" "r = sgn r * double_value (round_bits \<bar>r\<bar>)"
    by (auto simp: is_double_def strtod_round_def Let_def split: if_splits)
  then have "\<bar>r\<bar> = \<bar>sgn r\<bar> * double_value (round_bits \<bar>r\<bar>)" by (metis abs_mult abs_of_nonneg double_value_nonneg)
  then show "\<exists>b<infinity_bits. \<bar>r\<bar> = double_value b" using b(1) by (cases "r = 0") (auto simp: abs_sgn)
next
  assume "\<exists>b<infinity_bits. \<bar>r\<bar> = double_value b"
  then obtain b where "b < infinity_bits" "\<bar>r\<bar> = double_value b" by blast
  then show "is_double r" using round_bits_exact[of b] mult_sgn_abs[of r] by (simp add: is_double_def strtod_round_def)
qed

lemma fraction_bits:
  assumes "n < 2 ^ 53" "- 1074 \<le> e" "e \<le> 971"
  shows "\<exists>b<infinity_bits. of_nat n * 2 powi e = double_value b"
  using assms
proof (induction "nat (e + 1074)" arbitrary: n e)
  case 0
  then have e: "e = - 1074" by simp
  have "double_value n = of_nat n * 2 powi (- 1074)"
  proof (cases "n < 2 ^ 52")
    case False
    then have "n div 2 ^ 52 = 1" using 0(2) by (intro div_nat_eqI) simp_all
    moreover from this have "n mod 2 ^ 52 = n - 2 ^ 52" by (simp add: modulo_nat_def)
    ultimately show ?thesis using False by (simp add: double_value_def double_diyfp_def fp_value_def Let_def del: power_int_minus_left)
  qed (simp add: double_value_def double_diyfp_def fp_value_def)
  then show ?case using 0(2) e by (intro exI[of _ n]) (simp add: infinity_bits_def)
next
  case (Suc k)
  show ?case
  proof (cases "n < 2 ^ 52")
    case True
    have "of_nat n * 2 powi e = of_nat (2 * n) * (2 powi (e - 1) :: rat)" by (simp add: power_int_diff)
    moreover have "\<exists>b<infinity_bits. of_nat (2 * n) * 2 powi (e - 1) = double_value b"
      by (rule Suc.hyps(1)) (use Suc.hyps(2) Suc.prems True in \<open>linarith | simp\<close>)+
    ultimately show ?thesis by (simp only:)
  next
    case False
    define b where "b = nat (e + 1075) * 2 ^ 52 + (n - 2 ^ 52)"
    have n: "n - 2 ^ 52 < 2 ^ 52" using Suc.prems(1) by simp
    then have "b div 2 ^ 52 = nat (e + 1075)" "b mod 2 ^ 52 = n - 2 ^ 52" by (simp_all add: b_def)
    then have "double_value b = of_nat n * 2 powi e"
      using False Suc.prems by (simp add: double_value_def double_diyfp_def fp_value_def Let_def)
    moreover have "nat (e + 1075) * 2 ^ 52 \<le> 2046 * 2 ^ 52" using Suc.prems(3) by (intro mult_le_mono1) simp
    then have "b < infinity_bits" using n by (simp add: b_def infinity_bits_def)
    ultimately show ?thesis by metis
  qed
qed

lemma is_double_unit:
  assumes "n < 2 ^ 53" "- 1074 \<le> e" "e \<le> 971"
  shows "is_double (of_nat n * 2 powi e)"
  using fraction_bits[OF assms] unfolding is_double_iff by simp

text \<open>No double is nearer to a number than the one it is rounded to.\<close>

lemma round_nearest_int: "0 \<le> q \<Longrightarrow> \<bar>of_nat (round_half_even q) - q\<bar> \<le> \<bar>of_int i - q\<bar>"
proof -
  assume q: "0 \<le> q"
  define n where "n = nat \<lfloor>q\<rfloor>"
  have n: "of_nat n \<le> q" "q < of_nat n + 1" using q unfolding n_def by linarith+
  have i: "i \<le> int n \<or> int n + 1 \<le> i" by linarith
  then have "(of_int i :: rat) \<le> of_nat n \<or> of_nat n + 1 \<le> (of_int i :: rat)" by linarith
  with n show ?thesis by (auto simp: round_half_even_def Let_def n_def[symmetric] abs_if)
qed

lemma last_place_result:
  "last_place e0 q0 = (e, q) \<Longrightarrow> q * 2 powi e = q0 * 2 powi e0 \<and> e0 \<le> e \<and> q < 2 ^ 53 \<and> (e = e0 \<or> 2 ^ 52 \<le> q)"
proof (induction e0 q0 rule: last_place.induct)
  case (1 e0 q0)
  show ?case
  proof (cases "q0 \<ge> 2 ^ 53")
    case True
    then have l: "last_place (e0 + 1) (q0 / 2) = (e, q)" using "1.prems" by (subst (asm) last_place.simps) simp
    from "1.IH"[OF True l] show ?thesis using True by (auto simp: power_int_add)
  next
    case False
    then show ?thesis using "1.prems" by (subst (asm) last_place.simps) auto
  qed
qed

lemma double_value_parts:
  assumes "n \<le> 2 ^ 53" "- 1074 \<le> e" "e = - 1074 \<or> 2 ^ 52 \<le> n"
  shows "double_value (nat (e + 1074) * 2 ^ 52 + n) = of_nat n * 2 powi e"
proof -
  let ?k = "nat (e + 1074)"
  let ?b = "?k * 2 ^ 52 + n"
  consider "n < 2 ^ 52" | "2 ^ 52 \<le> n" "n < 2 ^ 53" | "n = 2 ^ 53" using assms(1) by linarith
  then show ?thesis
  proof cases
    case 1
    then show ?thesis using assms(3) by (simp add: double_value_def double_diyfp_def fp_value_def del: power_int_minus_left)
  next
    case 2
    then have b: "?b = Suc ?k * 2 ^ 52 + (n - 2 ^ 52)" "n - 2 ^ 52 < 2 ^ 52" by simp_all
    have "?b div 2 ^ 52 = Suc ?k" "?b mod 2 ^ 52 = n - 2 ^ 52" unfolding b(1) using b(2) by (simp_all only: div_mult_self3 mod_mult_self3) simp_all
    then show ?thesis using 2 assms(2) by (simp add: double_value_def double_diyfp_def fp_value_def Let_def)
  next
    case 3
    have b: "?b = Suc (Suc ?k) * 2 ^ 52" using 3 by simp
    have "?b div 2 ^ 52 = Suc (Suc ?k)" "?b mod 2 ^ 52 = 0" unfolding b by (simp_all only: nonzero_mult_div_cancel_right mod_mult_self2_is_0) simp
    moreover have "int ?k = e + 1074" using assms(2) by simp
    ultimately show ?thesis using 3 by (simp add: double_value_def double_diyfp_def fp_value_def Let_def power_int_add)
  qed
qed

lemma round_bits_nearest:
  assumes "0 \<le> r" "b < infinity_bits"
  shows "\<bar>double_value (round_bits r) - r\<bar> \<le> \<bar>double_value b - r\<bar>"
proof -
  obtain e q where l: "last_place (- 1074) (r / 2 powi (- 1074)) = (e, q)" by (metis surj_pair)
  from last_place_result[OF l] have lp: "r = q * 2 powi e" "- 1074 \<le> e" "q < 2 ^ 53" "e = - 1074 \<or> 2 ^ 52 \<le> q" by auto
  have q: "0 \<le> q" using assms(1) lp(1) zero_less_power_int[of "2 :: rat" e] by (simp only: zero_le_mult_iff) linarith
  let ?n = "round_half_even q"
  have m: "nat \<lfloor>q\<rfloor> \<le> ?n" "?n \<le> nat \<lfloor>q\<rfloor> + 1" by (simp_all add: round_half_even_def Let_def)
  have "nat \<lfloor>q\<rfloor> < 2 ^ 53" "2 ^ 52 \<le> q \<Longrightarrow> 2 ^ 52 \<le> nat \<lfloor>q\<rfloor>" using lp(3) q by (simp_all, linarith+)
  then have "?n \<le> 2 ^ 53" "e = - 1074 \<or> 2 ^ 52 \<le> ?n" using m lp(4) by auto
  then have v: "double_value (round_bits r) = of_nat ?n * 2 powi e" using double_value_parts[of ?n e] lp(2) l by (simp add: round_bits_def)
  let ?f = "fp_f (double_diyfp b)" and ?e = "fp_e (double_diyfp b)"
  have "\<bar>of_nat ?n - q\<bar> \<le> \<bar>double_value b / 2 powi e - q\<bar>"
  proof (cases "e \<le> ?e")
    case True
    then have "double_value b / 2 powi e = of_int (int ?f * 2 ^ nat (?e - e))"
      unfolding double_value_def fp_value_def times_divide_eq_right[symmetric] powi_quotient[OF True] by simp
    then show ?thesis using round_nearest_int[OF q] by metis
  next
    case False
    have e: "- 1074 \<le> ?e" by (simp add: double_diyfp_def Let_def)
    then have big: "2 ^ 52 \<le> q" using lp(4) False by auto
    have "of_nat ?f \<le> (2 ^ 53 :: rat)" using double_parts(2)[OF _ assms(2)] of_nat_mono[of ?f "2 ^ 53", where 'a = rat]
      by (cases "b = 0") (simp_all add: double_diyfp_def)
    moreover have "(2 powi ?e :: rat) \<le> 2 powi (e - 1)" using False by (intro power_int_increasing) simp_all
    ultimately have "double_value b \<le> 2 ^ 53 * 2 powi (e - 1)" unfolding double_value_def fp_value_def by (intro mult_mono) simp_all
    then have "double_value b / 2 powi e \<le> 2 ^ 52" by (simp add: power_int_diff field_simps)
    moreover have "\<bar>of_nat ?n - q\<bar> \<le> q - 2 ^ 52" using round_nearest_int[OF q, of "2 ^ 52"] big by (simp only: of_int_power of_int_numeral)
    ultimately show ?thesis by linarith
  qed
  then have "\<bar>of_nat ?n - q\<bar> * 2 powi e \<le> \<bar>double_value b / 2 powi e - q\<bar> * 2 powi e" by (intro mult_right_mono) simp_all
  moreover have "\<bar>x - q\<bar> * 2 powi e = \<bar>x * 2 powi e - r\<bar>" for x unfolding lp(1) left_diff_distrib[symmetric] abs_mult by simp
  ultimately show ?thesis by (simp add: v)
qed

lemma strtod_nearest:
  assumes "strtod_round r = Some v" "is_double d"
  shows "\<bar>v - r\<bar> \<le> \<bar>d - r\<bar>"
proof -
  obtain b where b: "b < infinity_bits" "\<bar>d\<bar> = double_value b" using assms(2) is_double_iff by blast
  have "v = sgn r * double_value (round_bits \<bar>r\<bar>)" using assms(1) by (auto simp: strtod_round_def Let_def split: if_splits)
  then have "\<bar>v - r\<bar> = \<bar>double_value (round_bits \<bar>r\<bar>) - \<bar>r\<bar>\<bar>" by (cases "r = 0") (auto simp: sgn_if abs_if)
  also have "\<dots> \<le> \<bar>\<bar>d\<bar> - \<bar>r\<bar>\<bar>" unfolding b(2) by (rule round_bits_nearest) (simp_all add: b(1))
  also have "\<dots> \<le> \<bar>d - r\<bar>" by (rule abs_triangle_ineq3)
  finally show ?thesis .
qed

lemma is_double_nat: "n < 2 ^ 53 \<Longrightarrow> is_double (of_nat n)"
  using is_double_unit[of n 0] by simp

lemma is_double_half: "n < 2 ^ 53 \<Longrightarrow> is_double (of_nat n / 2)"
  using is_double_unit[of n "- 1"] by simp

subsection \<open>Rounded operations\<close>

text \<open>
  The double that stands for an exact result. The sources use it far from the largest double, so that no
  result overflows.
\<close>

definition to_double :: "rat \<Rightarrow> rat" where
  "to_double r = sgn r * double_value (round_bits \<bar>r\<bar>)"

lemma to_double_exact [simp]: "is_double r \<Longrightarrow> to_double r = r"
  by (auto simp: is_double_def strtod_round_def to_double_def Let_def split: if_splits)

lemma to_double_minus [simp]: "to_double (- r) = - to_double r"
  by (simp add: to_double_def)

lemma is_double_minus [simp]: "is_double (- r) \<longleftrightarrow> is_double r"
  by (simp add: is_double_iff)

lemma is_double_int: "\<bar>i\<bar> < 2 ^ 53 \<Longrightarrow> is_double (of_int i)"
  using is_double_nat[of "nat \<bar>i\<bar>"] by (cases "0 \<le> i") (simp_all add: is_double_iff)

lemma to_double_0 [simp]: "to_double 0 = 0"
  by (simp add: to_double_def)

lemma to_double_near:
  assumes "- 1074 \<le> e" "0 \<le> q" "q < 2 ^ 53" "2 ^ 52 \<le> q" "\<bar>q - of_nat n\<bar> < 1 / 2"
  shows "to_double (q * 2 powi e) = of_nat n * 2 powi e"
proof -
  have n: "(of_nat n :: rat) < 2 ^ 53 + 1" "2 ^ 52 - 1 < (of_nat n :: rat)" using assms(3-5) by (auto simp: abs_if split: if_splits)
  then have "of_nat n < (of_nat (2 ^ 53 + 1) :: rat)" "of_nat (2 ^ 52 - 1) < (of_nat n :: rat)" by simp_all
  then have "n \<le> 2 ^ 53" "2 ^ 52 \<le> n" unfolding of_nat_less_iff by simp_all
  moreover have "round_bits (q * 2 powi e) = nat (e + 1074) * 2 ^ 52 + n"
    by (rule round_bits_unit[OF assms(1) refl assms(2,3) _ assms(5)]) (use assms(4) in simp)
  ultimately show ?thesis using double_value_parts[of n e] assms(1,2,4) by (simp add: to_double_def sgn_mult abs_mult)
qed

text \<open>The error of an operation whose result is below \<^verbatim>\<open>2^53\<close> units is at most half a unit.\<close>

lemma to_double_error:
  assumes "\<bar>r\<bar> < (2 ^ 53 - 1) * 2 powi e" "- 1074 \<le> e" "e \<le> 971"
  shows "\<bar>to_double r - r\<bar> \<le> 2 powi e / 2"
proof -
  define q where "q = \<bar>r\<bar> / 2 powi e"
  have pos: "(0 :: rat) < 2 powi e" by simp
  have q: "0 \<le> q" "q < 2 ^ 53 - 1" "\<bar>r\<bar> = q * 2 powi e" using assms(1) by (simp_all add: q_def field_simps)
  define n where "n = nat (round q)"
  have n: "\<bar>of_nat n - q\<bar> \<le> 1 / 2" using of_int_round_abs_le[of q] q(1) round_mono[of 0 q] by (simp add: n_def)
  then have "(of_nat n :: rat) < of_nat (2 ^ 53)" using q(2) by (simp add: abs_if split: if_splits)
  then have "n < 2 ^ 53" unfolding of_nat_less_iff .
  then obtain b where b: "b < infinity_bits" "of_nat n * 2 powi e = double_value b" using fraction_bits[OF _ assms(2,3)] by blast
  have "\<bar>to_double r - r\<bar> = \<bar>double_value (round_bits \<bar>r\<bar>) - \<bar>r\<bar>\<bar>" by (cases "r = 0") (auto simp: to_double_def sgn_if abs_if)
  also have "\<dots> \<le> \<bar>of_nat n * 2 powi e - \<bar>r\<bar>\<bar>" unfolding b(2) by (rule round_bits_nearest) (simp_all add: b(1))
  also have "\<dots> = \<bar>of_nat n - q\<bar> * 2 powi e" unfolding q(3) left_diff_distrib[symmetric] abs_mult by simp
  also have "\<dots> \<le> 1 / 2 * 2 powi e" using n by (intro mult_right_mono) simp_all
  finally show ?thesis by simp
qed

text \<open>How the error grows when a result near \<^verbatim>\<open>t\<close> is rounded\<close>

lemma to_double_step:
  assumes "\<bar>x - t\<bar> \<le> a" "\<bar>t\<bar> \<le> B" "B + a < (2 ^ 53 - 1) * 2 powi e" "- 1074 \<le> e" "e \<le> 971" "a + 2 powi e / 2 \<le> a'"
  shows "\<bar>to_double x - t\<bar> \<le> a'"
proof -
  have "\<bar>x\<bar> < (2 ^ 53 - 1) * 2 powi e" using assms(1-3) by linarith
  then have "\<bar>to_double x - x\<bar> \<le> 2 powi e / 2" using assms(4,5) by (rule to_double_error)
  then show ?thesis using assms(1,6) by linarith
qed

end
