(* ===== verification/Image_Filter.thy ===== *)
theory Image_Filter
  imports Qt_Values Rounding
begin

text \<open>
  The contrast and brightness filter of \<^verbatim>\<open>src/canvas/canvasbase.cpp\<close>:
  \<^verbatim>\<open>Bound\<close> and \<^verbatim>\<open>CanvasBase::lightContrastImage\<close>, on the byte
  buffer of the image. Every access to the buffer is checked, so an index outside it would be
  an error of the model. The new value of a byte is computed in doubles, one rounding per operation,
  and converted to an int, which is undefined for a value no int holds.
  \<^verbatim>\<open>QImage::convertToFormat\<close> is Qt's and is the parameter
  \<^verbatim>\<open>convert\<close>.
\<close>

subsection \<open>The filter\<close>

definition Bound :: "int \<Rightarrow> int \<Rightarrow> int \<Rightarrow> int" where
  "Bound range_left data range_right =
     (if data > range_right then range_right
      else if data < range_left then range_left
      else data)"

text \<open>\<^verbatim>\<open>light * 0.01 * rgb[i * 3] - 150 + contrast\<close>, from left to right\<close>

definition adjusted :: "int \<Rightarrow> int \<Rightarrow> int \<Rightarrow> rat" where
  "adjusted light contrast v =
     to_double (to_double (to_double (to_double (of_int light * to_double (1/100)) * of_int v) - 150) + of_int contrast)"

definition adjust_byte :: "int \<Rightarrow> int \<Rightarrow> 8 word \<Rightarrow> 8 word result" where
  "adjust_byte light contrast v =
     bind_result (double_to_int (adjusted light contrast (uint v))) (\<lambda>d. Inr (word_of_int (Bound 0 d 255)))"

text \<open>One iteration: the three bytes are read first and written afterwards.\<close>

definition adjust_pixel :: "int \<Rightarrow> int \<Rightarrow> nat \<Rightarrow> 8 word list \<Rightarrow> 8 word list result" where
  "adjust_pixel light contrast i rgb =
     bind_result (bind_result (vec_at rgb (int (i * 3))) (adjust_byte light contrast)) (\<lambda>r.
     bind_result (bind_result (vec_at rgb (int (i * 3 + 1))) (adjust_byte light contrast)) (\<lambda>g.
     bind_result (bind_result (vec_at rgb (int (i * 3 + 2))) (adjust_byte light contrast)) (\<lambda>b.
     bind_result (vec_replace rgb (int (i * 3)) r) (\<lambda>rgb1.
     bind_result (vec_replace rgb1 (int (i * 3 + 1)) g) (\<lambda>rgb2.
     vec_replace rgb2 (int (i * 3 + 2)) b)))))"

function adjust_loop :: "int \<Rightarrow> int \<Rightarrow> nat \<Rightarrow> nat \<Rightarrow> 8 word list \<Rightarrow> 8 word list result" where
  "adjust_loop light contrast npix i rgb =
     (if i < npix
      then bind_result (adjust_pixel light contrast i rgb) (adjust_loop light contrast npix (Suc i))
      else Inr rgb)"
  by pat_completeness auto
termination
  by (relation "measure (\<lambda>(l, c, npix, i, rgb). npix - i)") auto

declare adjust_loop.simps [simp del]

definition lightContrastImage ::
    "(QImage \<Rightarrow> QImage) \<Rightarrow> QImage option \<Rightarrow> int \<Rightarrow> int \<Rightarrow> QImage option result" where
  "lightContrastImage convert img light contrast =
     (case img of
        None \<Rightarrow> Inr None
      | Some i \<Rightarrow>
          let imgCopy = (if img_rgb888 i then i else convert i)
          in bind_result (adjust_loop light contrast (img_w i * img_h i) 0 (img_bits imgCopy)) (\<lambda>rgb.
             Inr (Some (imgCopy\<lparr>img_bits := rgb\<rparr>))))"

subsection \<open>What the loop does to the buffer\<close>

lemma Bound_range: "l \<le> r \<Longrightarrow> l \<le> Bound l d r \<and> Bound l d r \<le> r"
  by (simp add: Bound_def)

text \<open>
  Settings for which no conversion is undefined, whatever the byte; the sliders of the window stay far
  below. The byte that is stored then:
\<close>

definition moderate :: "int \<Rightarrow> bool" where
  "moderate n \<longleftrightarrow> \<bar>n\<bar> \<le> 500000000"

definition new_byte :: "int \<Rightarrow> int \<Rightarrow> 8 word \<Rightarrow> 8 word" where
  "new_byte light contrast v = word_of_int (Bound 0 (trunc (adjusted light contrast (uint v))) 255)"

lemma hundredth: "\<bar>to_double (1 / 100) - 1 / 100\<bar> \<le> 1 / 2 ^ 60"
  using to_double_error[of "1 / 100" "- 59"] by simp

text \<open>The value in doubles is near the exact one.\<close>

lemma adjusted_error:
  assumes "moderate light" "moderate contrast" "0 \<le> v" "v \<le> 255"
  shows "\<bar>adjusted light contrast v - (of_int (light * v) / 100 + of_int (contrast - 150))\<bar> \<le> 1 / 2 ^ 18"
proof -
  define l c b :: rat where "l = of_int light" and "c = of_int contrast" and "b = of_int v"
  have l: "\<bar>l\<bar> \<le> 500000000" and c: "\<bar>c\<bar> \<le> 500000000" and b: "0 \<le> b" "b \<le> 255"
    using assms of_int_le_iff[of "\<bar>light\<bar>" 500000000, where 'a = rat] of_int_le_iff[of "\<bar>contrast\<bar>" 500000000, where 'a = rat]
      of_int_le_iff[of 0 v, where 'a = rat] of_int_le_iff[of v 255, where 'a = rat]
    by (simp_all add: moderate_def l_def c_def b_def)
  let ?h = "to_double (1 / 100)"
  let ?x1 = "to_double (l * ?h)"
  let ?x2 = "to_double (?x1 * b)"
  let ?x3 = "to_double (?x2 - 150)"
  have mul: "\<bar>x * y\<bar> \<le> B * C" if "\<bar>x\<bar> \<le> B" "\<bar>y\<bar> \<le> C" for x y B C :: rat
    unfolding abs_mult using that by (intro mult_mono) auto
  have "\<bar>l * (?h - 1 / 100)\<bar> \<le> 500000000 * (1 / 2 ^ 60)" by (rule mul[OF l hundredth])
  then have e0: "\<bar>l * ?h - l / 100\<bar> \<le> 1 / 2 ^ 31" by (simp add: right_diff_distrib)
  have l100: "\<bar>l / 100\<bar> \<le> 5000000" using l by (simp add: abs_if split: if_splits)
  have e1: "\<bar>?x1 - l / 100\<bar> \<le> 1 / 2 ^ 29" by (rule to_double_step[OF e0 l100, of "- 29"]) simp_all
  have "\<bar>(?x1 - l / 100) * b\<bar> \<le> 1 / 2 ^ 29 * 255" using b by (intro mul[OF e1]) simp
  then have e2: "\<bar>?x1 * b - l / 100 * b\<bar> \<le> 1 / 2 ^ 21" unfolding left_diff_distrib by simp
  have lb: "\<bar>l / 100 * b\<bar> \<le> 5000000 * 255" using b by (intro mul[OF l100]) simp
  have "\<bar>?x2 - l / 100 * b\<bar> \<le> 1 / 2 ^ 21 + 1 / 2 ^ 22" by (rule to_double_step[OF e2 lb, of "- 21"]) simp_all
  then have e3: "\<bar>?x2 - 150 - (l / 100 * b - 150)\<bar> \<le> 1 / 2 ^ 21 + 1 / 2 ^ 22" by simp
  have lb': "\<bar>l / 100 * b - 150\<bar> \<le> 5000000 * 255 + 150" using lb by (simp only: abs_if split: if_splits) simp_all
  have "\<bar>?x3 - (l / 100 * b - 150)\<bar> \<le> 1 / 2 ^ 20" by (rule to_double_step[OF e3 lb', of "- 21"]) simp_all
  then have e4: "\<bar>?x3 + c - (l / 100 * b - 150 + c)\<bar> \<le> 1 / 2 ^ 20" by simp
  have lc: "\<bar>l / 100 * b - 150 + c\<bar> \<le> 2000000000" using lb' c by (simp only: abs_if split: if_splits) simp_all
  have "\<bar>to_double (?x3 + c) - (l / 100 * b - 150 + c)\<bar> \<le> 1 / 2 ^ 18" by (rule to_double_step[OF e4 lc, of "- 20"]) simp_all
  then show ?thesis by (simp add: adjusted_def l_def c_def b_def algebra_simps)
qed

lemma byte_range: "0 \<le> uint v" "uint v \<le> 255" for v :: "8 word"
  using uint_lt2p[of v] by simp_all

lemma adjust_byte_moderate:
  assumes "moderate light" "moderate contrast"
  shows "adjust_byte light contrast v = Inr (new_byte light contrast v)"
proof -
  define x :: rat where "x = of_int (light * uint v) / 100 + of_int (contrast - 150)"
  have "\<bar>light * uint v\<bar> \<le> 500000000 * 255"
    unfolding abs_mult using assms(1) byte_range[of v] by (intro mult_mono) (simp_all add: moderate_def)
  then have "\<bar>of_int (light * uint v)\<bar> \<le> (500000000 * 255 :: rat)"
    using of_int_le_iff[of "\<bar>light * uint v\<bar>" "500000000 * 255", where 'a = rat] by simp
  moreover have "\<bar>of_int (contrast - 150)\<bar> \<le> (500000150 :: rat)"
    using assms(2) of_int_le_iff[of "\<bar>contrast - 150\<bar>" 500000150, where 'a = rat] by (simp add: moderate_def)
  ultimately have "\<bar>x\<bar> \<le> 1775000150" unfolding x_def by (simp only: abs_if split: if_splits) simp_all
  then have "of_int (- 2000000000) \<le> adjusted light contrast (uint v)" "adjusted light contrast (uint v) \<le> of_int 2000000000"
    using adjusted_error[OF assms byte_range, of v, folded x_def] by (simp_all add: abs_if split: if_splits)
  then have "- 2000000000 \<le> trunc (adjusted light contrast (uint v))" "trunc (adjusted light contrast (uint v)) \<le> 2000000000"
    using trunc_mono trunc_of_int by metis+
  then show ?thesis by (simp add: adjust_byte_def new_byte_def double_to_int_def fits_int_def)
qed

lemma adjust_pixel_result:
  assumes "moderate light" "moderate contrast" "3 * i + 2 < length rgb"
  shows "adjust_pixel light contrast i rgb =
     Inr (map (\<lambda>k. if k div 3 = i then new_byte light contrast (rgb ! k) else rgb ! k) [0..<length rgb])"
proof -
  let ?f = "new_byte light contrast"
  have b: "i * 3 < length rgb" "i * 3 + 1 < length rgb" "i * 3 + 2 < length rgb" using assms(3) by auto
  have "adjust_pixel light contrast i rgb =
      Inr (rgb[i * 3 := ?f (rgb ! (i * 3)), i * 3 + 1 := ?f (rgb ! (i * 3 + 1)), i * 3 + 2 := ?f (rgb ! (i * 3 + 2))])"
    using b unfolding adjust_pixel_def vec_at_def vec_replace_def
    by (simp add: nat_add_distrib nat_mult_distrib adjust_byte_moderate[OF assms(1,2)])
  also have "rgb[i * 3 := ?f (rgb ! (i * 3)), i * 3 + 1 := ?f (rgb ! (i * 3 + 1)), i * 3 + 2 := ?f (rgb ! (i * 3 + 2))] =
      map (\<lambda>k. if k div 3 = i then ?f (rgb ! k) else rgb ! k) [0..<length rgb]"
  proof (rule nth_equalityI)
    fix k
    assume "k < length (rgb[i * 3 := ?f (rgb ! (i * 3)), i * 3 + 1 := ?f (rgb ! (i * 3 + 1)), i * 3 + 2 := ?f (rgb ! (i * 3 + 2))])"
    moreover have "k div 3 = i \<longleftrightarrow> k = i * 3 \<or> k = i * 3 + 1 \<or> k = i * 3 + 2" by linarith
    ultimately show "rgb[i * 3 := ?f (rgb ! (i * 3)), i * 3 + 1 := ?f (rgb ! (i * 3 + 1)), i * 3 + 2 := ?f (rgb ! (i * 3 + 2))] ! k =
        map (\<lambda>k. if k div 3 = i then ?f (rgb ! k) else rgb ! k) [0..<length rgb] ! k"
      by (auto simp: nth_list_update)
  qed simp
  finally show ?thesis .
qed

lemma adjust_loop_result:
  assumes "moderate light" "moderate contrast" "3 * npix \<le> length rgb" "i \<le> npix"
  shows "adjust_loop light contrast npix i rgb =
     Inr (map (\<lambda>k. if 3 * i \<le> k \<and> k < 3 * npix then new_byte light contrast (rgb ! k) else rgb ! k)
            [0..<length rgb])"
  using assms(3,4)
proof (induction "npix - i" arbitrary: i rgb)
  case 0
  then show ?case by (subst adjust_loop.simps) (auto intro!: nth_equalityI)
next
  case (Suc n)
  let ?f = "new_byte light contrast"
  let ?r = "map (\<lambda>k. if k div 3 = i then ?f (rgb ! k) else rgb ! k) [0..<length rgb]"
  have i: "i < npix" "n = npix - Suc i" using Suc.hyps(2) by simp_all
  then have p: "adjust_pixel light contrast i rgb = Inr ?r"
    using Suc.prems by (intro adjust_pixel_result[OF assms(1,2)]) simp
  have IH: "adjust_loop light contrast npix (Suc i) ?r =
      Inr (map (\<lambda>k. if 3 * Suc i \<le> k \<and> k < 3 * npix then ?f (?r ! k) else ?r ! k) [0..<length ?r])"
    using i Suc.prems by (intro Suc.hyps(1)) simp_all
  have "adjust_loop light contrast npix i rgb = adjust_loop light contrast npix (Suc i) ?r"
    using i p by (subst adjust_loop.simps) simp
  also have "\<dots> = Inr (map (\<lambda>k. if 3 * i \<le> k \<and> k < 3 * npix then ?f (rgb ! k) else rgb ! k) [0..<length rgb])"
    unfolding IH using i by (auto intro!: nth_equalityI)
  finally show ?case .
qed

lemma new_byte_value: "uint (new_byte light contrast v) = Bound 0 (trunc (adjusted light contrast (uint v))) 255"
  (is "_ = ?b")
proof -
  have "0 \<le> ?b \<and> ?b \<le> 255" by (rule Bound_range) simp
  then show ?thesis by (simp add: new_byte_def uint_word_of_int take_bit_eq_mod)
qed

lemma buffer_holds_pixels: "3 * (w * h) \<le> (3 * w + 3) div 4 * 4 * (h :: nat)"
proof -
  have "3 * w \<le> (3 * w + 3) div 4 * 4" by linarith
  then have "3 * w * h \<le> (3 * w + 3) div 4 * 4 * h" by (rule mult_le_mono1)
  then show ?thesis by (simp add: mult.assoc)
qed

lemma lightContrast_bytes:
  assumes "moderate light" "moderate contrast" "wf_rgb888 i"
  shows "lightContrastImage convert (Some i) light contrast =
     Inr (Some (i\<lparr>img_bits := map (\<lambda>k. if k < 3 * (img_w i * img_h i)
        then new_byte light contrast (img_bits i ! k) else img_bits i ! k) [0..<length (img_bits i)]\<rparr>))"
proof -
  have "3 * (img_w i * img_h i) \<le> length (img_bits i)"
    using assms(3) buffer_holds_pixels by (simp add: wf_rgb888_def bytesPerLine_def)
  from adjust_loop_result[OF assms(1,2) this, of 0] assms(3) show ?thesis
    by (simp add: lightContrastImage_def wf_rgb888_def)
qed

subsection \<open>Doubles and exact values\<close>

text \<open>
  The exact value has at most two decimals. If it is no integer, the double next to it has the same
  integer part; if it is one, the double may be just below.
\<close>

lemma trunc_floor: "trunc x = (if 0 \<le> x then \<lfloor>x\<rfloor> else \<lceil>x\<rceil>)"
  by (simp add: trunc_def ceiling_def)

lemma trunc_near: "\<bar>x - y\<bar> < 1 \<Longrightarrow> \<bar>trunc x - trunc y\<bar> \<le> 1"
  by (auto simp: trunc_floor abs_if split: if_splits) linarith+

lemma trunc_hundredths:
  assumes "\<bar>x - of_int n / 100\<bar> < 1 / 100" "\<not> 100 dvd n"
  shows "trunc x = trunc (of_int n / 100)"
proof -
  define q r where "q = n div 100" and "r = n mod 100"
  have r: "1 \<le> r" "r \<le> 99" using assms(2) pos_mod_sign[of 100 n] pos_mod_bound[of 100 n] unfolding r_def dvd_eq_mod_eq_0 by linarith+
  have "n = 100 * q + r" by (simp add: q_def r_def)
  then have n: "of_int n / 100 = (of_int q + of_int r / 100 :: rat)" by simp
  have "1 \<le> (of_int r :: rat)" "(of_int r :: rat) \<le> 99" using r of_int_le_iff[of r 99, where 'a = rat] by simp_all
  then have "of_int q < x" "x < of_int q + 1" "of_int q < (of_int n / 100 :: rat)" "(of_int n / 100 :: rat) < of_int q + 1"
    using assms(1) unfolding n by (auto simp: abs_if split: if_splits)
  moreover from this have "\<lfloor>x\<rfloor> = q" "\<lfloor>of_int n / 100 :: rat\<rfloor> = q" "\<lceil>x\<rceil> = q + 1" "\<lceil>of_int n / 100 :: rat\<rceil> = q + 1"
    by (simp_all add: floor_eq_iff ceiling_eq_iff)
  moreover have "0 \<le> x \<longleftrightarrow> 0 \<le> (of_int n / 100 :: rat)"
  proof (cases "0 \<le> q")
    case True
    then have "0 \<le> (of_int q :: rat)" by simp
    then show ?thesis using calculation(1-4) by linarith
  next
    case False
    then have "of_int (q + 1) \<le> (0 :: rat)" by linarith
    then show ?thesis using calculation(1-4) by (simp only: of_int_add of_int_1) linarith
  qed
  ultimately show ?thesis by (simp add: trunc_floor)
qed

lemma Bound_near: "\<bar>a - b\<bar> \<le> 1 \<Longrightarrow> \<bar>Bound 0 a 255 - Bound 0 b 255\<bar> \<le> 1"
  by (auto simp: Bound_def)

text \<open>The value of the formula over the reals, cut off at 0 and 255\<close>

definition exact_byte :: "int \<Rightarrow> int \<Rightarrow> int \<Rightarrow> int" where
  "exact_byte light contrast v = Bound 0 (trunc (of_int light * of_int v / 100 + of_int (contrast - 150))) 255"

lemma new_byte_near:
  assumes "moderate light" "moderate contrast"
  shows "\<bar>uint (new_byte light contrast v) - exact_byte light contrast (uint v)\<bar> \<le> 1"
    "\<not> 100 dvd light * uint v \<Longrightarrow> uint (new_byte light contrast v) = exact_byte light contrast (uint v)"
proof -
  let ?x = "adjusted light contrast (uint v)" and ?n = "light * uint v + 100 * (contrast - 150)"
  have n: "of_int light * of_int (uint v) / 100 + of_int (contrast - 150) = (of_int ?n / 100 :: rat)" by (simp add: field_simps)
  have err: "\<bar>?x - of_int ?n / 100\<bar> \<le> 1 / 2 ^ 18" using adjusted_error[OF assms byte_range, of v] by (simp add: field_simps)
  then have "\<bar>trunc ?x - trunc (of_int ?n / 100)\<bar> \<le> 1" by (intro trunc_near) simp
  then show "\<bar>uint (new_byte light contrast v) - exact_byte light contrast (uint v)\<bar> \<le> 1"
    unfolding new_byte_value exact_byte_def n by (rule Bound_near)
  assume "\<not> 100 dvd light * uint v"
  then have "\<not> 100 dvd ?n" by (simp add: dvd_add_left_iff)
  then have "trunc ?x = trunc (of_int ?n / 100)" using err by (intro trunc_hundredths) simp_all
  then show "uint (new_byte light contrast v) = exact_byte light contrast (uint v)" unfolding new_byte_value exact_byte_def n by simp
qed

lemma hundredth_value: "to_double (1 / 100) = 5764607523034235 / 2 ^ 59"
  using to_double_near[of "- 59" "2 ^ 59 / 100" 5764607523034235] by simp

lemma to_double_int: "\<bar>i\<bar> < 2 ^ 53 \<Longrightarrow> to_double (of_int i) = of_int i"
  by (intro to_double_exact is_double_int)

lemma adjusted_neutral:
  assumes "0 \<le> v" "v \<le> 255"
  shows "adjusted 100 150 v = of_int v"
proof -
  have "to_double (100 * to_double (1 / 100)) = 1"
    using to_double_near[of "- 52" "(100 * 5764607523034235) / 2 ^ 7" "2 ^ 52"] by (simp add: hundredth_value)
  then show ?thesis using assms to_double_int[of v] to_double_int[of "v - 150"] by (simp add: adjusted_def)
qed

lemma adjusted_dark: "adjusted 0 0 v = - 150"
  using to_double_int[of "- 150"] by (simp add: adjusted_def)

subsection \<open>Properties\<close>

text \<open>
  C27. With settings of at most 500 million, the filter stays inside the buffer of every well-formed
  24-bit image, converts no double that does not fit an int, and keeps the size. In each of the first
  \<^verbatim>\<open>3 * width * height\<close> bytes it stores the affine image of the old value, computed in
  doubles and truncated, saturated at 0 and 255 with no wrap-around. That is the byte of exact
  arithmetic unless the product of brightness and byte is a multiple of 100, where the rounding errors
  may make it one less or more. The bytes after them are left alone.
\<close>

theorem lightContrast_saturates:
  assumes "wf_rgb888 i" and "moderate light" and "moderate contrast"
  shows "\<exists>j. lightContrastImage convert (Some i) light contrast = Inr (Some j) \<and> wf_rgb888 j \<and>
     img_w j = img_w i \<and> img_h j = img_h i \<and>
     (\<forall>k < length (img_bits i). let v = uint (img_bits i ! k); v' = uint (img_bits j ! k) in
        if k < 3 * (img_w i * img_h i)
        then v' = Bound 0 (trunc (adjusted light contrast v)) 255 \<and> \<bar>v' - exact_byte light contrast v\<bar> \<le> 1 \<and>
             (\<not> 100 dvd light * v \<longrightarrow> v' = exact_byte light contrast v)
        else v' = v)"
  using assms(1) new_byte_near[OF assms(2,3)]
  by (simp add: lightContrast_bytes[OF assms(2,3,1)] wf_rgb888_def bytesPerLine_def new_byte_value Let_def)

definition sample_image :: QImage where
  "sample_image = \<lparr>img_w = 1, img_h = 2, img_rgb888 = True, img_bits = [10, 200, 251, 0, 10, 100, 250, 0]\<rparr>"

lemma sample_image_wf: "wf_rgb888 sample_image"
  by (simp add: wf_rgb888_def sample_image_def bytesPerLine_def)

text \<open>The double of 58 * 0.01 * 200 is just below 116, and the byte is 1 instead of 2.\<close>

lemma adjusted_below: "trunc (adjusted 58 36 200) = 1"
proof -
  let ?c1 = "5224175567749775 / 2 ^ 53 :: rat" and ?c2 = "8162774324609023 / 2 ^ 46 :: rat"
    and ?c3 = "2392537302040577 / 2 ^ 46 :: rat" and ?c4 = "140737488355327 / 2 ^ 46 :: rat"
  have 1: "to_double (58 * to_double (1 / 100)) = ?c1"
    using to_double_near[of "- 53" "(58 * 5764607523034235) / 2 ^ 6" 5224175567749775] by (simp add: hundredth_value)
  have 2: "to_double (?c1 * 200) = ?c2"
    using to_double_near[of "- 46" "5224175567749775 * 200 / 2 ^ 7" 8162774324609023] by simp
  have 3: "to_double (?c2 - 150) = - ?c3"
    using to_double_near[of "- 47" "2392537302040577 * 2" "2392537302040577 * 2"] to_double_minus[of ?c3] by simp
  have 4: "to_double (- ?c3 + 36) = ?c4" using is_double_unit[of 140737488355327 "- 46"] by simp
  have "adjusted 58 36 200 = ?c4" using 1 2 3 4 by (simp only: adjusted_def of_int_numeral)
  moreover have "\<lfloor>?c4\<rfloor> = 1" by (simp add: floor_eq_iff)
  ultimately show ?thesis by (simp only: trunc_def) simp
qed

theorem lightContrast_saturates_witness:
  "\<exists>j. lightContrastImage (\<lambda>i. i) (Some sample_image) 58 36 = Inr (Some j) \<and> uint (img_bits j ! 1) = 1 \<and>
     uint (img_bits j ! 2) = 31 \<and> exact_byte 58 36 200 = 2"
proof -
  have "moderate 58" "moderate 36" by (simp_all add: moderate_def)
  then obtain j where j: "lightContrastImage (\<lambda>i. i) (Some sample_image) 58 36 = Inr (Some j)"
      "\<forall>k < length (img_bits sample_image). let v = uint (img_bits sample_image ! k); v' = uint (img_bits j ! k) in
        if k < 3 * (img_w sample_image * img_h sample_image)
        then v' = Bound 0 (trunc (adjusted 58 36 v)) 255 \<and> \<bar>v' - exact_byte 58 36 v\<bar> \<le> 1 \<and>
             (\<not> 100 dvd 58 * v \<longrightarrow> v' = exact_byte 58 36 v)
        else v' = v"
    using lightContrast_saturates[OF sample_image_wf, of 58 36 "\<lambda>i. i"] by blast
  have "trunc (1579 / 50) = 31" by (simp add: trunc_def floor_eq_iff)
  then have "uint (img_bits j ! 1) = 1" "exact_byte 58 36 200 = 2" "exact_byte 58 36 251 = 31"
    using j(2)[rule_format, of 1] by (simp_all add: sample_image_def Bound_def adjusted_below Let_def exact_byte_def)
  with j(1) j(2)[rule_format, of 2] show ?thesis by (simp add: sample_image_def Let_def)
qed

text \<open>
  Brightness 100 and contrast 150 leave every well-formed image as it is; so the neutral
  setting is not the canvas's initial one, which is 150 for both.
\<close>

theorem lightContrast_neutral:
  assumes "wf_rgb888 i"
  shows "lightContrastImage convert (Some i) 100 150 = Inr (Some i)"
proof -
  have "new_byte 100 150 v = v" for v
    using adjusted_neutral[OF byte_range, of v] byte_range[of v] by (intro word_uint_eqI) (simp only: new_byte_value trunc_of_int, simp add: Bound_def)
  then have "map (\<lambda>k. if k < n then new_byte 100 150 (xs ! k) else xs ! k) [0..<length xs] = xs" for n xs
    by (intro nth_equalityI) simp_all
  moreover have "moderate 100" "moderate 150" by (simp_all add: moderate_def)
  ultimately show ?thesis using assms by (simp add: lightContrast_bytes)
qed

theorem lightContrast_neutral_witness:
  "lightContrastImage (\<lambda>i. i) (Some sample_image) 100 150 = Inr (Some sample_image)"
  by (rule lightContrast_neutral) (rule sample_image_wf)

definition pixel_byte :: "QImage \<Rightarrow> nat \<Rightarrow> nat \<Rightarrow> nat \<Rightarrow> nat" where
  "pixel_byte i x y c = y * bytesPerLine i + 3 * x + c"

lemma pixel_bytes_processed_iff:
  assumes "0 < img_w i" "0 < img_h i"
  shows "(\<forall>x < img_w i. \<forall>y < img_h i. \<forall>c < 3. pixel_byte i x y c < 3 * (img_w i * img_h i)) \<longleftrightarrow>
     4 dvd img_w i \<or> img_h i = 1"
proof
  assume all: "\<forall>x < img_w i. \<forall>y < img_h i. \<forall>c < 3. pixel_byte i x y c < 3 * (img_w i * img_h i)"
  show "4 dvd img_w i \<or> img_h i = 1"
  proof (rule ccontr)
    assume "\<not> (4 dvd img_w i \<or> img_h i = 1)"
    with assms have nd: "\<not> 4 dvd img_w i" and h: "2 \<le> img_h i" by auto
    have "3 * img_w i + 1 \<le> bytesPerLine i"
      using nd unfolding bytesPerLine_def by presburger
    then have "(img_h i - 1) * (3 * img_w i + 1) \<le> (img_h i - 1) * bytesPerLine i" by (rule mult_le_mono2)
    moreover have "pixel_byte i (img_w i - 1) (img_h i - 1) 2 < 3 * (img_w i * img_h i)"
      using all assms by simp
    moreover obtain k where "img_h i = Suc (Suc k)" using h by (metis add_2_eq_Suc le_Suc_ex)
    ultimately show False using assms(1) by (simp add: pixel_byte_def algebra_simps)
  qed
next
  assume r: "4 dvd img_w i \<or> img_h i = 1"
  show "\<forall>x < img_w i. \<forall>y < img_h i. \<forall>c < 3. pixel_byte i x y c < 3 * (img_w i * img_h i)"
  proof (intro allI impI)
    fix x y c :: nat
    assume b: "x < img_w i" "y < img_h i" "c < 3"
    have "y * bytesPerLine i \<le> y * (3 * img_w i)"
    proof (cases "y = 0")
      case False
      with r b have "4 dvd img_w i" by auto
      then have "bytesPerLine i = 3 * img_w i" unfolding bytesPerLine_def by presburger
      then show ?thesis by simp
    qed simp
    moreover have "y * (3 * img_w i) + 3 * img_w i \<le> 3 * (img_w i * img_h i)"
    proof -
      have "Suc y * (3 * img_w i) \<le> img_h i * (3 * img_w i)" using b(2) by (intro mult_le_mono1) simp
      then show ?thesis by (simp add: algebra_simps)
    qed
    ultimately show "pixel_byte i x y c < 3 * (img_w i * img_h i)"
      using b unfolding pixel_byte_def by linarith
  qed
qed

text \<open>
  C28. The loop counts pixels as if a scan line had no padding: the filter reaches every byte of
  every pixel exactly for images whose width is a multiple of four or that have one line.
  With any other size the darkest setting, which clears every byte it reaches, leaves part of a
  white image white.
\<close>

theorem lightContrast_reaches_all_pixels_iff:
  assumes "wf_rgb888 i" and "\<forall>k < length (img_bits i). img_bits i ! k = 255"
  shows "(\<exists>j. lightContrastImage convert (Some i) 0 0 = Inr (Some j) \<and>
       (\<forall>x < img_w i. \<forall>y < img_h i. \<forall>c < 3. img_bits j ! pixel_byte i x y c = 0)) \<longleftrightarrow>
     4 dvd img_w i \<or> img_h i = 1"
proof -
  have pos: "0 < img_w i" "0 < img_h i" and len: "length (img_bits i) = bytesPerLine i * img_h i"
    using assms(1) by (simp_all add: wf_rgb888_def)
  have inside: "pixel_byte i x y c < length (img_bits i)" if "x < img_w i" "y < img_h i" "c < 3" for x y c
  proof -
    have "3 * x + c < bytesPerLine i" using that unfolding bytesPerLine_def by linarith
    moreover have "Suc y * bytesPerLine i \<le> img_h i * bytesPerLine i" using that by (intro mult_le_mono1) simp
    ultimately show ?thesis using len by (simp add: pixel_byte_def mult.commute)
  qed
  have z: "new_byte 0 0 v = 0" for v by (simp add: new_byte_def adjusted_dark Bound_def trunc_def)
  have m: "moderate 0" by (simp add: moderate_def)
  show ?thesis
    unfolding pixel_bytes_processed_iff[OF pos, symmetric] lightContrast_bytes[OF m m assms(1)]
    using inside assms(2) by (fastforce simp: z split: if_splits)
qed

theorem lightContrast_reaches_all_pixels_iff_witness:
  "\<not> (\<exists>j. lightContrastImage (\<lambda>i. i) (Some (sample_image\<lparr>img_bits := replicate 8 255\<rparr>)) 0 0 = Inr (Some j) \<and>
     (\<forall>x < 1. \<forall>y < 2. \<forall>c < 3. img_bits j ! pixel_byte (sample_image\<lparr>img_bits := replicate 8 255\<rparr>) x y c = 0))"
  using lightContrast_reaches_all_pixels_iff[of "sample_image\<lparr>img_bits := replicate 8 255\<rparr>" "\<lambda>i. i"]
  by (simp add: sample_image_def wf_rgb888_def bytesPerLine_def)

end
