(* ===== verification/Canvas_Base.thy ===== *)
theory Canvas_Base
  imports Shapes Image_Filter
begin

text \<open>
  The canvas: \<^verbatim>\<open>src/canvas/canvasbase.h\<close> and \<^verbatim>\<open>canvasbase.cpp\<close>.
  A \<^verbatim>\<open>ShapePtr\<close> (a \<^verbatim>\<open>std::shared_ptr\<close>) is an index into the
  store \<^verbatim>\<open>heap\<close>, so that the canvas, the undo commands and the event handlers
  share the shapes the way the code shares them. The commands on the undo stack are a type
  parameter here, as they are for \<^verbatim>\<open>QUndoStack\<close>. The signal
  \<^verbatim>\<open>sigCurShapeChanged\<close> is connected to nothing; \<^verbatim>\<open>update()\<close>
  only schedules a repaint; neither changes the state. The shapes that
  \<^verbatim>\<open>sigSetProperty\<close> was emitted for are logged in \<^verbatim>\<open>emitted\<close>.
\<close>

subsection \<open>State\<close>

datatype task_mode_e = detection | segmentation
datatype operat_mode_e = draw | edit
datatype cursor = ArrowCursor | OpenHandCursor | ClosedHandCursor | PointingHandCursor

type_synonym ShapePtr = nat

record 'c QUndoStack =
  stack_cmds :: "'c list"
  stack_index :: nat

record 'c CanvasBase =
  heap :: "Shape list"
  m_image :: "QImage option"
  m_disImg :: "QImage option"
  m_penLineWidth :: int
  m_currentIndex :: int
  m_shapeList :: "ShapePtr list"
  m_scaleValue :: rat
  item_scale :: rat
  item_pos :: QPointF
  item_cursor :: cursor
  m_task :: task_mode_e
  m_operat :: operat_mode_e
  m_draw :: draw_mode_e
  m_undoStack :: "'c QUndoStack"
  m_lastPressPos :: QPointF
  m_activePoint :: int
  m_mouseDrag :: bool
  m_insertPoint :: int
  m_contrast :: int
  m_brightness :: int
  m_crossPos :: QPointF
  emitted :: "ShapePtr list"

text \<open>
  The constructor. The three modes have no initialiser in the class; the window sets them
  (\<^verbatim>\<open>Window::initMenu\<close>) before any event arrives, to the values used here.
\<close>

definition CanvasBase_new :: "'c CanvasBase" where
  "CanvasBase_new =
     \<lparr>heap = [], m_image = None, m_disImg = None, m_penLineWidth = 2, m_currentIndex = -1,
      m_shapeList = [], m_scaleValue = 1, item_scale = 1, item_pos = 0, item_cursor = ArrowCursor,
      m_task = segmentation, m_operat = draw, m_draw = Polygon,
      m_undoStack = \<lparr>stack_cmds = [], stack_index = 0\<rparr>, m_lastPressPos = 0,
      m_activePoint = -1, m_mouseDrag = False, m_insertPoint = -1, m_contrast = 150,
      m_brightness = 150, m_crossPos = 0, emitted = []\<rparr>"

definition m_scaleStep :: rat where
  "m_scaleStep = 1/20"

definition get_shape :: "'c CanvasBase \<Rightarrow> ShapePtr \<Rightarrow> Shape" where
  "get_shape c r = heap c ! r"

definition deref :: "'c CanvasBase \<Rightarrow> ShapePtr \<Rightarrow> Shape result" where
  "deref c r = (if r < length (heap c) then Inr (get_shape c r) else Inl (Undefined ''dangling ShapePtr''))"

definition set_shape :: "ShapePtr \<Rightarrow> (Shape \<Rightarrow> Shape) \<Rightarrow> 'c CanvasBase \<Rightarrow> 'c CanvasBase" where
  "set_shape r f c = c\<lparr>heap := (heap c)[r := f (heap c ! r)]\<rparr>"

definition shapes :: "'c CanvasBase \<Rightarrow> Shape list" where
  "shapes c = map (get_shape c) (m_shapeList c)"

subsection \<open>Image and coordinates\<close>

definition getImage :: "'c CanvasBase \<Rightarrow> QImage result" where
  "getImage c = (case m_image c of None \<Rightarrow> Inl (CanvasException ''image is null'') | Some i \<Rightarrow> Inr i)"

definition imgWidth :: "'c CanvasBase \<Rightarrow> int result" where
  "imgWidth c = bind_result (getImage c) (\<lambda>i. Inr (int (img_w i)))"

definition imgHeight :: "'c CanvasBase \<Rightarrow> int result" where
  "imgHeight c = bind_result (getImage c) (\<lambda>i. Inr (int (img_h i)))"

definition setImage :: "QImage option \<Rightarrow> 'c CanvasBase \<Rightarrow> 'c CanvasBase result" where
  "setImage img c =
     (case img of
        None \<Rightarrow> Inl (CanvasException ''image is null'')
      | Some i \<Rightarrow> Inr (c\<lparr>m_image := Some i, m_disImg := Some i\<rparr>))"

definition setSize :: "QSize \<Rightarrow> 'c CanvasBase \<Rightarrow> 'c CanvasBase outcome" where
  "setSize sz c =
     (let c1 = c\<lparr>m_scaleValue := 1\<rparr>
      in lift_result c1 (bind_result (imgWidth c1) (\<lambda>w. bind_result (imgHeight c1) (\<lambda>h.
         let a1 = of_int (sz_width sz) / of_int w;
             a2 = of_int (sz_height sz) / of_int h;
             v = (if a1 < a2 then a1 else a2) * (98/100)
         in Inr (c1\<lparr>m_scaleValue := v, item_scale := v\<rparr>)))))"

definition mapToImg :: "'c CanvasBase \<Rightarrow> QPointF \<Rightarrow> QPointF result" where
  "mapToImg c pt =
     bind_result (imgWidth c) (\<lambda>w. bind_result (imgHeight c) (\<lambda>h.
     Inr (pt + QPointF (of_int (c_div w 2)) (of_int (c_div h 2)))))"

definition mapFromImg :: "'c CanvasBase \<Rightarrow> QPointF \<Rightarrow> QPointF result" where
  "mapFromImg c pt =
     bind_result (imgWidth c) (\<lambda>w. bind_result (imgHeight c) (\<lambda>h.
     Inr (pt - QPointF (of_int (c_div w 2)) (of_int (c_div h 2)))))"

text \<open>The two assignments that keep one coordinate between the edges of the image.\<close>

definition bind_edge :: "rat \<Rightarrow> rat \<Rightarrow> rat \<Rightarrow> rat" where
  "bind_edge edge len w =
     (let w1 = (if w \<ge> len - edge then len - edge else w)
      in if w1 \<le> edge then edge else w1)"

definition bindImgEdge :: "'c CanvasBase \<Rightarrow> QPointF \<Rightarrow> QPointF result" where
  "bindImgEdge c pt =
     bind_result (mapToImg c pt) (\<lambda>point.
     bind_result (imgWidth c) (\<lambda>iw. bind_result (imgHeight c) (\<lambda>ih.
       let edge = 2 * of_int (m_penLineWidth c) / 3
       in mapFromImg c (QPointF (bind_edge edge (of_int iw) (px point)) (bind_edge edge (of_int ih) (py point))))))"

definition boundingRect :: "'c CanvasBase \<Rightarrow> QRectF" where
  "boundingRect c =
     (case m_image c of
        None \<Rightarrow> \<lparr>rx = of_int (c_div (-640) 2), ry = of_int (c_div (-512) 2), rw = 640, rh = 512\<rparr>
      | Some i \<Rightarrow> \<lparr>rx = of_int (c_div (- int (img_w i)) 2), ry = of_int (c_div (- int (img_h i)) 2),
                   rw = of_nat (img_w i), rh = of_nat (img_h i)\<rparr>)"

definition imgRectF :: "'c CanvasBase \<Rightarrow> QRectF" where
  "imgRectF c =
     (case m_image c of
        None \<Rightarrow> \<lparr>rx = -640, ry = -512, rw = of_int (c_div 640 2), rh = of_int (c_div 512 2)\<rparr>
      | Some i \<Rightarrow> \<lparr>rx = of_int (c_div (- int (img_w i)) 2), ry = of_int (c_div (- int (img_h i)) 2),
                   rw = of_int (c_div (int (img_w i)) 2), rh = of_int (c_div (int (img_h i)) 2)\<rparr>)"

text \<open>
  \<^verbatim>\<open>isCloseToEdge\<close> returns whether some vertex would come too close to an edge of
  the image, and the corrected \<^verbatim>\<open>delta\<close>. The image size is asked for only when
  there is a vertex to test.
\<close>

definition out_x :: "rat \<Rightarrow> rat \<Rightarrow> rat \<Rightarrow> QPointF \<Rightarrow> bool" where
  "out_x offset w dx p \<longleftrightarrow> px p + dx > w - offset \<or> px p + dx < offset"

definition out_y :: "rat \<Rightarrow> rat \<Rightarrow> rat \<Rightarrow> QPointF \<Rightarrow> bool" where
  "out_y offset h dy p \<longleftrightarrow> py p + dy > h - offset \<or> py p + dy < offset"

definition isCloseToEdge :: "'c CanvasBase \<Rightarrow> ShapePtr \<Rightarrow> QPointF \<Rightarrow> (bool \<times> QPointF) result" where
  "isCloseToEdge c shape delta =
     (let points = YPolygonPoints_getImgPoints (Shape_points (get_shape c shape));
          offset = 5 * of_int (m_penLineWidth c) / 3
      in if points = [] then Inr (False, delta)
         else bind_result (imgWidth c) (\<lambda>w. bind_result (imgHeight c) (\<lambda>h.
           case find (\<lambda>p. out_x offset (of_int w) (px delta) p \<or> out_y offset (of_int h) (py delta) p) points of
             None \<Rightarrow> Inr (False, delta)
           | Some it \<Rightarrow>
               Inr (True, QPointF (if out_x offset (of_int w) (px delta) it then 0 else px delta)
                                  (if out_y offset (of_int h) (py delta) it then 0 else py delta)))))"

subsection \<open>The list of shapes\<close>

definition currentShape :: "'c CanvasBase \<Rightarrow> ShapePtr option result" where
  "currentShape c =
     (if m_currentIndex c = -1 then Inr None
      else bind_result (vec_at (m_shapeList c) (m_currentIndex c)) (\<lambda>r. Inr (Some r)))"

definition currentShapeName :: "'c CanvasBase \<Rightarrow> string result" where
  "currentShapeName c =
     (if m_currentIndex c = -1 then Inr []
      else bind_result (vec_at (m_shapeList c) (m_currentIndex c)) (\<lambda>r. Inr (Shape_name (get_shape c r))))"

fun indexOf_loop :: "Shape list \<Rightarrow> string \<Rightarrow> int \<Rightarrow> int" where
  "indexOf_loop [] shapeName i = -1"
| "indexOf_loop (s # ss) shapeName i =
     (if Shape_name s = shapeName then i else indexOf_loop ss shapeName (i + 1))"

definition indexOf :: "'c CanvasBase \<Rightarrow> string \<Rightarrow> int" where
  "indexOf c shapeName = indexOf_loop (shapes c) shapeName 0"

definition shape_named :: "'c CanvasBase \<Rightarrow> string \<Rightarrow> ShapePtr option result" where
  "shape_named c shapeName =
     (let index = indexOf c shapeName
      in if index = -1 then Inr None
         else bind_result (vec_at (m_shapeList c) index) (\<lambda>r. Inr (Some r)))"

definition setCurrentShape :: "int \<Rightarrow> 'c CanvasBase \<Rightarrow> 'c CanvasBase result" where
  "setCurrentShape index c =
     (let c1 = c\<lparr>m_currentIndex := index\<rparr>
      in if index \<noteq> -1 then bind_result (currentShape c1) (\<lambda>_. Inr c1) else Inr c1)"

definition candidate :: "string \<Rightarrow> nat \<Rightarrow> string" where
  "candidate name i = (if i > 0 then name @ QString_number (int i) else name)"

lemma candidate_inj: "inj (candidate name)"
  by (rule injI) (auto simp: candidate_def split: if_splits)

lemma indexOf_loop_absent: "0 \<le> i \<Longrightarrow> indexOf_loop ss nm i = -1 \<longleftrightarrow> nm \<notin> m_name ` set ss"
  by (induction ss arbitrary: i) auto

text \<open>
  The loop of \<^verbatim>\<open>uniqueName\<close> has no bound; it ends because the candidates are
  pairwise different and the list is finite.
\<close>

function uniqueName_loop :: "Shape list \<Rightarrow> string \<Rightarrow> nat \<Rightarrow> string" where
  "uniqueName_loop ss name i =
     (let unique = candidate name i
      in if indexOf_loop ss unique 0 = -1 then unique else uniqueName_loop ss name (Suc i))"
  by pat_completeness auto
termination
proof (relation "measure (\<lambda>(ss, name, i). card {j. i \<le> j \<and> candidate name j \<in> m_name ` set ss})")
  fix ss :: "Shape list" and name i x
  assume x: "x = candidate name i" "indexOf_loop ss x 0 \<noteq> -1"
  let ?A = "\<lambda>i. {j. i \<le> j \<and> candidate name j \<in> m_name ` set ss}"
  have "finite (candidate name -` (m_name ` set ss))"
    by (rule finite_vimageI[OF _ candidate_inj]) simp
  then have "finite (?A i)" by (rule rev_finite_subset) auto
  moreover have "i \<in> ?A i" "i \<notin> ?A (Suc i)" "?A (Suc i) \<subseteq> ?A i"
    using x by (auto simp: indexOf_loop_absent)
  then have "?A (Suc i) \<subset> ?A i" by blast
  ultimately show "((ss, name, Suc i), ss, name, i) \<in>
      measure (\<lambda>(ss, name, i). card {j. i \<le> j \<and> candidate name j \<in> m_name ` set ss})"
    by (simp add: psubset_card_mono)
qed simp

declare uniqueName_loop.simps [simp del]

definition uniqueName :: "'c CanvasBase \<Rightarrow> string \<Rightarrow> string" where
  "uniqueName c name = uniqueName_loop (shapes c) name 0"

definition CanvasBase_addShape :: "ShapePtr \<Rightarrow> 'c CanvasBase \<Rightarrow> (string \<times> 'c CanvasBase) result" where
  "CanvasBase_addShape shape c =
     bind_result (deref c shape) (\<lambda>s.
     let name = uniqueName c (Shape_typeToString (Shape_type s));
         c1 = c\<lparr>m_shapeList := m_shapeList c @ [shape]\<rparr>;
         c2 = set_shape shape (Shape_setName name) c1
     in bind_result (setCurrentShape (int (length (m_shapeList c2)) - 1) c2) (\<lambda>c3. Inr (name, c3)))"

definition CanvasBase_deleteShape :: "string \<Rightarrow> 'c CanvasBase \<Rightarrow> 'c CanvasBase result" where
  "CanvasBase_deleteShape shapeName c =
     (let index = indexOf c shapeName
      in if index = -1 then Inr c
         else bind_result (vec_erase (m_shapeList c) index) (\<lambda>l.
           let c1 = c\<lparr>m_shapeList := l\<rparr>
           in if index \<le> m_currentIndex c1
              then setCurrentShape (if index = int (length l) then index - 1 else index) (c1\<lparr>m_currentIndex := -1\<rparr>)
              else Inr c1))"

definition CanvasBase_addPoint ::
    "ShapePtr option \<Rightarrow> QPointF \<Rightarrow> 'c CanvasBase \<Rightarrow> (string \<times> 'c CanvasBase) result" where
  "CanvasBase_addPoint shape point c =
     (case shape of
        None \<Rightarrow> Inr ([], c)
      | Some r \<Rightarrow>
          bind_result (deref c r) (\<lambda>s.
          let s1 = Shape_appendPoint point s;
              curPos = YPolygonPoints_size (Shape_points s1) - 1
          in Inr (QString_number curPos, set_shape r (\<lambda>_. s1) c)))"

definition CanvasBase_deletePoint :: "ShapePtr option \<Rightarrow> string \<Rightarrow> 'c CanvasBase \<Rightarrow> 'c CanvasBase result" where
  "CanvasBase_deletePoint shape pointName c =
     (case shape of
        None \<Rightarrow> Inl (Undefined ''null ShapePtr'')
      | Some r \<Rightarrow>
          bind_result (deref c r) (\<lambda>s.
          bind_result (Shape_deletePoint (QString_toInt pointName) s) (\<lambda>s1.
          Inr (set_shape r (\<lambda>_. s1) c))))"

subsection \<open>Zoom, filter and reset\<close>

definition zoomIn :: "'c CanvasBase \<Rightarrow> 'c CanvasBase" where
  "zoomIn c =
     (if m_scaleValue c \<ge> 10 then c
      else let v = m_scaleValue c * (1 + m_scaleStep) in c\<lparr>m_scaleValue := v, item_scale := v\<rparr>)"

definition zoomOut :: "'c CanvasBase \<Rightarrow> 'c CanvasBase" where
  "zoomOut c =
     (if m_scaleValue c \<le> m_scaleStep then c
      else let v = m_scaleValue c * (1 - m_scaleStep) in c\<lparr>m_scaleValue := v, item_scale := v\<rparr>)"

definition wheelEvent :: "int \<Rightarrow> QPointF \<Rightarrow> 'c CanvasBase \<Rightarrow> 'c CanvasBase" where
  "wheelEvent delta pos c =
     (let lastScale = m_scaleValue c;
          c1 = (if delta > 0 then zoomIn c else zoomOut c)
      in if lastScale = m_scaleValue c1 then c1
         else let dir = (if delta > 0 then -1 else 1);
                  scale = dir * lastScale * m_scaleStep
              in c1\<lparr>item_pos := item_pos c1 + QPointF (px pos * scale) (py pos * scale)\<rparr>)"

definition setContrast :: "(QImage \<Rightarrow> QImage) \<Rightarrow> int \<Rightarrow> 'c CanvasBase \<Rightarrow> 'c CanvasBase result" where
  "setContrast convert contrast c =
     (let c1 = c\<lparr>m_contrast := contrast\<rparr>
      in bind_result (lightContrastImage convert (m_image c1) (m_brightness c1) (m_contrast c1)) (\<lambda>img.
         Inr (c1\<lparr>m_disImg := img\<rparr>)))"

definition setBrightness :: "(QImage \<Rightarrow> QImage) \<Rightarrow> int \<Rightarrow> 'c CanvasBase \<Rightarrow> 'c CanvasBase result" where
  "setBrightness convert brightness c =
     (let c1 = c\<lparr>m_brightness := brightness\<rparr>
      in bind_result (lightContrastImage convert (m_image c1) (m_brightness c1) (m_contrast c1)) (\<lambda>img.
         Inr (c1\<lparr>m_disImg := img\<rparr>)))"

definition CanvasBase_clean :: "'c CanvasBase \<Rightarrow> 'c CanvasBase" where
  "CanvasBase_clean c =
     c\<lparr>m_image := None, m_shapeList := [], m_undoStack := \<lparr>stack_cmds = [], stack_index = 0\<rparr>\<rparr>"

subsection \<open>Lemmas on images and coordinates\<close>

lemma canvas_size [simp]:
  "m_image c = Some i \<Longrightarrow> getImage c = Inr i"
  "m_image c = Some i \<Longrightarrow> imgWidth c = Inr (int (img_w i))"
  "m_image c = Some i \<Longrightarrow> imgHeight c = Inr (int (img_h i))"
  "m_image c = None \<Longrightarrow> getImage c = Inl (CanvasException ''image is null'')"
  "m_image c = None \<Longrightarrow> imgWidth c = Inl (CanvasException ''image is null'')"
  "m_image c = None \<Longrightarrow> imgHeight c = Inl (CanvasException ''image is null'')"
  by (simp_all add: imgWidth_def imgHeight_def getImage_def)

definition img_offset :: "QImage \<Rightarrow> QPointF" where
  "img_offset i = QPointF (of_int (c_div (int (img_w i)) 2)) (of_int (c_div (int (img_h i)) 2))"

lemma map_img [simp]:
  "m_image c = Some i \<Longrightarrow> mapToImg c p = Inr (p + img_offset i)"
  "m_image c = Some i \<Longrightarrow> mapFromImg c p = Inr (p - img_offset i)"
  "m_image c = None \<Longrightarrow> mapToImg c p = Inl (CanvasException ''image is null'')"
  "m_image c = None \<Longrightarrow> mapFromImg c p = Inl (CanvasException ''image is null'')"
  by (simp_all add: mapToImg_def mapFromImg_def img_offset_def)

text \<open>
  The two coordinate maps of the canvas are inverse to each other; on a canvas without an
  image neither gives a point.
\<close>

theorem map_img_inverse:
  "mapToImg c p = Inr q \<longleftrightarrow> mapFromImg c q = Inr p"
  by (cases "m_image c") auto

lemma bind_edge_range: "2 * edge \<le> len \<Longrightarrow> edge \<le> bind_edge edge len w \<and> bind_edge edge len w \<le> len - edge"
  by (simp add: bind_edge_def Let_def)

lemma bind_edge_inside: "edge \<le> w \<Longrightarrow> w \<le> len - edge \<Longrightarrow> bind_edge edge len w = w"
  by (auto simp: bind_edge_def Let_def)

lemma bind_edge_nearest:
  "2 * edge \<le> len \<Longrightarrow> edge \<le> v \<Longrightarrow> v \<le> len - edge \<Longrightarrow> \<bar>bind_edge edge len w - w\<bar> \<le> \<bar>v - w\<bar>"
  by (auto simp: bind_edge_def Let_def)

lemma bindImgEdge_eq:
  "m_image c = Some i \<Longrightarrow> bindImgEdge c p =
     Inr (QPointF (bind_edge (2 * of_int (m_penLineWidth c) / 3) (of_nat (img_w i)) (px (p + img_offset i)))
                  (bind_edge (2 * of_int (m_penLineWidth c) / 3) (of_nat (img_h i)) (py (p + img_offset i)))
          - img_offset i)"
  by (simp add: bindImgEdge_def Let_def)

lemma bindImgEdge_None: "m_image c = None \<Longrightarrow> bindImgEdge c p = Inl (CanvasException ''image is null'')"
  by (simp add: bindImgEdge_def)

definition inside_margin :: "rat \<Rightarrow> QImage \<Rightarrow> QPointF \<Rightarrow> bool" where
  "inside_margin e i q \<longleftrightarrow>
     e \<le> px q \<and> px q \<le> of_nat (img_w i) - e \<and> e \<le> py q \<and> py q \<le> of_nat (img_h i) - e"

text \<open>
  C24. Every mouse position is pulled into the image: for an image at least as large as twice the
  margin, \<^verbatim>\<open>bindImgEdge\<close> returns a point that lies inside the margin in image
  coordinates, is the closest such point in both directions, and is the argument itself if
  that was inside; so binding twice is binding once.
\<close>

theorem bindImgEdge_clamps:
  assumes "m_image c = Some i" and "e = 2 * of_int (m_penLineWidth c) / 3"
    and "2 * e \<le> of_nat (img_w i)" and "2 * e \<le> of_nat (img_h i)"
  shows "\<exists>q. bindImgEdge c p = Inr q \<and> inside_margin e i (q + img_offset i) \<and> bindImgEdge c q = Inr q \<and>
     (inside_margin e i (p + img_offset i) \<longrightarrow> q = p) \<and>
     (\<forall>r. inside_margin e i (r + img_offset i) \<longrightarrow>
        \<bar>px q - px p\<bar> \<le> \<bar>px r - px p\<bar> \<and> \<bar>py q - py p\<bar> \<le> \<bar>py r - py p\<bar>)"
proof -
  let ?q = "QPointF (bind_edge e (of_nat (img_w i)) (px (p + img_offset i)))
                    (bind_edge e (of_nat (img_h i)) (py (p + img_offset i)))"
  have q: "bindImgEdge c p = Inr (?q - img_offset i)"
    using bindImgEdge_eq[OF assms(1), of p] by (simp add: assms(2))
  have inside: "inside_margin e i ?q"
    using bind_edge_range assms(3,4) by (simp add: inside_margin_def)
  then have again: "bindImgEdge c (?q - img_offset i) = Inr (?q - img_offset i)"
    using bindImgEdge_eq[OF assms(1), of "?q - img_offset i"]
    by (simp add: assms(2)[symmetric] inside_margin_def bind_edge_inside)
  have same: "inside_margin e i (p + img_offset i) \<Longrightarrow> ?q - img_offset i = p"
    by (simp add: inside_margin_def bind_edge_inside QPointF_eq_iff)
  have near: "\<bar>px (?q - img_offset i) - px p\<bar> \<le> \<bar>px r - px p\<bar> \<and> \<bar>py (?q - img_offset i) - py p\<bar> \<le> \<bar>py r - py p\<bar>"
    if "inside_margin e i (r + img_offset i)" for r
    using bind_edge_nearest[OF assms(3), of "px (r + img_offset i)" "px (p + img_offset i)"]
      bind_edge_nearest[OF assms(4), of "py (r + img_offset i)" "py (p + img_offset i)"] that
    by (simp add: inside_margin_def algebra_simps)
  from q inside again same near show ?thesis by (metis diff_add_cancel)
qed

definition blank_image :: "nat \<Rightarrow> nat \<Rightarrow> QImage" where
  "blank_image w h = \<lparr>img_w = w, img_h = h, img_rgb888 = True, img_bits = replicate ((3 * w + 3) div 4 * 4 * h) 255\<rparr>"

definition sample_canvas :: "'c CanvasBase" where
  "sample_canvas = CanvasBase_new\<lparr>m_image := Some (blank_image 100 100), m_disImg := Some (blank_image 100 100)\<rparr>"

lemma sample_canvas_simps [simp]:
  "m_image sample_canvas = Some (blank_image 100 100)" "m_penLineWidth sample_canvas = 2"
  "m_shapeList sample_canvas = []" "heap sample_canvas = []" "m_currentIndex sample_canvas = -1"
  "m_scaleValue sample_canvas = 1" "item_scale sample_canvas = 1" "m_task sample_canvas = segmentation"
  "m_operat sample_canvas = draw" "m_draw sample_canvas = Polygon" "item_pos sample_canvas = 0"
  "m_undoStack sample_canvas = \<lparr>stack_cmds = [], stack_index = 0\<rparr>"
  "m_mouseDrag sample_canvas = False" "m_activePoint sample_canvas = -1" "m_insertPoint sample_canvas = -1"
  by (simp_all add: sample_canvas_def CanvasBase_new_def)

lemma blank_image_simps [simp]: "img_w (blank_image w h) = w" "img_h (blank_image w h) = h"
  by (simp_all add: blank_image_def)

theorem bindImgEdge_clamps_witness:
  "\<exists>q. bindImgEdge (sample_canvas :: nat CanvasBase) (QPointF 1000 0) = Inr q \<and>
       inside_margin (4/3) (blank_image 100 100) (q + img_offset (blank_image 100 100))"
  using bindImgEdge_clamps[of "sample_canvas :: nat CanvasBase" "blank_image 100 100" "4/3" "QPointF 1000 0"]
  by auto

subsection \<open>Zooming\<close>

definition scene_pos :: "'c CanvasBase \<Rightarrow> QPointF \<Rightarrow> QPointF" where
  "scene_pos c p = item_pos c + scaleP (item_scale c) p"

text \<open>
  C23. Zooming with the wheel keeps the point under the mouse where it is: the scene position of
  the event's item coordinates is the same before and after, whichever way the wheel turns and
  also when a zoom limit blocks it.
\<close>

theorem wheel_keeps_point_under_mouse:
  assumes "item_scale c = m_scaleValue c"
  shows "scene_pos (wheelEvent delta pos c) pos = scene_pos c pos \<and>
     item_scale (wheelEvent delta pos c) = m_scaleValue (wheelEvent delta pos c)"
  using assms
  by (auto simp: wheelEvent_def zoomIn_def zoomOut_def Let_def scene_pos_def m_scaleStep_def
      QPointF_eq_iff algebra_simps)

theorem wheel_keeps_point_under_mouse_witness:
  "scene_pos (wheelEvent 120 (QPointF 10 20) (sample_canvas :: nat CanvasBase)) (QPointF 10 20) = QPointF 10 20"
proof -
  have "scene_pos (sample_canvas :: nat CanvasBase) (QPointF 10 20) = QPointF 10 20"
    by (simp add: scene_pos_def scaleP_def)
  with wheel_keeps_point_under_mouse[of "sample_canvas :: nat CanvasBase" 120 "QPointF 10 20"]
  show ?thesis by simp
qed

lemma zoom_bounds:
  "19/400 < m_scaleValue c \<Longrightarrow> 19/400 < m_scaleValue (zoomIn c)"
  "m_scaleValue c < 21/2 \<Longrightarrow> m_scaleValue (zoomIn c) < 21/2"
  "19/400 < m_scaleValue c \<Longrightarrow> 19/400 < m_scaleValue (zoomOut c)"
  "19/400 < m_scaleValue c \<Longrightarrow> m_scaleValue c < 21/2 \<Longrightarrow> m_scaleValue (zoomOut c) < 21/2"
  by (auto simp: zoomIn_def zoomOut_def Let_def m_scaleStep_def)

text \<open>
  No sequence of zoom steps leaves the range between 0.0475 and 10.5: the guards stop the
  scale one step beyond 0.05 and 10. The comment at \<^verbatim>\<open>zoomIn\<close> speaks of
  fifty times the original size.
\<close>

theorem zoom_stays_in_range:
  assumes "19/400 < m_scaleValue c" and "m_scaleValue c < 21/2"
  shows "19/400 < m_scaleValue (fold (\<lambda>up. if up then zoomIn else zoomOut) ups c) \<and>
     m_scaleValue (fold (\<lambda>up. if up then zoomIn else zoomOut) ups c) < 21/2"
  using assms
proof (induction ups arbitrary: c)
  case (Cons up ups)
  have "19/400 < m_scaleValue ((if up then zoomIn else zoomOut) c)"
    "m_scaleValue ((if up then zoomIn else zoomOut) c) < 21/2"
    using zoom_bounds[of c] Cons.prems by (simp_all split: if_split)
  then show ?case unfolding fold_Cons comp_apply by (rule Cons.IH)
qed simp

theorem zoom_stays_in_range_witness:
  "m_scaleValue (fold (\<lambda>up. if up then zoomIn else zoomOut) (replicate 1000 True) (sample_canvas :: nat CanvasBase)) < 21/2"
proof -
  have "19/400 < m_scaleValue (sample_canvas :: nat CanvasBase)" "m_scaleValue (sample_canvas :: nat CanvasBase) < 21/2"
    by simp_all
  from zoom_stays_in_range[OF this] show ?thesis by (rule conjunct2)
qed

subsection \<open>Lemmas on the list of shapes\<close>

definition refs_valid :: "'c CanvasBase \<Rightarrow> bool" where
  "refs_valid c \<longleftrightarrow> distinct (m_shapeList c) \<and> (\<forall>r \<in> set (m_shapeList c). r < length (heap c))"

definition canvas_inv :: "'c CanvasBase \<Rightarrow> bool" where
  "canvas_inv c \<longleftrightarrow> refs_valid c \<and> distinct (map m_name (shapes c)) \<and>
     -1 \<le> m_currentIndex c \<and> m_currentIndex c < int (length (m_shapeList c))"

lemma length_shapes [simp]: "length (shapes c) = length (m_shapeList c)"
  by (simp add: shapes_def)

lemma shapes_nth [simp]: "k < length (m_shapeList c) \<Longrightarrow> shapes c ! k = get_shape c (m_shapeList c ! k)"
  by (simp add: shapes_def)

lemma get_set_shape:
  "get_shape (set_shape r f c) q = (if q = r \<and> r < length (heap c) then f (get_shape c r) else get_shape c q)"
  by (auto simp: get_shape_def set_shape_def nth_list_update list_update_beyond)

lemma set_shape_fields [simp]:
  "m_shapeList (set_shape r f c) = m_shapeList c" "m_currentIndex (set_shape r f c) = m_currentIndex c"
  "m_image (set_shape r f c) = m_image c" "length (heap (set_shape r f c)) = length (heap c)"
  "m_undoStack (set_shape r f c) = m_undoStack c" "m_task (set_shape r f c) = m_task c"
  "m_operat (set_shape r f c) = m_operat c" "m_draw (set_shape r f c) = m_draw c"
  by (simp_all add: set_shape_def)

lemma shapes_set_shape_other: "r \<notin> set (m_shapeList c) \<Longrightarrow> shapes (set_shape r f c) = shapes c"
  by (auto simp: shapes_def get_set_shape)

lemma shapes_cong:
  "m_shapeList c = m_shapeList d \<Longrightarrow> heap c = heap d \<Longrightarrow> shapes c = shapes d"
  by (simp add: shapes_def get_shape_def[abs_def])

lemma indexOf_loop_at:
  "distinct (map m_name ss) \<Longrightarrow> k < length ss \<Longrightarrow> indexOf_loop ss (m_name (ss ! k)) i = i + int k"
proof (induction ss arbitrary: i k)
  case (Cons s ss)
  then show ?case by (cases k) (auto simp: image_iff)
qed simp

lemma indexOf_cases:
  obtains "indexOf c nm = -1" "nm \<notin> m_name ` set (shapes c)"
  | k where "indexOf c nm = int k" "k < length (m_shapeList c)" "m_name (shapes c ! k) = nm"
      "\<And>j. j < k \<Longrightarrow> m_name (shapes c ! j) \<noteq> nm"
proof -
  have "(indexOf_loop ss nm i = -1 \<and> nm \<notin> m_name ` set ss) \<or>
      (\<exists>k < length ss. indexOf_loop ss nm i = i + int k \<and> m_name (ss ! k) = nm \<and>
        (\<forall>j < k. m_name (ss ! j) \<noteq> nm))" for ss i
  proof (induction ss arbitrary: i)
    case (Cons s ss)
    show ?case
    proof (cases "m_name s = nm")
      case False
      from Cons[of "i + 1"] show ?thesis
      proof
        assume "\<exists>k<length ss. indexOf_loop ss nm (i + 1) = i + 1 + int k \<and> m_name (ss ! k) = nm \<and>
            (\<forall>j < k. m_name (ss ! j) \<noteq> nm)"
        then obtain k where "k < length ss" "indexOf_loop ss nm (i + 1) = i + 1 + int k"
            "m_name (ss ! k) = nm" "\<forall>j < k. m_name (ss ! j) \<noteq> nm" by blast
        with False show ?thesis
          by (intro disjI2 exI[of _ "Suc k"]) (auto simp: nth_Cons split: nat.splits)
      qed (use False in auto)
    qed auto
  qed simp
  from this[of "shapes c" 0] show ?thesis using that by (auto simp: indexOf_def)
qed

lemma indexOf_nth:
  "canvas_inv c \<Longrightarrow> k < length (m_shapeList c) \<Longrightarrow> indexOf c (m_name (get_shape c (m_shapeList c ! k))) = int k"
  using indexOf_loop_at[of "shapes c" k 0] by (simp add: canvas_inv_def indexOf_def)

lemma shape_named_nth:
  "canvas_inv c \<Longrightarrow> k < length (m_shapeList c) \<Longrightarrow>
   shape_named c (m_name (get_shape c (m_shapeList c ! k))) = Inr (Some (m_shapeList c ! k))"
  by (simp add: shape_named_def indexOf_nth vec_at_def Let_def)

lemma uniqueName_loop_first:
  "\<exists>k \<ge> i. uniqueName_loop ss name i = candidate name k \<and> candidate name k \<notin> m_name ` set ss \<and>
     (\<forall>j. i \<le> j \<and> j < k \<longrightarrow> candidate name j \<in> m_name ` set ss)"
proof (induction ss name i rule: uniqueName_loop.induct)
  case (1 ss name i)
  show ?case
  proof (cases "indexOf_loop ss (candidate name i) 0 = -1")
    case True
    then show ?thesis
      by (subst uniqueName_loop.simps) (auto simp: Let_def indexOf_loop_absent intro!: exI[of _ i])
  next
    case False
    with 1[OF refl False] obtain k where k: "Suc i \<le> k" "uniqueName_loop ss name (Suc i) = candidate name k"
        "candidate name k \<notin> m_name ` set ss" "\<forall>j. Suc i \<le> j \<and> j < k \<longrightarrow> candidate name j \<in> m_name ` set ss"
      by blast
    moreover have "candidate name i \<in> m_name ` set ss" using False by (simp add: indexOf_loop_absent)
    moreover have "uniqueName_loop ss name i = uniqueName_loop ss name (Suc i)"
      using False by (subst uniqueName_loop.simps) (simp add: Let_def)
    moreover have "j = i \<or> Suc i \<le> j" if "i \<le> j" for j using that by auto
    ultimately show ?thesis by (intro exI[of _ k]) auto
  qed
qed

text \<open>
  C19. \<^verbatim>\<open>uniqueName\<close> always returns, and returns the first of the candidates
  \<^verbatim>\<open>name\<close>, \<^verbatim>\<open>name1\<close>, \<^verbatim>\<open>name2\<close>, ... that no shape of the canvas has.
\<close>

theorem uniqueName_is_first_free:
  "\<exists>k. uniqueName c name = candidate name k \<and> candidate name k \<notin> m_name ` set (shapes c) \<and>
     candidate name ` {..<k} \<subseteq> m_name ` set (shapes c)"
  using uniqueName_loop_first[of 0 "shapes c" name] by (auto simp: uniqueName_def)

lemma uniqueName_fresh: "uniqueName c name \<notin> m_name ` set (shapes c)"
  using uniqueName_loop_first[of 0 "shapes c" name] unfolding uniqueName_def by metis

lemma currentShape_total: "canvas_inv c \<Longrightarrow> \<exists>r. currentShape c = Inr r \<and> (\<forall>q. r = Some q \<longrightarrow> q \<in> set (m_shapeList c))"
  by (auto simp: canvas_inv_def currentShape_def vec_at_def)

lemma setCurrentShape_in:
  "-1 \<le> i \<Longrightarrow> i < int (length (m_shapeList c)) \<Longrightarrow> setCurrentShape i c = Inr (c\<lparr>m_currentIndex := i\<rparr>)"
  by (simp add: setCurrentShape_def currentShape_def vec_at_def Let_def)

lemma addShape_result:
  "r < length (heap c) \<Longrightarrow> CanvasBase_addShape r c =
     (let nm = uniqueName c (Shape_typeToString (m_type (get_shape c r)))
      in Inr (nm, (set_shape r (Shape_setName nm) c)
        \<lparr>m_shapeList := m_shapeList c @ [r], m_currentIndex := int (length (m_shapeList c))\<rparr>))"
  by (simp add: CanvasBase_addShape_def deref_def Let_def setCurrentShape_in set_shape_def)

lemma shapes_addShape:
  assumes "r < length (heap c)" "r \<notin> set (m_shapeList c)" "CanvasBase_addShape r c = Inr (nm, c')"
  shows "shapes c' = shapes c @ [(get_shape c r)\<lparr>m_name := nm\<rparr>]" "m_shapeList c' = m_shapeList c @ [r]"
    "m_currentIndex c' = int (length (m_shapeList c))" "length (heap c') = length (heap c)"
    "nm \<notin> m_name ` set (shapes c)" "m_image c' = m_image c" "m_undoStack c' = m_undoStack c"
    "\<And>q. q \<noteq> r \<Longrightarrow> get_shape c' q = get_shape c q"
  using assms uniqueName_fresh[of c]
  by (auto simp: addShape_result Let_def shapes_def get_shape_def set_shape_def nth_list_update)

lemma addShape_inv:
  assumes "canvas_inv c" "r < length (heap c)" "r \<notin> set (m_shapeList c)" "CanvasBase_addShape r c = Inr (nm, c')"
  shows "canvas_inv c'"
proof -
  note s = shapes_addShape[OF assms(2-4)]
  have "distinct (map m_name (shapes c'))" using assms(1) s(1,5) by (simp add: canvas_inv_def)
  then show ?thesis using assms(1,2,3) s by (auto simp: canvas_inv_def refs_valid_def)
qed

text \<open>
  C17. Adding a shape always succeeds, keeps the invariant of the canvas (pairwise different
  shapes and names, a current index in range), appends the shape, makes it the current shape and
  changes nothing but its name. The name is the first that no shape of the canvas has among the name
  of its type, such as \<^verbatim>\<open>Line\<close>, and this name with a number,
  \<^verbatim>\<open>Line1\<close>, \<^verbatim>\<open>Line2\<close>, ...; it finds the shape again.
\<close>

theorem addShape_correct:
  assumes "canvas_inv c" and "r < length (heap c)" and "r \<notin> set (m_shapeList c)"
  shows "\<exists>k c'. let tn = Shape_typeToString (m_type (get_shape c r)); nm = candidate tn k in
     CanvasBase_addShape r c = Inr (nm, c') \<and> canvas_inv c' \<and> m_shapeList c' = m_shapeList c @ [r] \<and>
     nm \<notin> m_name ` set (shapes c) \<and> candidate tn ` {..<k} \<subseteq> m_name ` set (shapes c) \<and>
     get_shape c' r = (get_shape c r)\<lparr>m_name := nm\<rparr> \<and> shape_named c' nm = Inr (Some r) \<and>
     currentShape c' = Inr (Some r) \<and> currentShapeName c' = Inr nm \<and>
     (\<forall>q. q \<noteq> r \<longrightarrow> get_shape c' q = get_shape c q)"
proof -
  obtain nm c' where add: "CanvasBase_addShape r c = Inr (nm, c')" and u: "nm = uniqueName c (Shape_typeToString (m_type (get_shape c r)))"
    using assms(2) by (auto simp: addShape_result Let_def)
  obtain k where k: "nm = candidate (Shape_typeToString (m_type (get_shape c r))) k" "nm \<notin> m_name ` set (shapes c)"
      "candidate (Shape_typeToString (m_type (get_shape c r))) ` {..<k} \<subseteq> m_name ` set (shapes c)"
    using uniqueName_loop_first[of 0 "shapes c" "Shape_typeToString (m_type (get_shape c r))"] u by (auto simp: uniqueName_def)
  note s = shapes_addShape[OF assms(2,3) add]
  have inv: "canvas_inv c'" using addShape_inv[OF assms add] .
  have len: "length (m_shapeList c) < length (m_shapeList c')" by (simp add: s(2))
  have g: "get_shape c' r = (get_shape c r)\<lparr>m_name := nm\<rparr>"
    using s(1,2) shapes_nth[OF len] by (simp add: nth_append)
  then have nm: "m_name (get_shape c' r) = nm" by simp
  have "indexOf c' nm = int (length (m_shapeList c))"
    using indexOf_nth[OF inv len] nm by (simp add: s(2))
  then have "shape_named c' nm = Inr (Some r)" "currentShape c' = Inr (Some r)" "currentShapeName c' = Inr nm"
    using s(2,3) nm by (simp_all add: shape_named_def currentShape_def currentShapeName_def vec_at_def)
  with add inv s(2,8) g k show ?thesis by (intro exI[of _ k] exI[of _ c']) (simp add: Let_def)
qed

theorem addShape_correct_witness:
  "\<exists>c'. CanvasBase_addShape 0 ((sample_canvas :: nat CanvasBase)\<lparr>heap := [sample_triangle]\<rparr>) = Inr (''Ploygon'', c') \<and>
     canvas_inv c' \<and> currentShape c' = Inr (Some 0) \<and> shape_named c' ''Ploygon'' = Inr (Some 0)"
proof -
  let ?c = "(sample_canvas :: nat CanvasBase)\<lparr>heap := [sample_triangle]\<rparr>"
  have inv: "canvas_inv ?c" by (simp add: canvas_inv_def refs_valid_def shapes_def)
  have e: "m_name ` set (shapes ?c) = {}" "m_type (get_shape ?c 0) = Polygon"
    by (simp_all add: shapes_def get_shape_def sample_triangle_def Shape_new_def)
  from addShape_correct[OF inv, of 0] obtain k c' where k: "candidate ''Ploygon'' ` {..<k} \<subseteq> m_name ` set (shapes ?c)"
      "CanvasBase_addShape 0 ?c = Inr (candidate ''Ploygon'' k, c')" "canvas_inv c'" "currentShape c' = Inr (Some 0)"
      "shape_named c' (candidate ''Ploygon'' k) = Inr (Some 0)"
    by (auto simp: Let_def e(2))
  then have "candidate ''Ploygon'' k = ''Ploygon''" using e(1) by (cases k) (auto simp: candidate_def)
  with k show ?thesis by auto
qed

lemma deleteShape_at:
  assumes "canvas_inv c" "k < length (m_shapeList c)" "m_name (shapes c ! k) = nm"
  shows "CanvasBase_deleteShape nm c = Inr (c\<lparr>m_shapeList := list_remove k (m_shapeList c),
     m_currentIndex := (if int k \<le> m_currentIndex c
        then (if Suc k = length (m_shapeList c) then int k - 1 else int k) else m_currentIndex c)\<rparr>)"
proof -
  have "indexOf c nm = int k" using indexOf_nth[OF assms(1,2)] assms(2,3) by simp
  then show ?thesis using assms(2)
    by (auto simp: CanvasBase_deleteShape_def vec_erase_def Let_def setCurrentShape_in)
qed

lemma deleteShape_absent: "nm \<notin> m_name ` set (shapes c) \<Longrightarrow> CanvasBase_deleteShape nm c = Inr c"
  by (cases rule: indexOf_cases[of c nm])
     (auto simp: CanvasBase_deleteShape_def shapes_def)

lemma shapes_remove: "shapes (c\<lparr>m_shapeList := list_remove k (m_shapeList c), m_currentIndex := i\<rparr>) = list_remove k (shapes c)"
  by (simp add: shapes_def map_list_remove get_shape_def[abs_def])

lemma list_remove_by_name:
  assumes "distinct (map m_name ss)" "k < length ss"
  shows "list_remove k ss = filter (\<lambda>s. m_name s \<noteq> m_name (ss ! k)) ss"
proof -
  have ss: "ss = take k ss @ ss ! k # drop (Suc k) ss" using assms(2) by (rule id_take_nth_drop)
  have "distinct (map m_name (take k ss @ ss ! k # drop (Suc k) ss))" using assms(1) ss by simp
  then have "filter (\<lambda>s. m_name s \<noteq> m_name (ss ! k)) (take k ss @ ss ! k # drop (Suc k) ss) = list_remove k ss"
    by (auto simp: list_remove_def image_iff intro!: arg_cong2[where f = append] filter_True)
  with ss show ?thesis by simp
qed

text \<open>
  C18. Deleting by name always succeeds on a canvas that satisfies the invariant and keeps the
  invariant; it removes exactly the shape of that name, keeps the order of the others and the
  shapes themselves; an unknown name changes nothing.
\<close>

theorem deleteShape_correct:
  assumes "canvas_inv c"
  shows "\<exists>c'. CanvasBase_deleteShape nm c = Inr c' \<and> canvas_inv c' \<and> heap c' = heap c \<and>
     shapes c' = filter (\<lambda>s. m_name s \<noteq> nm) (shapes c) \<and>
     (nm \<notin> m_name ` set (shapes c) \<longrightarrow> c' = c)"
proof (cases rule: indexOf_cases[of c nm])
  case 1
  then have "filter (\<lambda>s. m_name s \<noteq> nm) (shapes c) = shapes c" by (auto simp: filter_id_conv)
  with 1 deleteShape_absent[OF 1(2)] assms show ?thesis by auto
next
  case (2 k)
  let ?i = "if int k \<le> m_currentIndex c
        then (if Suc k = length (m_shapeList c) then int k - 1 else int k) else m_currentIndex c"
  let ?c = "c\<lparr>m_shapeList := list_remove k (m_shapeList c), m_currentIndex := ?i\<rparr>"
  have del: "CanvasBase_deleteShape nm c = Inr ?c" using deleteShape_at[OF assms 2(2,3)] .
  have dn: "distinct (map m_name (shapes c))" using assms by (simp add: canvas_inv_def)
  have sh: "shapes ?c = filter (\<lambda>s. m_name s \<noteq> nm) (shapes c)"
    using shapes_remove[where c = c and k = k and i = ?i] list_remove_by_name[OF dn] 2(2,3) by simp
  have "canvas_inv ?c"
    unfolding canvas_inv_def sh using assms 2(2) distinct_list_remove[of "m_shapeList c" k] set_list_remove[of k "m_shapeList c"]
    by (auto simp: canvas_inv_def refs_valid_def distinct_map_filter)
  moreover have "nm \<in> m_name ` set (shapes c)"
    using 2(2,3) by (metis image_eqI length_shapes nth_mem)
  ultimately show ?thesis using del sh by (intro exI[of _ ?c]) simp
qed

theorem deleteShape_correct_witness:
  "\<exists>c'. CanvasBase_deleteShape ''a'' ((sample_canvas :: nat CanvasBase)
      \<lparr>heap := [sample_triangle\<lparr>m_name := ''a''\<rparr>], m_shapeList := [0], m_currentIndex := 0\<rparr>) = Inr c' \<and> shapes c' = []"
proof -
  have "canvas_inv ((sample_canvas :: nat CanvasBase)
      \<lparr>heap := [sample_triangle\<lparr>m_name := ''a''\<rparr>], m_shapeList := [0], m_currentIndex := 0\<rparr>)"
    by (simp add: canvas_inv_def refs_valid_def shapes_def)
  from deleteShape_correct[OF this, of "''a''"] show ?thesis
    by (auto simp: shapes_def get_shape_def)
qed

text \<open>
  \<^verbatim>\<open>clean\<close> empties the list of shapes but keeps the current index: afterwards
  asking for the current shape reads outside the list exactly if some shape was current. The
  new image is loaded on that state.
\<close>

theorem clean_leaves_dangling_index:
  assumes "canvas_inv c"
  shows "currentShape (CanvasBase_clean c) = Inl (Undefined ''QVector::at'') \<longleftrightarrow> currentShape c \<noteq> Inr None"
  using assms by (auto simp: currentShape_def CanvasBase_clean_def canvas_inv_def vec_at_def)

theorem clean_leaves_dangling_index_witness:
  "currentShape (CanvasBase_clean ((sample_canvas :: nat CanvasBase)
      \<lparr>heap := [sample_triangle], m_shapeList := [0], m_currentIndex := 0\<rparr>)) = Inl (Undefined ''QVector::at'')"
proof -
  let ?c = "(sample_canvas :: nat CanvasBase)\<lparr>heap := [sample_triangle], m_shapeList := [0], m_currentIndex := 0\<rparr>"
  have "canvas_inv ?c" by (simp add: canvas_inv_def refs_valid_def shapes_def)
  moreover have "currentShape ?c \<noteq> Inr None" by (simp add: currentShape_def vec_at_def)
  ultimately show ?thesis using clean_leaves_dangling_index[of ?c] by blast
qed

subsection \<open>Dragging near an edge\<close>

abbreviation img_vertices :: "'c CanvasBase \<Rightarrow> ShapePtr \<Rightarrow> QPointF list" where
  "img_vertices c r \<equiv> m_imgPoints (m_points (get_shape c r))"

lemma margin_iff_not_out:
  "inside_margin m i (p + d) \<longleftrightarrow> \<not> out_x m (of_nat (img_w i)) (px d) p \<and> \<not> out_y m (of_nat (img_h i)) (py d) p"
  by (auto simp: inside_margin_def out_x_def out_y_def)

lemma isCloseToEdge_find:
  assumes "m_image c = Some i" and "m = 5 * of_int (m_penLineWidth c) / 3"
  shows "isCloseToEdge c r delta =
     Inr (case find (\<lambda>p. \<not> inside_margin m i (p + delta)) (img_vertices c r) of
            None \<Rightarrow> (False, delta)
          | Some p \<Rightarrow> (True, QPointF (if out_x m (of_nat (img_w i)) (px delta) p then 0 else px delta)
                                  (if out_y m (of_nat (img_h i)) (py delta) p then 0 else py delta)))"
  unfolding isCloseToEdge_def Let_def assms(2)[symmetric] YPolygonPoints_getImgPoints_def Shape_points_def
  by (simp add: assms(1) margin_iff_not_out split: option.split)

text \<open>
  \<^verbatim>\<open>isCloseToEdge\<close> answers false exactly if the move keeps every vertex inside the
  margin, and then leaves the move as it is. Otherwise it only ever cancels components of the
  move, and the first vertex that would have left the margin ends inside it if it started
  inside it.
\<close>

theorem isCloseToEdge_guards_first_offender:
  assumes "m_image c = Some i" and "m = 5 * of_int (m_penLineWidth c) / 3"
  shows "\<exists>b d. isCloseToEdge c r delta = Inr (b, d) \<and>
     (b \<longleftrightarrow> (\<exists>p \<in> set (img_vertices c r). \<not> inside_margin m i (p + delta))) \<and>
     (\<not> b \<longrightarrow> d = delta) \<and> px d \<in> {0, px delta} \<and> py d \<in> {0, py delta} \<and>
     (\<forall>p. find (\<lambda>p. \<not> inside_margin m i (p + delta)) (img_vertices c r) = Some p \<and> inside_margin m i p \<longrightarrow>
        inside_margin m i (p + d) \<and> d \<noteq> delta)"
proof (cases "find (\<lambda>p. \<not> inside_margin m i (p + delta)) (img_vertices c r)")
  case None
  then have "isCloseToEdge c r delta = Inr (False, delta)"
    by (simp add: isCloseToEdge_find[OF assms])
  moreover have "\<forall>p \<in> set (img_vertices c r). inside_margin m i (p + delta)"
    using None by (auto simp: find_None_iff)
  ultimately show ?thesis using None by auto
next
  case (Some p)
  let ?d = "QPointF (if out_x m (of_nat (img_w i)) (px delta) p then 0 else px delta)
                    (if out_y m (of_nat (img_h i)) (py delta) p then 0 else py delta)"
  have "isCloseToEdge c r delta = Inr (True, ?d)"
    using Some by (simp add: isCloseToEdge_find[OF assms])
  moreover have p: "p \<in> set (img_vertices c r)" "\<not> inside_margin m i (p + delta)"
    using Some by (auto simp: find_Some_iff)
  moreover have "inside_margin m i p \<Longrightarrow> inside_margin m i (p + ?d)"
    using p(2) by (auto simp: inside_margin_def out_x_def out_y_def)
  moreover have "inside_margin m i (p + ?d) \<Longrightarrow> ?d \<noteq> delta" using p(2) by metis
  ultimately show ?thesis using Some by (intro exI[of _ True] exI[of _ ?d]) auto
qed

definition drag_triangle :: Shape where
  "drag_triangle = sample_triangle\<lparr>m_points :=
     \<lparr>m_imgPoints = [QPointF 90 50, QPointF 50 90, QPointF 50 50],
      m_oriPoints = [QPointF 40 0, QPointF 0 40, QPointF 0 0], pts_offset = QPointF 50 50\<rparr>\<rparr>"

theorem isCloseToEdge_guards_first_offender_witness:
  "\<exists>d. isCloseToEdge ((sample_canvas :: nat CanvasBase)\<lparr>heap := [drag_triangle], m_shapeList := [0]\<rparr>) 0 (QPointF 20 0) =
      Inr (True, d) \<and> inside_margin (10/3) (blank_image 100 100) (QPointF 90 50 + d)"
proof -
  let ?c = "(sample_canvas :: nat CanvasBase)\<lparr>heap := [drag_triangle], m_shapeList := [0]\<rparr>"
  have v: "img_vertices ?c 0 = [QPointF 90 50, QPointF 50 90, QPointF 50 50]"
    by (simp add: get_shape_def drag_triangle_def)
  have out: "\<not> inside_margin (10/3) (blank_image 100 100) (QPointF 90 50 + QPointF 20 0)"
    and ins: "inside_margin (10/3) (blank_image 100 100) (QPointF 90 50)"
    by (simp_all add: inside_margin_def)
  then show ?thesis
    using isCloseToEdge_guards_first_offender[of ?c "blank_image 100 100" "10/3" 0 "QPointF 20 0"]
    by (auto simp: v)
qed

text \<open>
  The correction looks at one vertex only: a triangle that lies well inside the image, when
  dragged towards the lower right corner, is stopped in the direction of the first vertex and
  still moved in the other direction, past the edge of the image with its second vertex.
\<close>

theorem isCloseToEdge_lets_other_vertex_leave:
  "\<exists>(c :: nat CanvasBase) r delta d s'. canvas_inv c \<and> r \<in> set (m_shapeList c) \<and> shape_wf (get_shape c r) \<and>
     (\<forall>p \<in> set (img_vertices c r). inside_margin (10/3) (blank_image 100 100) p) \<and>
     m_image c = Some (blank_image 100 100) \<and> isCloseToEdge c r delta = Inr (True, d) \<and>
     Shape_move d (get_shape c r) = Inr (True, s') \<and>
     (\<exists>p \<in> set (m_imgPoints (m_points s')). \<not> inside_margin 0 (blank_image 100 100) p)"
proof -
  let ?c = "(sample_canvas :: nat CanvasBase)\<lparr>heap := [drag_triangle], m_shapeList := [0], m_currentIndex := 0\<rparr>"
  let ?d = "QPointF 0 20"
  have g: "get_shape ?c 0 = drag_triangle" by (simp add: get_shape_def)
  have wf: "shape_wf drag_triangle"
    by (simp add: shape_wf_def views_agree_def drag_triangle_def QPointF_eq_iff)
  have c1: "canvas_inv ?c" by (simp add: canvas_inv_def refs_valid_def shapes_def)
  have c2: "isCloseToEdge ?c 0 (QPointF 20 20) = Inr (True, ?d)"
    by (subst isCloseToEdge_find[where i = "blank_image 100 100", OF _ refl])
       (simp_all add: g, simp_all add: drag_triangle_def out_x_def out_y_def inside_margin_def)
  have c3: "\<forall>p \<in> set (img_vertices ?c 0). inside_margin (10/3) (blank_image 100 100) p"
    unfolding g by (simp add: drag_triangle_def inside_margin_def)
  have c4: "\<not> inside_margin 0 (blank_image 100 100) (QPointF 50 90 + ?d)" by (simp add: inside_margin_def)
  have c5: "\<exists>p \<in> set (map (\<lambda>q. q + ?d) (m_imgPoints (m_points drag_triangle))). \<not> inside_margin 0 (blank_image 100 100) p"
    using c4 by (simp add: drag_triangle_def)
  show ?thesis
    by (intro exI[of _ ?c] exI[of _ 0] exI[of _ "QPointF 20 20"] exI[of _ ?d] exI conjI)
       (use c1 c2 c3 c5 wf Shape_move_result[OF wf, of ?d] g in \<open>auto\<close>)
qed

end
