(* ===== verification/Undo_Stack.thy ===== *)
theory Undo_Stack
  imports Canvas_Base
begin

text \<open>
  \<^verbatim>\<open>QUndoStack\<close> as its documentation describes it: \<^verbatim>\<open>push\<close> runs the
  command's \<^verbatim>\<open>redo\<close>, drops the commands above the index and appends the command;
  \<^verbatim>\<open>undo\<close> and \<^verbatim>\<open>redo\<close> run the command below or at the index and
  move the index. The commands keep data of their own, so running one returns it updated.
  The locale states what commands must satisfy for undo to restore a document and proves it of
  the stack once; \<^verbatim>\<open>Undo_Commands\<close> discharges it for the program's commands.
\<close>

definition QUndoStack_push ::
    "('c \<Rightarrow> 's \<Rightarrow> ('c \<times> 's) result) \<Rightarrow> 'c \<Rightarrow> 'c QUndoStack \<Rightarrow> 's \<Rightarrow> ('c QUndoStack \<times> 's) result" where
  "QUndoStack_push redo_cmd cmd st s =
     bind_result (redo_cmd cmd s) (\<lambda>(cmd', s').
     Inr (\<lparr>stack_cmds = take (stack_index st) (stack_cmds st) @ [cmd'], stack_index = stack_index st + 1\<rparr>, s'))"

definition QUndoStack_undo ::
    "('c \<Rightarrow> 's \<Rightarrow> ('c \<times> 's) result) \<Rightarrow> 'c QUndoStack \<Rightarrow> 's \<Rightarrow> ('c QUndoStack \<times> 's) result" where
  "QUndoStack_undo undo_cmd st s =
     (if stack_index st = 0 then Inr (st, s)
      else bind_result (vec_at (stack_cmds st) (int (stack_index st) - 1)) (\<lambda>cmd.
           bind_result (undo_cmd cmd s) (\<lambda>(cmd', s').
           Inr (\<lparr>stack_cmds = (stack_cmds st)[stack_index st - 1 := cmd'], stack_index = stack_index st - 1\<rparr>, s'))))"

definition QUndoStack_redo ::
    "('c \<Rightarrow> 's \<Rightarrow> ('c \<times> 's) result) \<Rightarrow> 'c QUndoStack \<Rightarrow> 's \<Rightarrow> ('c QUndoStack \<times> 's) result" where
  "QUndoStack_redo redo_cmd st s =
     (if stack_index st = length (stack_cmds st) then Inr (st, s)
      else bind_result (vec_at (stack_cmds st) (int (stack_index st))) (\<lambda>cmd.
           bind_result (redo_cmd cmd s) (\<lambda>(cmd', s').
           Inr (\<lparr>stack_cmds = (stack_cmds st)[stack_index st := cmd'], stack_index = stack_index st + 1\<rparr>, s'))))"

definition stack_wf :: "'c QUndoStack \<Rightarrow> bool" where
  "stack_wf st \<longleftrightarrow> stack_index st \<le> length (stack_cmds st)"

definition done_cmds :: "'c QUndoStack \<Rightarrow> 'c list" where
  "done_cmds st = take (stack_index st) (stack_cmds st)"

lemma push_done:
  "QUndoStack_push redo_cmd cmd st s = Inr (st', s') \<Longrightarrow>
   \<exists>cmd'. redo_cmd cmd s = Inr (cmd', s') \<and>
     (stack_wf st \<longrightarrow> stack_wf st' \<and> stack_index st' = Suc (stack_index st) \<and> done_cmds st' = done_cmds st @ [cmd'])"
  by (auto simp: QUndoStack_push_def stack_wf_def done_cmds_def min_def)

lemma undo_done:
  assumes "stack_wf st" "done_cmds st = cs @ [cmd]" "undo_cmd cmd s = Inr (cmd', s')"
  shows "\<exists>st'. QUndoStack_undo undo_cmd st s = Inr (st', s') \<and> stack_wf st' \<and>
     stack_index st' = stack_index st - 1 \<and> done_cmds st' = cs \<and> length (stack_cmds st') = length (stack_cmds st)"
proof -
  have len: "stack_index st = Suc (length cs)"
  proof -
    have "length (take (stack_index st) (stack_cmds st)) = Suc (length cs)"
      using assms(2) by (simp only: done_cmds_def) simp
    with assms(1) show ?thesis by (simp add: stack_wf_def)
  qed
  have cmd: "stack_cmds st ! length cs = cmd"
    using assms(1,2) len unfolding done_cmds_def stack_wf_def
    by (metis lessI nth_append_length nth_take)
  have "take (length cs) (stack_cmds st) = cs"
    using assms(2) len unfolding done_cmds_def
    by (metis append_eq_conv_conj min.absorb1 min.commute nat_le_linear not_less_eq_eq take_take)
  then show ?thesis
    using assms(1,3) len cmd
    by (simp add: QUndoStack_undo_def stack_wf_def done_cmds_def vec_at_def)
qed

subsection \<open>Commands whose undo restores a document\<close>

text \<open>
  \<^verbatim>\<open>restores s t\<close>: the document of \<^verbatim>\<open>t\<close> is that of \<^verbatim>\<open>s\<close>, though
  \<^verbatim>\<open>t\<close> may own objects that \<^verbatim>\<open>s\<close> does not.
  \<^verbatim>\<open>ready c s\<close>: the command may be run; \<^verbatim>\<open>undoable c s\<close>: it is the last one
  that was run.
\<close>

locale reversible_commands =
  fixes redo_cmd :: "'c \<Rightarrow> 's \<Rightarrow> ('c \<times> 's) result"
    and undo_cmd :: "'c \<Rightarrow> 's \<Rightarrow> ('c \<times> 's) result"
    and inv :: "'s \<Rightarrow> bool"
    and ready :: "'c \<Rightarrow> 's \<Rightarrow> bool"
    and undoable :: "'c \<Rightarrow> 's \<Rightarrow> bool"
    and restores :: "'s \<Rightarrow> 's \<Rightarrow> bool"
  assumes restores_refl: "inv s \<Longrightarrow> restores s s"
    and restores_trans: "restores s t \<Longrightarrow> restores t u \<Longrightarrow> restores s u"
    and redo_ok: "inv s \<Longrightarrow> ready c s \<Longrightarrow> \<exists>c' s'. redo_cmd c s = Inr (c', s') \<and> inv s' \<and> undoable c' s'"
    and undo_redo: "inv s \<Longrightarrow> ready c s \<Longrightarrow> redo_cmd c s = Inr (c', s') \<Longrightarrow>
        \<exists>c'' s''. undo_cmd c' s' = Inr (c'', s'') \<and> restores s s''"
    and undo_restores: "restores s t \<Longrightarrow> undoable c s \<Longrightarrow> undo_cmd c s = Inr (c', s') \<Longrightarrow>
        \<exists>c'' t'. undo_cmd c t = Inr (c'', t') \<and> restores s' t'"
    and undoable_restores: "restores s t \<Longrightarrow> undoable c s \<Longrightarrow> undoable c t"
begin

fun history :: "'c list \<Rightarrow> 's \<Rightarrow> 's \<Rightarrow> bool" where
  "history [] s0 s \<longleftrightarrow> restores s0 s"
| "history (c # cs) s0 s \<longleftrightarrow> undoable c s \<and> (\<exists>c' s'. undo_cmd c s = Inr (c', s') \<and> history cs s0 s')"

lemma history_restores: "history cs s0 s \<Longrightarrow> restores s t \<Longrightarrow> history cs s0 t"
proof (induction cs arbitrary: s t)
  case Nil
  then show ?case using restores_trans by auto
next
  case (Cons c cs)
  then obtain c' s' where u: "undoable c s" "undo_cmd c s = Inr (c', s')" "history cs s0 s'" by auto
  from undo_restores[OF Cons.prems(2) u(1,2)] obtain c'' t' where
    t: "undo_cmd c t = Inr (c'', t')" "restores s' t'" by blast
  from Cons.IH[OF u(3) t(2)] t(1) undoable_restores[OF Cons.prems(2) u(1)] show ?case by auto
qed

lemma history_push:
  assumes "history cs s0 s" "inv s" "ready c s" "redo_cmd c s = Inr (c', s')"
  shows "history (c' # cs) s0 s' \<and> inv s'"
proof -
  from undo_redo[OF assms(2-4)] obtain c'' s'' where u: "undo_cmd c' s' = Inr (c'', s'')" "restores s s''" by blast
  from redo_ok[OF assms(2,3)] assms(4) have "inv s'" "undoable c' s'" by auto
  with u history_restores[OF assms(1) u(2)] show ?thesis by auto
qed

lemma history_undo:
  assumes "history (c # cs) s0 s" "inv s"
  shows "\<exists>c' s'. undo_cmd c s = Inr (c', s') \<and> history cs s0 s' \<and> restores s' s'"
proof -
  from assms(1) obtain c' s' where u: "undoable c s" "undo_cmd c s = Inr (c', s')" "history cs s0 s'" by auto
  from undo_restores[OF restores_refl[OF assms(2)] u(1,2)] u show ?thesis by auto
qed

end

end
