(* ===== verification/Undo_Commands.thy ===== *)
theory Undo_Commands
  imports Undo_Stack
begin

text \<open>
  The undo commands of \<^verbatim>\<open>src/controllers/commands.h\<close> and
  \<^verbatim>\<open>commands.cpp\<close>, and the document they act on. A command holds the shape it
  is about, the name it got or was given, and the text that the undo view shows
  (\<^verbatim>\<open>tr("...%1").arg(name)\<close>, kept as its template and argument).
\<close>

datatype undo_text = NoText | ShapeText string | PointText string

datatype command =
    AddShapeCommand ShapePtr string undo_text
  | RemoveShapeCommand "ShapePtr option" string undo_text
  | AddPointCommand "ShapePtr option" QPointF string undo_text
  | RemovePointCommand "ShapePtr option" QPointF string undo_text

type_synonym canvas = "command CanvasBase"

subsection \<open>The commands\<close>

definition AddShapeCommand_new :: "ShapePtr \<Rightarrow> command" where
  "AddShapeCommand_new shape = AddShapeCommand shape [] NoText"

definition AddShapeCommand_undo :: "ShapePtr \<Rightarrow> string \<Rightarrow> canvas \<Rightarrow> (command \<times> canvas) result" where
  "AddShapeCommand_undo shape name c =
     bind_result (CanvasBase_deleteShape name c) (\<lambda>c'.
     Inr (AddShapeCommand shape name (ShapeText name), c'))"

definition AddShapeCommand_redo :: "ShapePtr \<Rightarrow> canvas \<Rightarrow> (command \<times> canvas) result" where
  "AddShapeCommand_redo shape c =
     bind_result (CanvasBase_addShape shape c) (\<lambda>(name, c').
     Inr (AddShapeCommand shape name (ShapeText name), c'))"

definition RemoveShapeCommand_new :: "string \<Rightarrow> canvas \<Rightarrow> command result" where
  "RemoveShapeCommand_new shapeName c =
     bind_result (shape_named c shapeName) (\<lambda>shape. Inr (RemoveShapeCommand shape shapeName NoText))"

definition RemoveShapeCommand_undo :: "ShapePtr option \<Rightarrow> canvas \<Rightarrow> (command \<times> canvas) result" where
  "RemoveShapeCommand_undo shape c =
     (case shape of
        None \<Rightarrow> Inl (Undefined ''null ShapePtr'')
      | Some r \<Rightarrow>
          bind_result (CanvasBase_addShape r c) (\<lambda>(name, c').
          Inr (RemoveShapeCommand shape name (ShapeText name), c')))"

definition RemoveShapeCommand_redo :: "ShapePtr option \<Rightarrow> string \<Rightarrow> canvas \<Rightarrow> (command \<times> canvas) result" where
  "RemoveShapeCommand_redo shape name c =
     bind_result (CanvasBase_deleteShape name c) (\<lambda>c'.
     Inr (RemoveShapeCommand shape name (ShapeText name), c'))"

definition AddPointCommand_new :: "ShapePtr option \<Rightarrow> QPointF \<Rightarrow> command" where
  "AddPointCommand_new shape point = AddPointCommand shape point [] NoText"

definition AddPointCommand_undo :: "ShapePtr option \<Rightarrow> QPointF \<Rightarrow> string \<Rightarrow> canvas \<Rightarrow> (command \<times> canvas) result" where
  "AddPointCommand_undo shape point name c =
     bind_result (CanvasBase_deletePoint shape name c) (\<lambda>c'.
     Inr (AddPointCommand shape point name (PointText name), c'))"

definition AddPointCommand_redo :: "ShapePtr option \<Rightarrow> QPointF \<Rightarrow> canvas \<Rightarrow> (command \<times> canvas) result" where
  "AddPointCommand_redo shape point c =
     bind_result (CanvasBase_addPoint shape point c) (\<lambda>(name, c').
     Inr (AddPointCommand shape point name (PointText name), c'))"

text \<open>The virtual \<^verbatim>\<open>undo\<close> and \<^verbatim>\<open>redo\<close>; those of
  \<^verbatim>\<open>RemovePointCommand\<close> are empty.\<close>

fun command_undo :: "command \<Rightarrow> canvas \<Rightarrow> (command \<times> canvas) result" where
  "command_undo (AddShapeCommand r nm tx) c = AddShapeCommand_undo r nm c"
| "command_undo (RemoveShapeCommand r nm tx) c = RemoveShapeCommand_undo r c"
| "command_undo (AddPointCommand r p nm tx) c = AddPointCommand_undo r p nm c"
| "command_undo (RemovePointCommand r p nm tx) c = Inr (RemovePointCommand r p nm tx, c)"

fun command_redo :: "command \<Rightarrow> canvas \<Rightarrow> (command \<times> canvas) result" where
  "command_redo (AddShapeCommand r nm tx) c = AddShapeCommand_redo r c"
| "command_redo (RemoveShapeCommand r nm tx) c = RemoveShapeCommand_redo r nm c"
| "command_redo (AddPointCommand r p nm tx) c = AddPointCommand_redo r p c"
| "command_redo (RemovePointCommand r p nm tx) c = Inr (RemovePointCommand r p nm tx, c)"

definition canvas_push :: "command \<Rightarrow> canvas \<Rightarrow> canvas result" where
  "canvas_push cmd c =
     bind_result (QUndoStack_push command_redo cmd (m_undoStack c) c) (\<lambda>(st, c'). Inr (c'\<lparr>m_undoStack := st\<rparr>))"

definition canvas_undo :: "canvas \<Rightarrow> canvas result" where
  "canvas_undo c =
     bind_result (QUndoStack_undo command_undo (m_undoStack c) c) (\<lambda>(st, c'). Inr (c'\<lparr>m_undoStack := st\<rparr>))"

definition canvas_redo :: "canvas \<Rightarrow> canvas result" where
  "canvas_redo c =
     bind_result (QUndoStack_redo command_redo (m_undoStack c) c) (\<lambda>(st, c'). Inr (c'\<lparr>m_undoStack := st\<rparr>))"

subsection \<open>The document\<close>

text \<open>
  Every shape has the name that \<^verbatim>\<open>addShape\<close> would give it after the shapes
  before it, and the last shape is the current one.
\<close>

definition names_canonical :: "Shape list \<Rightarrow> bool" where
  "names_canonical ss \<longleftrightarrow>
     (\<forall>k < length ss. m_name (ss ! k) = uniqueName_loop (take k ss) (Shape_typeToString (m_type (ss ! k))) 0)"

definition doc_inv :: "'c CanvasBase \<Rightarrow> bool" where
  "doc_inv c \<longleftrightarrow> canvas_inv c \<and> list_all shape_wf (heap c) \<and> names_canonical (shapes c) \<and>
     m_currentIndex c = int (length (m_shapeList c)) - 1"

definition nameless :: "Shape \<Rightarrow> Shape" where
  "nameless s = s\<lparr>m_name := []\<rparr>"

definition restores :: "'c CanvasBase \<Rightarrow> 'c CanvasBase \<Rightarrow> bool" where
  "restores s t \<longleftrightarrow> doc_inv s \<and> doc_inv t \<and> m_shapeList s = m_shapeList t \<and> shapes s = shapes t \<and>
     m_image s = m_image t \<and> m_draw s = m_draw t \<and>
     length (heap s) \<le> length (heap t) \<and>
     (\<forall>r < length (heap s). nameless (get_shape s r) = nameless (get_shape t r))"

fun command_ready :: "command \<Rightarrow> canvas \<Rightarrow> bool" where
  "command_ready (AddShapeCommand r nm tx) c \<longleftrightarrow> r < length (heap c) \<and> r \<notin> set (m_shapeList c)"
| "command_ready (RemoveShapeCommand r nm tx) c \<longleftrightarrow>
     m_shapeList c \<noteq> [] \<and> r = Some (last (m_shapeList c)) \<and> nm = m_name (last (shapes c))"
| "command_ready (AddPointCommand r p nm tx) c \<longleftrightarrow> (\<exists>q \<in> set (m_shapeList c). r = Some q)"
| "command_ready (RemovePointCommand r p nm tx) c \<longleftrightarrow> True"

fun command_undoable :: "command \<Rightarrow> canvas \<Rightarrow> bool" where
  "command_undoable (AddShapeCommand r nm tx) c \<longleftrightarrow> m_shapeList c \<noteq> [] \<and> nm = m_name (last (shapes c))"
| "command_undoable (RemoveShapeCommand r nm tx) c \<longleftrightarrow>
     (\<exists>q < length (heap c). q \<notin> set (m_shapeList c) \<and> r = Some q)"
| "command_undoable (AddPointCommand r p nm tx) c \<longleftrightarrow> True"
| "command_undoable (RemovePointCommand r p nm tx) c \<longleftrightarrow> True"

lemma uniqueName_loop_names:
  assumes "m_name ` set ss = m_name ` set tt"
  shows "uniqueName_loop ss name i = uniqueName_loop tt name i"
  using assms
proof (induction ss name i rule: uniqueName_loop.induct)
  case (1 ss name i)
  have "indexOf_loop ss (candidate name i) 0 = -1 \<longleftrightarrow> indexOf_loop tt (candidate name i) 0 = -1"
    using "1.prems" by (simp add: indexOf_loop_absent)
  with 1 show ?case
    by (subst uniqueName_loop.simps, subst (2) uniqueName_loop.simps) (simp add: Let_def)
qed

lemma names_canonical_snoc:
  "names_canonical (ss @ [s]) \<longleftrightarrow>
     names_canonical ss \<and> m_name s = uniqueName_loop ss (Shape_typeToString (m_type s)) 0"
  by (auto simp: names_canonical_def nth_append less_Suc_eq)

lemma names_canonical_cong:
  assumes "map m_name ss = map m_name tt" "map m_type ss = map m_type tt"
  shows "names_canonical ss \<longleftrightarrow> names_canonical tt"
proof -
  have len: "length ss = length tt" using assms(1) by (rule map_eq_imp_length_eq)
  have "m_name ` set (take k ss) = m_name ` set (take k tt)" for k
    using arg_cong[OF assms(1), of "\<lambda>xs. set (take k xs)"] by (simp add: take_map)
  then have u: "uniqueName_loop (take k ss) n 0 = uniqueName_loop (take k tt) n 0" for k n
    by (rule uniqueName_loop_names)
  have "m_name (ss ! k) = m_name (tt ! k) \<and> m_type (ss ! k) = m_type (tt ! k)" if "k < length tt" for k
    using that len assms by (metis nth_map)
  with len u show ?thesis by (auto simp: names_canonical_def)
qed

subsection \<open>Adding and removing the last shape\<close>

definition drop_last :: "'c CanvasBase \<Rightarrow> 'c CanvasBase" where
  "drop_last c = c\<lparr>m_shapeList := butlast (m_shapeList c), m_currentIndex := int (length (m_shapeList c)) - 2\<rparr>"

lemma drop_last_simps [simp]:
  "heap (drop_last c) = heap c" "m_shapeList (drop_last c) = butlast (m_shapeList c)"
  "shapes (drop_last c) = butlast (shapes c)" "m_image (drop_last c) = m_image c" "m_draw (drop_last c) = m_draw c"
  "get_shape (drop_last c) = get_shape c" "m_currentIndex (drop_last c) = int (length (m_shapeList c)) - 2"
  by (simp_all add: drop_last_def shapes_def map_butlast get_shape_def[abs_def])

lemma deleteShape_last:
  assumes "doc_inv c" "m_shapeList c \<noteq> []" "nm = m_name (last (shapes c))"
  shows "CanvasBase_deleteShape nm c = Inr (drop_last c)"
proof -
  let ?k = "length (m_shapeList c) - 1"
  have inv: "canvas_inv c" and cur: "m_currentIndex c = int (length (m_shapeList c)) - 1"
    using assms(1) by (auto simp: doc_inv_def)
  have k: "?k < length (m_shapeList c)" and Suc: "Suc ?k = length (m_shapeList c)" using assms(2) by auto
  have "shapes c \<noteq> []" using assms(2) by (simp add: shapes_def)
  then have nm: "m_name (shapes c ! ?k) = nm" using assms(3) by (simp add: last_conv_nth)
  have "int ?k = int (length (m_shapeList c)) - 1" using assms(2) by (simp add: of_nat_diff Suc_leI)
  then show ?thesis
    using deleteShape_at[OF inv k nm] cur by (simp add: list_remove_last[OF assms(2), unfolded One_nat_def] assms(2) drop_last_def)
qed

lemma doc_inv_butlast:
  assumes "doc_inv c" "m_shapeList c \<noteq> []"
  shows "doc_inv (drop_last c)"
proof -
  have ne: "shapes c \<noteq> []" using assms(2) by (simp add: shapes_def)
  then have sn: "shapes c = butlast (shapes c) @ [last (shapes c)]" by simp
  have "names_canonical (butlast (shapes c))"
    using assms(1) names_canonical_snoc[of "butlast (shapes c)" "last (shapes c)"] ne by (simp add: doc_inv_def)
  moreover have "distinct (map m_name (butlast (shapes c)))"
    using assms(1) by (simp add: doc_inv_def canvas_inv_def map_butlast distinct_butlast)
  moreover have "1 \<le> length (m_shapeList c)" using assms(2) by (simp add: Suc_leI)
  ultimately show ?thesis using assms(1)
    by (auto simp: doc_inv_def canvas_inv_def refs_valid_def distinct_butlast of_nat_diff
        dest: in_set_butlastD)
qed

lemma doc_inv_addShape:
  assumes "doc_inv c" "r < length (heap c)" "r \<notin> set (m_shapeList c)" "CanvasBase_addShape r c = Inr (nm, c')"
  shows "doc_inv c'"
proof -
  note s = shapes_addShape[OF assms(2-4)]
  have nm: "nm = uniqueName_loop (shapes c) (Shape_typeToString (m_type (get_shape c r))) 0"
    using assms(2,4) by (auto simp: addShape_result Let_def uniqueName_def)
  have h: "heap c' = (heap c)[r := (get_shape c r)\<lparr>m_name := nm\<rparr>]"
    using assms(2,4) by (auto simp: addShape_result Let_def set_shape_def get_shape_def)
  have "list_all shape_wf (heap c')"
    using assms(1,2) unfolding h by (auto simp: doc_inv_def list_all_length nth_list_update shape_wf_def get_shape_def)
  moreover have "names_canonical (shapes c')"
    using assms(1) nm by (simp add: s(1) names_canonical_snoc doc_inv_def)
  moreover have "canvas_inv c'" using addShape_inv[OF _ assms(2-4)] assms(1) by (simp add: doc_inv_def)
  ultimately show ?thesis by (simp add: doc_inv_def s(2,3))
qed

lemma nameless_addShape:
  assumes "r < length (heap c)" "CanvasBase_addShape r c = Inr (nm, c')"
  shows "nameless (get_shape c' q) = nameless (get_shape c q)"
  using assms by (auto simp: addShape_result Let_def get_shape_def set_shape_def nameless_def nth_list_update list_update_beyond)

subsection \<open>Adding and removing a point\<close>

lemma map_shapes_set_shape:
  assumes "r < length (heap c)" "f s = f (get_shape c r)"
  shows "map f (shapes (set_shape r (\<lambda>_. s) c)) = map f (shapes c)"
  using assms by (auto simp: shapes_def get_set_shape)

lemma doc_inv_set_shape:
  assumes "doc_inv c" "r < length (heap c)" "shape_wf s" "m_name s = m_name (get_shape c r)" "m_type s = m_type (get_shape c r)"
  shows "doc_inv (set_shape r (\<lambda>_. s) c)"
proof -
  note nm = map_shapes_set_shape[where f = m_name, OF assms(2,4)]
    and ty = map_shapes_set_shape[where f = m_type, OF assms(2,5)]
  have "list_all shape_wf (heap (set_shape r (\<lambda>_. s) c))"
    using assms(1,2,3) by (auto simp: doc_inv_def set_shape_def list_all_length nth_list_update)
  then show ?thesis
    using assms(1) nm names_canonical_cong[OF nm ty]
    by (simp add: doc_inv_def canvas_inv_def refs_valid_def)
qed

lemma deletePoint_keeps: "Shape_deletePoint i s = Inr s' \<Longrightarrow> m_name s' = m_name s \<and> m_type s' = m_type s \<and> dyn_class s' = dyn_class s"
  by (auto simp: Shape_deletePoint_def split: if_splits)

lemma appendPoint_keeps: "m_name (Shape_appendPoint p s) = m_name s" "m_type (Shape_appendPoint p s) = m_type s"
  "dyn_class (Shape_appendPoint p s) = dyn_class s"
  by (simp_all add: Shape_appendPoint_def)

lemma deletePoint_appendPoint:
  assumes "shape_wf s"
  shows "Shape_deletePoint (YPolygonPoints_size (m_points (Shape_appendPoint p s)) - 1) (Shape_appendPoint p s) = Inr s"
  using assms ypts.del_app_last[of "m_points s" p]
  by (simp add: Shape_deletePoint_def Shape_appendPoint_def YPolygonPoints_size_def shape_wf_def)
     (simp add: YPolygonPoints_append_def)

lemma set_shape_set_shape: "set_shape r f (set_shape r (\<lambda>_. s) c) = (if r < length (heap c) then set_shape r (\<lambda>_. f s) c else c)"
  by (auto simp: set_shape_def list_update_beyond)

lemma set_shape_same: "set_shape r (\<lambda>_. get_shape c r) c = c"
  by (simp add: set_shape_def get_shape_def)

lemma addPoint_deletePoint:
  assumes "r < length (heap c)" "shape_wf (get_shape c r)" "CanvasBase_addPoint (Some r) p c = Inr (nm, c')"
  shows "CanvasBase_deletePoint (Some r) nm c' = Inr c"
proof -
  let ?s = "Shape_appendPoint p (get_shape c r)"
  have c': "nm = QString_number (YPolygonPoints_size (m_points ?s) - 1)" "c' = set_shape r (\<lambda>_. ?s) c"
    using assms(1,3) by (auto simp: CanvasBase_addPoint_def deref_def Let_def)
  then have "get_shape c' r = ?s" using assms(1) by (simp add: get_set_shape)
  then show ?thesis
    using assms(1) c' deletePoint_appendPoint[OF assms(2), of p]
    by (simp add: CanvasBase_deletePoint_def deref_def set_shape_set_shape set_shape_same)
qed

subsection \<open>The laws of the commands\<close>

lemma doc_inv_heap: "doc_inv c \<Longrightarrow> r < length (heap c) \<Longrightarrow> shape_wf (get_shape c r)"
  by (simp add: doc_inv_def list_all_length get_shape_def)

lemma doc_inv_refs: "doc_inv c \<Longrightarrow> r \<in> set (m_shapeList c) \<Longrightarrow> r < length (heap c)"
  by (simp add: doc_inv_def canvas_inv_def refs_valid_def)

lemma addPoint_ok:
  assumes "doc_inv c" "r < length (heap c)"
  shows "\<exists>nm c'. CanvasBase_addPoint (Some r) p c = Inr (nm, c') \<and> doc_inv c'"
  using assms doc_inv_set_shape[OF assms, of "Shape_appendPoint p (get_shape c r)"]
    appendPoint_wf[OF doc_inv_heap[OF assms]]
  by (auto simp: CanvasBase_addPoint_def deref_def Let_def appendPoint_keeps)

lemma last_detached:
  assumes "doc_inv c" "m_shapeList c \<noteq> []"
  shows "last (m_shapeList c) < length (heap (drop_last c))" "last (m_shapeList c) \<notin> set (m_shapeList (drop_last c))"
proof -
  have "distinct (m_shapeList c)" using assms(1) by (simp add: doc_inv_def canvas_inv_def refs_valid_def)
  then have "last (m_shapeList c) \<notin> set (butlast (m_shapeList c))"
    using assms(2) by (metis append_butlast_last_id distinct_append disjoint_insert(1) list.simps(15))
  then show "last (m_shapeList c) \<notin> set (m_shapeList (drop_last c))" by simp
  show "last (m_shapeList c) < length (heap (drop_last c))" using doc_inv_refs[OF assms(1)] assms(2) by simp
qed

lemma command_redo_ok:
  assumes "doc_inv c" "command_ready cmd c"
  shows "\<exists>cmd' c'. command_redo cmd c = Inr (cmd', c') \<and> doc_inv c' \<and> command_undoable cmd' c'"
proof (cases cmd)
  case (AddShapeCommand r nm tx)
  then have r: "r < length (heap c)" "r \<notin> set (m_shapeList c)" using assms(2) by auto
  then obtain nm' c' where add: "CanvasBase_addShape r c = Inr (nm', c')" by (auto simp: addShape_result Let_def)
  with AddShapeCommand doc_inv_addShape[OF assms(1) r add] shapes_addShape(1,2)[OF r add]
  show ?thesis by (auto simp: AddShapeCommand_redo_def)
next
  case (RemoveShapeCommand r nm tx)
  with assms(2) have ne: "m_shapeList c \<noteq> []" "nm = m_name (last (shapes c))" "r = Some (last (m_shapeList c))" by auto
  show ?thesis
    using RemoveShapeCommand ne deleteShape_last[OF assms(1) ne(1,2)] doc_inv_butlast[OF assms(1) ne(1)] last_detached[OF assms(1) ne(1)]
    by (auto simp: RemoveShapeCommand_redo_def)
next
  case (AddPointCommand r p nm tx)
  then obtain q where "q \<in> set (m_shapeList c)" "r = Some q" using assms(2) by auto
  with AddPointCommand addPoint_ok[OF assms(1), of q p] doc_inv_refs[OF assms(1)] show ?thesis
    by (fastforce simp: AddPointCommand_redo_def)
qed (use assms in auto)

text \<open>Adding the last shape again after it was removed gives it its name back.\<close>

lemma readd_last:
  assumes "doc_inv c" "m_shapeList c \<noteq> []"
  shows "\<exists>nm c'. CanvasBase_addShape (last (m_shapeList c)) (drop_last c) = Inr (nm, c') \<and> restores c c'"
proof -
  let ?r = "last (m_shapeList c)"
  note r = last_detached[OF assms]
  have inv: "doc_inv (drop_last c)" by (rule doc_inv_butlast[OF assms])
  obtain nm c' where add: "CanvasBase_addShape ?r (drop_last c) = Inr (nm, c')" using r by (auto simp: addShape_result Let_def)
  note s = shapes_addShape[OF r add]
  have sn: "shapes c \<noteq> []" "last (shapes c) = get_shape c ?r" using assms(2) by (simp_all add: shapes_def last_map)
  have "names_canonical (butlast (shapes c) @ [last (shapes c)])"
    unfolding append_butlast_last_id[OF sn(1)] using assms(1) by (simp add: doc_inv_def)
  then have "nm = m_name (get_shape c ?r)"
    using sn(2) add r by (auto simp: names_canonical_snoc addShape_result Let_def uniqueName_def)
  then have "shapes c' = shapes c" using s(1) sn append_butlast_last_id[of "shapes c"] by simp
  moreover have "m_shapeList c' = m_shapeList c" using s(2) assms(2) by simp
  moreover have "m_draw c' = m_draw c" using add r by (auto simp: addShape_result Let_def)
  moreover have "nameless (get_shape c' q) = nameless (get_shape c q)" for q using nameless_addShape[OF r(1) add, of q] by simp
  ultimately have "restores c c'" using s doc_inv_addShape[OF inv r add] assms(1) by (simp add: restores_def)
  with add show ?thesis by blast
qed

lemma command_undo_redo:
  assumes "doc_inv c" "command_ready cmd c" "command_redo cmd c = Inr (cmd', c')"
  shows "\<exists>cmd'' c''. command_undo cmd' c' = Inr (cmd'', c'') \<and> restores c c''"
proof (cases cmd)
  case (AddShapeCommand r nm tx)
  then have r: "r < length (heap c)" "r \<notin> set (m_shapeList c)" using assms(2) by auto
  with AddShapeCommand assms(3) obtain nm' where add: "CanvasBase_addShape r c = Inr (nm', c')"
    and cmd': "cmd' = AddShapeCommand r nm' (ShapeText nm')" by (auto simp: AddShapeCommand_redo_def)
  note s = shapes_addShape[OF r add] and inv = doc_inv_addShape[OF assms(1) r add]
  have ne: "m_shapeList c' \<noteq> []" "nm' = m_name (last (shapes c'))" using s by simp_all
  have "m_draw c' = m_draw c" using add r by (auto simp: addShape_result Let_def)
  then show ?thesis
    using cmd' deleteShape_last[OF inv ne] doc_inv_butlast[OF inv ne(1)] s assms(1) nameless_addShape[OF r(1) add]
    by (auto simp: AddShapeCommand_undo_def restores_def)
next
  case (RemoveShapeCommand r nm tx)
  with assms(2) have ne: "m_shapeList c \<noteq> []" "nm = m_name (last (shapes c))" "r = Some (last (m_shapeList c))" by auto
  have c': "c' = drop_last c" "cmd' = RemoveShapeCommand r nm (ShapeText nm)"
    using RemoveShapeCommand assms(3) deleteShape_last[OF assms(1) ne(1,2)] by (auto simp: RemoveShapeCommand_redo_def)
  with readd_last[OF assms(1) ne(1)] ne(3) show ?thesis by (auto simp: RemoveShapeCommand_undo_def)
next
  case (AddPointCommand r p nm tx)
  then obtain q where q: "q \<in> set (m_shapeList c)" "r = Some q" using assms(2) by auto
  then have qh: "q < length (heap c)" using doc_inv_refs[OF assms(1)] by auto
  from AddPointCommand q assms(3) obtain nm' where add: "CanvasBase_addPoint (Some q) p c = Inr (nm', c')"
      "cmd' = AddPointCommand (Some q) p nm' (PointText nm')"
    by (auto simp: AddPointCommand_redo_def)
  with addPoint_deletePoint[OF qh doc_inv_heap[OF assms(1) qh] add(1)] assms(1) show ?thesis
    by (auto simp: AddPointCommand_undo_def restores_def)
qed (use assms in \<open>auto simp: restores_def\<close>)

lemma deletePoint_nameless:
  assumes "nameless a = nameless b" "Shape_deletePoint i a = Inr x"
  shows "\<exists>y. Shape_deletePoint i b = Inr y \<and> nameless x = nameless y"
proof -
  have b: "b = a\<lparr>m_name := m_name b\<rparr>"
    using arg_cong[OF assms(1), of "\<lambda>y. y\<lparr>m_name := m_name b\<rparr>"] by (simp add: nameless_def)
  have "\<exists>y. Shape_deletePoint i (a\<lparr>m_name := n\<rparr>) = Inr y \<and> nameless x = nameless y" for n
    using assms(2) by (auto simp: Shape_deletePoint_def nameless_def split: if_splits)
  with b show ?thesis by metis
qed

lemma doc_inv_deletePoint:
  "doc_inv c \<Longrightarrow> r < length (heap c) \<Longrightarrow> Shape_deletePoint i (get_shape c r) = Inr x \<Longrightarrow>
   doc_inv (set_shape r (\<lambda>_. x) c)"
  using doc_inv_set_shape deletePoint_wf[OF doc_inv_heap] deletePoint_keeps by metis

lemma addShape_restores:
  assumes "restores s t" "q < length (heap s)" "q \<notin> set (m_shapeList s)" "CanvasBase_addShape q s = Inr (nm, s')"
  shows "\<exists>nm' t'. CanvasBase_addShape q t = Inr (nm', t') \<and> restores s' t'"
proof -
  have inv: "doc_inv s" "doc_inv t" and eq: "m_shapeList s = m_shapeList t" "shapes s = shapes t"
    and le: "length (heap s) \<le> length (heap t)" and nl: "nameless (get_shape s q) = nameless (get_shape t q)"
    using assms(1,2) by (auto simp: restores_def)
  have q': "q < length (heap t)" "q \<notin> set (m_shapeList t)" using assms(2,3) le eq by auto
  then obtain nm' t' where add': "CanvasBase_addShape q t = Inr (nm', t')" by (auto simp: addShape_result Let_def)
  note s = shapes_addShape[OF assms(2-4)] and t = shapes_addShape[OF q' add']
  have "m_type (get_shape s q) = m_type (get_shape t q)" using arg_cong[OF nl, of m_type] by (simp add: nameless_def)
  then have "nm = nm'" using assms(2-4) add' q' eq by (auto simp: addShape_result Let_def uniqueName_def)
  moreover have "(get_shape s q)\<lparr>m_name := x\<rparr> = (get_shape t q)\<lparr>m_name := x\<rparr>" for x
    using arg_cong[OF nl, of "\<lambda>y. y\<lparr>m_name := x\<rparr>"] by (simp add: nameless_def)
  ultimately have "shapes s' = shapes t'" using s t eq by simp
  moreover have "m_draw s' = m_draw t'" "m_image s' = m_image t'"
    using assms add' q' by (auto simp: addShape_result Let_def restores_def)
  moreover have "nameless (get_shape s' x) = nameless (get_shape t' x)" if "x < length (heap s')" for x
    using that nameless_addShape[OF assms(2,4)] nameless_addShape[OF q'(1) add'] assms(1) s(4) by (simp add: restores_def)
  ultimately have "restores s' t'"
    using doc_inv_addShape[OF inv(1) assms(2-4)] doc_inv_addShape[OF inv(2) q' add'] s t eq le by (simp add: restores_def)
  with add' show ?thesis by blast
qed

lemma deletePoint_restores:
  assumes "restores s t" "CanvasBase_deletePoint r nm s = Inr s'"
  shows "\<exists>t'. CanvasBase_deletePoint r nm t = Inr t' \<and> restores s' t'"
proof -
  obtain q x where q: "r = Some q" and x: "q < length (heap s)" "Shape_deletePoint (QString_toInt nm) (get_shape s q) = Inr x"
      "s' = set_shape q (\<lambda>_. x) s"
    using assms(2) by (cases r) (auto simp: CanvasBase_deletePoint_def deref_def split: if_splits)
  have qt: "q < length (heap t)" and inv: "doc_inv s" "doc_inv t"
    and nl: "nameless (get_shape s q) = nameless (get_shape t q)"
    using assms(1) x(1) by (auto simp: restores_def)
  obtain y where y: "Shape_deletePoint (QString_toInt nm) (get_shape t q) = Inr y" "nameless x = nameless y"
      "get_shape s q = get_shape t q \<longrightarrow> x = y"
    using deletePoint_nameless[OF nl x(2)] x(2) by (metis Inr_inject)
  let ?t = "set_shape q (\<lambda>_. y) t"
  have "get_shape s a = get_shape t a" if "a \<in> set (m_shapeList s)" for a
    using assms(1) that by (auto simp: restores_def shapes_def)
  then have "shapes s' = shapes ?t" using assms(1) x y qt by (auto simp: restores_def shapes_def get_set_shape)
  then have "restores s' ?t"
    using assms(1) x y qt doc_inv_deletePoint[OF inv(1) x(1,2)] doc_inv_deletePoint[OF inv(2) qt y(1)]
    by (auto simp: restores_def get_set_shape)
  with q y(1) qt show ?thesis by (auto simp: CanvasBase_deletePoint_def deref_def)
qed

lemma command_undo_restores:
  assumes "restores s t" "command_undoable cmd s" "command_undo cmd s = Inr (cmd', s')"
  shows "\<exists>cmd'' t'. command_undo cmd t = Inr (cmd'', t') \<and> restores s' t'"
proof (cases cmd)
  case (AddShapeCommand r nm tx)
  have inv: "doc_inv s" "doc_inv t" and eq: "m_shapeList s = m_shapeList t" "shapes s = shapes t"
    using assms(1) by (auto simp: restores_def)
  have ne: "m_shapeList s \<noteq> []" "nm = m_name (last (shapes s))" using assms(2) AddShapeCommand by auto
  then have ne': "m_shapeList t \<noteq> []" "nm = m_name (last (shapes t))" using eq by auto
  show ?thesis
    using AddShapeCommand assms(1,3) deleteShape_last[OF inv(1) ne] deleteShape_last[OF inv(2) ne']
      doc_inv_butlast[OF inv(1) ne(1)] doc_inv_butlast[OF inv(2) ne'(1)] eq
    by (auto simp: AddShapeCommand_undo_def restores_def)
next
  case (RemoveShapeCommand r nm tx)
  then obtain q where q: "q < length (heap s)" "q \<notin> set (m_shapeList s)" "r = Some q" using assms(2) by auto
  with RemoveShapeCommand assms(3) obtain nm' where "CanvasBase_addShape q s = Inr (nm', s')"
    by (auto simp: RemoveShapeCommand_undo_def)
  from addShape_restores[OF assms(1) q(1,2) this] RemoveShapeCommand q(3) show ?thesis
    by (auto simp: RemoveShapeCommand_undo_def)
next
  case (AddPointCommand r p nm tx)
  with assms(3) have "CanvasBase_deletePoint r nm s = Inr s'" by (auto simp: AddPointCommand_undo_def)
  from deletePoint_restores[OF assms(1) this] AddPointCommand show ?thesis by (auto simp: AddPointCommand_undo_def)
qed (use assms in auto)

lemma command_undoable_restores: "restores s t \<Longrightarrow> command_undoable cmd s \<Longrightarrow> command_undoable cmd t"
  by (cases cmd) (auto simp: restores_def)

interpretation canvas_cmds: reversible_commands command_redo command_undo doc_inv command_ready command_undoable restores
proof unfold_locales
  fix s t u :: canvas
  show "restores s s" if "doc_inv s" using that by (simp add: restores_def)
  show "restores s u" if "restores s t" "restores t u" using that by (auto simp: restores_def)
qed (use command_redo_ok command_undo_redo command_undo_restores command_undoable_restores in blast)+

end
