(* ===== verification/Undo_Tracking.thy ===== *)
theory Undo_Tracking
  imports Undo_Commands
begin

text \<open>
  Undo and redo in the middle of a session. \<^verbatim>\<open>Canvas_View\<close> shows that undoing the
  commands just pushed restores the document; between two commands, though, the user also moves,
  inserts and closes without a command, and may alternate undo and redo. What the stack needs
  then is less: every command, run or undone at its place, finds the list of shapes it was made
  for. The locale states this for any commands with a \<^verbatim>\<open>view\<close> of the state on which
  they act, and shows that undo and redo never fail; the canvas provides its list of shapes.
\<close>

locale linear_commands =
  fixes redo_cmd :: "'c \<Rightarrow> 's \<Rightarrow> ('c \<times> 's) result"
    and undo_cmd :: "'c \<Rightarrow> 's \<Rightarrow> ('c \<times> 's) result"
    and inv :: "'s \<Rightarrow> bool"
    and view :: "'s \<Rightarrow> 'v"
    and effect :: "'s \<Rightarrow> 'c \<Rightarrow> 'v \<Rightarrow> 'v \<Rightarrow> bool"
    and extends :: "'s \<Rightarrow> 's \<Rightarrow> bool"
  assumes extends_refl: "extends s s"
    and effect_extends: "inv s \<Longrightarrow> extends s t \<Longrightarrow> effect s c v w \<Longrightarrow> effect t c v w"
    and redo_effect: "inv s \<Longrightarrow> effect s c (view s) w \<Longrightarrow>
        \<exists>c' s'. redo_cmd c s = Inr (c', s') \<and> inv s' \<and> extends s s' \<and> view s' = w \<and> effect s' c' (view s) w"
    and undo_effect: "inv s \<Longrightarrow> effect s c v (view s) \<Longrightarrow>
        \<exists>c' s'. undo_cmd c s = Inr (c', s') \<and> inv s' \<and> extends s s' \<and> view s' = v \<and> effect s' c' v (view s)"
begin

fun chain :: "'s \<Rightarrow> 'c list \<Rightarrow> 'v \<Rightarrow> 'v \<Rightarrow> bool" where
  "chain s [] v w \<longleftrightarrow> v = w"
| "chain s (c # cs) v w \<longleftrightarrow> (\<exists>u. effect s c v u \<and> chain s cs u w)"

text \<open>The commands below the index lead from some view to the present one, those above lead on from it.\<close>

definition consistent :: "'c QUndoStack \<Rightarrow> 's \<Rightarrow> bool" where
  "consistent st s \<longleftrightarrow> stack_wf st \<and>
     (\<exists>v w. chain s (take (stack_index st) (stack_cmds st)) v (view s) \<and>
            chain s (drop (stack_index st) (stack_cmds st)) (view s) w)"

lemma chain_append: "chain s (cs @ ds) v w \<longleftrightarrow> (\<exists>u. chain s cs v u \<and> chain s ds u w)"
  by (induction cs arbitrary: v) auto

lemma chain_extends: "inv s \<Longrightarrow> extends s t \<Longrightarrow> chain s cs v w \<Longrightarrow> chain t cs v w"
  by (induction cs arbitrary: v) (auto dest: effect_extends)

lemma consistent_extends:
  "consistent st s \<Longrightarrow> inv s \<Longrightarrow> extends s t \<Longrightarrow> view t = view s \<Longrightarrow> consistent st t"
  using chain_extends by (fastforce simp: consistent_def)

lemma consistent_push:
  assumes "consistent st s" "inv s" "extends s s'" "effect s' c (view s) (view s')"
  shows "consistent \<lparr>stack_cmds = take (stack_index st) (stack_cmds st) @ [c], stack_index = stack_index st + 1\<rparr> s'"
  using assms chain_extends[OF assms(2,3)]
  by (fastforce simp: consistent_def stack_wf_def chain_append)

lemma undo_step:
  assumes "consistent st s" "inv s" "stack_index st = Suc i"
  shows "\<exists>st' s'. QUndoStack_undo undo_cmd st s = Inr (st', s') \<and> inv s' \<and> extends s s' \<and> consistent st' s' \<and>
     stack_index st' = i \<and> i < length (stack_cmds st') \<and> effect s' (stack_cmds st' ! i) (view s') (view s)"
proof -
  let ?cs = "stack_cmds st"
  have i: "i < length ?cs" using assms(1,3) by (simp add: consistent_def stack_wf_def)
  from assms(1,3) i obtain v u w where ch: "chain s (take i ?cs) v u" "effect s (?cs ! i) u (view s)"
      "chain s (drop (Suc i) ?cs) (view s) w"
    by (auto simp: consistent_def take_Suc_conv_app_nth chain_append)
  from undo_effect[OF assms(2) ch(2)] obtain c' s' where u: "undo_cmd (?cs ! i) s = Inr (c', s')" "inv s'" "extends s s'"
      "view s' = u" "effect s' c' u (view s)" by blast
  have "consistent \<lparr>stack_cmds = ?cs[i := c'], stack_index = i\<rparr> s'"
    using chain_extends[OF assms(2) u(3) ch(1)] chain_extends[OF assms(2) u(3) ch(3)] u(4,5) i
    by (auto simp: consistent_def stack_wf_def drop_update_swap upd_conv_take_nth_drop Cons_nth_drop_Suc[symmetric])
  with u i assms(3) show ?thesis by (simp add: QUndoStack_undo_def vec_at_def)
qed

lemma undo_total:
  assumes "consistent st s" "inv s"
  shows "\<exists>st' s'. QUndoStack_undo undo_cmd st s = Inr (st', s') \<and> inv s' \<and> extends s s' \<and> consistent st' s'"
proof (cases "stack_index st")
  case 0
  then show ?thesis using assms extends_refl by (simp add: QUndoStack_undo_def)
next
  case (Suc i)
  from undo_step[OF assms Suc] show ?thesis by blast
qed

lemma redo_step:
  assumes "consistent st s" "inv s" "stack_index st < length (stack_cmds st)" "effect s (stack_cmds st ! stack_index st) (view s) u"
  shows "\<exists>st' s'. QUndoStack_redo redo_cmd st s = Inr (st', s') \<and> inv s' \<and> extends s s' \<and> view s' = u \<and>
     stack_index st' = Suc (stack_index st)"
  using redo_effect[OF assms(2,4)] assms(3) by (auto simp: QUndoStack_redo_def vec_at_def)

lemma redo_total:
  assumes "consistent st s" "inv s"
  shows "\<exists>st' s'. QUndoStack_redo redo_cmd st s = Inr (st', s') \<and> inv s' \<and> extends s s' \<and> consistent st' s'"
proof (cases "stack_index st = length (stack_cmds st)")
  case True
  then show ?thesis using assms extends_refl by (simp add: QUndoStack_redo_def)
next
  case False
  let ?cs = "stack_cmds st" and ?i = "stack_index st"
  have i: "?i < length ?cs" using assms(1) False by (simp add: consistent_def stack_wf_def)
  from assms(1) i obtain v u w where ch: "chain s (take ?i ?cs) v (view s)" "effect s (?cs ! ?i) (view s) u"
      "chain s (drop (Suc ?i) ?cs) u w"
    by (auto simp: consistent_def Cons_nth_drop_Suc[symmetric])
  from redo_effect[OF assms(2) ch(2)] obtain c' s' where u: "redo_cmd (?cs ! ?i) s = Inr (c', s')" "inv s'" "extends s s'"
      "view s' = u" "effect s' c' (view s) u" by blast
  have "consistent \<lparr>stack_cmds = ?cs[?i := c'], stack_index = Suc ?i\<rparr> s'"
    using chain_extends[OF assms(2) u(3) ch(1)] chain_extends[OF assms(2) u(3) ch(3)] u(4,5) i
    by (auto simp: consistent_def stack_wf_def chain_append upd_conv_take_nth_drop)
  with u i False show ?thesis by (simp add: QUndoStack_redo_def vec_at_def)
qed

end

subsection \<open>The list of shapes as the view\<close>

text \<open>
  A shape keeps its type for life, and its name follows from its type and the shapes before it in
  the list: so the types of the list determine the names of its shapes.
\<close>

definition first_name :: "string list \<Rightarrow> draw_mode_e \<Rightarrow> string" where
  "first_name ns m = uniqueName_loop (map (\<lambda>n. (Shape_new YPolygon Polygon)\<lparr>m_name := n\<rparr>) ns) (Shape_typeToString m) 0"

definition place_names :: "(ShapePtr \<Rightarrow> draw_mode_e) \<Rightarrow> ShapePtr list \<Rightarrow> string list" where
  "place_names ty L = foldl (\<lambda>ns r. ns @ [first_name ns (ty r)]) [] L"

definition type_at :: "canvas \<Rightarrow> ShapePtr \<Rightarrow> draw_mode_e" where
  "type_at c r = m_type (get_shape c r)"

definition place_name :: "canvas \<Rightarrow> ShapePtr list \<Rightarrow> ShapePtr \<Rightarrow> string" where
  "place_name c L r = first_name (place_names (type_at c) L) (type_at c r)"

definition fits :: "canvas \<Rightarrow> ShapePtr list \<Rightarrow> bool" where
  "fits c L \<longleftrightarrow> distinct L \<and> (\<forall>r \<in> set L. r < length (heap c))"

fun command_effect :: "canvas \<Rightarrow> command \<Rightarrow> ShapePtr list \<Rightarrow> ShapePtr list \<Rightarrow> bool" where
  "command_effect c (AddShapeCommand r nm tx) L L' \<longleftrightarrow> L' = L @ [r] \<and> fits c L' \<and> nm = place_name c L r"
| "command_effect c (RemoveShapeCommand r nm tx) L L' \<longleftrightarrow>
     (\<exists>q. r = Some q \<and> L = L' @ [q] \<and> fits c L \<and> nm = place_name c L' q)"
| "command_effect c (AddPointCommand r p nm tx) L L' \<longleftrightarrow>
     L' = L \<and> (\<exists>q < length (heap c). r = Some q) \<and> (\<exists>k. nm = QString_number (int k))"
| "command_effect c (RemovePointCommand r p nm tx) L L' \<longleftrightarrow> L' = L"

definition extends :: "canvas \<Rightarrow> canvas \<Rightarrow> bool" where
  "extends c c' \<longleftrightarrow> length (heap c) \<le> length (heap c') \<and> (\<forall>r < length (heap c). type_at c' r = type_at c r \<and>
     dyn_class (get_shape c' r) = dyn_class (get_shape c r))"

lemma place_names_snoc [simp]: "place_names ty (L @ [r]) = place_names ty L @ [first_name (place_names ty L) (ty r)]"
  by (simp add: place_names_def)

lemma place_names_cong: "(\<And>r. r \<in> set L \<Longrightarrow> ty r = ty' r) \<Longrightarrow> place_names ty L = place_names ty' L"
  by (induction L rule: rev_induct) (simp_all add: place_names_def)

lemma first_name_shapes: "first_name (map m_name ss) m = uniqueName_loop ss (Shape_typeToString m) 0"
  unfolding first_name_def by (rule uniqueName_loop_names) (auto simp: image_image)

lemma canonical_place_names: "names_canonical ss \<Longrightarrow> map m_name ss = foldl (\<lambda>ns s. ns @ [first_name ns (m_type s)]) [] ss"
  by (induction ss rule: rev_induct) (simp_all add: names_canonical_snoc first_name_shapes[symmetric])

lemma doc_names: "doc_inv c \<Longrightarrow> map m_name (shapes c) = place_names (type_at c) (m_shapeList c)"
  using canonical_place_names[of "shapes c"] by (simp add: doc_inv_def place_names_def shapes_def foldl_map type_at_def)

lemma place_name_unique: "doc_inv c \<Longrightarrow> place_name c (m_shapeList c) r = uniqueName c (Shape_typeToString (m_type (get_shape c r)))"
  by (simp add: place_name_def doc_names[symmetric] first_name_shapes uniqueName_def type_at_def)

lemma place_name_last:
  assumes "doc_inv c" "m_shapeList c = L @ [r]"
  shows "place_name c L r = m_name (last (shapes c))"
proof -
  have "map m_name (shapes c) = place_names (type_at c) L @ [place_name c L r]"
    using doc_names[OF assms(1)] assms(2) by (simp add: place_name_def)
  then show ?thesis by (metis last_map last_snoc map_is_Nil_conv snoc_eq_iff_butlast)
qed

lemma doc_fits: "doc_inv c \<Longrightarrow> fits c (m_shapeList c)"
  by (simp add: doc_inv_def canvas_inv_def refs_valid_def fits_def)

lemma place_name_extends: "extends c c' \<Longrightarrow> fits c (L @ [r]) \<Longrightarrow> place_name c' L r = place_name c L r"
  using place_names_cong[of L "type_at c'" "type_at c"] by (simp add: place_name_def extends_def fits_def)

lemma fits_extends: "extends c c' \<Longrightarrow> fits c L \<Longrightarrow> fits c' L"
  by (fastforce simp: extends_def fits_def)

lemma command_effect_extends: "extends c c' \<Longrightarrow> command_effect c cmd L L' \<Longrightarrow> command_effect c' cmd L L'"
  by (cases cmd) (auto simp: place_name_extends fits_extends, auto simp: extends_def)

lemma extends_addShape:
  assumes "r < length (heap c)" "CanvasBase_addShape r c = Inr (nm, c')"
  shows "extends c c'"
  using assms nameless_addShape[OF assms]
  by (auto simp: extends_def type_at_def addShape_result Let_def set_shape_def get_shape_def nth_list_update)

lemma extends_set_shape:
  "m_type s = m_type (get_shape c r) \<Longrightarrow> dyn_class s = dyn_class (get_shape c r) \<Longrightarrow> extends c (set_shape r (\<lambda>_. s) c)"
  by (simp add: extends_def type_at_def get_set_shape)

lemma addShape_effect:
  assumes "doc_inv c" "fits c (m_shapeList c @ [r])"
  shows "\<exists>c'. CanvasBase_addShape r c = Inr (place_name c (m_shapeList c) r, c') \<and> doc_inv c' \<and> extends c c' \<and>
     m_shapeList c' = m_shapeList c @ [r]"
proof -
  have r: "r < length (heap c)" "r \<notin> set (m_shapeList c)" using assms(2) by (auto simp: fits_def)
  then obtain nm c' where add: "CanvasBase_addShape r c = Inr (nm, c')" by (auto simp: addShape_result Let_def)
  then have "nm = place_name c (m_shapeList c) r"
    using r(1) by (auto simp: addShape_result Let_def place_name_unique[OF assms(1)])
  with add show ?thesis
    using doc_inv_addShape[OF assms(1) r add] extends_addShape[OF r(1) add] shapes_addShape(2)[OF r add] by auto
qed

lemma deleteShape_effect:
  assumes "doc_inv c" "m_shapeList c = L @ [r]"
  shows "CanvasBase_deleteShape (place_name c L r) c = Inr (drop_last c) \<and> doc_inv (drop_last c) \<and> extends c (drop_last c) \<and>
     m_shapeList (drop_last c) = L"
  using assms deleteShape_last[OF assms(1) _ place_name_last[OF assms]] doc_inv_butlast[OF assms(1)]
  by (simp add: extends_def type_at_def)

lemma addPoint_effect:
  assumes "doc_inv c" "r < length (heap c)"
  shows "\<exists>k c'. CanvasBase_addPoint (Some r) p c = Inr (QString_number (int k), c') \<and> doc_inv c' \<and> extends c c' \<and>
     m_shapeList c' = m_shapeList c"
proof -
  let ?s = "Shape_appendPoint p (get_shape c r)"
  have "YPolygonPoints_size (m_points ?s) - 1 = int (length (m_oriPoints (m_points (get_shape c r))))"
    by (simp add: Shape_appendPoint_def YPolygonPoints_append_def YPolygonPoints_size_def)
  moreover have "doc_inv (set_shape r (\<lambda>_. ?s) c)"
    using doc_inv_set_shape[OF assms] appendPoint_wf[OF doc_inv_heap[OF assms]] by (simp add: appendPoint_keeps)
  ultimately show ?thesis
    using assms(2) extends_set_shape[of ?s c r]
    by (auto simp: CanvasBase_addPoint_def deref_def Let_def appendPoint_keeps)
qed

lemma deletePoint_effect:
  assumes "doc_inv c" "r < length (heap c)"
  shows "\<exists>c'. CanvasBase_deletePoint (Some r) (QString_number (int k)) c = Inr c' \<and> doc_inv c' \<and> extends c c' \<and>
     m_shapeList c' = m_shapeList c"
proof -
  have wf: "shape_wf (get_shape c r)" by (rule doc_inv_heap[OF assms])
  obtain s where s: "Shape_deletePoint (int k) (get_shape c r) = Inr s"
    using wf erase_in_range[of "m_points (get_shape c r)" "int k"]
    by (cases "YPolygonPoints_size (m_points (get_shape c r)) \<le> int k") (auto simp: Shape_deletePoint_def shape_wf_def)
  with assms doc_inv_deletePoint[OF assms s] extends_set_shape[of s c r] deletePoint_keeps[OF s] show ?thesis
    by (auto simp: CanvasBase_deletePoint_def deref_def)
qed

lemma command_redo_effect:
  assumes "doc_inv c" "command_effect c cmd (m_shapeList c) L"
  shows "\<exists>cmd' c'. command_redo cmd c = Inr (cmd', c') \<and> doc_inv c' \<and> extends c c' \<and> m_shapeList c' = L \<and>
     command_effect c' cmd' (m_shapeList c) L"
proof (cases cmd)
  case (AddShapeCommand r nm tx)
  with assms(2) addShape_effect[OF assms(1), of r] show ?thesis
    by (fastforce simp: AddShapeCommand_redo_def place_name_extends fits_extends)
next
  case (RemoveShapeCommand r nm tx)
  then obtain q where q: "r = Some q" "m_shapeList c = L @ [q]" "fits c (L @ [q])" "nm = place_name c L q" using assms(2) by auto
  with RemoveShapeCommand deleteShape_effect[OF assms(1) q(2)] show ?thesis
    by (auto simp: RemoveShapeCommand_redo_def place_name_extends fits_extends)
next
  case (AddPointCommand r p nm tx)
  then obtain q where q: "r = Some q" "q < length (heap c)" "L = m_shapeList c" using assms(2) by auto
  with AddPointCommand addPoint_effect[OF assms(1) q(2), of p] show ?thesis
    by (fastforce simp: AddPointCommand_redo_def extends_def)
qed (use assms in \<open>auto simp: extends_def\<close>)

lemma command_undo_effect:
  assumes "doc_inv c" "command_effect c cmd L (m_shapeList c)"
  shows "\<exists>cmd' c'. command_undo cmd c = Inr (cmd', c') \<and> doc_inv c' \<and> extends c c' \<and> m_shapeList c' = L \<and>
     command_effect c' cmd' L (m_shapeList c)"
proof (cases cmd)
  case (AddShapeCommand r nm tx)
  then have q: "m_shapeList c = L @ [r]" "fits c (L @ [r])" "nm = place_name c L r" using assms(2) by auto
  with AddShapeCommand deleteShape_effect[OF assms(1) q(1)] show ?thesis
    by (auto simp: AddShapeCommand_undo_def place_name_extends fits_extends)
next
  case (RemoveShapeCommand r nm tx)
  then obtain q where "r = Some q" "L = m_shapeList c @ [q]" "fits c L" using assms(2) by auto
  with RemoveShapeCommand addShape_effect[OF assms(1), of q] show ?thesis
    by (fastforce simp: RemoveShapeCommand_undo_def place_name_extends fits_extends)
next
  case (AddPointCommand r p nm tx)
  then obtain q k where q: "r = Some q" "q < length (heap c)" "L = m_shapeList c" "nm = QString_number (int k)" using assms(2) by auto
  with AddPointCommand deletePoint_effect[OF assms(1) q(2), of k] show ?thesis
    by (fastforce simp: AddPointCommand_undo_def extends_def)
qed (use assms in \<open>auto simp: extends_def\<close>)

interpretation canvas_stack: linear_commands command_redo command_undo doc_inv m_shapeList command_effect extends
proof unfold_locales
  show "extends s s" for s by (simp add: extends_def)
qed (use command_effect_extends command_redo_effect command_undo_effect in blast)+

subsection \<open>The stack of a canvas\<close>

definition traced :: "canvas \<Rightarrow> bool" where
  "traced c \<longleftrightarrow> canvas_stack.consistent (m_undoStack c) c"

lemma doc_inv_stack [simp]: "doc_inv (s\<lparr>m_undoStack := st\<rparr>) \<longleftrightarrow> doc_inv s"
  by (simp add: doc_inv_def canvas_inv_def refs_valid_def shapes_def get_shape_def[abs_def])

lemma extends_heap: "heap c' = heap c \<Longrightarrow> extends c c'"
  by (simp add: extends_def type_at_def get_shape_def)

lemma traced_frame:
  "traced c \<Longrightarrow> doc_inv c \<Longrightarrow> extends c c' \<Longrightarrow> m_shapeList c' = m_shapeList c \<Longrightarrow> m_undoStack c' = m_undoStack c \<Longrightarrow> traced c'"
  unfolding traced_def by (simp add: canvas_stack.consistent_extends)

lemma traced_stack:
  assumes "canvas_stack.consistent st c" "doc_inv c"
  shows "traced (c\<lparr>m_undoStack := st\<rparr>)"
  unfolding traced_def using canvas_stack.consistent_extends[OF assms extends_heap[of "c\<lparr>m_undoStack := st\<rparr>" c]] by simp

text \<open>The class that a shape of a mode should have; there is none for the mode that draws nothing.\<close>

fun mode_class :: "draw_mode_e \<Rightarrow> shape_class option" where
  "mode_class Rectangle = Some YRectangle"
| "mode_class Line = Some yLine"
| "mode_class Curve = Some yCurve"
| "mode_class Polygon = Some YPolygon"
| "mode_class Polyline = Some YPolyline"
| "mode_class None_mode = None"

definition class_matches :: "Shape \<Rightarrow> bool" where
  "class_matches s \<longleftrightarrow> mode_class (m_type s) = Some (dyn_class s)"

definition typed :: "canvas \<Rightarrow> bool" where
  "typed c \<longleftrightarrow> list_all class_matches (heap c)"

lemma class_matches_cong: "m_type s = m_type t \<Longrightarrow> dyn_class s = dyn_class t \<Longrightarrow> class_matches s = class_matches t"
  by (simp add: class_matches_def)

lemma typed_extends:
  assumes "typed c" "extends c c'" "length (heap c') = length (heap c)"
  shows "typed c'"
proof -
  have "class_matches (heap c' ! r) = class_matches (heap c ! r)" if "r < length (heap c)" for r
    using that assms(2) by (intro class_matches_cong) (simp_all add: extends_def type_at_def get_shape_def)
  with assms(1,3) show ?thesis by (simp add: typed_def list_all_length)
qed

lemma create_matches: "ShapeFactory_create m = Some s \<Longrightarrow> class_matches (Shape_setimgWH sz s)"
  by (cases m) (auto simp: class_matches_def Shape_setimgWH_def Shape_new_def)

lemma traced_empty: "stack_cmds (m_undoStack c) = [] \<Longrightarrow> stack_index (m_undoStack c) = 0 \<Longrightarrow> traced c"
  by (simp add: traced_def canvas_stack.consistent_def stack_wf_def)

lemma ready_effect:
  assumes "doc_inv c" "command_ready cmd c" "command_redo cmd c = Inr (cmd', c')"
  shows "extends c c' \<and> command_effect c' cmd' (m_shapeList c) (m_shapeList c')"
proof -
  have "\<exists>cmd1 L. command_effect c cmd1 (m_shapeList c) L \<and> command_redo cmd1 c = command_redo cmd c"
  proof (cases cmd)
    case (AddShapeCommand r nm tx)
    with assms(1,2) doc_fits[OF assms(1)] show ?thesis
      by (intro exI[of _ "AddShapeCommand r (place_name c (m_shapeList c) r) tx"] exI[of _ "m_shapeList c @ [r]"]) (simp add: fits_def)
  next
    case (RemoveShapeCommand r nm tx)
    then have ne: "m_shapeList c = butlast (m_shapeList c) @ [last (m_shapeList c)]" using assms(2) by simp
    from RemoveShapeCommand assms(2) doc_fits[OF assms(1)] place_name_last[OF assms(1) ne] ne show ?thesis
      by (intro exI[of _ cmd] exI[of _ "butlast (m_shapeList c)"]) auto
  next
    case (AddPointCommand r p nm tx)
    with assms(2) doc_inv_refs[OF assms(1)] show ?thesis
      by (intro exI[of _ "AddPointCommand r p (QString_number (int 0)) tx"] exI[of _ "m_shapeList c"]) auto
  next
    case (RemovePointCommand r p nm tx)
    then show ?thesis by (intro exI[of _ cmd]) simp
  qed
  then obtain cmd1 L where e: "command_effect c cmd1 (m_shapeList c) L" "command_redo cmd1 c = command_redo cmd c" by blast
  from command_redo_effect[OF assms(1) e(1)] e(2) assms(3) show ?thesis by auto
qed

lemma command_frame:
  "command_redo cmd d = Inr (cmd', d') \<Longrightarrow> m_image d' = m_image d \<and> m_draw d' = m_draw d \<and> length (heap d') = length (heap d)"
  "command_undo cmd d = Inr (cmd', d') \<Longrightarrow> m_image d' = m_image d \<and> m_draw d' = m_draw d \<and> length (heap d') = length (heap d)"
  by (cases cmd;
      auto simp: AddShapeCommand_redo_def RemoveShapeCommand_redo_def AddPointCommand_redo_def
        AddShapeCommand_undo_def RemoveShapeCommand_undo_def AddPointCommand_undo_def CanvasBase_addShape_def
        CanvasBase_deleteShape_def CanvasBase_addPoint_def CanvasBase_deletePoint_def setCurrentShape_def Let_def
        split: if_splits option.splits)+

lemma canvas_undo_traced:
  assumes "doc_inv c" "traced c"
  shows "\<exists>c'. canvas_undo c = Inr c' \<and> doc_inv c' \<and> traced c' \<and> (typed c \<longrightarrow> typed c') \<and> m_image c' = m_image c \<and> m_draw c' = m_draw c"
proof -
  from canvas_stack.undo_total[OF assms(2)[unfolded traced_def] assms(1)] obtain st d where
    d: "QUndoStack_undo command_undo (m_undoStack c) c = Inr (st, d)" "doc_inv d" "canvas_stack.consistent st d" "extends c d" by blast
  moreover have f: "m_image d = m_image c \<and> m_draw d = m_draw c \<and> length (heap d) = length (heap c)"
    using d(1) command_frame(2) by (fastforce simp: QUndoStack_undo_def split: if_splits)
  ultimately show ?thesis
    using traced_stack[OF d(3,2)] typed_extends[OF _ d(4)] by (simp add: canvas_undo_def typed_def)
qed

lemma canvas_redo_traced:
  assumes "doc_inv c" "traced c"
  shows "\<exists>c'. canvas_redo c = Inr c' \<and> doc_inv c' \<and> traced c' \<and> (typed c \<longrightarrow> typed c') \<and> m_image c' = m_image c \<and> m_draw c' = m_draw c"
proof -
  from canvas_stack.redo_total[OF assms(2)[unfolded traced_def] assms(1)] obtain st d where
    d: "QUndoStack_redo command_redo (m_undoStack c) c = Inr (st, d)" "doc_inv d" "canvas_stack.consistent st d" "extends c d" by blast
  moreover have f: "m_image d = m_image c \<and> m_draw d = m_draw c \<and> length (heap d) = length (heap c)"
    using d(1) command_frame(1) by (fastforce simp: QUndoStack_redo_def split: if_splits)
  ultimately show ?thesis
    using traced_stack[OF d(3,2)] typed_extends[OF _ d(4)] by (simp add: canvas_redo_def typed_def)
qed

text \<open>An undo that is redone at once leads back to the list of shapes and to their names.\<close>

lemma canvas_undo_redo:
  assumes "doc_inv c" "traced c" "0 < stack_index (m_undoStack c)"
  shows "\<exists>c1 c2. canvas_undo c = Inr c1 \<and> canvas_redo c1 = Inr c2 \<and> doc_inv c2 \<and> m_shapeList c2 = m_shapeList c \<and>
     map m_name (shapes c2) = map m_name (shapes c) \<and> stack_index (m_undoStack c2) = stack_index (m_undoStack c)"
proof -
  obtain i where i: "stack_index (m_undoStack c) = Suc i" using assms(3) gr0_implies_Suc by blast
  from canvas_stack.undo_step[OF assms(2)[unfolded traced_def] assms(1) i] obtain st d where
    d: "QUndoStack_undo command_undo (m_undoStack c) c = Inr (st, d)" "doc_inv d" "extends c d"
      "canvas_stack.consistent st d" "stack_index st = i" "i < length (stack_cmds st)"
      "command_effect d (stack_cmds st ! i) (m_shapeList d) (m_shapeList c)" by blast
  let ?d = "d\<lparr>m_undoStack := st\<rparr>"
  have e: "extends d ?d" by (simp add: extends_heap)
  have c: "canvas_stack.consistent st ?d" "command_effect ?d (stack_cmds st ! i) (m_shapeList ?d) (m_shapeList c)"
    using canvas_stack.consistent_extends[OF d(4,2) e] command_effect_extends[OF e d(7)] by simp_all
  from canvas_stack.redo_step[OF c(1), of "m_shapeList c"] d(2,5,6) c(2) obtain st2 d2 where
    d2: "QUndoStack_redo command_redo st ?d = Inr (st2, d2)" "doc_inv d2" "extends ?d d2" "m_shapeList d2 = m_shapeList c"
      "stack_index st2 = Suc i" by auto
  have ty: "type_at d2 r = type_at c r" if "r \<in> set (m_shapeList c)" for r
    using that d(3) d2(3) e doc_inv_refs[OF assms(1) that] by (simp add: extends_def)
  have "map m_name (shapes d2) = map m_name (shapes c)"
    using doc_names[OF d2(2)] doc_names[OF assms(1)] d2(4) place_names_cong[OF ty] by simp
  moreover have "shapes (d2\<lparr>m_undoStack := st2\<rparr>) = shapes d2" by (simp add: shapes_def get_shape_def[abs_def])
  ultimately show ?thesis using d(1) d2 i by (simp add: canvas_undo_def canvas_redo_def)
qed

end
