(* ===== verification/Canvas_View.thy ===== *)
theory Canvas_View
  imports Undo_Tracking
begin

text \<open>
  The canvas view, \<^verbatim>\<open>src/ui/CanvasView.h\<close> and \<^verbatim>\<open>CanvasView.cpp\<close>: the
  slots that turn the canvas's signals into undo commands, and the loading and fitting of the
  image. The view's own state is the size of the viewport and the point of the scene at its
  centre, which Qt computes; both are arguments.
\<close>

subsection \<open>Operations\<close>

definition CanvasView_addShape :: "canvas \<Rightarrow> canvas result" where
  "CanvasView_addShape c =
     (case ShapeFactory_create (m_draw c) of
        None \<Rightarrow> Inl (Undefined ''null ShapePtr'')
      | Some newShape \<Rightarrow>
          bind_result (getImage c) (\<lambda>img.
          let r = length (heap c);
              c1 = c\<lparr>heap := heap c @ [Shape_setimgWH (img_size img) newShape]\<rparr>
          in canvas_push (AddShapeCommand_new r) c1))"

definition CanvasView_removeShape :: "canvas \<Rightarrow> canvas result" where
  "CanvasView_removeShape c =
     bind_result (currentShapeName c) (\<lambda>shapeName.
       if shapeName = [] then Inr c
       else bind_result (RemoveShapeCommand_new shapeName c) (\<lambda>cmd. canvas_push cmd c))"

definition CanvasView_addPoint :: "QPointF \<Rightarrow> canvas \<Rightarrow> canvas result" where
  "CanvasView_addPoint point c =
     bind_result (currentShape c) (\<lambda>shape.
       case shape of None \<Rightarrow> Inr c
       | Some r \<Rightarrow> canvas_push (AddPointCommand_new (Some r) point) c)"

definition adjustFitWindow :: "QSize \<Rightarrow> QPointF \<Rightarrow> 'c CanvasBase \<Rightarrow> 'c CanvasBase outcome" where
  "adjustFitWindow viewSize centre c =
     and_then (setSize viewSize c) (\<lambda>c'. (c'\<lparr>item_pos := centre\<rparr>, None))"

text \<open>\<^verbatim>\<open>loadImage\<close>; the rectangle of the scene that it sets belongs to the view and is not part of this state.\<close>

definition loadImage :: "QSize \<Rightarrow> QPointF \<Rightarrow> QImage option \<Rightarrow> 'c CanvasBase \<Rightarrow> 'c CanvasBase outcome" where
  "loadImage viewSize centre img c =
     and_then (lift_result c (setImage img c)) (adjustFitWindow viewSize centre)"

text \<open>\<^verbatim>\<open>resizeEvent\<close> catches every exception.\<close>

definition resizeEvent :: "QSize \<Rightarrow> QPointF \<Rightarrow> 'c CanvasBase \<Rightarrow> 'c CanvasBase outcome" where
  "resizeEvent viewSize centre c = catch_std (adjustFitWindow viewSize centre c)"

subsection \<open>Sessions\<close>

datatype view_op = OpAddShape | OpAddPoint QPointF | OpRemoveShape

fun run_op :: "view_op \<Rightarrow> canvas \<Rightarrow> canvas result" where
  "run_op OpAddShape c = CanvasView_addShape c"
| "run_op (OpAddPoint p) c = CanvasView_addPoint p c"
| "run_op OpRemoveShape c = CanvasView_removeShape c"

fun run_ops :: "view_op list \<Rightarrow> canvas \<Rightarrow> canvas result" where
  "run_ops [] c = Inr c"
| "run_ops (x # xs) c = bind_result (run_op x c) (run_ops xs)"

fun canvas_undo_times :: "nat \<Rightarrow> canvas \<Rightarrow> canvas result" where
  "canvas_undo_times 0 c = Inr c"
| "canvas_undo_times (Suc n) c = bind_result (canvas_undo c) (canvas_undo_times n)"

subsection \<open>The stack inside the canvas\<close>

lemma restores_stack [simp]:
  "restores s (t\<lparr>m_undoStack := st\<rparr>) \<longleftrightarrow> restores s t" "restores (s\<lparr>m_undoStack := st\<rparr>) t \<longleftrightarrow> restores s t"
  by (simp_all add: restores_def doc_inv_def canvas_inv_def refs_valid_def shapes_def get_shape_def[abs_def])

lemma restores_stack_self: "doc_inv s \<Longrightarrow> restores s (s\<lparr>m_undoStack := st\<rparr>)"
  unfolding restores_stack by (simp add: restores_def)

lemma canvas_push_ready:
  assumes "doc_inv c" "command_ready cmd c" "stack_wf (m_undoStack c)"
  shows "\<exists>cmd' c1 st. canvas_push cmd c = Inr (c1\<lparr>m_undoStack := st\<rparr>) \<and> command_redo cmd c = Inr (cmd', c1) \<and>
     doc_inv c1 \<and> stack_wf st \<and> done_cmds st = done_cmds (m_undoStack c) @ [cmd'] \<and>
     (traced c \<longrightarrow> traced (c1\<lparr>m_undoStack := st\<rparr>)) \<and> (typed c \<longrightarrow> typed (c1\<lparr>m_undoStack := st\<rparr>))"
proof -
  obtain cmd' c1 where r: "command_redo cmd c = Inr (cmd', c1)" "doc_inv c1"
    using canvas_cmds.redo_ok[OF assms(1,2)] by blast
  let ?st = "\<lparr>stack_cmds = take (stack_index (m_undoStack c)) (stack_cmds (m_undoStack c)) @ [cmd'],
              stack_index = stack_index (m_undoStack c) + 1\<rparr>"
  have p: "QUndoStack_push command_redo cmd (m_undoStack c) c = Inr (?st, c1)"
    using r(1) by (simp add: QUndoStack_push_def)
  then have "canvas_push cmd c = Inr (c1\<lparr>m_undoStack := ?st\<rparr>)" by (simp add: canvas_push_def)
  moreover have "stack_wf ?st" "done_cmds ?st = done_cmds (m_undoStack c) @ [cmd']"
    using push_done[OF p] r(1) assms(3) by auto
  moreover have "traced (c1\<lparr>m_undoStack := ?st\<rparr>)" if "traced c"
    using that traced_stack[OF _ r(2)] canvas_stack.consistent_push[OF _ assms(1)] ready_effect[OF assms(1,2) r(1)]
    by (simp add: traced_def)
  moreover have "typed (c1\<lparr>m_undoStack := ?st\<rparr>)" if "typed c"
    using that typed_extends[of c c1] ready_effect[OF assms(1,2) r(1)] command_frame(1)[OF r(1)] by (simp add: typed_def)
  ultimately show ?thesis using r by blast
qed

text \<open>The state after some operations: their commands are on the stack and lead back to the start.\<close>

definition tracked :: "canvas \<Rightarrow> canvas \<Rightarrow> bool" where
  "tracked c0 c \<longleftrightarrow> doc_inv c \<and> stack_wf (m_undoStack c) \<and> (traced c0 \<longrightarrow> traced c) \<and> (typed c0 \<longrightarrow> typed c) \<and>
     (\<exists>cs. done_cmds (m_undoStack c) = done_cmds (m_undoStack c0) @ rev cs \<and> canvas_cmds.history cs c0 c)"

lemma tracked_push:
  assumes "tracked c0 c" "command_ready cmd c"
  shows "\<exists>c'. canvas_push cmd c = Inr c' \<and> tracked c0 c'"
proof -
  from assms(1) obtain cs where c: "doc_inv c" "stack_wf (m_undoStack c)"
      "done_cmds (m_undoStack c) = done_cmds (m_undoStack c0) @ rev cs" "canvas_cmds.history cs c0 c" "traced c0 \<longrightarrow> traced c" "typed c0 \<longrightarrow> typed c"
    by (auto simp: tracked_def)
  obtain cmd' c1 st where p: "canvas_push cmd c = Inr (c1\<lparr>m_undoStack := st\<rparr>)" "command_redo cmd c = Inr (cmd', c1)"
      "doc_inv c1" "stack_wf st" "done_cmds st = done_cmds (m_undoStack c) @ [cmd']" "traced c \<longrightarrow> traced (c1\<lparr>m_undoStack := st\<rparr>)"
      "typed c \<longrightarrow> typed (c1\<lparr>m_undoStack := st\<rparr>)"
    using canvas_push_ready[OF c(1) assms(2) c(2)] by blast
  have "canvas_cmds.history (cmd' # cs) c0 (c1\<lparr>m_undoStack := st\<rparr>)"
    using canvas_cmds.history_push[OF c(4,1) assms(2) p(2)] canvas_cmds.history_restores restores_stack_self[OF p(3)]
    by blast
  with p c(3,5,6) show ?thesis by (auto simp: tracked_def intro!: exI[of _ "cmd' # cs"])
qed

lemma restores_extends:
  assumes "restores c c'"
  shows "extends c c'"
proof -
  have "m_type (get_shape c' r) = m_type (get_shape c r) \<and> dyn_class (get_shape c' r) = dyn_class (get_shape c r)"
    if "r < length (heap c)" for r
  proof -
    have nl: "nameless (get_shape c r) = nameless (get_shape c' r)" using that assms by (simp add: restores_def)
    show ?thesis using arg_cong[OF nl, of m_type] arg_cong[OF nl, of dyn_class] by (simp add: nameless_def)
  qed
  with assms show ?thesis by (simp add: extends_def type_at_def restores_def)
qed

lemma tracked_restores:
  assumes "tracked c0 c" "restores c c'" "m_undoStack c' = m_undoStack c" "typed c \<longrightarrow> typed c'"
  shows "tracked c0 c'"
  using assms canvas_cmds.history_restores traced_frame[of c c'] restores_extends[OF assms(2)]
  by (fastforce simp: tracked_def restores_def)

lemma restores_alloc:
  assumes "doc_inv c" "shape_wf s"
  shows "restores c (c\<lparr>heap := heap c @ [s]\<rparr>)"
proof -
  let ?c = "c\<lparr>heap := heap c @ [s]\<rparr>"
  have g: "get_shape ?c r = get_shape c r" if "r < length (heap c)" for r
    using that by (simp add: get_shape_def nth_append)
  have sh: "shapes ?c = shapes c"
    using g doc_inv_refs[OF assms(1)] by (auto simp: shapes_def)
  have "doc_inv ?c"
    using assms sh by (auto simp: doc_inv_def canvas_inv_def refs_valid_def)
  with assms(1) sh g show ?thesis by (simp add: restores_def)
qed

lemma create_wf: "ShapeFactory_create m = Some s \<Longrightarrow> shape_wf (Shape_setimgWH sz s)"
  by (cases m) (auto simp: Shape_new_def shape_wf_def Shape_setimgWH_def views_agree_setImgWH YPolygonPoints_empty_def
      views_agree_def YPolygonPoints_setImgWH_def)

lemma tracked_addShape:
  assumes "tracked c0 c" "m_image c = Some i" "m_draw c \<noteq> None_mode"
  shows "\<exists>c'. CanvasView_addShape c = Inr c' \<and> tracked c0 c'"
proof -
  obtain s where s: "ShapeFactory_create (m_draw c) = Some s" using assms(3) by (cases "m_draw c") auto
  let ?c = "c\<lparr>heap := heap c @ [Shape_setimgWH (img_size i) s]\<rparr>"
  have inv: "doc_inv c" using assms(1) by (simp add: tracked_def)
  have "tracked c0 ?c"
    using tracked_restores[OF assms(1) restores_alloc[OF inv create_wf[OF s]]] create_matches[OF s] by (simp add: typed_def)
  moreover have "command_ready (AddShapeCommand_new (length (heap c))) ?c"
    using doc_inv_refs[OF inv] by (auto simp: AddShapeCommand_new_def)
  ultimately show ?thesis
    using tracked_push s assms(2) by (fastforce simp: CanvasView_addShape_def Let_def)
qed

lemma current_is_last:
  "doc_inv c \<Longrightarrow> currentShape c = Inr (if m_shapeList c = [] then None else Some (last (m_shapeList c)))"
  by (auto simp: doc_inv_def currentShape_def vec_at_def last_conv_nth nat_diff_distrib Suc_leI)

lemma tracked_addPoint:
  assumes "tracked c0 c"
  shows "\<exists>c'. CanvasView_addPoint p c = Inr c' \<and> tracked c0 c'"
proof -
  have "doc_inv c" using assms by (simp add: tracked_def)
  from current_is_last[OF this] assms tracked_push[OF assms, of "AddPointCommand_new (Some (last (m_shapeList c))) p"]
  show ?thesis by (auto simp: CanvasView_addPoint_def AddPointCommand_new_def)
qed

lemma tracked_removeShape:
  assumes "tracked c0 c"
  shows "\<exists>c'. CanvasView_removeShape c = Inr c' \<and> tracked c0 c'"
proof (cases "m_shapeList c = []")
  case True
  have "doc_inv c" using assms by (simp add: tracked_def)
  with True have "currentShapeName c = Inr []" by (simp add: doc_inv_def currentShapeName_def)
  with assms show ?thesis by (simp add: CanvasView_removeShape_def)
next
  case False
  have inv: "doc_inv c" using assms by (simp add: tracked_def)
  let ?k = "length (m_shapeList c) - 1" and ?r = "last (m_shapeList c)"
  have k: "?k < length (m_shapeList c)" "m_shapeList c ! ?k = ?r" using False by (simp_all add: last_conv_nth)
  have ik: "int ?k = int (length (m_shapeList c)) - 1" using False by (simp add: of_nat_diff Suc_leI)
  have name: "currentShapeName c = Inr (m_name (get_shape c ?r))"
  proof -
    have cur: "m_currentIndex c = int ?k" using inv ik by (simp add: doc_inv_def)
    have "vec_at (m_shapeList c) (m_currentIndex c) = Inr ?r" by (simp only: cur vec_at_nat[OF k(1)] k(2))
    moreover have "m_currentIndex c \<noteq> -1" unfolding cur by simp
    ultimately show ?thesis by (simp add: currentShapeName_def)
  qed
  have "shape_named c (m_name (get_shape c ?r)) = Inr (Some ?r)"
    using shape_named_nth[of c ?k] inv k by (simp add: doc_inv_def)
  moreover have "command_ready (RemoveShapeCommand (Some ?r) (m_name (get_shape c ?r)) NoText) c"
    using False by (simp add: shapes_def last_map)
  ultimately show ?thesis
    using tracked_push[OF assms] name assms by (auto simp: CanvasView_removeShape_def RemoveShapeCommand_new_def)
qed

lemma run_op_frame:
  assumes "run_op x c = Inr c'"
  shows "m_image c' = m_image c \<and> m_draw c' = m_draw c"
proof -
  have push: "m_image d' = m_image d \<and> m_draw d' = m_draw d" if "canvas_push cmd d = Inr d'" for cmd d d'
    using that command_frame(1) by (fastforce simp: canvas_push_def QUndoStack_push_def)
  show ?thesis
    using assms push
    by (cases x) (fastforce simp: CanvasView_addShape_def CanvasView_addPoint_def CanvasView_removeShape_def Let_def
        split: option.splits if_splits)+
qed

lemma tracked_run_ops:
  assumes "tracked c0 c" "m_image c = Some i" "m_draw c \<noteq> None_mode"
  shows "\<exists>c'. run_ops xs c = Inr c' \<and> tracked c0 c'"
  using assms
proof (induction xs arbitrary: c)
  case (Cons x xs)
  have "\<exists>c'. run_op x c = Inr c' \<and> tracked c0 c'"
    using tracked_addShape[OF Cons.prems] tracked_addPoint[OF Cons.prems(1)] tracked_removeShape[OF Cons.prems(1)]
    by (cases x) auto
  then obtain c' where c': "run_op x c = Inr c'" "tracked c0 c'" by blast
  with Cons.IH[OF c'(2)] run_op_frame[OF c'(1)] Cons.prems show ?case by simp
qed simp

lemma canvas_undo_history:
  "canvas_cmds.history cs c0 c \<Longrightarrow> doc_inv c \<Longrightarrow> stack_wf (m_undoStack c) \<Longrightarrow>
   done_cmds (m_undoStack c) = pre @ rev cs \<Longrightarrow>
   \<exists>c'. canvas_undo_times (length cs) c = Inr c' \<and> restores c0 c'"
proof (induction cs arbitrary: c)
  case (Cons cmd cs)
  from canvas_cmds.history_undo[OF Cons.prems(1,2)] obtain cmd' s' where
    u: "command_undo cmd c = Inr (cmd', s')" "canvas_cmds.history cs c0 s'" "restores s' s'" by blast
  have "done_cmds (m_undoStack c) = (pre @ rev cs) @ [cmd]" using Cons.prems(4) by simp
  from undo_done[where undo_cmd = command_undo, OF Cons.prems(3) this u(1)] obtain st where
    st: "QUndoStack_undo command_undo (m_undoStack c) c = Inr (st, s')" "stack_wf st" "done_cmds st = pre @ rev cs"
    by blast
  let ?c = "s'\<lparr>m_undoStack := st\<rparr>"
  have "restores s' ?c" "doc_inv ?c" using u(3) by (simp_all, simp add: restores_def)
  with Cons.IH[of ?c] canvas_cmds.history_restores[OF u(2), of ?c] st
  show ?case by (auto simp: canvas_undo_def)
qed auto

subsection \<open>Properties\<close>

text \<open>
  C3. Undo is faithful: whatever sequence of adding shapes, adding points and removing the
  current shape is carried out through the view on a canvas with an image, every operation
  succeeds, and undoing as many commands as it pushed restores the list of shapes and the shapes
  in it, names, vertices and order included.
\<close>

theorem undo_restores_document:
  assumes "doc_inv c" and "m_image c = Some i" and "m_draw c \<noteq> None_mode" and "stack_wf (m_undoStack c)"
  shows "\<exists>c' c''. run_ops xs c = Inr c' \<and> doc_inv c' \<and>
     canvas_undo_times (stack_index (m_undoStack c') - stack_index (m_undoStack c)) c' = Inr c'' \<and>
     m_shapeList c'' = m_shapeList c \<and> shapes c'' = shapes c \<and> currentShape c'' = currentShape c"
proof -
  have "canvas_cmds.history [] c c" using assms(1) by (simp add: restores_def)
  then have "tracked c c" using assms(1,4) by (auto simp: tracked_def intro!: exI[of _ "[]"])
  from tracked_run_ops[OF this assms(2,3), of xs] obtain c' cs where
    c': "run_ops xs c = Inr c'" "doc_inv c'" "stack_wf (m_undoStack c')"
      "done_cmds (m_undoStack c') = done_cmds (m_undoStack c) @ rev cs" "canvas_cmds.history cs c c'"
    by (auto simp: tracked_def)
  have "length (done_cmds (m_undoStack c')) = length (done_cmds (m_undoStack c)) + length cs"
    by (simp only: c'(4) length_append length_rev)
  then have "stack_index (m_undoStack c') - stack_index (m_undoStack c) = length cs"
    using c'(3) assms(4) by (simp add: done_cmds_def stack_wf_def)
  with canvas_undo_history[OF c'(5,2,3,4)] obtain c'' where
    "canvas_undo_times (stack_index (m_undoStack c') - stack_index (m_undoStack c)) c' = Inr c''" "restores c c''" by auto
  with c' assms(1) show ?thesis using current_is_last[of c] current_is_last[of c''] by (auto simp: restores_def)
qed

lemma sample_doc: "doc_inv sample_canvas" "stack_wf (m_undoStack sample_canvas)"
  by (simp_all add: doc_inv_def canvas_inv_def refs_valid_def shapes_def names_canonical_def stack_wf_def)

theorem undo_restores_document_witness:
  "\<exists>c' c''. run_ops [OpAddShape, OpAddPoint (QPointF 1 1), OpAddShape, OpRemoveShape] sample_canvas = Inr c' \<and>
     canvas_undo_times (stack_index (m_undoStack c')) c' = Inr c'' \<and> shapes c'' = []"
  using undo_restores_document[OF sample_doc(1) sample_canvas_simps(1) _ sample_doc(2),
      of "[OpAddShape, OpAddPoint (QPointF 1 1), OpAddShape, OpRemoveShape]"]
  by (auto simp: shapes_def)

text \<open>
  A shape whose name is empty cannot be removed: \<^verbatim>\<open>removeShape\<close> takes the empty name
  for the absence of a current shape. The first polyline of a canvas is such a shape, because its
  mode has no name.
\<close>

theorem first_polyline_cannot_be_removed:
  assumes "doc_inv c" and "m_image c = Some i" and "m_draw c = Polyline" and "stack_wf (m_undoStack c)"
    and "[] \<notin> m_name ` set (shapes c)"
  shows "\<exists>c'. CanvasView_addShape c = Inr c' \<and> m_shapeList c' = m_shapeList c @ [length (heap c)] \<and>
     m_name (last (shapes c')) = [] \<and> CanvasView_removeShape c' = Inr c'"
proof -
  let ?s = "Shape_setimgWH (img_size i) (Shape_new YPolyline Polyline)" and ?r = "length (heap c)"
  let ?c = "c\<lparr>heap := heap c @ [?s]\<rparr>"
  have wf: "shape_wf ?s" using create_wf[of Polyline "Shape_new YPolyline Polyline"] by simp
  have re: "restores c ?c" by (rule restores_alloc[OF assms(1) wf])
  then have inv: "doc_inv ?c" and sh: "shapes ?c = shapes c" by (simp_all add: restores_def)
  have r: "?r < length (heap ?c)" "?r \<notin> set (m_shapeList ?c)" using doc_inv_refs[OF assms(1)] by auto
  obtain nm c1 where add: "CanvasBase_addShape ?r ?c = Inr (nm, c1)" using r by (auto simp: addShape_result Let_def)
  have "m_type (get_shape ?c ?r) = Polyline"
    by (simp add: get_shape_def Shape_setimgWH_def Shape_new_def)
  then have "nm = uniqueName_loop (shapes c) [] 0"
    using add r sh by (auto simp: addShape_result Let_def uniqueName_def)
  then have nm: "nm = []"
    using assms(5) by (subst (asm) uniqueName_loop.simps) (simp add: candidate_def indexOf_loop_absent Let_def)
  note s = shapes_addShape[OF r add]
  have push: "CanvasView_addShape c = Inr (c1\<lparr>m_undoStack :=
      \<lparr>stack_cmds = take (stack_index (m_undoStack c)) (stack_cmds (m_undoStack c)) @ [AddShapeCommand ?r nm (ShapeText nm)],
       stack_index = stack_index (m_undoStack c) + 1\<rparr>\<rparr>)" (is "_ = Inr ?c2")
    using assms(2,3) add
    by (simp add: CanvasView_addShape_def canvas_push_def QUndoStack_push_def AddShapeCommand_new_def AddShapeCommand_redo_def Let_def)
  have l: "m_shapeList ?c2 = m_shapeList c @ [?r]" "m_currentIndex ?c2 = int (length (m_shapeList c))"
    using s(2,3) by simp_all
  have sh2: "shapes ?c2 = shapes c @ [(get_shape ?c ?r)\<lparr>m_name := nm\<rparr>]"
    using s(1) sh by (simp add: shapes_def get_shape_def[abs_def])
  then have last: "m_name (last (shapes ?c2)) = []" using nm by simp
  have "get_shape ?c2 ?r = last (shapes ?c2)" using l(1) by (simp add: shapes_def)
  then have "currentShapeName ?c2 = Inr []" using l last by (simp add: currentShapeName_def vec_at_def)
  then have "CanvasView_removeShape ?c2 = Inr ?c2" by (simp add: CanvasView_removeShape_def)
  with push l(1) last show ?thesis by blast
qed

theorem first_polyline_cannot_be_removed_witness:
  "\<exists>c'. CanvasView_addShape (sample_canvas\<lparr>m_draw := Polyline\<rparr>) = Inr c' \<and> m_shapeList c' = [0] \<and>
     CanvasView_removeShape c' = Inr c'"
proof -
  have "doc_inv (sample_canvas\<lparr>m_draw := Polyline\<rparr> :: canvas)" "stack_wf (m_undoStack (sample_canvas\<lparr>m_draw := Polyline\<rparr> :: canvas))"
    by (simp_all add: doc_inv_def canvas_inv_def refs_valid_def shapes_def names_canonical_def stack_wf_def)
  from first_polyline_cannot_be_removed[OF this(1) _ _ this(2), of "blank_image 100 100"] show ?thesis
    by (auto simp: shapes_def)
qed

text \<open>
  C33. Loading an image makes it the displayed image, fits it into 98 per cent of the viewport
  and puts its centre at the centre of the view; the whole image is then visible. A null image
  is refused with the canvas's exception and leaves the canvas as it was.
\<close>

theorem loadImage_fits:
  assumes "0 < img_w i" and "0 < img_h i"
  shows "loadImage sz centre None c = (c, Some (CanvasException ''image is null'')) \<and>
     (\<exists>c'. loadImage sz centre (Some i) c = (c', None) \<and> m_image c' = Some i \<and> m_disImg c' = Some i \<and>
       item_scale c' = m_scaleValue c' \<and> item_pos c' = centre \<and> m_shapeList c' = m_shapeList c \<and>
       item_scale c' * of_nat (img_w i) \<le> of_int (sz_width sz) * (98/100) \<and>
       item_scale c' * of_nat (img_h i) \<le> of_int (sz_height sz) * (98/100) \<and>
       (item_scale c' * of_nat (img_w i) = of_int (sz_width sz) * (98/100) \<or>
        item_scale c' * of_nat (img_h i) = of_int (sz_height sz) * (98/100)))"
proof -
  let ?a = "of_int (sz_width sz) / of_nat (img_w i) :: rat" and ?b = "of_int (sz_height sz) / of_nat (img_h i) :: rat"
  let ?v = "(if ?a < ?b then ?a else ?b) * (98/100)"
  have "loadImage sz centre (Some i) c =
      (c\<lparr>m_image := Some i, m_disImg := Some i, m_scaleValue := ?v, item_scale := ?v, item_pos := centre\<rparr>, None)"
    by (simp add: loadImage_def setImage_def adjustFitWindow_def setSize_def Let_def)
  moreover have "loadImage sz centre None c = (c, Some (CanvasException ''image is null''))"
    by (simp add: loadImage_def setImage_def)
  moreover have "min ?a ?b * of_nat (img_w i) \<le> of_int (sz_width sz)" "min ?a ?b * of_nat (img_h i) \<le> of_int (sz_height sz)"
    using assms by (simp_all add: min_def field_simps)
  moreover have "min ?a ?b * of_nat (img_w i) = of_int (sz_width sz) \<or> min ?a ?b * of_nat (img_h i) = of_int (sz_height sz)"
    using assms by (simp add: min_def)
  moreover have "(if ?a < ?b then ?a else ?b) = min ?a ?b" by (simp add: min_def)
  ultimately show ?thesis by (auto simp: mult.commute mult.left_commute)
qed

theorem loadImage_fits_witness:
  "\<exists>c'. loadImage \<lparr>sz_width = 200, sz_height = 100\<rparr> 0 (Some (blank_image 100 100)) (sample_canvas :: canvas) = (c', None) \<and>
     m_image c' = Some (blank_image 100 100)"
  using loadImage_fits[of "blank_image 100 100" "\<lparr>sz_width = 200, sz_height = 100\<rparr>" 0 "sample_canvas :: canvas"] by auto

end
