(* ===== verification/Shape_Drawing.thy ===== *)
theory Shape_Drawing
  imports Shapes
begin

text \<open>
  The \<^verbatim>\<open>draw\<close> methods of the five shape classes, as the sequence of
  \<^verbatim>\<open>QPainter\<close> calls they make. A \<^verbatim>\<open>QPainterPath\<close> is the
  list of the calls that build it.
\<close>

subsection \<open>The painter\<close>

datatype path_item =
    AddRect QRectF
  | AddPolygon "QPointF list"
  | MoveTo QPointF
  | LineTo QPointF
  | CloseSubpath

datatype QPen = QPen (pen_color: QColor) (pen_width: rat)

datatype paint_cmd =
    Save
  | Restore
  | SetPen QPen
  | SetBrush QColor
  | DrawPath "path_item list"
  | DrawLine QPointF QPointF
  | DrawRect QRectF
  | DrawEllipse QRectF
  | FillPath "path_item list" QColor
  | FillRect QRectF QColor
  | DrawImage QPointF QImage

text \<open>The depth of the painter's state stack; \<^verbatim>\<open>None\<close> for a restore without a save.\<close>

fun save_depth :: "nat \<Rightarrow> paint_cmd list \<Rightarrow> nat option" where
  "save_depth n [] = Some n"
| "save_depth n (Save # cs) = save_depth (Suc n) cs"
| "save_depth n (Restore # cs) = (case n of 0 \<Rightarrow> None | Suc k \<Rightarrow> save_depth k cs)"
| "save_depth n (_ # cs) = save_depth n cs"

lemma save_depth_append:
  "save_depth n (xs @ ys) = (case save_depth n xs of None \<Rightarrow> None | Some k \<Rightarrow> save_depth k ys)"
  by (induction n xs rule: save_depth.induct) (auto split: nat.splits)

subsection \<open>Pieces the methods share\<close>

definition draft_color :: QColor where
  "draft_color = QColor_rgb 0 255 0"

definition fill_color :: "Shape \<Rightarrow> QColor" where
  "fill_color s = QColor_rgba (red (m_color s)) (green (m_color s)) (blue (m_color s)) 100"

definition outline_pen :: "Shape \<Rightarrow> QPen" where
  "outline_pen s =
     (let pen = QPen (m_color s) (m_lineWidth s)
      in if m_isActive s \<or> m_isSelect s then
           (if m_isSelect s then QPen color_white (pen_width pen) else QPen (m_color s) (pen_width pen))
         else pen)"

definition ellipse_at :: "rat \<Rightarrow> QPointF \<Rightarrow> QRectF" where
  "ellipse_at ptSize pos =
     \<lparr>rx = px pos - ptSize, ry = py pos - ptSize, rw = ptSize * 2, rh = ptSize * 2\<rparr>"

text \<open>The active control point is a square whose \<^verbatim>\<open>QSize\<close> truncates the edge to an int.\<close>

definition active_square :: "rat \<Rightarrow> QPointF \<Rightarrow> QRectF" where
  "active_square ptSize pos =
     \<lparr>rx = px pos - ptSize, ry = py pos - ptSize,
      rw = of_int (trunc (ptSize * 2)), rh = of_int (trunc (ptSize * 2))\<rparr>"

definition control_point :: "Shape \<Rightarrow> nat \<times> QPointF \<Rightarrow> paint_cmd" where
  "control_point s ip =
     (if m_controlPtActive s = int (fst ip)
      then DrawRect (active_square (m_pointSize s * (7/4)) (snd ip))
      else DrawEllipse (ellipse_at (m_pointSize s * (5/4)) (snd ip)))"

definition closed_control_points :: "Shape \<Rightarrow> QPointF list \<Rightarrow> paint_cmd list" where
  "closed_control_points s points =
     [Save,
      SetPen (QPen (if m_isSelect s then color_white else m_color s) (m_lineWidth s / 2)),
      SetBrush (m_color s)] @
     (if m_controlPtActive s \<ge> 0 then [SetBrush color_white] else []) @
     map (control_point s) (enumerate 0 points) @
     [Restore]"

definition draft_points :: "Shape \<Rightarrow> QPointF list \<Rightarrow> paint_cmd list" where
  "draft_points s points = map (\<lambda>pos. DrawEllipse (ellipse_at (m_pointSize s) pos)) points"

definition highlighted :: "Shape \<Rightarrow> bool" where
  "highlighted s \<longleftrightarrow> m_isActive s \<or> m_isSelect s \<or> m_controlPtActive s \<ge> 0"

subsection \<open>The draw methods\<close>

definition YRectangle_draw :: "Shape \<Rightarrow> bool \<Rightarrow> bool \<Rightarrow> paint_cmd list result" where
  "YRectangle_draw s isdisEndPt fill =
     (if YPolygonPoints_size (m_points s) \<le> 0 then Inr []
      else let points = YPolygonPoints_getOriPoints (m_points s) @ (if isdisEndPt then [m_disPoit s] else [])
           in bind_result (vec_at points 0) (\<lambda>p1. bind_result (vec_at points 1) (\<lambda>p2.
              let path = [AddRect (rect_of_corners p1 p2)]
              in Inr (
                [Save] @
                (if m_isClosed s then [SetPen (outline_pen s)]
                 else [SetBrush (QColor_rgba 10 0 0 100), SetPen (QPen draft_color (m_lineWidth s))]) @
                [DrawPath path, Restore] @
                (if m_isClosed s then closed_control_points s points
                 else [SetPen (QPen draft_color 1), SetBrush draft_color] @ draft_points s points) @
                (if highlighted s then [FillPath path (fill_color s)] else [])))))"

definition yLine_draw :: "Shape \<Rightarrow> bool \<Rightarrow> bool \<Rightarrow> paint_cmd list result" where
  "yLine_draw s isdisEndPt fill =
     (if YPolygonPoints_size (m_points s) \<le> 0 then Inr []
      else let points = YPolygonPoints_getOriPoints (m_points s) @ (if isdisEndPt then [m_disPoit s] else [])
           in bind_result (vec_at points 0) (\<lambda>p1. bind_result (vec_at points 1) (\<lambda>p2.
              Inr (
                [Save] @
                (if m_isClosed s then [SetPen (outline_pen s)]
                 else [SetBrush (QColor_rgba 10 0 0 100), SetPen (QPen draft_color (m_lineWidth s))]) @
                [DrawLine p1 p2, Restore] @
                (if m_isClosed s then closed_control_points s points
                 else [SetPen (QPen draft_color 1), SetBrush draft_color] @ draft_points s points)))))"

definition numSteps :: nat where
  "numSteps = 100"

definition yCurve_draw :: "Shape \<Rightarrow> bool \<Rightarrow> bool \<Rightarrow> paint_cmd list result" where
  "yCurve_draw s isdisEndPt fill =
     (if YPolygonPoints_size (m_points s) \<le> 0 then Inr []
      else let points = YPolygonPoints_getOriPoints (m_points s) @ (if isdisEndPt then [m_disPoit s] else [])
           in bind_result (vec_at points 0) (\<lambda>p1.
              bind_result (map_result (\<lambda>i. deCasteljau points (of_nat i / of_nat numSteps)) [1..<Suc numSteps]) (\<lambda>curve.
              Inr (
                [Save] @
                (if m_isClosed s then closed_control_points s points
                 else [SetPen (QPen draft_color 1)] @ draft_points s points) @
                [SetPen (QPen (m_color s) (m_lineWidth s)),
                 DrawPath (MoveTo p1 # map LineTo curve),
                 Restore]))))"

definition YPolygon_draw :: "Shape \<Rightarrow> bool \<Rightarrow> bool \<Rightarrow> paint_cmd list result" where
  "YPolygon_draw s isdisEndPt fill =
     (let points = (if isdisEndPt then YPolygonPoints_append (m_disPoit s) (m_points s) else m_points s);
          path = [AddPolygon (YPolygonPoints_getOriPoints points)] @ (if m_isClosed s then [CloseSubpath] else [])
      in bind_result (map_result (YPolygonPoints_at points) (map int [0..<nat (YPolygonPoints_size points)])) (\<lambda>pts.
         Inr (
           (if m_isClosed s then [SetPen (outline_pen s)]
            else [SetBrush (QColor_rgba 10 0 0 100), SetPen (QPen draft_color (m_lineWidth s))]) @
           [DrawPath path] @
           (if m_isClosed s then closed_control_points s pts
            else [SetPen (QPen draft_color 1), SetBrush draft_color] @ draft_points s pts) @
           (if highlighted s then [FillPath path (fill_color s)] else []))))"

definition YPolyline_draw :: "Shape \<Rightarrow> bool \<Rightarrow> bool \<Rightarrow> paint_cmd list result" where
  "YPolyline_draw s isdisEndPt fill =
     (let points = (if isdisEndPt then YPolygonPoints_append (m_disPoit s) (m_points s) else m_points s);
          path = [AddPolygon (YPolygonPoints_getOriPoints points)]
      in bind_result (map_result (YPolygonPoints_at points) (map int [0..<nat (YPolygonPoints_size points)])) (\<lambda>pts.
         Inr (
           (if m_isClosed s then [SetPen (outline_pen s)]
            else [SetPen (QPen draft_color (m_lineWidth s))]) @
           [DrawPath path] @
           (if m_isClosed s then closed_control_points s pts
            else [SetPen (QPen draft_color 1), SetBrush draft_color] @ draft_points s pts))))"

definition Shape_draw :: "Shape \<Rightarrow> bool \<Rightarrow> bool \<Rightarrow> paint_cmd list result" where
  "Shape_draw s isdisEndPt fill =
     (case dyn_class s of
        YRectangle \<Rightarrow> YRectangle_draw s isdisEndPt fill
      | yLine \<Rightarrow> yLine_draw s isdisEndPt fill
      | yCurve \<Rightarrow> yCurve_draw s isdisEndPt fill
      | YPolygon \<Rightarrow> YPolygon_draw s isdisEndPt fill
      | YPolyline \<Rightarrow> YPolyline_draw s isdisEndPt fill)"

subsection \<open>Properties\<close>

lemma save_depth_control_points: "save_depth n (map (control_point s) ips) = Some n"
  by (induction ips) (auto simp: control_point_def)

lemma save_depth_closed: "save_depth n (closed_control_points s points) = Some n"
  by (simp add: closed_control_points_def save_depth_append save_depth_control_points)

lemma save_depth_draft: "save_depth n (draft_points s points) = Some n"
  by (simp add: draft_points_def) (induction points; simp)

lemmas save_depth_rules = save_depth_append save_depth_closed save_depth_draft

lemmas draw_defs = Shape_draw_def YRectangle_draw_def yLine_draw_def yCurve_draw_def
  YPolygon_draw_def YPolyline_draw_def

lemma vertices_readable:
  "map_result (YPolygonPoints_at ps) (map int [0..<length (m_oriPoints ps)]) = Inr (m_oriPoints ps)"
proof -
  have "map_result (YPolygonPoints_at ps) (map int [0..<length (m_oriPoints ps)]) =
      Inr (map (\<lambda>i. m_oriPoints ps ! nat i) (map int [0..<length (m_oriPoints ps)]))"
    by (rule map_result_total) (auto simp: at_nat)
  then show ?thesis by (simp add: comp_def map_nth)
qed

lemma draw_balanced: "Shape_draw s isdisEndPt fill = Inr cmds \<Longrightarrow> save_depth n cmds = Some n"
  by (cases "dyn_class s") (auto simp: draw_defs Let_def save_depth_rules split: if_splits)

text \<open>
  Whatever a shape draws, every \<^verbatim>\<open>save\<close> of the painter's state is matched by a
  \<^verbatim>\<open>restore\<close> and no \<^verbatim>\<open>restore\<close> is without its \<^verbatim>\<open>save\<close>.
\<close>

theorem draw_balances_painter_state:
  assumes "Shape_draw s isdisEndPt fill = Inr cmds"
  shows "save_depth n cmds = Some n"
  using assms by (rule draw_balanced)

theorem draw_balances_painter_state_witness:
  "\<exists>cmds. Shape_draw sample_triangle False True = Inr cmds \<and> save_depth 0 cmds = Some 0 \<and> cmds \<noteq> []"
proof -
  have "dyn_class sample_triangle = YPolygon" by (simp add: sample_triangle_def Shape_new_def)
  then obtain cmds where c: "Shape_draw sample_triangle False True = Inr cmds" "cmds \<noteq> []"
    by (simp add: Shape_draw_def YPolygon_draw_def Let_def YPolygonPoints_size_def vertices_readable)
  from draw_balances_painter_state[OF c(1), of 0] c show ?thesis by blast
qed

lemma curve_readable:
  "ps \<noteq> [] \<Longrightarrow> \<exists>c. map_result (\<lambda>i. deCasteljau ps (of_nat i / of_nat numSteps)) is = Inr c"
  by (rule map_result_ex) (auto simp: deCasteljau_level)

lemma rect_draw_succeeds_iff:
  "(\<exists>cmds. YRectangle_draw s isdisEndPt fill = Inr cmds) \<longleftrightarrow>
     vertex_count s = 0 \<or> 2 \<le> vertex_count s + (if isdisEndPt then 1 else 0)"
  "(\<exists>cmds. yLine_draw s isdisEndPt fill = Inr cmds) \<longleftrightarrow>
     vertex_count s = 0 \<or> 2 \<le> vertex_count s + (if isdisEndPt then 1 else 0)"
  by (cases "m_oriPoints (m_points s)"; cases "tl (m_oriPoints (m_points s))";
      auto simp: YRectangle_draw_def yLine_draw_def Let_def YPolygonPoints_size_def
        YPolygonPoints_getOriPoints_def vec_at_def)+

lemma curve_draw_succeeds: "\<exists>cmds. yCurve_draw s isdisEndPt fill = Inr cmds"
  using curve_readable[of "m_oriPoints (m_points s) @ (if isdisEndPt then [m_disPoit s] else [])"]
  by (auto simp: yCurve_draw_def Let_def YPolygonPoints_size_def YPolygonPoints_getOriPoints_def
      vec_at_def)

lemma polygon_draw_succeeds:
  "\<exists>cmds. YPolygon_draw s isdisEndPt fill = Inr cmds"
  "\<exists>cmds. YPolyline_draw s isdisEndPt fill = Inr cmds"
  by (simp_all add: YPolygon_draw_def YPolyline_draw_def Let_def YPolygonPoints_size_def
      vertices_readable)

text \<open>
  C40. Drawing succeeds exactly when the shape is no rectangle or line, or has no vertex yet, or
  has two vertices, the one that follows the mouse counted when it is shown. So the first click
  of a rectangle can be drawn only with that moving end.
\<close>

theorem draw_succeeds_iff:
  "(\<exists>cmds. Shape_draw s isdisEndPt fill = Inr cmds) \<longleftrightarrow>
     dyn_class s \<in> {yCurve, YPolygon, YPolyline} \<or> vertex_count s = 0 \<or>
     2 \<le> vertex_count s + (if isdisEndPt then 1 else 0)"
  by (cases "dyn_class s")
     (simp_all add: Shape_draw_def rect_draw_succeeds_iff curve_draw_succeeds polygon_draw_succeeds)

lemma draw_error: "Shape_draw s isdisEndPt fill = Inl e \<Longrightarrow> e = Undefined ''QVector::at''"
  using curve_draw_succeeds[of s isdisEndPt fill] polygon_draw_succeeds[of s isdisEndPt fill]
  by (cases "dyn_class s")
     (auto simp: Shape_draw_def YRectangle_draw_def yLine_draw_def Let_def vec_at_def bind_result_Inl_iff split: if_splits)

end
