(* ===== verification/Canvas_Events.thy ===== *)
theory Canvas_Events
  imports Canvas_View Shape_Drawing
begin

text \<open>
  The event handlers of \<^verbatim>\<open>src/canvas/canvas2d.cpp\<close> and the painting of the canvas.
  A handler returns the state it leaves and the error that escapes from it, if any. The signals
  \<^verbatim>\<open>sigAddShape\<close> and \<^verbatim>\<open>sigAddPoint\<close> run the slots of
  \<^verbatim>\<open>CanvasView\<close> they are connected to; \<^verbatim>\<open>sigSetProperty\<close>, always the
  last statement of its branch, is logged in \<^verbatim>\<open>emitted\<close> for the window. The
  test whether a polygon contains a point is Qt's: it is the parameter \<^verbatim>\<open>cp\<close>.
\<close>

datatype mouse_button = LeftButton | RightButton | MiddleButton
datatype key = Key_Return | Key_Enter | Key_other nat

subsection \<open>Loops over the shapes\<close>

datatype loop_ctl = Next | Break

text \<open>\<^verbatim>\<open>for (ShapePtr shape : getShapeList())\<close>; the body may break, or throw after it changed the state.\<close>

fun for_each :: "(ShapePtr \<Rightarrow> 's \<Rightarrow> 's \<times> (error + loop_ctl)) \<Rightarrow> ShapePtr list \<Rightarrow> 's \<Rightarrow> 's outcome" where
  "for_each body [] c = (c, None)"
| "for_each body (r # rs) c =
     (case body r c of
        (c', Inl e) \<Rightarrow> (c', Some e)
      | (c', Inr Break) \<Rightarrow> (c', None)
      | (c', Inr Next) \<Rightarrow> for_each body rs c')"

text \<open>A step that throws before it writes, inside a body.\<close>

fun try_bind :: "'s \<Rightarrow> 'a result \<Rightarrow> ('a \<Rightarrow> 's \<times> (error + loop_ctl)) \<Rightarrow> 's \<times> (error + loop_ctl)" where
  "try_bind c (Inl e) f = (c, Inl e)"
| "try_bind c (Inr x) f = f x"

definition editable :: "Shape \<Rightarrow> bool" where
  "editable s \<longleftrightarrow> Shape_isClosed s \<and> lp_visible (Shape_label s)"

subsection \<open>Mouse press\<close>

definition press_current :: "(Shape \<Rightarrow> Shape) \<Rightarrow> canvas \<Rightarrow> (ShapePtr \<times> canvas) result" where
  "press_current f c =
     bind_result (currentShape c) (\<lambda>shape.
       case shape of None \<Rightarrow> Inl (Undefined ''null ShapePtr'')
       | Some r \<Rightarrow> bind_result (deref c r) (\<lambda>_. Inr (r, set_shape r f c)))"

definition press_add :: "QPointF \<Rightarrow> canvas \<Rightarrow> canvas result" where
  "press_add pixPos c =
     (case m_draw c of
        Polygon \<Rightarrow> CanvasView_addPoint pixPos c
      | None_mode \<Rightarrow> Inr c
      | mode \<Rightarrow>
          bind_result (CanvasView_addPoint pixPos c) (\<lambda>c1.
          bind_result (press_current (Shape_updateEndPt pixPos) c1) (\<lambda>(r, c2).
            if (mode = Rectangle \<or> mode = Line) \<and> YPolygonPoints_size (Shape_points (get_shape c2 r)) > 1
            then let c3 = set_shape r (Shape_setIsClosed True) c2 in Inr (c3\<lparr>emitted := emitted c3 @ [r]\<rparr>)
            else Inr c2)))"

definition press_draw :: "QPointF \<Rightarrow> canvas \<Rightarrow> canvas result" where
  "press_draw pixPos c =
     bind_result (currentShape c) (\<lambda>shape.
       if m_currentIndex c \<ge> 0 \<and> shape = None then Inr c
       else
         bind_result
           (if m_currentIndex c = -1 \<or> length (m_shapeList c) = 0 then Inr True
            else (case shape of None \<Rightarrow> Inl (Undefined ''null ShapePtr'')
                  | Some r \<Rightarrow> bind_result (deref c r) (\<lambda>s. Inr (Shape_isClosed s)))) (\<lambda>fresh.
         bind_result (if fresh then CanvasView_addShape c else Inr c) (press_add pixPos)))"

definition press_body ::
    "(QPointF list \<Rightarrow> QPointF \<Rightarrow> bool) \<Rightarrow> QPointF \<Rightarrow> ShapePtr \<Rightarrow> canvas \<Rightarrow> canvas \<times> (error + loop_ctl)" where
  "press_body cp pixPos r c =
     try_bind c (deref c r) (\<lambda>s.
       if \<not> editable s then (c, Inr Next)
       else
         try_bind c (if m_draw c = Polygon \<or> m_draw c = Polyline then Shape_isEdgeHavPt s pixPos (m_insertPoint c)
                     else Inr (False, m_insertPoint c)) (\<lambda>(onEdge, ip).
         let c1 = c\<lparr>m_insertPoint := ip\<rparr>
         in if onEdge
            then (set_shape r (\<lambda>s. Shape_setControlPtActive ip (Shape_setIsPress True s)) (c1\<lparr>m_mouseDrag := True\<rparr>), Inr Break)
            else try_bind c1 (Shape_isPtsHavPt s pixPos (m_activePoint c1)) (\<lambda>(onPt, ap).
              let c2 = c1\<lparr>m_activePoint := ap\<rparr>
              in if onPt
                 then (set_shape r (\<lambda>s. Shape_setIsSelect False (Shape_setIsPress True s)) (c2\<lparr>m_mouseDrag := True\<rparr>), Inr Break)
                 else try_bind c2 (Shape_isAreaHavPt cp s pixPos) (\<lambda>inArea.
                   if inArea
                   then (set_shape r (\<lambda>s. Shape_setIsSelect True (Shape_setIsDrag True s))
                          (c2\<lparr>item_cursor := ClosedHandCursor, m_lastPressPos := pixPos\<rparr>), Inr Break)
                   else (set_shape r (Shape_setIsSelect False) c2, Inr Next)))))"

definition press_edit :: "(QPointF list \<Rightarrow> QPointF \<Rightarrow> bool) \<Rightarrow> QPointF \<Rightarrow> canvas \<Rightarrow> canvas outcome" where
  "press_edit cp pixPos c =
     (if m_mouseDrag c then (c, None)
      else for_each (press_body cp pixPos) (m_shapeList c) (c\<lparr>m_activePoint := -1, m_insertPoint := -1\<rparr>))"

text \<open>
  \<^verbatim>\<open>getImage().isNull()\<close> never returns true: on a null image \<^verbatim>\<open>getImage\<close>
  throws, and this handler has no \<^verbatim>\<open>try\<close>.
\<close>

definition mousePressEvent ::
    "(QPointF list \<Rightarrow> QPointF \<Rightarrow> bool) \<Rightarrow> mouse_button \<Rightarrow> QPointF \<Rightarrow> canvas \<Rightarrow> canvas outcome" where
  "mousePressEvent cp button pos c =
     (case bind_result (getImage c) (\<lambda>_. bindImgEdge c pos) of
        Inl e \<Rightarrow> (c, Some e)
      | Inr pixPos \<Rightarrow>
          (case m_task c of
             detection \<Rightarrow> (c, None)
           | segmentation \<Rightarrow>
               if button = LeftButton
               then (case m_operat c of
                       draw \<Rightarrow> lift_result c (press_draw pixPos c)
                     | edit \<Rightarrow> press_edit cp pixPos c)
               else (c, None)))"

subsection \<open>Mouse release\<close>

definition release_body ::
    "(QPointF list \<Rightarrow> QPointF \<Rightarrow> bool) \<Rightarrow> QPointF \<Rightarrow> ShapePtr \<Rightarrow> canvas \<Rightarrow> canvas \<times> (error + loop_ctl)" where
  "release_body cp pixPos r c =
     try_bind c (deref c r) (\<lambda>s.
       if \<not> editable s then (c, Inr Next)
       else let c1 = set_shape r (\<lambda>s. Shape_setIsDrag False (if Shape_isPress s then Shape_setIsPress False (Shape_setControlPtActive (-1) s)
                                                          else Shape_setControlPtActive (-1) s)) c
            in try_bind c1 (Shape_isAreaHavPt cp (get_shape c1 r) pixPos) (\<lambda>inArea.
                 (c1\<lparr>item_cursor := (if \<not> inArea then ArrowCursor else OpenHandCursor)\<rparr>, Inr Next)))"

definition mouseReleaseEvent :: "(QPointF list \<Rightarrow> QPointF \<Rightarrow> bool) \<Rightarrow> QPointF \<Rightarrow> canvas \<Rightarrow> canvas outcome" where
  "mouseReleaseEvent cp pos c =
     catch_std
       (case bind_result (getImage c) (\<lambda>_. bindImgEdge c pos) of
          Inl e \<Rightarrow> (c, Some e)
        | Inr pixPos \<Rightarrow>
            if m_task c = segmentation \<and> m_operat c = edit
            then let c1 = (if m_mouseDrag c then c\<lparr>m_mouseDrag := False, m_activePoint := -1\<rparr> else c)
                 in for_each (release_body cp pixPos) (m_shapeList c1) c1
            else (c, None))"

subsection \<open>Double click\<close>

text \<open>
  The part of the handler inside its \<^verbatim>\<open>try\<close>; the flag is false if it returned early.
\<close>

definition dblclick_close :: "canvas \<Rightarrow> (bool \<times> canvas) result" where
  "dblclick_close c =
     (if m_task c = segmentation \<and> m_operat c = draw
      then bind_result (currentShape c) (\<lambda>shape.
        case shape of None \<Rightarrow> Inr (False, c)
        | Some r \<Rightarrow>
            bind_result (deref c r) (\<lambda>s.
              if Shape_pointCount s > 2
              then bind_result (Shape_deletePoint (Shape_pointCount s - 1) s) (\<lambda>s1.
                   let c1 = set_shape r (\<lambda>_. Shape_setIsClosed True s1) c
                   in Inr (True, c1\<lparr>emitted := emitted c1 @ [r]\<rparr>))
              else Inr (True, c)))
      else Inr (True, c))"

text \<open>
  \<^verbatim>\<open>QGraphicsItem::mouseDoubleClickEvent\<close>, which the handler ends with, calls the
  virtual \<^verbatim>\<open>mousePressEvent\<close>.
\<close>

definition mouseDoubleClickEvent ::
    "(QPointF list \<Rightarrow> QPointF \<Rightarrow> bool) \<Rightarrow> mouse_button \<Rightarrow> QPointF \<Rightarrow> canvas \<Rightarrow> canvas outcome" where
  "mouseDoubleClickEvent cp button pos c =
     (case dblclick_close c of
        Inl e \<Rightarrow> and_then (catch_std (c, Some e)) (mousePressEvent cp button pos)
      | Inr (False, c1) \<Rightarrow> (c1, None)
      | Inr (True, c1) \<Rightarrow> mousePressEvent cp button pos c1)"

subsection \<open>Hover\<close>

definition hover_body ::
    "(QPointF list \<Rightarrow> QPointF \<Rightarrow> bool) \<Rightarrow> QPointF \<Rightarrow> ShapePtr \<Rightarrow> canvas \<Rightarrow> canvas \<times> (error + loop_ctl)" where
  "hover_body cp pixPos r c =
     try_bind c (deref c r) (\<lambda>s.
       if \<not> editable s then (c, Inr Next)
       else
         try_bind c (Shape_isPtsHavPt s pixPos 0) (\<lambda>(onPt, pos).
         let c1 = set_shape r (Shape_setControlPtActive (if onPt then pos else -1)) c;
             s1 = get_shape c1 r
         in if Shape_isPress s1 then (c1\<lparr>item_cursor := OpenHandCursor\<rparr>, Inr Next)
            else
              try_bind c1 (bind_result (Shape_isPtsHavPt s1 pixPos (m_activePoint c1)) (\<lambda>(b, _).
                           if b then Inr True
                           else bind_result (Shape_isEdgeHavPt s1 pixPos (m_insertPoint c1)) (\<lambda>(b, _). Inr b))) (\<lambda>hit.
              if hit then (c1\<lparr>item_cursor := PointingHandCursor\<rparr>, Inr Next)
              else try_bind c1 (Shape_isAreaHavPt cp s1 pixPos) (\<lambda>inArea.
                if inArea then ((set_shape r (Shape_setIsActive True) c1)\<lparr>item_cursor := OpenHandCursor\<rparr>, Inr Next)
                else ((set_shape r (Shape_setIsActive False) c1)\<lparr>item_cursor := ArrowCursor\<rparr>, Inr Next)))))"

definition hover_draw :: "QPointF \<Rightarrow> canvas \<Rightarrow> canvas outcome" where
  "hover_draw pixPos c =
     lift_result c (bind_result (currentShape c) (\<lambda>shape.
       case shape of None \<Rightarrow> Inr c
       | Some r \<Rightarrow> bind_result (deref c r) (\<lambda>s.
           if m_currentIndex c = -1 \<or> length (m_shapeList c) = 0 \<or> Shape_isClosed s then Inr c
           else Inr (set_shape r (Shape_updateEndPt pixPos) c))))"

definition hoverMoveEvent :: "(QPointF list \<Rightarrow> QPointF \<Rightarrow> bool) \<Rightarrow> QPointF \<Rightarrow> canvas \<Rightarrow> canvas outcome" where
  "hoverMoveEvent cp pos c =
     catch_std
       (case bindImgEdge c pos of
          Inl e \<Rightarrow> (c, Some e)
        | Inr pixPos \<Rightarrow>
            let c1 = c\<lparr>m_crossPos := pixPos\<rparr>
            in case m_task c1 of
                 detection \<Rightarrow> (c1, None)
               | segmentation \<Rightarrow>
                   (case m_operat c1 of
                      draw \<Rightarrow> hover_draw pixPos c1
                    | edit \<Rightarrow> for_each (hover_body cp pixPos) (m_shapeList c1) c1))"

subsection \<open>Mouse move\<close>

text \<open>What a press or a drag makes of the move, for one shape.\<close>

definition move_act :: "QPointF \<Rightarrow> ShapePtr \<Rightarrow> canvas \<Rightarrow> canvas \<times> (error + loop_ctl)" where
  "move_act pixPos r c =
     (let s = get_shape c r
      in if m_insertPoint c \<ge> 0 \<and> Shape_isPress s
         then try_bind c (Shape_insertPoint pixPos (m_insertPoint c) s) (\<lambda>(_, s1).
              ((set_shape r (\<lambda>_. s1) c)\<lparr>m_activePoint := m_insertPoint c, m_insertPoint := -1\<rparr>, Inr Break))
         else if m_mouseDrag c \<and> Shape_isPress s
         then try_bind c (Shape_updatePoint pixPos (m_activePoint c) s) (\<lambda>(_, s1).
              (set_shape r (\<lambda>_. s1) c, Inr Break))
         else if Shape_isDrag s
         then let c1 = c\<lparr>item_cursor := ClosedHandCursor\<rparr>
              in try_bind c1 (isCloseToEdge c1 r (pixPos - m_lastPressPos c1)) (\<lambda>(_, movePos).
                 try_bind c1 (Shape_move movePos s) (\<lambda>(_, s1).
                 ((set_shape r (\<lambda>_. s1) c1)\<lparr>m_lastPressPos := pixPos\<rparr>, Inr Break)))
         else (c, Inr Next))"

definition move_body ::
    "(QPointF list \<Rightarrow> QPointF \<Rightarrow> bool) \<Rightarrow> QPointF \<Rightarrow> ShapePtr \<Rightarrow> canvas \<Rightarrow> canvas \<times> (error + loop_ctl)" where
  "move_body cp pixPos r c =
     try_bind c (deref c r) (\<lambda>s.
       if \<not> editable s then (c, Inr Next)
       else try_bind c (Shape_isAreaHavPt cp s pixPos) (\<lambda>inArea.
              move_act pixPos r (if \<not> inArea then set_shape r (Shape_setIsActive False) c else c)))"

definition mouseMoveEvent :: "(QPointF list \<Rightarrow> QPointF \<Rightarrow> bool) \<Rightarrow> QPointF \<Rightarrow> canvas \<Rightarrow> canvas outcome" where
  "mouseMoveEvent cp pos c =
     catch_std
       (case bindImgEdge c pos of
          Inl e \<Rightarrow> (c, Some e)
        | Inr pixPos \<Rightarrow>
            if m_task c = segmentation \<and> m_operat c = edit
            then for_each (move_body cp pixPos) (m_shapeList c) c
            else (c, None))"

subsection \<open>Keys\<close>

definition keyPressEvent :: "key \<Rightarrow> canvas \<Rightarrow> canvas outcome" where
  "keyPressEvent k c =
     catch_std (lift_result c
       (if m_task c = segmentation \<and> m_operat c = draw \<and> (k = Key_Return \<or> k = Key_Enter)
        then bind_result (currentShape c) (\<lambda>shape.
          case shape of None \<Rightarrow> Inr c
          | Some r \<Rightarrow> bind_result (deref c r) (\<lambda>s.
              if Shape_pointCount s > 2
              then let c1 = set_shape r (Shape_setIsClosed True) c in Inr (c1\<lparr>emitted := emitted c1 @ [r]\<rparr>)
              else Inr c))
        else Inr c))"

subsection \<open>Painting\<close>

text \<open>The painter's state is saved before the image size is asked for.\<close>

definition drawCross :: "canvas \<Rightarrow> paint_cmd list outcome" where
  "drawCross c =
     (case bind_result (imgWidth c) (\<lambda>w. bind_result (imgHeight c) (\<lambda>h.
           bind_result (bindImgEdge c (QPointF (of_int (c_div (- w) 2)) (py (m_crossPos c)))) (\<lambda>p1.
           bind_result (bindImgEdge c (QPointF (of_int (c_div w 2)) (py (m_crossPos c)))) (\<lambda>p2.
           bind_result (bindImgEdge c (QPointF (px (m_crossPos c)) (of_int (c_div (- h) 2)))) (\<lambda>p3.
           bind_result (bindImgEdge c (QPointF (px (m_crossPos c)) (of_int (c_div h 2)))) (\<lambda>p4.
           Inr [DrawLine p1 p2, DrawLine p3 p4])))))) of
        Inl e \<Rightarrow> ([Save], Some e)
      | Inr ls \<Rightarrow> ([Save] @ ls @ [Restore], None))"

fun draw_all :: "(Shape \<Rightarrow> bool) \<Rightarrow> Shape list \<Rightarrow> paint_cmd list outcome" where
  "draw_all disEnd [] = ([], None)"
| "draw_all disEnd (s # ss) =
     (case Shape_draw s (disEnd s) True of
        Inl e \<Rightarrow> ([], Some e)
      | Inr cmds \<Rightarrow> (case draw_all disEnd ss of (rest, e) \<Rightarrow> (cmds @ rest, e)))"

definition drawShape :: "canvas \<Rightarrow> paint_cmd list outcome" where
  "drawShape c =
     catch_std
       (case m_task c of
          detection \<Rightarrow> ([], None)
        | segmentation \<Rightarrow>
            (case m_operat c of
               draw \<Rightarrow>
                 and_then (draw_all (\<lambda>s. \<not> Shape_isClosed s) (shapes c)) (\<lambda>cmds.
                   if m_draw c = Rectangle
                   then (case drawCross c of (ls, e) \<Rightarrow> (cmds @ ls, e))
                   else (cmds, None))
             | edit \<Rightarrow> draw_all (\<lambda>_. False) (shapes c)))"

definition paint :: "canvas \<Rightarrow> paint_cmd list outcome" where
  "paint c =
     (case m_disImg c of
        None \<Rightarrow> ([FillRect (boundingRect c) color_white], None)
      | Some i \<Rightarrow> (case drawShape c of (cmds, e) \<Rightarrow> (DrawImage (rect_topLeft (imgRectF c)) i # cmds, e)))"

end
