(* ===== verification/Event_Safety.thy ===== *)
theory Event_Safety
  imports Canvas_Events
begin

text \<open>
  Safety of the event handlers: on a canvas that shows an image and satisfies the document
  invariant, no handler reads outside a list or lets an exception escape, and every handler
  keeps the invariant. The step relation of a session collects the events and the actions of
  the tool bar; its reachable states inherit the safety by rule induction.
\<close>

subsection \<open>States with an image\<close>

definition live :: "canvas \<Rightarrow> bool" where
  "live c \<longleftrightarrow> doc_inv c \<and> traced c \<and> typed c \<and> m_image c \<noteq> None \<and> m_draw c \<noteq> None_mode \<and> stack_wf (m_undoStack c)"

lemma doc_inv_fields [simp]:
  "doc_inv (c\<lparr>m_insertPoint := i\<rparr>) = doc_inv c" "doc_inv (c\<lparr>m_activePoint := i\<rparr>) = doc_inv c"
  "doc_inv (c\<lparr>m_mouseDrag := b\<rparr>) = doc_inv c" "doc_inv (c\<lparr>item_cursor := cu\<rparr>) = doc_inv c"
  "doc_inv (c\<lparr>m_lastPressPos := p\<rparr>) = doc_inv c" "doc_inv (c\<lparr>m_crossPos := p\<rparr>) = doc_inv c"
  "doc_inv (c\<lparr>emitted := em\<rparr>) = doc_inv c" "doc_inv (c\<lparr>m_task := t\<rparr>) = doc_inv c"
  "doc_inv (c\<lparr>m_operat := op\<rparr>) = doc_inv c" "doc_inv (c\<lparr>m_draw := dm\<rparr>) = doc_inv c"
  "doc_inv (c\<lparr>m_image := im\<rparr>) = doc_inv c" "doc_inv (c\<lparr>m_disImg := im\<rparr>) = doc_inv c"
  "doc_inv (c\<lparr>m_scaleValue := v\<rparr>) = doc_inv c" "doc_inv (c\<lparr>item_scale := v\<rparr>) = doc_inv c"
  "doc_inv (c\<lparr>item_pos := p\<rparr>) = doc_inv c" "doc_inv (c\<lparr>m_contrast := i\<rparr>) = doc_inv c"
  "doc_inv (c\<lparr>m_brightness := i\<rparr>) = doc_inv c"
  by (simp_all add: doc_inv_def canvas_inv_def refs_valid_def shapes_def get_shape_def[abs_def])

lemma tracing_cong:
  assumes "heap c' = heap c" "m_shapeList c' = m_shapeList c" "m_undoStack c' = m_undoStack c"
  shows "traced c' = traced c" "typed c' = typed c"
proof -
  have g: "get_shape c' = get_shape c" using assms(1) by (simp add: get_shape_def[abs_def])
  then have t: "type_at c' = type_at c" by (simp add: type_at_def[abs_def])
  have "command_effect c' = command_effect c"
    using assms(1) g t
    by (intro ext, rename_tac cmd L L', case_tac cmd) (simp_all add: place_name_def fits_def)
  then have "canvas_stack.chain c' cs v w = canvas_stack.chain c cs v w" for cs v w
    by (induction cs arbitrary: v) simp_all
  then show "traced c' = traced c" using assms(2,3) by (simp add: traced_def canvas_stack.consistent_def)
  show "typed c' = typed c" using assms(1) by (simp add: typed_def)
qed

lemma tracing_fields [simp]:
  "traced (c\<lparr>m_insertPoint := x0\<rparr>) = traced c" "traced (c\<lparr>m_activePoint := x1\<rparr>) = traced c"
  "traced (c\<lparr>m_mouseDrag := x2\<rparr>) = traced c" "traced (c\<lparr>item_cursor := x3\<rparr>) = traced c"
  "traced (c\<lparr>m_lastPressPos := x4\<rparr>) = traced c" "traced (c\<lparr>m_crossPos := x5\<rparr>) = traced c"
  "traced (c\<lparr>emitted := x6\<rparr>) = traced c" "traced (c\<lparr>m_task := x7\<rparr>) = traced c"
  "traced (c\<lparr>m_operat := x8\<rparr>) = traced c" "traced (c\<lparr>m_draw := x9\<rparr>) = traced c"
  "traced (c\<lparr>m_image := x10\<rparr>) = traced c" "traced (c\<lparr>m_disImg := x11\<rparr>) = traced c"
  "traced (c\<lparr>m_scaleValue := x12\<rparr>) = traced c" "traced (c\<lparr>item_scale := x13\<rparr>) = traced c"
  "traced (c\<lparr>item_pos := x14\<rparr>) = traced c" "traced (c\<lparr>m_contrast := x15\<rparr>) = traced c"
  "traced (c\<lparr>m_brightness := x16\<rparr>) = traced c"
  "typed (c\<lparr>m_insertPoint := x0\<rparr>) = typed c" "typed (c\<lparr>m_activePoint := x1\<rparr>) = typed c"
  "typed (c\<lparr>m_mouseDrag := x2\<rparr>) = typed c" "typed (c\<lparr>item_cursor := x3\<rparr>) = typed c"
  "typed (c\<lparr>m_lastPressPos := x4\<rparr>) = typed c" "typed (c\<lparr>m_crossPos := x5\<rparr>) = typed c"
  "typed (c\<lparr>emitted := x6\<rparr>) = typed c" "typed (c\<lparr>m_task := x7\<rparr>) = typed c"
  "typed (c\<lparr>m_operat := x8\<rparr>) = typed c" "typed (c\<lparr>m_draw := x9\<rparr>) = typed c"
  "typed (c\<lparr>m_image := x10\<rparr>) = typed c" "typed (c\<lparr>m_disImg := x11\<rparr>) = typed c"
  "typed (c\<lparr>m_scaleValue := x12\<rparr>) = typed c" "typed (c\<lparr>item_scale := x13\<rparr>) = typed c"
  "typed (c\<lparr>item_pos := x14\<rparr>) = typed c" "typed (c\<lparr>m_contrast := x15\<rparr>) = typed c"
  "typed (c\<lparr>m_brightness := x16\<rparr>) = typed c"
  by (rule tracing_cong; simp)+

lemma live_fields [simp]:
  "live (c\<lparr>m_insertPoint := i\<rparr>) = live c" "live (c\<lparr>m_activePoint := i\<rparr>) = live c"
  "live (c\<lparr>m_mouseDrag := b\<rparr>) = live c" "live (c\<lparr>item_cursor := cu\<rparr>) = live c"
  "live (c\<lparr>m_lastPressPos := p\<rparr>) = live c" "live (c\<lparr>m_crossPos := p\<rparr>) = live c"
  "live (c\<lparr>emitted := em\<rparr>) = live c" "live (c\<lparr>m_task := t\<rparr>) = live c"
  "live (c\<lparr>m_operat := op\<rparr>) = live c" "live (c\<lparr>m_disImg := im\<rparr>) = live c"
  "live (c\<lparr>m_scaleValue := v\<rparr>) = live c" "live (c\<lparr>item_scale := v\<rparr>) = live c"
  "live (c\<lparr>item_pos := p\<rparr>) = live c" "live (c\<lparr>m_contrast := i\<rparr>) = live c"
  "live (c\<lparr>m_brightness := i\<rparr>) = live c"
  by (simp_all add: live_def)

lemma set_shape_const: "set_shape r f c = set_shape r (\<lambda>_. f (get_shape c r)) c"
  by (simp add: set_shape_def get_shape_def)

text \<open>An update of a shape that keeps its name, its type and the agreement of its two vertex views.\<close>

definition benign :: "Shape \<Rightarrow> Shape \<Rightarrow> bool" where
  "benign s s' \<longleftrightarrow> m_name s' = m_name s \<and> m_type s' = m_type s \<and> dyn_class s' = dyn_class s \<and> (shape_wf s \<longrightarrow> shape_wf s')"

lemma live_set_shape:
  assumes "live c" "r < length (heap c)" "benign (get_shape c r) (f (get_shape c r))"
  shows "live (set_shape r f c)"
proof -
  let ?s = "f (get_shape c r)" and ?c = "set_shape r (\<lambda>_. f (get_shape c r)) c"
  have e: "extends c ?c" using assms(3) by (intro extends_set_shape) (simp_all add: benign_def)
  have "doc_inv ?c"
    using assms doc_inv_set_shape[of c r ?s] doc_inv_heap[of c r] by (simp add: live_def benign_def)
  moreover have "traced ?c" "typed ?c"
    using assms(1) traced_frame[OF _ _ e] typed_extends[OF _ e] by (simp_all add: live_def)
  ultimately show ?thesis using assms(1) unfolding set_shape_const[of r f c] by (simp add: live_def)
qed

lemma benign_flags [simp]:
  "benign s (s\<lparr>m_isPress := b\<rparr>)" "benign s (s\<lparr>m_isSelect := b\<rparr>)" "benign s (s\<lparr>m_isDrag := b\<rparr>)"
  "benign s (s\<lparr>m_isActive := b\<rparr>)" "benign s (s\<lparr>m_controlPtActive := i\<rparr>)" "benign s (s\<lparr>m_isClosed := b\<rparr>)"
  "benign s (s\<lparr>m_disPoit := p\<rparr>)" "benign s (s\<lparr>m_isPress := b, m_isSelect := d\<rparr>)"
  "benign s (s\<lparr>m_isPress := b, m_controlPtActive := i\<rparr>)" "benign s (s\<lparr>m_isDrag := b, m_isSelect := d\<rparr>)"
  "benign s (s\<lparr>m_controlPtActive := i, m_isDrag := b\<rparr>)"
  "benign s (s\<lparr>m_controlPtActive := i, m_isPress := d, m_isDrag := b\<rparr>)"
  "benign s (s\<lparr>m_label := l, m_color := cl\<rparr>)" "benign s s"
  by (simp_all add: benign_def shape_wf_def)

lemma benign_edits:
  "Shape_insertPoint p i s = Inr (b, s') \<Longrightarrow> benign s s'"
  "Shape_updatePoint p i s = Inr (b, s') \<Longrightarrow> benign s s'"
  "Shape_move p s = Inr (b, s') \<Longrightarrow> benign s s'"
  "Shape_deletePoint i s = Inr s' \<Longrightarrow> benign s s'"
proof -
  show "benign s s'" if "Shape_insertPoint p i s = Inr (b, s')"
    using that insertPoint_wf[OF _ that]
    by (auto simp: benign_def Shape_insertPoint_def Shape_insertPoint_base_def YRectangle_insertPoint_def
        yLine_insertPoint_def yCurve_insertPoint_def split: shape_class.splits if_splits)
  show "benign s s'" if "Shape_updatePoint p i s = Inr (b, s')"
    using that
    by (auto simp: benign_def Shape_updatePoint_def shape_wf_def views_agree_def map_update
        replace_in_range[unfolded views_agree_def] split: if_splits)
  show "benign s s'" if "Shape_move p s = Inr (b, s')"
    using that by (auto simp: benign_def Shape_move_def shape_wf_def move_loop_result views_agree_def algebra_simps)
  show "benign s s'" if "Shape_deletePoint i s = Inr s'"
    using that deletePoint_wf deletePoint_keeps by (auto simp: benign_def)
qed

subsection \<open>Loop bodies\<close>

text \<open>A step that leaves a live canvas with the same list of shapes, and fails only with an error of a given kind.\<close>

definition keeps :: "(error \<Rightarrow> bool) \<Rightarrow> ShapePtr list \<Rightarrow> canvas \<times> (error + loop_ctl) \<Rightarrow> bool" where
  "keeps E L res \<longleftrightarrow> live (fst res) \<and> m_shapeList (fst res) = L \<and> (\<forall>e. snd res = Inl e \<longrightarrow> E e)"

lemma keeps_Inr [simp]: "keeps E L (c, Inr k) \<longleftrightarrow> live c \<and> m_shapeList c = L"
  by (simp add: keeps_def)

lemma keeps_try:
  "live c \<Longrightarrow> m_shapeList c = L \<Longrightarrow> (\<And>e. r = Inl e \<Longrightarrow> E e) \<Longrightarrow> (\<And>x. r = Inr x \<Longrightarrow> keeps E L (f x)) \<Longrightarrow>
   keeps E L (try_bind c r f)"
  by (cases r) (auto simp: keeps_def)

lemma keeps_deref:
  "live c \<Longrightarrow> r \<in> set (m_shapeList c) \<Longrightarrow> m_shapeList c = L \<Longrightarrow> keeps E L (f (get_shape c r)) \<Longrightarrow>
   keeps E L (try_bind c (deref c r) f)"
  using doc_inv_refs[of c r] by (simp add: live_def deref_def)

lemma for_each_keeps:
  assumes "\<And>r c. live c \<Longrightarrow> m_shapeList c = L \<Longrightarrow> r \<in> set L \<Longrightarrow> keeps E L (body r c)"
    and "live c" "m_shapeList c = L" "set rs \<subseteq> set L"
  shows "live (fst (for_each body rs c)) \<and> m_shapeList (fst (for_each body rs c)) = L \<and>
     (\<forall>e. snd (for_each body rs c) = Some e \<longrightarrow> E e)"
  using assms(2-4)
proof (induction rs arbitrary: c)
  case (Cons r rs)
  have "keeps E L (body r c)" using assms(1) Cons.prems by simp
  with Cons.IH Cons.prems show ?case
    by (auto simp: keeps_def split: prod.split sum.split loop_ctl.split)
qed simp

lemma for_each_live:
  assumes "\<And>r d. live d \<Longrightarrow> r \<in> set (m_shapeList d) \<Longrightarrow> keeps E (m_shapeList d) (body r d)" and "live c"
  shows "live (fst (for_each body (m_shapeList c) c)) \<and> (\<forall>e. snd (for_each body (m_shapeList c) c) = Some e \<longrightarrow> E e)"
proof -
  have "keeps E (m_shapeList c) (body r d)" if "live d" "m_shapeList d = m_shapeList c" "r \<in> set (m_shapeList c)" for r d
    using assms(1)[of d r] that by simp
  from for_each_keeps[where body = body and L = "m_shapeList c" and E = E, OF this assms(2) refl subset_refl]
  show ?thesis by blast
qed

lemma live_heap: "live c \<Longrightarrow> r \<in> set (m_shapeList c) \<Longrightarrow> r < length (heap c)"
  using doc_inv_refs by (auto simp: live_def)

lemma live_img: "live c \<Longrightarrow> \<exists>i. m_image c = Some i"
  by (auto simp: live_def)

lemma hit_tests_total:
  "Shape_isEdgeHavPt s pt pos \<noteq> Inl e" "Shape_isPtsHavPt s pt pos \<noteq> Inl e" "Shape_isAreaHavPt cp s pt \<noteq> Inl e"
  using isEdgeHavPt_total[of s pt pos] isPtsHavPt_total[of s pt pos] isAreaHavPt_total[of cp s pt] by auto

lemmas body_rules = keeps_deref keeps_try live_set_shape live_heap

lemma press_body_keeps:
  assumes "live c" "r \<in> set (m_shapeList c)"
  shows "keeps (\<lambda>_. False) (m_shapeList c) (press_body cp p r c)"
proof -
  have h: "r < length (heap c)" by (rule live_heap[OF assms])
  show ?thesis
    unfolding press_body_def
    by (rule keeps_deref[OF assms refl])
       (auto simp: Let_def assms h hit_tests_total get_shape_def intro!: keeps_try live_set_shape split: if_splits)
qed

lemma release_body_keeps:
  assumes "live c" "r \<in> set (m_shapeList c)"
  shows "keeps (\<lambda>_. False) (m_shapeList c) (release_body cp p r c)"
proof -
  have h: "r < length (heap c)" by (rule live_heap[OF assms])
  show ?thesis
    unfolding release_body_def
    by (rule keeps_deref[OF assms refl])
       (auto simp: Let_def assms h hit_tests_total intro!: keeps_try live_set_shape)
qed

lemma hover_body_keeps:
  assumes "live c" "r \<in> set (m_shapeList c)"
  shows "keeps (\<lambda>_. False) (m_shapeList c) (hover_body cp p r c)"
proof -
  have h: "r < length (heap c)" by (rule live_heap[OF assms])
  show ?thesis
    unfolding hover_body_def
    by (rule keeps_deref[OF assms refl])
       (auto simp: Let_def assms h hit_tests_total bind_result_Inl_iff intro!: keeps_try live_set_shape split: if_splits)
qed

lemma updatePoint_error: "shape_wf s \<Longrightarrow> Shape_updatePoint p i s = Inl e \<Longrightarrow> is_std_exception e"
  using updatePoint_in_range[of s i p] by (auto simp: Shape_updatePoint_def split: if_splits)

lemma edits_total:
  "shape_wf s \<Longrightarrow> Shape_insertPoint p i s \<noteq> Inl e" "shape_wf s \<Longrightarrow> Shape_move p s \<noteq> Inl e"
  using insertPoint_total[of s p i] Shape_move_result[of s p] by auto

lemma isCloseToEdge_total: "live c \<Longrightarrow> isCloseToEdge c r d \<noteq> Inl e"
  using isCloseToEdge_find[of c _ _ r d, OF _ refl] by (auto simp: live_def)

lemma move_act_keeps:
  assumes "live c" "r < length (heap c)"
  shows "keeps is_std_exception (m_shapeList c) (move_act p r c)"
proof -
  have wf: "shape_wf (get_shape c r)" using assms doc_inv_heap[of c r] by (simp add: live_def)
  have cu: "get_shape (c\<lparr>item_cursor := cu\<rparr>) r = get_shape c r" for cu by (simp add: get_shape_def)
  show ?thesis
    unfolding move_act_def Let_def
    by (auto simp: assms edits_total[OF wf] isCloseToEdge_total cu
        intro!: keeps_try live_set_shape dest: updatePoint_error[OF wf] intro: benign_edits(1,2))
       (blast intro: benign_edits(3))+
qed

lemma move_body_keeps:
  assumes "live c" "r \<in> set (m_shapeList c)"
  shows "keeps is_std_exception (m_shapeList c) (move_body cp p r c)"
proof -
  have h: "r < length (heap c)" by (rule live_heap[OF assms])
  let ?d = "set_shape r (Shape_setIsActive False) c"
  have "live ?d" using assms(1) h by (simp add: live_set_shape)
  from move_act_keeps[OF this, of r p] h
  have d: "keeps is_std_exception (m_shapeList c) (move_act p r ?d)" by simp
  show ?thesis
    unfolding move_body_def
    by (rule keeps_deref[OF assms refl])
       (auto simp: assms hit_tests_total d move_act_keeps[OF assms(1) h] intro!: keeps_try)
qed

subsection \<open>Handlers\<close>

lemma bindImgEdge_live: "live c \<Longrightarrow> \<exists>q. bindImgEdge c p = Inr q"
  by (auto simp: live_def bindImgEdge_eq)

lemma live_current:
  "live c \<Longrightarrow> currentShape c = Inr (if m_shapeList c = [] then None else Some (last (m_shapeList c)))"
  by (simp add: live_def current_is_last)

lemma live_tracked: "live c \<Longrightarrow> tracked c c"
  by (auto simp: live_def tracked_def restores_def intro!: exI[of _ "[]"])

lemma live_run_op: "live c \<Longrightarrow> \<exists>c'. run_op x c = Inr c' \<and> live c'"
proof -
  assume l: "live c"
  then obtain i where i: "m_image c = Some i" "m_draw c \<noteq> None_mode" by (auto simp: live_def)
  have "\<exists>c'. run_op x c = Inr c' \<and> tracked c c'"
    using tracked_addShape[OF live_tracked[OF l] i] tracked_addPoint[OF live_tracked[OF l]]
      tracked_removeShape[OF live_tracked[OF l]] by (cases x) auto
  with i l run_op_frame show ?thesis by (fastforce simp: live_def tracked_def)
qed

lemma addShape_view:
  assumes "live c" "m_image c = Some i" "ShapeFactory_create (m_draw c) = Some s"
  shows "\<exists>nm c'. CanvasView_addShape c = Inr c' \<and> live c' \<and> m_shapeList c' = m_shapeList c @ [length (heap c)] \<and>
     shapes c' = shapes c @ [(Shape_setimgWH (img_size i) s)\<lparr>m_name := nm\<rparr>] \<and>
     m_image c' = m_image c \<and> m_draw c' = m_draw c \<and> m_task c' = m_task c \<and> m_operat c' = m_operat c \<and>
     m_penLineWidth c' = m_penLineWidth c \<and> m_disImg c' = m_disImg c \<and> emitted c' = emitted c"
proof -
  let ?r = "length (heap c)" and ?s = "Shape_setimgWH (img_size i) s"
  let ?c = "c\<lparr>heap := heap c @ [?s]\<rparr>"
  have inv: "doc_inv c" using assms(1) by (simp add: live_def)
  have re: "restores c ?c" by (rule restores_alloc[OF inv create_wf[OF assms(3)]])
  have r: "?r < length (heap ?c)" "?r \<notin> set (m_shapeList ?c)" using doc_inv_refs[OF inv] by auto
  obtain nm c1 where add: "CanvasBase_addShape ?r ?c = Inr (nm, c1)" using r by (auto simp: addShape_result Let_def)
  let ?st = "\<lparr>stack_cmds = take (stack_index (m_undoStack c)) (stack_cmds (m_undoStack c)) @ [AddShapeCommand ?r nm (ShapeText nm)],
              stack_index = stack_index (m_undoStack c) + 1\<rparr>"
  have v: "CanvasView_addShape c = Inr (c1\<lparr>m_undoStack := ?st\<rparr>)"
    using assms(2,3) add
    by (simp add: CanvasView_addShape_def canvas_push_def QUndoStack_push_def AddShapeCommand_new_def
        AddShapeCommand_redo_def Let_def)
  note s = shapes_addShape[OF r add]
  have f: "m_draw c1 = m_draw c" "m_task c1 = m_task c" "m_operat c1 = m_operat c"
      "m_penLineWidth c1 = m_penLineWidth c" "m_disImg c1 = m_disImg c" "emitted c1 = emitted c"
    using add r by (auto simp: addShape_result Let_def set_shape_def)
  have g: "get_shape ?c ?r = ?s" by (simp add: get_shape_def)
  have sh: "shapes (c1\<lparr>m_undoStack := ?st\<rparr>) = shapes c1" by (simp add: shapes_def get_shape_def[abs_def])
  have "live (c1\<lparr>m_undoStack := ?st\<rparr>)" using live_run_op[OF assms(1), of OpAddShape] v by simp
  with v s f g re sh show ?thesis by (intro exI[of _ nm] exI[of _ "c1\<lparr>m_undoStack := ?st\<rparr>"]) (simp add: restores_def)
qed

lemma shapes_set_last:
  assumes "live c" "m_shapeList c \<noteq> []"
  shows "shapes (set_shape (last (m_shapeList c)) f c) = butlast (shapes c) @ [f (last (shapes c))]"
proof -
  obtain L r where l: "m_shapeList c = L @ [r]" using assms(2) by (metis append_butlast_last_id)
  have h: "r < length (heap c)" using live_heap[OF assms(1)] l by simp
  have "r \<notin> set L" using assms(1) l by (simp add: live_def doc_inv_def canvas_inv_def refs_valid_def)
  then show ?thesis using h by (auto simp: shapes_def get_set_shape l)
qed

lemma addPoint_view:
  assumes "live c" "m_shapeList c \<noteq> []"
  shows "\<exists>c'. CanvasView_addPoint p c = Inr c' \<and> live c' \<and> m_shapeList c' = m_shapeList c \<and>
     shapes c' = butlast (shapes c) @ [Shape_appendPoint p (last (shapes c))] \<and>
     m_image c' = m_image c \<and> m_draw c' = m_draw c \<and> m_task c' = m_task c \<and> m_operat c' = m_operat c \<and>
     m_penLineWidth c' = m_penLineWidth c \<and> m_disImg c' = m_disImg c \<and> emitted c' = emitted c"
proof -
  let ?r = "last (m_shapeList c)"
  have h: "?r < length (heap c)" using live_heap[OF assms(1)] assms(2) by simp
  obtain c' where v: "CanvasView_addPoint p c = Inr c'" "live c'" using live_run_op[OF assms(1), of "OpAddPoint p"] by auto
  from v(1) h live_current[OF assms(1)] assms(2) obtain st where
    c': "c' = (set_shape ?r (\<lambda>_. Shape_appendPoint p (get_shape c ?r)) c)\<lparr>m_undoStack := st\<rparr>"
    by (auto simp: CanvasView_addPoint_def canvas_push_def QUndoStack_push_def AddPointCommand_new_def
        AddPointCommand_redo_def CanvasBase_addPoint_def deref_def Let_def)
  have "shapes c' = butlast (shapes c) @ [Shape_appendPoint p (last (shapes c))]"
    using shapes_set_last[OF assms, of "\<lambda>_. Shape_appendPoint p (get_shape c ?r)"] assms(2)
    by (simp add: c' shapes_def last_map get_shape_def[abs_def])
  with v c' show ?thesis by (auto simp: set_shape_def)
qed

lemma press_current_live:
  assumes "live c" "m_shapeList c \<noteq> []" "\<And>s. benign s (f s)"
  shows "press_current f c = Inr (last (m_shapeList c), set_shape (last (m_shapeList c)) f c) \<and>
     live (set_shape (last (m_shapeList c)) f c)"
  using assms live_current[OF assms(1)] live_heap[OF assms(1), of "last (m_shapeList c)"]
  by (auto simp: press_current_def deref_def intro!: live_set_shape)

lemma press_add_live:
  assumes "live c" "m_shapeList c \<noteq> []"
  shows "\<exists>c'. press_add p c = Inr c' \<and> live c'"
proof -
  obtain c1 where c1: "CanvasView_addPoint p c = Inr c1" "live c1" "m_shapeList c1 \<noteq> []"
    using addPoint_view[OF assms, of p] assms(2) by auto
  let ?r = "last (m_shapeList c1)" and ?c2 = "set_shape (last (m_shapeList c1)) (Shape_updateEndPt p) c1"
  have pc: "press_current (Shape_updateEndPt p) c1 = Inr (?r, ?c2)" "live ?c2"
    using press_current_live[OF c1(2,3), of "Shape_updateEndPt p"] by auto
  have "?r < length (heap ?c2)" using live_heap[OF pc(2)] c1(3) by simp
  then have "live (set_shape ?r (Shape_setIsClosed True) ?c2)" using pc(2) by (simp add: live_set_shape)
  with c1 pc assms(1) show ?thesis by (cases "m_draw c") (auto simp: press_add_def Let_def)
qed

text \<open>A press in draw mode starts a new shape unless the current one is open.\<close>

lemma press_draw_eq:
  assumes "live c"
  shows "press_draw p c =
     (if m_shapeList c = [] \<or> m_isClosed (last (shapes c)) then bind_result (CanvasView_addShape c) (press_add p)
      else press_add p c)"
proof -
  have cur: "m_currentIndex c = int (length (m_shapeList c)) - 1" using assms by (simp add: live_def doc_inv_def)
  have "last (m_shapeList c) < length (heap c) \<and> last (shapes c) = get_shape c (last (m_shapeList c))" if "m_shapeList c \<noteq> []"
    using live_heap[OF assms] that by (simp add: shapes_def last_map)
  then show ?thesis
    using live_current[OF assms] cur by (cases "m_shapeList c = []") (auto simp: press_draw_def deref_def)
qed

lemma press_draw_live:
  assumes "live c"
  shows "\<exists>c'. press_draw p c = Inr c' \<and> live c'"
proof -
  obtain i where i: "m_image c = Some i" using assms by (auto simp: live_def)
  obtain s where s: "ShapeFactory_create (m_draw c) = Some s" using assms by (cases "m_draw c") (auto simp: live_def)
  obtain c1 where "CanvasView_addShape c = Inr c1" "live c1" "m_shapeList c1 \<noteq> []"
    using addShape_view[OF assms i s] by auto
  then show ?thesis using press_draw_eq[OF assms] press_add_live assms by auto
qed

lemma press_live:
  assumes "live c"
  shows "\<exists>c'. mousePressEvent cp b p c = (c', None) \<and> live c'"
proof -
  obtain q where q: "bindImgEdge c p = Inr q" using bindImgEdge_live[OF assms] by blast
  obtain i where i: "m_image c = Some i" using assms by (auto simp: live_def)
  obtain c1 where d: "press_draw q c = Inr c1" "live c1" using press_draw_live[OF assms] by blast
  let ?c = "c\<lparr>m_activePoint := -1, m_insertPoint := -1\<rparr>"
  have "live (fst (for_each (press_body cp q) (m_shapeList c) ?c)) \<and>
      snd (for_each (press_body cp q) (m_shapeList c) ?c) = None"
    using for_each_live[where body = "press_body cp q" and c = ?c, OF press_body_keeps] assms
    by (cases "snd (for_each (press_body cp q) (m_shapeList c) ?c)") simp_all
  then have "\<exists>c'. press_edit cp q c = (c', None) \<and> live c'"
    using assms by (cases "for_each (press_body cp q) (m_shapeList c) ?c") (auto simp: press_edit_def)
  then show ?thesis using q i d assms
    by (auto simp: mousePressEvent_def split: task_mode_e.split operat_mode_e.split)
qed

lemma catch_for_each_live:
  assumes "\<And>r c. live c \<Longrightarrow> r \<in> set (m_shapeList c) \<Longrightarrow> keeps E (m_shapeList c) (body r c)"
    and "live c" "\<And>e. E e \<Longrightarrow> is_std_exception e"
  shows "\<exists>c'. catch_std (for_each body (m_shapeList c) c) = (c', None) \<and> live c'"
proof -
  have "live (fst (for_each body (m_shapeList c) c)) \<and>
      (\<forall>e. snd (for_each body (m_shapeList c) c) = Some e \<longrightarrow> is_std_exception e)"
    using for_each_live[where body = body and E = E, OF assms(1,2)] assms(3) by blast
  then show ?thesis
    by (cases "for_each body (m_shapeList c) c" rule: catch_std.cases) auto
qed

lemma release_live: "live c \<Longrightarrow> \<exists>c'. mouseReleaseEvent cp p c = (c', None) \<and> live c'"
proof -
  assume l: "live c"
  then obtain q i where "bindImgEdge c p = Inr q" "m_image c = Some i"
    using bindImgEdge_live[OF l, of p] live_img[OF l] by blast
  moreover have "\<exists>c'. catch_std (for_each (release_body cp q) (m_shapeList d) d) = (c', None) \<and> live c'" if "live d" for d q
    using catch_for_each_live[OF release_body_keeps that] by simp
  ultimately show ?thesis using l by (auto simp: mouseReleaseEvent_def Let_def)
qed

lemma hover_live: "live c \<Longrightarrow> \<exists>c'. hoverMoveEvent cp p c = (c', None) \<and> live c'"
proof -
  assume l: "live c"
  then obtain q where q: "bindImgEdge c p = Inr q" using bindImgEdge_live[OF l] by auto
  let ?c = "c\<lparr>m_crossPos := q\<rparr>"
  have lc: "live ?c" using l by simp
  have "\<exists>c'. catch_std (for_each (hover_body cp q) (m_shapeList ?c) ?c) = (c', None) \<and> live c'"
    using catch_for_each_live[OF hover_body_keeps lc] by simp
  moreover have "\<exists>c'. hover_draw q ?c = (c', None) \<and> live c'"
    using live_current[OF lc] live_heap[OF lc, of "last (m_shapeList c)"] lc
    by (auto simp: hover_draw_def deref_def intro!: live_set_shape)
  ultimately show ?thesis using q l
    by (auto simp: hoverMoveEvent_def Let_def split: task_mode_e.split operat_mode_e.split)
qed

lemma move_live: "live c \<Longrightarrow> \<exists>c'. mouseMoveEvent cp p c = (c', None) \<and> live c'"
proof -
  assume l: "live c"
  then obtain q where "bindImgEdge c p = Inr q" using bindImgEdge_live[OF l] by auto
  moreover have "\<exists>c'. catch_std (for_each (move_body cp q) (m_shapeList c) c) = (c', None) \<and> live c'" for q
    using catch_for_each_live[OF move_body_keeps l] by simp
  ultimately show ?thesis using l by (auto simp: mouseMoveEvent_def)
qed

lemma key_live: "live c \<Longrightarrow> \<exists>c'. keyPressEvent k c = (c', None) \<and> live c'"
  using live_current[of c] live_heap[of c "last (m_shapeList c)"]
  by (auto simp: keyPressEvent_def deref_def Let_def intro!: live_set_shape)

lemma deletePoint_last_total: "shape_wf s \<Longrightarrow> Shape_pointCount s > 0 \<Longrightarrow> \<exists>s'. Shape_deletePoint (Shape_pointCount s - 1) s = Inr s'"
  using erase_in_range[of "m_points s" "Shape_pointCount s - 1"]
  by (auto simp: Shape_deletePoint_def shape_wf_def)

lemma dblclick_close_live:
  assumes "live c"
  shows "\<exists>r. dblclick_close c = Inr r \<and> live (snd r)"
proof (cases "m_shapeList c = []")
  case True
  then show ?thesis using live_current[OF assms] assms by (auto simp: dblclick_close_def)
next
  case False
  let ?r = "last (m_shapeList c)"
  have h: "?r < length (heap c)" using live_heap[OF assms] False by simp
  have wf: "shape_wf (get_shape c ?r)" using h assms doc_inv_heap[of c ?r] by (simp add: live_def)
  have "live (set_shape ?r (\<lambda>_. s1\<lparr>m_isClosed := True\<rparr>) c)"
    if "Shape_deletePoint i (get_shape c ?r) = Inr s1" for s1 i
    using benign_edits(4)[OF that] assms h by (intro live_set_shape) (auto simp: benign_def shape_wf_def)
  then show ?thesis
    using live_current[OF assms] False h assms deletePoint_last_total[OF wf]
    by (auto simp: dblclick_close_def deref_def Let_def) (rule exI[of _ True], simp)
qed

lemma dblclick_live: "live c \<Longrightarrow> \<exists>c'. mouseDoubleClickEvent cp b p c = (c', None) \<and> live c'"
  using dblclick_close_live[of c] press_live[of _ cp b p]
  by (auto simp: mouseDoubleClickEvent_def split: bool.split)

subsection \<open>Sessions\<close>

inductive session_step :: "(QPointF list \<Rightarrow> QPointF \<Rightarrow> bool) \<Rightarrow> canvas \<Rightarrow> canvas \<Rightarrow> bool" for cp where
  press: "mousePressEvent cp b p c = (c', e) \<Longrightarrow> session_step cp c c'"
| release: "mouseReleaseEvent cp p c = (c', e) \<Longrightarrow> session_step cp c c'"
| dblclick: "mouseDoubleClickEvent cp b p c = (c', e) \<Longrightarrow> session_step cp c c'"
| hover: "hoverMoveEvent cp p c = (c', e) \<Longrightarrow> session_step cp c c'"
| move: "mouseMoveEvent cp p c = (c', e) \<Longrightarrow> session_step cp c c'"
| key: "keyPressEvent k c = (c', e) \<Longrightarrow> session_step cp c c'"
| wheel: "session_step cp c (wheelEvent delta p c)"
| zoom_in: "session_step cp c (zoomIn c)"
| zoom_out: "session_step cp c (zoomOut c)"
| fit: "adjustFitWindow sz centre c = (c', e) \<Longrightarrow> session_step cp c c'"
| task: "session_step cp c (c\<lparr>m_task := t\<rparr>)"
| operat: "session_step cp c (c\<lparr>m_operat := op\<rparr>)"
| draw_mode: "m \<noteq> None_mode \<Longrightarrow> session_step cp c (c\<lparr>m_draw := m\<rparr>)"
| view_op: "run_op x c = Inr c' \<Longrightarrow> session_step cp c c'"
| set_label: "r \<in> set (m_shapeList c) \<Longrightarrow> session_step cp c (set_shape r (Shape_setLabel l) c)"
| load: "loadImage sz centre (Some i) c = (c', e) \<Longrightarrow> session_step cp c c'"
| undo: "canvas_undo c = Inr c' \<Longrightarrow> session_step cp c c'"
| redo: "canvas_redo c = Inr c' \<Longrightarrow> session_step cp c c'"

inductive session_reachable :: "(QPointF list \<Rightarrow> QPointF \<Rightarrow> bool) \<Rightarrow> canvas \<Rightarrow> bool" for cp where
  start: "loadImage sz centre (Some i) CanvasBase_new = (c, e) \<Longrightarrow> session_reachable cp c"
| step: "session_reachable cp c \<Longrightarrow> session_step cp c c' \<Longrightarrow> session_reachable cp c'"

lemma loadImage_live:
  assumes "doc_inv c" "traced c" "typed c" "m_draw c \<noteq> None_mode" "stack_wf (m_undoStack c)" "loadImage sz centre (Some i) c = (c', e)"
  shows "live c'"
  using assms by (auto simp: loadImage_def setImage_def adjustFitWindow_def setSize_def Let_def live_def)

lemma zoom_live: "live (zoomIn c) = live c" "live (zoomOut c) = live c"
  by (simp_all add: zoomIn_def zoomOut_def Let_def)

lemma undo_live: "live c \<Longrightarrow> \<exists>c'. canvas_undo c = Inr c' \<and> live c'"
  using canvas_undo_traced[of c] by (auto simp: live_def traced_def canvas_stack.consistent_def)

lemma redo_live: "live c \<Longrightarrow> \<exists>c'. canvas_redo c = Inr c' \<and> live c'"
  using canvas_redo_traced[of c] by (auto simp: live_def traced_def canvas_stack.consistent_def)

lemma session_step_live:
  assumes "session_step cp c c'" "live c"
  shows "live c'"
  using assms
proof cases
  case (press b p e) then show ?thesis using press_live[OF assms(2), of cp b p] by auto
next
  case (release p e) then show ?thesis using release_live[OF assms(2), of cp p] by auto
next
  case (dblclick b p e) then show ?thesis using dblclick_live[OF assms(2), of cp b p] by auto
next
  case (hover p e) then show ?thesis using hover_live[OF assms(2), of cp p] by auto
next
  case (move p e) then show ?thesis using move_live[OF assms(2), of cp p] by auto
next
  case (key k e) then show ?thesis using key_live[OF assms(2), of k] by auto
next
  case (wheel delta p) then show ?thesis using assms(2) by (simp add: wheelEvent_def Let_def zoom_live)
next
  case (fit sz centre e) then show ?thesis
    using assms(2) live_img[OF assms(2)] by (auto simp: adjustFitWindow_def setSize_def Let_def)
next
  case (view_op x) then show ?thesis using live_run_op[OF assms(2), of x] by auto
next
  case (set_label r l) then show ?thesis
    using assms(2) live_heap[OF assms(2)] by (auto simp: Shape_setLabel_def intro!: live_set_shape)
next
  case (load sz centre i e) then show ?thesis using assms(2) loadImage_live[of c] by (auto simp: live_def)
next
  case undo then show ?thesis using undo_live[OF assms(2)] by auto
next
  case redo then show ?thesis using redo_live[OF assms(2)] by auto
next
  case zoom_in then show ?thesis using assms(2) by (simp add: zoom_live)
next
  case zoom_out then show ?thesis using assms(2) by (simp add: zoom_live)
qed (use assms(2) in \<open>auto simp: live_def\<close>)

lemma new_canvas_doc:
  "doc_inv CanvasBase_new" "m_draw CanvasBase_new = Polygon" "stack_wf (m_undoStack CanvasBase_new)"
  "traced CanvasBase_new" "typed CanvasBase_new"
  by (simp_all add: CanvasBase_new_def traced_empty typed_def doc_inv_def canvas_inv_def refs_valid_def shapes_def names_canonical_def stack_wf_def)

lemma session_live: "session_reachable cp c \<Longrightarrow> live c"
proof (induction rule: session_reachable.induct)
  case (start sz centre i c e)
  from loadImage_live[OF new_canvas_doc(1,4,5) _ new_canvas_doc(3) start] show ?case by (simp add: new_canvas_doc(2))
next
  case (step c c')
  then show ?case using session_step_live by blast
qed

text \<open>
  C2. In a session that starts with an image and consists of any sequence of mouse, wheel and key
  events, tool bar actions, undo and redo, labelling and loading of further images, the canvas
  invariant holds in every state: distinct shapes, distinct names, agreeing vertex views, the last
  shape current. No handler then reads outside a list, follows a dangling pointer or lets an
  exception escape, and undo and redo always succeed, though most edits are no commands.
\<close>

theorem session_is_safe:
  assumes "session_reachable cp c"
  shows "doc_inv c \<and> (\<exists>i. m_image c = Some i) \<and>
     snd (mousePressEvent cp b p c) = None \<and> snd (mouseReleaseEvent cp p c) = None \<and>
     snd (mouseDoubleClickEvent cp b p c) = None \<and> snd (hoverMoveEvent cp p c) = None \<and>
     snd (mouseMoveEvent cp p c) = None \<and> snd (keyPressEvent k c) = None \<and>
     (\<exists>c'. CanvasView_addShape c = Inr c') \<and> (\<exists>c'. CanvasView_addPoint p c = Inr c') \<and>
     (\<exists>c'. CanvasView_removeShape c = Inr c') \<and> (\<exists>c'. canvas_undo c = Inr c') \<and> (\<exists>c'. canvas_redo c = Inr c')"
proof -
  have l: "live c" by (rule session_live[OF assms])
  show ?thesis
    using press_live[OF l, of cp b p] release_live[OF l, of cp p] dblclick_live[OF l, of cp b p] hover_live[OF l, of cp p]
      move_live[OF l, of cp p] key_live[OF l, of k] live_run_op[OF l, of OpAddShape] live_run_op[OF l, of "OpAddPoint p"]
      live_run_op[OF l, of OpRemoveShape] live_img[OF l] undo_live[OF l] redo_live[OF l] l
    by (auto simp: live_def)
qed

theorem session_is_safe_witness:
  "\<exists>c c'. session_reachable (\<lambda>ps p. False) c \<and> m_image c = Some (blank_image 100 100) \<and>
     mousePressEvent (\<lambda>ps p. False) LeftButton (QPointF 3 4) c = (c', None)"
proof -
  obtain c :: canvas and e where c: "loadImage \<lparr>sz_width = 200, sz_height = 100\<rparr> 0 (Some (blank_image 100 100)) CanvasBase_new = (c, e)"
    by (meson surj_pair)
  then have "session_reachable (\<lambda>ps p. False) c" by (rule session_reachable.start)
  moreover have "m_image c = Some (blank_image 100 100)"
    using c by (auto simp: loadImage_def setImage_def adjustFitWindow_def setSize_def Let_def)
  ultimately show ?thesis
    using session_is_safe[of "\<lambda>ps p. False" c LeftButton "QPointF 3 4"] by (metis prod.collapse)
qed

text \<open>
  Without an image the release, hover and move handlers swallow the exception that the size
  query throws and change nothing, while a mouse press lets it escape into the event loop: the guard \<^verbatim>\<open>getImage().isNull()\<close>
  never sees a null image.
\<close>

theorem events_without_image:
  assumes "m_image c = None"
  shows "mousePressEvent cp b p c = (c, Some (CanvasException ''image is null'')) \<and>
     mouseReleaseEvent cp p c = (c, None) \<and> hoverMoveEvent cp p c = (c, None) \<and> mouseMoveEvent cp p c = (c, None)"
  using assms
  by (simp add: mousePressEvent_def mouseReleaseEvent_def hoverMoveEvent_def mouseMoveEvent_def bindImgEdge_None)

theorem events_without_image_witness:
  "mousePressEvent (\<lambda>ps p. False) LeftButton 0 CanvasBase_new = (CanvasBase_new, Some (CanvasException ''image is null''))"
  using events_without_image[of "CanvasBase_new :: canvas"] by (simp add: CanvasBase_new_def)

end
