(* ===== verification/Event_Behaviour.thy ===== *)
theory Event_Behaviour
  imports Event_Safety
begin

text \<open>
  What the clicks do to the document: drawing polygons and rectangles, finishing with a double
  click or the return key, and what the canvas paints.
\<close>

subsection \<open>Lemmas\<close>

definition drawing :: "draw_mode_e \<Rightarrow> canvas \<Rightarrow> bool" where
  "drawing mode c \<longleftrightarrow> live c \<and> m_task c = segmentation \<and> m_operat c = draw \<and> m_draw c = mode"

lemma press_drawing:
  assumes "drawing mode c" "bindImgEdge c p = Inr q"
  shows "mousePressEvent cp LeftButton p c = lift_result c (press_draw q c)"
  using assms live_img[of c] by (auto simp: drawing_def mousePressEvent_def)

lemma bindImgEdge_cong:
  "m_image c = m_image d \<Longrightarrow> m_penLineWidth c = m_penLineWidth d \<Longrightarrow> bindImgEdge c p = bindImgEdge d p"
  by (cases "m_image d") (simp_all add: bindImgEdge_None bindImgEdge_eq)

text \<open>The shape a press starts, before its first vertex.\<close>

definition fresh_shape :: "draw_mode_e \<Rightarrow> QImage \<Rightarrow> Shape \<Rightarrow> bool" where
  "fresh_shape mode i s \<longleftrightarrow> (\<exists>s0 nm. ShapeFactory_create mode = Some s0 \<and> s = (Shape_setimgWH (img_size i) s0)\<lparr>m_name := nm\<rparr>)"

lemma fresh_shape_open: "fresh_shape mode i s \<Longrightarrow> \<not> m_isClosed s \<and> m_oriPoints (m_points s) = [] \<and> m_type s = mode"
  by (cases mode) (auto simp: fresh_shape_def Shape_setimgWH_def Shape_new_def YPolygonPoints_setImgWH_def YPolygonPoints_empty_def)

lemma append_vertices: "m_oriPoints (m_points (Shape_appendPoint p s)) = m_oriPoints (m_points s) @ [p]"
  by (simp add: Shape_appendPoint_def YPolygonPoints_append_def)

text \<open>A press that starts a new shape, up to the point where its vertex is added.\<close>

lemma press_starts:
  assumes "drawing mode c" "m_image c = Some i" "mode \<noteq> None_mode"
    and "m_shapeList c = [] \<or> m_isClosed (last (shapes c))"
  shows "\<exists>c1 s. press_draw q c = press_add q c1 \<and> drawing mode c1 \<and> m_image c1 = Some i \<and>
     m_penLineWidth c1 = m_penLineWidth c \<and> m_disImg c1 = m_disImg c \<and> emitted c1 = emitted c \<and>
     m_shapeList c1 = m_shapeList c @ [length (heap c)] \<and> shapes c1 = shapes c @ [s] \<and> fresh_shape mode i s"
proof -
  have l: "live c" and d: "m_draw c = mode" using assms(1) by (auto simp: drawing_def)
  obtain s0 where s0: "ShapeFactory_create (m_draw c) = Some s0" using assms(3) d by (cases mode) auto
  from addShape_view[OF l assms(2) s0] obtain nm c1 where
    c1: "CanvasView_addShape c = Inr c1" "live c1" "m_shapeList c1 = m_shapeList c @ [length (heap c)]"
      "shapes c1 = shapes c @ [(Shape_setimgWH (img_size i) s0)\<lparr>m_name := nm\<rparr>]" "m_image c1 = m_image c"
      "m_draw c1 = m_draw c" "m_task c1 = m_task c" "m_operat c1 = m_operat c"
      "m_penLineWidth c1 = m_penLineWidth c" "m_disImg c1 = m_disImg c" "emitted c1 = emitted c" by blast
  have "press_draw q c = press_add q c1" using press_draw_eq[OF l, of q] assms(4) c1(1) by auto
  then show ?thesis using c1 assms(1,2) s0 d
    by (intro exI[of _ c1] exI[of _ "(Shape_setimgWH (img_size i) s0)\<lparr>m_name := nm\<rparr>"]) (auto simp: drawing_def fresh_shape_def)
qed

lemma press_continues:
  assumes "drawing mode c" "m_shapeList c \<noteq> []" "\<not> m_isClosed (last (shapes c))"
  shows "press_draw q c = press_add q c"
  using assms press_draw_eq[of c q] by (simp add: drawing_def)

lemma press_add_polygon:
  assumes "drawing Polygon c" "m_shapeList c \<noteq> []"
  shows "\<exists>c'. press_add q c = Inr c' \<and> drawing Polygon c' \<and> m_shapeList c' = m_shapeList c \<and> emitted c' = emitted c \<and>
     shapes c' = butlast (shapes c) @ [Shape_appendPoint q (last (shapes c))]"
  using assms addPoint_view[of c q] by (auto simp: drawing_def press_add_def)

subsection \<open>Polygons\<close>

lemma polygon_press:
  assumes "drawing Polygon c" and "bindImgEdge c p = Inr q"
  shows "\<exists>c'. mousePressEvent cp LeftButton p c = (c', None) \<and> drawing Polygon c' \<and> emitted c' = emitted c \<and>
     (if m_shapeList c = [] \<or> m_isClosed (last (shapes c))
      then \<exists>s. shapes c' = shapes c @ [s] \<and> m_type s = Polygon \<and> \<not> m_isClosed s \<and> m_oriPoints (m_points s) = [q]
      else shapes c' = butlast (shapes c) @ [Shape_appendPoint q (last (shapes c))])"
proof (cases "m_shapeList c = [] \<or> m_isClosed (last (shapes c))")
  case True
  obtain i where i: "m_image c = Some i" using assms(1) by (auto simp: drawing_def live_def)
  from press_starts[OF assms(1) i _ True, of q] obtain c1 s where
    c1: "press_draw q c = press_add q c1" "drawing Polygon c1" "emitted c1 = emitted c"
      "m_shapeList c1 = m_shapeList c @ [length (heap c)]" "shapes c1 = shapes c @ [s]" "fresh_shape Polygon i s" by auto
  from press_add_polygon[OF c1(2), of q] c1(4) obtain c' where
    c': "press_add q c1 = Inr c'" "drawing Polygon c'" "emitted c' = emitted c1"
      "shapes c' = butlast (shapes c1) @ [Shape_appendPoint q (last (shapes c1))]" by auto
  have "m_type (Shape_appendPoint q s) = Polygon" "\<not> m_isClosed (Shape_appendPoint q s)"
      "m_oriPoints (m_points (Shape_appendPoint q s)) = [q]"
    using fresh_shape_open[OF c1(6)] by (simp_all add: append_vertices) (simp_all add: Shape_appendPoint_def)
  with c1 c' True show ?thesis by (auto simp: press_drawing[OF assms])
next
  case False
  from press_add_polygon[OF assms(1), of q] False obtain c' where
    "press_add q c = Inr c'" "drawing Polygon c'" "emitted c' = emitted c"
    "shapes c' = butlast (shapes c) @ [Shape_appendPoint q (last (shapes c))]" by auto
  with False press_continues[OF assms(1), of q] show ?thesis by (auto simp: press_drawing[OF assms])
qed

text \<open>
  A left click in polygon mode adds exactly one vertex, at the mouse position pulled into the
  image: to the last shape if it is open, otherwise to a new open polygon appended to the list. All
  other shapes stay as they are and nothing is asked from the user.
\<close>

theorem polygon_click:
  assumes "drawing Polygon c" and "bindImgEdge c p = Inr q"
  shows "\<exists>c'. mousePressEvent cp LeftButton p c = (c', None) \<and> drawing Polygon c' \<and> emitted c' = emitted c \<and>
     (if m_shapeList c = [] \<or> m_isClosed (last (shapes c))
      then \<exists>s. shapes c' = shapes c @ [s] \<and> m_type s = Polygon \<and> \<not> m_isClosed s \<and> m_oriPoints (m_points s) = [q]
      else shapes c' = butlast (shapes c) @ [Shape_appendPoint q (last (shapes c))])"
  using assms by (rule polygon_press)

lemma sample_live: "live sample_canvas"
  using sample_doc by (simp add: live_def traced_empty typed_def)

theorem polygon_click_witness:
  "\<exists>c' s. mousePressEvent (\<lambda>ps p. False) LeftButton 0 sample_canvas = (c', None) \<and> shapes c' = [s] \<and>
     m_oriPoints (m_points s) = [QPointF 0 0]"
proof -
  have d: "drawing Polygon sample_canvas" using sample_live by (simp add: drawing_def)
  have e: "2 * rat_of_int (m_penLineWidth (sample_canvas :: canvas)) / 3 = 4/3" by simp
  have b: "bindImgEdge (sample_canvas :: canvas) 0 = Inr (QPointF 0 0)"
    by (subst bindImgEdge_eq[OF sample_canvas_simps(1)], unfold e)
       (simp add: img_offset_def c_div_def bind_edge_inside QPointF_eq_iff)
  from polygon_click[OF d b, of "\<lambda>ps p. False"] show ?thesis by (auto simp: shapes_def)
qed

subsection \<open>Rectangles\<close>

lemma press_add_rectangle:
  assumes "drawing Rectangle c" "m_shapeList c \<noteq> []"
  shows "\<exists>c' s'. press_add q c = Inr c' \<and> drawing Rectangle c' \<and> m_shapeList c' = m_shapeList c \<and>
     m_image c' = m_image c \<and> m_penLineWidth c' = m_penLineWidth c \<and> m_disImg c' = m_disImg c \<and>
     shapes c' = butlast (shapes c) @ [s'] \<and> m_oriPoints (m_points s') = m_oriPoints (m_points (last (shapes c))) @ [q] \<and>
     m_type s' = m_type (last (shapes c)) \<and> dyn_class s' = dyn_class (last (shapes c)) \<and>
     m_isClosed s' = (m_isClosed (last (shapes c)) \<or> m_oriPoints (m_points (last (shapes c))) \<noteq> []) \<and>
     emitted c' = emitted c @ (if m_oriPoints (m_points (last (shapes c))) \<noteq> [] then [last (m_shapeList c)] else [])"
proof -
  let ?r = "last (m_shapeList c)" and ?s = "last (shapes c)"
  have l: "live c" using assms(1) by (simp add: drawing_def)
  from addPoint_view[OF l assms(2), of q] obtain c1 where
    c1: "CanvasView_addPoint q c = Inr c1" "live c1" "m_shapeList c1 = m_shapeList c"
      "shapes c1 = butlast (shapes c) @ [Shape_appendPoint q ?s]"
      "m_image c1 = m_image c" "m_draw c1 = m_draw c" "m_task c1 = m_task c" "m_operat c1 = m_operat c"
      "m_penLineWidth c1 = m_penLineWidth c" "m_disImg c1 = m_disImg c" "emitted c1 = emitted c" by blast
  have ne: "m_shapeList c1 \<noteq> []" using c1(3) assms(2) by simp
  let ?c2 = "set_shape ?r (Shape_updateEndPt q) c1"
  have pc: "press_current (Shape_updateEndPt q) c1 = Inr (?r, ?c2)" "live ?c2"
    using press_current_live[OF c1(2) ne, of "Shape_updateEndPt q"] c1(3) by auto
  have s2: "shapes ?c2 = butlast (shapes c) @ [Shape_updateEndPt q (Shape_appendPoint q ?s)]"
    using shapes_set_last[OF c1(2) ne, of "Shape_updateEndPt q"] c1(3,4) by simp
  have g: "get_shape ?c2 ?r = Shape_updateEndPt q (Shape_appendPoint q ?s)"
    using arg_cong[OF s2, of last] c1(3) assms(2) by (simp add: shapes_def last_map)
  have cond: "YPolygonPoints_size (m_points (get_shape ?c2 ?r)) > 1 \<longleftrightarrow> m_oriPoints (m_points ?s) \<noteq> []"
    using g append_vertices[of q ?s] by (simp add: YPolygonPoints_size_def)
  let ?c3 = "set_shape ?r (Shape_setIsClosed True) ?c2"
  have ne2: "m_shapeList ?c2 \<noteq> []" using ne by simp
  have s3: "shapes ?c3 = butlast (shapes c) @ [Shape_setIsClosed True (Shape_updateEndPt q (Shape_appendPoint q ?s))]"
    using shapes_set_last[OF pc(2) ne2, of "Shape_setIsClosed True"] c1(3) s2 by simp
  have l3: "live ?c3" using live_set_shape[OF pc(2)] live_heap[OF pc(2)] ne2 c1(3) by (metis Shape_setIsClosed_def benign_flags(6) last_in_set set_shape_fields(1))
  have em: "shapes (?c3\<lparr>emitted := e\<rparr>) = shapes ?c3" for e by (simp add: shapes_def get_shape_def[abs_def])
  have fr: "emitted (set_shape r f d) = emitted d" "m_penLineWidth (set_shape r f d) = m_penLineWidth d"
    "m_disImg (set_shape r f d) = m_disImg d" for r f and d :: canvas
    by (simp_all add: set_shape_def)
  have dr: "drawing Rectangle ?c2" "drawing Rectangle (?c3\<lparr>emitted := e\<rparr>)" for e
    using assms(1) c1 pc(2) l3 by (auto simp: drawing_def)
  have pa: "press_add q c = Inr (if m_oriPoints (m_points ?s) \<noteq> [] then ?c3\<lparr>emitted := emitted ?c3 @ [?r]\<rparr> else ?c2)"
    using assms(1) c1(1) pc(1) cond by (simp add: press_add_def drawing_def Let_def)
  show ?thesis
    using pa s2 s3 em dr c1 append_vertices[of q ?s]
    by (cases "m_oriPoints (m_points ?s) = []") (auto simp: fr Shape_appendPoint_def)
qed

lemma rectangle_clicks:
  assumes "drawing Rectangle c" and "m_shapeList c = [] \<or> m_isClosed (last (shapes c))"
    and "bindImgEdge c p1 = Inr q1" and "bindImgEdge c p2 = Inr q2"
  shows "\<exists>c1 c2 s1 s2. mousePressEvent cp LeftButton p1 c = (c1, None) \<and> mousePressEvent cp LeftButton p2 c1 = (c2, None) \<and>
     drawing Rectangle c1 \<and> shapes c1 = shapes c @ [s1] \<and> m_oriPoints (m_points s1) = [q1] \<and> emitted c1 = emitted c \<and>
     m_shapeList c1 \<noteq> [] \<and> press_add q2 c1 = Inr c2 \<and> drawing Rectangle c2 \<and> m_shapeList c2 = m_shapeList c1 \<and>
     m_image c2 = m_image c \<and> m_disImg c2 = m_disImg c \<and>
     shapes c2 = shapes c @ [s2] \<and> dyn_class s2 = YRectangle \<and> m_isClosed s2 \<and> m_oriPoints (m_points s2) = [q1, q2] \<and>
     emitted c2 = emitted c @ [last (m_shapeList c2)]"
proof -
  obtain i where i: "m_image c = Some i" using assms(1) by (auto simp: drawing_def live_def)
  from press_starts[OF assms(1) i _ assms(2), of q1] obtain d s where
    d: "press_draw q1 c = press_add q1 d" "drawing Rectangle d" "m_image d = Some i" "m_penLineWidth d = m_penLineWidth c" "m_disImg d = m_disImg c"
      "emitted d = emitted c" "m_shapeList d = m_shapeList c @ [length (heap c)]" "shapes d = shapes c @ [s]"
      "fresh_shape Rectangle i s" by auto
  note op = fresh_shape_open[OF d(9)]
  have cl: "dyn_class s = YRectangle" using d(9) by (auto simp: fresh_shape_def Shape_setimgWH_def Shape_new_def)
  have "m_shapeList d \<noteq> []" using d(7) by simp
  from press_add_rectangle[OF d(2) this, of q1] obtain c1 s1 where
    c1: "press_add q1 d = Inr c1" "drawing Rectangle c1" "m_shapeList c1 = m_shapeList d" "m_image c1 = m_image d"
      "m_penLineWidth c1 = m_penLineWidth d" "shapes c1 = shapes c @ [s1]" "m_oriPoints (m_points s1) = [q1]"
      "dyn_class s1 = YRectangle" "\<not> m_isClosed s1" "emitted c1 = emitted c" "m_disImg c1 = m_disImg d"
    using d(6,8) op cl by auto
  have p1: "mousePressEvent cp LeftButton p1 c = (c1, None)"
    using press_drawing[OF assms(1,3)] d(1) c1(1) by simp
  have ne: "m_shapeList c1 \<noteq> []" using c1(3) d(7) by simp
  from press_add_rectangle[OF c1(2) ne, of q2] obtain c2 s2 where
    c2: "press_add q2 c1 = Inr c2" "drawing Rectangle c2" "m_image c2 = m_image c1" "m_disImg c2 = m_disImg c1" "m_shapeList c2 = m_shapeList c1" "shapes c2 = shapes c @ [s2]"
      "m_oriPoints (m_points s2) = [q1, q2]" "dyn_class s2 = YRectangle" "m_isClosed s2"
      "emitted c2 = emitted c @ [last (m_shapeList c1)]"
    using c1(6-10) by auto
  have "bindImgEdge c1 p2 = Inr q2"
    using bindImgEdge_cong[of c1 c p2] c1(4,5) d(3,4) i assms(4) by simp
  from press_drawing[OF c1(2) this] press_continues[OF c1(2) ne, of q2] c1(6,9) c2(1)
  have "mousePressEvent cp LeftButton p2 c1 = (c2, None)" by simp
  with p1 c1 c2 d(3,5) i ne show ?thesis
    by (intro exI[of _ c1] exI[of _ c2] exI[of _ s1] exI[of _ s2]) simp
qed

text \<open>
  C11. Two left clicks in rectangle mode draw one rectangle: from a state with no open shape, the
  second click closes a new rectangle with exactly the two clicked corners, pulled into the image,
  and asks once for the label of that shape.
\<close>

theorem rectangle_two_clicks:
  assumes "drawing Rectangle c" and "m_shapeList c = [] \<or> m_isClosed (last (shapes c))"
    and "bindImgEdge c p1 = Inr q1" and "bindImgEdge c p2 = Inr q2"
  shows "\<exists>c1 c2 s. mousePressEvent cp LeftButton p1 c = (c1, None) \<and> mousePressEvent cp LeftButton p2 c1 = (c2, None) \<and>
     shapes c2 = shapes c @ [s] \<and> dyn_class s = YRectangle \<and> m_isClosed s \<and> m_oriPoints (m_points s) = [q1, q2] \<and>
     emitted c1 = emitted c \<and> emitted c2 = emitted c @ [last (m_shapeList c2)]"
  using rectangle_clicks[OF assms, of cp] by auto

theorem rectangle_two_clicks_witness:
  "\<exists>c1 c2 s. mousePressEvent (\<lambda>ps p. False) LeftButton 0 (sample_canvas\<lparr>m_draw := Rectangle\<rparr>) = (c1, None) \<and>
     mousePressEvent (\<lambda>ps p. False) LeftButton (QPointF 10 10) c1 = (c2, None) \<and> shapes c2 = [s] \<and> m_isClosed s"
proof -
  have d: "drawing Rectangle (sample_canvas\<lparr>m_draw := Rectangle\<rparr>)" using sample_live by (simp add: drawing_def live_def)
  obtain q1 q2 where "bindImgEdge (sample_canvas\<lparr>m_draw := Rectangle\<rparr> :: canvas) 0 = Inr q1"
      "bindImgEdge (sample_canvas\<lparr>m_draw := Rectangle\<rparr> :: canvas) (QPointF 10 10) = Inr q2"
    using bindImgEdge_live d unfolding drawing_def by blast
  from rectangle_two_clicks[OF d _ this, of "\<lambda>ps p. False"] show ?thesis by (auto simp: shapes_def)
qed

subsection \<open>Finishing a shape\<close>

lemma deletePoint_last:
  assumes "shape_wf s" "0 < vertex_count s"
  shows "\<exists>s'. Shape_deletePoint (Shape_pointCount s - 1) s = Inr s' \<and>
     m_oriPoints (m_points s') = butlast (m_oriPoints (m_points s)) \<and> shape_wf s'"
proof -
  obtain s' where s': "Shape_deletePoint (Shape_pointCount s - 1) s = Inr s'"
    using deletePoint_last_total[OF assms(1)] assms(2) by (auto simp: YPolygonPoints_size_def)
  moreover have "nat (int (vertex_count s) - 1) = vertex_count s - 1" using assms(2) by simp
  ultimately have "m_oriPoints (m_points s') = butlast (m_oriPoints (m_points s))"
    using erase_in_range[of "m_points s" "int (vertex_count s) - 1"] assms
    by (auto simp: Shape_deletePoint_def shape_wf_def YPolygonPoints_size_def list_remove_last[symmetric])
  with s' deletePoint_wf[OF assms(1) s'] show ?thesis by blast
qed

text \<open>
  C29. A double click on a shape with three or more vertices closes it, but without its last
  vertex, and asks for its label; the base handler then passes the event on as a press, so a new
  open shape with one vertex at the mouse position is left behind.
\<close>

theorem double_click_finishes:
  assumes "drawing Polygon c" and "m_shapeList c \<noteq> []" and "2 < vertex_count (last (shapes c))"
    and "bindImgEdge c p = Inr q"
  shows "\<exists>c' s1 s2. mouseDoubleClickEvent cp LeftButton p c = (c', None) \<and>
     shapes c' = butlast (shapes c) @ [s1, s2] \<and> m_isClosed s1 \<and>
     m_oriPoints (m_points s1) = butlast (m_oriPoints (m_points (last (shapes c)))) \<and>
     \<not> m_isClosed s2 \<and> m_oriPoints (m_points s2) = [q] \<and> emitted c' = emitted c @ [last (m_shapeList c)]"
proof -
  let ?r = "last (m_shapeList c)"
  have l: "live c" using assms(1) by (simp add: drawing_def)
  have h: "?r < length (heap c)" using live_heap[OF l] assms(2) by simp
  have g: "get_shape c ?r = last (shapes c)" using assms(2) by (simp add: shapes_def last_map)
  have wf: "shape_wf (last (shapes c))" using h l doc_inv_heap[of c ?r] g by (simp add: live_def)
  have pos: "0 < vertex_count (last (shapes c))" using assms(3) by linarith
  from deletePoint_last[OF wf pos] obtain s' where
    s': "Shape_deletePoint (Shape_pointCount (last (shapes c)) - 1) (last (shapes c)) = Inr s'"
      "m_oriPoints (m_points s') = butlast (m_oriPoints (m_points (last (shapes c))))" "shape_wf s'" by blast
  let ?f = "\<lambda>_. Shape_setIsClosed True s'"
  let ?c1 = "(set_shape ?r ?f c)\<lparr>emitted := emitted c @ [?r]\<rparr>"
  have close: "dblclick_close c = Inr (True, ?c1)"
    using assms(1,2,3) live_current[OF l] h g s'(1)
    by (auto simp: dblclick_close_def drawing_def deref_def Let_def YPolygonPoints_size_def set_shape_def)
  have lc: "live (set_shape ?r ?f c)"
    using live_set_shape[OF l h, of ?f] benign_edits(4)[OF s'(1)] g by (simp add: benign_def shape_wf_def)
  have sh: "shapes ?c1 = butlast (shapes c) @ [Shape_setIsClosed True s']"
    using shapes_set_last[OF l assms(2), of ?f] by (simp add: shapes_def get_shape_def[abs_def])
  have d1: "drawing Polygon ?c1" using assms(1) lc by (auto simp: drawing_def set_shape_def)
  have "bindImgEdge ?c1 p = Inr q" using assms(4) bindImgEdge_cong[of ?c1 c p] by (simp add: set_shape_def)
  from polygon_press[OF d1 this, of cp] sh obtain c' s2 where
    "mousePressEvent cp LeftButton p ?c1 = (c', None)" "shapes c' = shapes ?c1 @ [s2]"
    "\<not> m_isClosed s2" "m_oriPoints (m_points s2) = [q]" "emitted c' = emitted ?c1" by auto
  with close sh s'(2) show ?thesis
    by (intro exI[of _ c'] exI[of _ "Shape_setIsClosed True s'"] exI[of _ s2]) (simp add: mouseDoubleClickEvent_def)
qed

definition triangle_canvas :: canvas where
  "triangle_canvas = sample_canvas\<lparr>heap := [sample_triangle\<lparr>m_name := ''Ploygon''\<rparr>], m_shapeList := [0], m_currentIndex := 0\<rparr>"

lemma triangle_live: "live triangle_canvas"
proof -
  have "shape_wf (sample_triangle\<lparr>m_name := ''Ploygon''\<rparr>)"
    by (simp add: shape_wf_def views_agree_def sample_triangle_def zero_QPointF_def[symmetric])
  moreover have "uniqueName_loop [] ''Ploygon'' 0 = ''Ploygon''" by (subst uniqueName_loop.simps) (simp add: candidate_def)
  moreover have "m_type sample_triangle = Polygon" by (simp add: sample_triangle_def Shape_new_def)
  ultimately show ?thesis
    by (simp add: triangle_canvas_def live_def doc_inv_def canvas_inv_def refs_valid_def shapes_def get_shape_def
        names_canonical_def stack_wf_def traced_empty typed_def class_matches_def)
       (simp add: sample_triangle_def Shape_new_def)
qed

lemma triangle_shapes:
  "m_shapeList triangle_canvas \<noteq> []" "shapes triangle_canvas = [sample_triangle\<lparr>m_name := ''Ploygon''\<rparr>]"
  "vertex_count (sample_triangle\<lparr>m_name := ''Ploygon''\<rparr>) = 3" "drawing Polygon triangle_canvas"
proof -
  show "drawing Polygon triangle_canvas" using triangle_live by (simp add: drawing_def) (simp add: triangle_canvas_def)
qed (simp_all add: triangle_canvas_def shapes_def get_shape_def sample_triangle_def)

theorem double_click_finishes_witness:
  "\<exists>c' s1 s2. mouseDoubleClickEvent (\<lambda>ps p. False) LeftButton 0 triangle_canvas = (c', None) \<and>
     shapes c' = [s1, s2] \<and> length (m_oriPoints (m_points s1)) = 2"
proof -
  obtain q where q: "bindImgEdge triangle_canvas 0 = Inr q" using bindImgEdge_live[OF triangle_live] by blast
  have "2 < vertex_count (last (shapes triangle_canvas))" using triangle_shapes(2,3) by simp
  from double_click_finishes[OF triangle_shapes(4,1) this q, of "\<lambda>ps p. False"] obtain c' s1 s2 where
    "mouseDoubleClickEvent (\<lambda>ps p. False) LeftButton 0 triangle_canvas = (c', None)" "shapes c' = [s1, s2]"
    "m_oriPoints (m_points s1) = butlast (m_oriPoints (m_points (sample_triangle\<lparr>m_name := ''Ploygon''\<rparr>)))"
    unfolding triangle_shapes(2) by auto
  moreover from this(3) have "length (m_oriPoints (m_points s1)) = 2" using triangle_shapes(3) by simp
  ultimately show ?thesis by blast
qed

lemma return_key:
  assumes "drawing mode c" and "m_shapeList c \<noteq> []"
  shows "\<exists>c'. keyPressEvent k c = (c', None) \<and> m_shapeList c' = m_shapeList c \<and>
     (if k \<in> {Key_Return, Key_Enter} \<and> 2 < vertex_count (last (shapes c))
      then shapes c' = butlast (shapes c) @ [(last (shapes c))\<lparr>m_isClosed := True\<rparr>] \<and> emitted c' = emitted c @ [last (m_shapeList c)]
      else c' = c)"
proof -
  let ?r = "last (m_shapeList c)"
  have l: "live c" using assms(1) by (simp add: drawing_def)
  have h: "?r < length (heap c)" using live_heap[OF l] assms(2) by simp
  have g: "get_shape c ?r = last (shapes c)" using assms(2) by (simp add: shapes_def last_map)
  have "shapes ((set_shape ?r (Shape_setIsClosed True) c)\<lparr>emitted := e\<rparr>) = butlast (shapes c) @ [(last (shapes c))\<lparr>m_isClosed := True\<rparr>]" for e
    using shapes_set_last[OF l assms(2), of "Shape_setIsClosed True"] by (simp add: shapes_def get_shape_def[abs_def])
  then show ?thesis
    using assms live_current[OF l] h g
    by (auto simp: keyPressEvent_def drawing_def deref_def Let_def YPolygonPoints_size_def set_shape_def)
qed

text \<open>
  The return key closes the current shape with all its vertices and asks for its label once it
  has three; before that, and for every other key, it changes nothing.
\<close>

theorem return_key_closes:
  assumes "drawing mode c" and "m_shapeList c \<noteq> []"
  shows "\<exists>c'. keyPressEvent k c = (c', None) \<and>
     (if k \<in> {Key_Return, Key_Enter} \<and> 2 < vertex_count (last (shapes c))
      then shapes c' = butlast (shapes c) @ [(last (shapes c))\<lparr>m_isClosed := True\<rparr>] \<and> emitted c' = emitted c @ [last (m_shapeList c)]
      else c' = c)"
  using return_key[OF assms, of k] by blast

theorem return_key_closes_witness:
  "\<exists>c'. keyPressEvent Key_Return triangle_canvas = (c', None) \<and>
     shapes c' = [sample_triangle\<lparr>m_name := ''Ploygon'', m_isClosed := True\<rparr>]"
  using return_key_closes[OF triangle_shapes(4,1), of Key_Return] triangle_shapes(2,3) by auto

subsection \<open>Painting\<close>

lemma draw_all_balanced: "draw_all f ss = (cmds, None) \<Longrightarrow> save_depth n cmds = Some n"
  by (induction ss arbitrary: cmds)
     (auto simp: save_depth_append draw_balanced split: sum.splits prod.splits)

lemma draw_all_error: "draw_all f ss = (cmds, Some e) \<Longrightarrow> \<not> is_std_exception e"
  by (induction ss arbitrary: cmds) (auto split: sum.splits prod.splits dest: draw_error)

lemma drawCross_image: "m_image c = Some i \<Longrightarrow> \<exists>ls. drawCross c = (ls, None) \<and> save_depth n ls = Some n"
  by (auto simp: drawCross_def bindImgEdge_eq)

text \<open>
  Painting a canvas that has an image leaves the painter's state stack as it was, in every mode
  and whatever the shapes are.
\<close>

theorem paint_balanced:
  assumes "m_image c \<noteq> None" and "paint c = (cmds, None)"
  shows "save_depth n cmds = Some n"
proof -
  obtain i where i: "m_image c = Some i" using assms(1) by auto
  have ds: "save_depth n ds = Some n" if d: "drawShape c = (ds, None)" for ds
  proof (cases "m_task c = segmentation \<and> m_operat c = draw \<and> m_draw c = Rectangle")
    case True
    obtain xs e where xs: "draw_all (\<lambda>s. \<not> Shape_isClosed s) (shapes c) = (xs, e)" by (meson surj_pair)
    have "e = None"
      using d True xs draw_all_error[of "\<lambda>s. \<not> Shape_isClosed s" "shapes c" xs]
      by (cases e) (auto simp: drawShape_def split: if_splits)
    with d True xs drawCross_image[OF i, of n] draw_all_balanced[of "\<lambda>s. \<not> Shape_isClosed s" "shapes c" xs n]
    show ?thesis by (auto simp: drawShape_def save_depth_append)
  next
    case False
    obtain xs e where xs: "draw_all (\<lambda>s. \<not> Shape_isClosed s) (shapes c) = (xs, e)" by (meson surj_pair)
    obtain ys e' where ys: "draw_all (\<lambda>_. False) (shapes c) = (ys, e')" by (meson surj_pair)
    have "m_task c = segmentation \<and> m_operat c = draw \<Longrightarrow> e = None"
      using d False xs draw_all_error[of "\<lambda>s. \<not> Shape_isClosed s" "shapes c" xs]
      by (cases e) (auto simp: drawShape_def split: if_splits)
    moreover have "m_task c = segmentation \<and> m_operat c = edit \<Longrightarrow> e' = None"
      using d ys draw_all_error[of "\<lambda>_. False" "shapes c" ys] by (cases e') (auto simp: drawShape_def split: if_splits)
    ultimately show ?thesis
      using d False xs ys draw_all_balanced[of "\<lambda>s. \<not> Shape_isClosed s" "shapes c" xs n] draw_all_balanced[of "\<lambda>_. False" "shapes c" ys n]
      by (cases "m_task c"; cases "m_operat c") (auto simp: drawShape_def)
  qed
  show ?thesis
    using assms(2) ds by (cases "m_disImg c") (auto simp: paint_def split: prod.splits)
qed

theorem paint_balanced_witness:
  "\<exists>cmds. paint (sample_canvas\<lparr>m_draw := Rectangle\<rparr>) = (cmds, None) \<and> save_depth 0 cmds = Some 0"
proof -
  let ?c = "sample_canvas\<lparr>m_draw := Rectangle\<rparr> :: canvas"
  have i: "m_image ?c = Some (blank_image 100 100)" by simp
  have im: "m_disImg ?c = Some (blank_image 100 100)" by (simp add: sample_canvas_def)
  obtain ls where "drawCross ?c = (ls, None)" using drawCross_image[OF i, of 0] by blast
  with im obtain cmds where "paint ?c = (cmds, None)" by (simp add: paint_def drawShape_def shapes_def)
  with paint_balanced[of ?c cmds 0] i show ?thesis by auto
qed

text \<open>
  C30. After the first click of a rectangle, painting works in draw mode, where the corner under the
  mouse is shown, but switching to edit mode makes the next repaint read a second corner that does
  not exist.
\<close>

theorem edit_mode_paints_missing_corner:
  assumes "drawing Rectangle c" and "m_shapeList c = []" and "m_disImg c = Some im" and "bindImgEdge c p = Inr q"
  shows "\<exists>c1. mousePressEvent cp LeftButton p c = (c1, None) \<and> snd (paint c1) = None \<and>
     snd (paint (c1\<lparr>m_operat := edit\<rparr>)) = Some (Undefined ''QVector::at'')"
proof -
  obtain i where i: "m_image c = Some i" using assms(1) by (auto simp: drawing_def live_def)
  from press_starts[OF assms(1) i, of q] assms(2) obtain d s where
    d: "press_draw q c = press_add q d" "drawing Rectangle d" "m_image d = Some i" "m_disImg d = m_disImg c"
      "m_shapeList d = m_shapeList c @ [length (heap c)]" "shapes d = shapes c @ [s]" "fresh_shape Rectangle i s" by auto
  have cl: "dyn_class s = YRectangle" using d(7) by (auto simp: fresh_shape_def Shape_setimgWH_def Shape_new_def)
  have e: "shapes c = []" using assms(2) by (simp add: shapes_def)
  have "m_shapeList d \<noteq> []" using d(5) by simp
  from press_add_rectangle[OF d(2) this, of q] obtain c1 s1 where
    c1: "press_add q d = Inr c1" "drawing Rectangle c1" "m_image c1 = Some i" "m_disImg c1 = Some im" "shapes c1 = [s1]"
      "m_oriPoints (m_points s1) = [q]" "dyn_class s1 = YRectangle" "\<not> m_isClosed s1"
    using d(3,4,6) e assms(3) fresh_shape_open[OF d(7)] cl by auto
  have p: "mousePressEvent cp LeftButton p c = (c1, None)" using press_drawing[OF assms(1,4)] d(1) c1(1) by simp
  obtain ls where ls: "drawCross c1 = (ls, None)" using drawCross_image[OF c1(3)] by blast
  obtain cmds where cmds: "Shape_draw s1 True True = Inr cmds"
    using rect_draw_succeeds_iff(1)[of s1 True True] c1(6,7) by (auto simp: Shape_draw_def)
  have "snd (paint c1) = None"
    using c1 ls cmds by (simp add: paint_def drawShape_def drawing_def)
  moreover obtain er where er: "Shape_draw s1 False True = Inl er"
    using rect_draw_succeeds_iff(1)[of s1 False True] c1(6,7) by (cases "YRectangle_draw s1 False True") (auto simp: Shape_draw_def)
  moreover have "shapes (c1\<lparr>m_operat := edit\<rparr>) = [s1]" using c1(5) by (simp add: shapes_def get_shape_def[abs_def])
  moreover note draw_error[OF er]
  ultimately show ?thesis using p c1 by (auto simp: paint_def drawShape_def drawing_def)
qed

theorem edit_mode_paints_missing_corner_witness:
  "\<exists>c1. mousePressEvent (\<lambda>ps p. False) LeftButton 0 (sample_canvas\<lparr>m_draw := Rectangle\<rparr>) = (c1, None) \<and>
     snd (paint (c1\<lparr>m_operat := edit\<rparr>)) = Some (Undefined ''QVector::at'')"
proof -
  have d: "drawing Rectangle (sample_canvas\<lparr>m_draw := Rectangle\<rparr>)" using sample_live by (simp add: drawing_def live_def)
  obtain q where "bindImgEdge (sample_canvas\<lparr>m_draw := Rectangle\<rparr> :: canvas) 0 = Inr q"
    using bindImgEdge_live d unfolding drawing_def by blast
  from edit_mode_paints_missing_corner[OF d _ _ this, of "blank_image 100 100" "\<lambda>ps p. False"] show ?thesis
    by (auto simp: sample_canvas_def CanvasBase_new_def)
qed

end
