(* ===== verification/Json_Codec.thy ===== *)
theory Json_Codec
  imports Qt_Values Rounding
begin

text \<open>
  The annotation files: \<^verbatim>\<open>src/controllers/jsonManager.h\<close> and
  \<^verbatim>\<open>jsonManager.cpp\<close>. The JSON values are those of nlohmann's library with the
  insertion-ordered objects the program selects; the accessors follow its documentation: a
  constant subscript with a missing key or an index past the end is undefined, a wrong type
  throws. The text codec (\<^verbatim>\<open>operator>>\<close> and \<^verbatim>\<open>dump\<close>) is the pair of
  parameters \<^verbatim>\<open>parse\<close> and \<^verbatim>\<open>dump\<close> here, with the locale \<^verbatim>\<open>json_codec\<close> for what
  is needed of it; the library's codec is modelled in the theories from \<^verbatim>\<open>Json_Utf8\<close> to \<^verbatim>\<open>Json_Roundtrip\<close>.
\<close>

subsection \<open>JSON values\<close>

datatype json =
    Null
  | Boolean bool
  | Integer int
  | Float rat
  | Str string
  | Array "json list"
  | Object "(string \<times> json) list"

fun json_empty :: "json \<Rightarrow> bool" where
  "json_empty Null = True"
| "json_empty (Array xs) = (xs = [])"
| "json_empty (Object kvs) = (kvs = [])"
| "json_empty _ = False"

fun json_key :: "json \<Rightarrow> string \<Rightarrow> json result" where
  "json_key (Object kvs) k =
     (case map_of kvs k of None \<Rightarrow> Inl (Undefined ''const operator[] with a missing key'') | Some v \<Rightarrow> Inr v)"
| "json_key _ k = Inl (StdException ''type_error'')"

fun json_index :: "json \<Rightarrow> nat \<Rightarrow> json result" where
  "json_index (Array xs) i =
     (if i < length xs then Inr (xs ! i) else Inl (Undefined ''const operator[] past the end''))"
| "json_index _ i = Inl (StdException ''type_error'')"

fun get_string :: "json \<Rightarrow> string result" where
  "get_string (Str s) = Inr s"
| "get_string _ = Inl (StdException ''type_error'')"

fun get_int :: "json \<Rightarrow> int result" where
  "get_int (Integer i) = Inr (to_int32 i)"
| "get_int (Float r) = double_to_int r"
| "get_int (Boolean b) = Inr (if b then 1 else 0)"
| "get_int _ = Inl (StdException ''type_error'')"

text \<open>\<^verbatim>\<open>double\<close> has no conversion from a boolean; an integer that is no double is rounded.\<close>

fun get_double :: "json \<Rightarrow> rat result" where
  "get_double (Integer i) = Inr (to_double (of_int i))"
| "get_double (Float r) = Inr r"
| "get_double _ = Inl (StdException ''type_error'')"

text \<open>\<^verbatim>\<open>j.value(key, default)\<close>\<close>

fun json_value :: "(json \<Rightarrow> 'a result) \<Rightarrow> json \<Rightarrow> string \<Rightarrow> 'a \<Rightarrow> 'a result" where
  "json_value get (Object kvs) k d = (case map_of kvs k of None \<Rightarrow> Inr d | Some v \<Rightarrow> get v)"
| "json_value get _ k d = Inl (StdException ''type_error'')"

text \<open>What a range-based \<^verbatim>\<open>for\<close> visits.\<close>

fun json_range :: "json \<Rightarrow> json list" where
  "json_range Null = []"
| "json_range (Array xs) = xs"
| "json_range (Object kvs) = map snd kvs"
| "json_range v = [v]"

text \<open>\<^verbatim>\<open>j[key] = v\<close> keeps the place of a key that is there and appends a new one.\<close>

fun obj_set :: "string \<Rightarrow> json \<Rightarrow> (string \<times> json) list \<Rightarrow> (string \<times> json) list" where
  "obj_set k v [] = [(k, v)]"
| "obj_set k v ((k', v') # kvs) = (if k = k' then (k, v) # kvs else (k', v') # obj_set k v kvs)"

text \<open>\<^verbatim>\<open>j.emplace_back(v)\<close> on a null or array value\<close>

fun json_emplace_back :: "json \<Rightarrow> json \<Rightarrow> json result" where
  "json_emplace_back Null v = Inr (Array [v])"
| "json_emplace_back (Array xs) v = Inr (Array (xs @ [v]))"
| "json_emplace_back _ v = Inl (StdException ''type_error'')"

subsection \<open>Records of a file\<close>

record shape_s =
  label :: string
  points :: "QPointF list"
  group_id :: int
  description :: string
  shape_type :: string
  flags :: string
  mask :: int

record root_s =
  version :: string
  root_flags :: string
  root_shapes :: "shape_s list"
  imagePath :: string
  imageData :: string
  imageHeight :: string
  imageWidth :: string

definition root_empty :: root_s where
  "root_empty = \<lparr>version = [], root_flags = [], root_shapes = [], imagePath = [], imageData = [],
                 imageHeight = [], imageWidth = []\<rparr>"

subsection \<open>Numbers in strings\<close>

text \<open>
  \<^verbatim>\<open>std::stoi\<close>: leading white space, an optional sign, and as many digits as there
  are; it throws if there is none or the value does not fit 32 bits.
\<close>

fun skip_space :: "string \<Rightarrow> string" where
  "skip_space (c # cs) = (if c \<in> {CHR '' '', CHR 0x09, CHR 0x0A, CHR 0x0B, CHR 0x0C, CHR 0x0D} then skip_space cs else c # cs)"
| "skip_space [] = []"

definition digits_value :: "string \<Rightarrow> int result" where
  "digits_value cs =
     (let ds = takeWhile (\<lambda>c. char_digit c \<noteq> None) cs
      in case (ds, read_digits 0 ds) of
           ([], _) \<Rightarrow> Inl (StdException ''stoi: invalid argument'')
         | (_, None) \<Rightarrow> Inl (StdException ''stoi: invalid argument'')
         | (_, Some n) \<Rightarrow> Inr (int n))"

definition stoi :: "string \<Rightarrow> int result" where
  "stoi s =
     bind_result
       (case skip_space s of
          [] \<Rightarrow> Inl (StdException ''stoi: invalid argument'')
        | c # cs \<Rightarrow> if c = CHR ''-'' then bind_result (digits_value cs) (\<lambda>n. Inr (- n))
                    else if c = CHR ''+'' then digits_value cs
                    else digits_value (c # cs)) (\<lambda>n.
       if - (2 ^ 31) \<le> n \<and> n < 2 ^ 31 then Inr n else Inl (StdException ''stoi: out of range''))"

definition to_string :: "int \<Rightarrow> string" where
  "to_string i = QString_number i"

subsection \<open>Reading\<close>

definition string_field :: "json \<Rightarrow> string \<Rightarrow> string \<Rightarrow> string result" where
  "string_field j probe key =
     bind_result (json_key j probe) (\<lambda>v. if json_empty v then Inr [] else json_value get_string j key [])"

definition int_field :: "json \<Rightarrow> string \<Rightarrow> int result" where
  "int_field j key =
     bind_result (json_key j key) (\<lambda>v. if json_empty v then Inr 0 else json_value get_int j key 0)"

definition from_json_point :: "json \<Rightarrow> QPointF result" where
  "from_json_point j =
     bind_result (json_index j 0) (\<lambda>jx. bind_result (get_double jx) (\<lambda>x.
     bind_result (json_index j 1) (\<lambda>jy. bind_result (get_double jy) (\<lambda>y.
     Inr (QPointF x y)))))"

definition from_json_shape :: "json \<Rightarrow> shape_s result" where
  "from_json_shape j =
     bind_result (string_field j ''label'' ''label'') (\<lambda>lb.
     bind_result (string_field j ''description'' ''description'') (\<lambda>de.
     bind_result (string_field j ''shape_type'' ''shape_type'') (\<lambda>ty.
     bind_result (string_field j ''flags'' ''flags'') (\<lambda>fl.
     bind_result (int_field j ''group_id'') (\<lambda>gr.
     bind_result (int_field j ''mask'') (\<lambda>ma.
     bind_result (json_key j ''points'') (\<lambda>jp.
     bind_result (map_result from_json_point (json_range jp)) (\<lambda>ps.
     Inr \<lparr>label = lb, points = ps, group_id = gr, description = de, shape_type = ty, flags = fl, mask = ma\<rparr>))))))))"

text \<open>
  The root is filled field by field: an exception leaves what was written before it. The
  \<^verbatim>\<open>flags\<close> of the root are read from the key \<^verbatim>\<open>version\<close>.
\<close>

definition set_from :: "'a result \<Rightarrow> ('a \<Rightarrow> 's \<Rightarrow> 's) \<Rightarrow> 's \<Rightarrow> 's outcome" where
  "set_from r f s = (case r of Inl e \<Rightarrow> (s, Some e) | Inr x \<Rightarrow> (f x s, None))"

fun push_shapes :: "json list \<Rightarrow> root_s \<Rightarrow> root_s outcome" where
  "push_shapes [] rt = (rt, None)"
| "push_shapes (j # js) rt =
     and_then (set_from (from_json_shape j) (\<lambda>s r. r\<lparr>root_shapes := root_shapes r @ [s]\<rparr>) rt) (push_shapes js)"

definition from_json_root :: "json \<Rightarrow> root_s \<Rightarrow> root_s outcome" where
  "from_json_root j rt =
     and_then (set_from (string_field j ''version'' ''version'') (\<lambda>v r. r\<lparr>version := v\<rparr>) rt) (\<lambda>r1.
     and_then (set_from (string_field j ''flags'' ''version'') (\<lambda>v r. r\<lparr>root_flags := v\<rparr>) r1) (\<lambda>r2.
     and_then (case json_key j ''shapes'' of Inl e \<Rightarrow> (r2, Some e) | Inr js \<Rightarrow> push_shapes (json_range js) r2) (\<lambda>r3.
     and_then (set_from (string_field j ''imagePath'' ''imagePath'') (\<lambda>v r. r\<lparr>imagePath := v\<rparr>) r3) (\<lambda>r4.
     and_then (set_from (string_field j ''imageData'' ''imageData'') (\<lambda>v r. r\<lparr>imageData := v\<rparr>) r4) (\<lambda>r5.
     and_then (set_from (int_field j ''imageHeight'') (\<lambda>v r. r\<lparr>imageHeight := to_string v\<rparr>) r5) (\<lambda>r6.
     set_from (int_field j ''imageWidth'') (\<lambda>v r. r\<lparr>imageWidth := to_string v\<rparr>) r6))))))"

subsection \<open>Writing\<close>

definition to_json_point :: "json \<Rightarrow> QPointF \<Rightarrow> json result" where
  "to_json_point j p = json_emplace_back j (Array [Float (px p), Float (py p)])"

fun fold_points :: "json \<Rightarrow> QPointF list \<Rightarrow> json result" where
  "fold_points j [] = Inr j"
| "fold_points j (p # ps) = bind_result (to_json_point j p) (\<lambda>j'. fold_points j' ps)"

definition to_json_shape :: "shape_s \<Rightarrow> json result" where
  "to_json_shape s =
     bind_result (fold_points Null (points s)) (\<lambda>obj_point.
     Inr (Object (obj_set ''mask'' (Integer (mask s))
                 (obj_set ''flags'' (Str (flags s))
                 (obj_set ''shape_type'' (Str (shape_type s))
                 (obj_set ''description'' (Str (description s))
                 (obj_set ''group_id'' (Integer (group_id s))
                 (obj_set ''points'' obj_point
                 (obj_set ''label'' (Str (label s)) [])))))))))"

definition to_json_root :: "root_s \<Rightarrow> json result" where
  "to_json_root rt =
     bind_result (map_result to_json_shape (root_shapes rt)) (\<lambda>obj_shape.
     bind_result (stoi (imageHeight rt)) (\<lambda>h.
     bind_result (stoi (imageWidth rt)) (\<lambda>w.
     Inr (Object (obj_set ''imageWidth'' (Integer w)
                 (obj_set ''imageHeight'' (Integer h)
                 (obj_set ''imageData'' (Str (imageData rt))
                 (obj_set ''imagePath'' (Str (imagePath rt))
                 (obj_set ''shapes'' (Array obj_shape)
                 (obj_set ''flags'' (Str (root_flags rt))
                 (obj_set ''version'' (Str (version rt)) [])))))))))))"

subsection \<open>Files\<close>

text \<open>
  A file system maps names to texts. Reading a missing or malformed file throws inside the
  \<^verbatim>\<open>try\<close>. Writing opens the file, which empties it, before \<^verbatim>\<open>dump\<close> can
  throw (a string that is no UTF-8: \<^verbatim>\<open>None\<close>); a file that cannot be opened goes unnoticed.
\<close>

type_synonym 't files = "string \<Rightarrow> 't option"

definition readJson :: "('t \<Rightarrow> json option) \<Rightarrow> 't files \<Rightarrow> string \<Rightarrow> root_s \<Rightarrow> (bool \<times> root_s) result" where
  "readJson parse fs filename rt =
     (case (case fs filename of None \<Rightarrow> None | Some t \<Rightarrow> parse t) of
        None \<Rightarrow> Inr (False, rt)
      | Some j \<Rightarrow>
          (case from_json_root j rt of
             (r, None) \<Rightarrow> Inr (True, r)
           | (r, Some e) \<Rightarrow> if is_std_exception e then Inr (False, r) else Inl e))"

definition writeJson ::
    "(json \<Rightarrow> 't option) \<Rightarrow> 't \<Rightarrow> (string \<Rightarrow> bool) \<Rightarrow> 't files \<Rightarrow> string \<Rightarrow> root_s \<Rightarrow> (bool \<times> 't files) result" where
  "writeJson dump empty_text writable fs filename rt =
     (case to_json_root rt of
        Inl e \<Rightarrow> if is_std_exception e then Inr (False, fs) else Inl e
      | Inr j \<Rightarrow>
          (case dump j of
             None \<Rightarrow> Inr (False, if writable filename then fs(filename \<mapsto> empty_text) else fs)
           | Some t \<Rightarrow> Inr (True, if writable filename then fs(filename \<mapsto> t) else fs)))"

subsection \<open>Round trips\<close>

lemma stoi_to_string:
  assumes "- (2 ^ 31) \<le> i" "i < 2 ^ 31"
  shows "stoi (to_string i) = Inr i"
proof -
  have dig: "char_digit c \<noteq> None \<and> c \<notin> {CHR '' '', CHR 0x09, CHR 0x0A, CHR 0x0B, CHR 0x0C, CHR 0x0D, CHR ''-'', CHR ''+''}"
    if "c \<in> set (nat_digits n)" for c n
  proof -
    have "\<exists>d<10. c = digit_char d" using that by (rule nat_digits_chars)
    then obtain d where d: "d < 10" "c = digit_char d" by blast
    then have "char_digit c = Some d" by simp
    moreover have "char_digit x = None" if "x \<in> {CHR '' '', CHR 0x09, CHR 0x0A, CHR 0x0B, CHR 0x0C, CHR 0x0D, CHR ''-'', CHR ''+''}" for x
      using that by (auto simp: char_digit_def Let_def)
    ultimately show ?thesis by (metis option.distinct(1))
  qed
  then have tw: "takeWhile (\<lambda>c. char_digit c \<noteq> None) (nat_digits n) = nat_digits n" for n
    by (simp add: takeWhile_eq_all_conv)
  have dv: "digits_value (nat_digits n) = Inr (int n)" for n
    unfolding digits_value_def Let_def tw read_nat_digits by (cases "nat_digits n") auto
  show ?thesis
  proof (cases "i < 0")
    case True
    then show ?thesis using assms dv[of "nat (- i)"] by (simp add: stoi_def to_string_def QString_number_def)
  next
    case False
    obtain c cs where c: "nat_digits (nat i) = c # cs" by (cases "nat_digits (nat i)") auto
    then have "c \<notin> {CHR '' '', CHR 0x09, CHR 0x0A, CHR 0x0B, CHR 0x0C, CHR 0x0D, CHR ''-'', CHR ''+''}"
      using dig[of c "nat i"] by simp
    then show ?thesis using assms False dv[of "nat i"] c by (simp add: stoi_def to_string_def QString_number_def)
  qed
qed

lemma fold_points_Array: "fold_points (Array js) ps = Inr (Array (js @ map (\<lambda>p. Array [Float (px p), Float (py p)]) ps))"
  by (induction ps arbitrary: js) (simp_all add: to_json_point_def)

lemma fold_points_items:
  "\<exists>jp. fold_points Null ps = Inr jp \<and> json_range jp = map (\<lambda>p. Array [Float (px p), Float (py p)]) ps"
  by (cases ps) (simp_all add: to_json_point_def fold_points_Array)

lemma from_to_point: "from_json_point (Array [Float (px p), Float (py p)]) = Inr p"
  by (simp add: from_json_point_def)

text \<open>The numbers of a shape are of type \<^verbatim>\<open>int\<close>.\<close>

definition shape_fits :: "shape_s \<Rightarrow> bool" where
  "shape_fits s \<longleftrightarrow> fits_int (group_id s) \<and> fits_int (mask s)"

lemma from_to_shape:
  assumes "shape_fits s"
  shows "\<exists>j. to_json_shape s = Inr j \<and> from_json_shape j = Inr s"
proof -
  obtain jp where jp: "fold_points Null (points s) = Inr jp" "json_range jp = map (\<lambda>p. Array [Float (px p), Float (py p)]) (points s)"
    using fold_points_items by blast
  have "map_result from_json_point (map (\<lambda>p. Array [Float (px p), Float (py p)]) ps) = Inr ps" for ps
    by (induction ps) (simp_all add: from_to_point)
  with jp assms show ?thesis
    by (simp add: to_json_shape_def from_json_shape_def string_field_def int_field_def shape_fits_def)
qed

lemma to_json_shapes_total: "\<exists>js. map_result to_json_shape ss = Inr js"
proof (rule map_result_ex)
  show "\<exists>j. to_json_shape s = Inr j" for s
    using fold_points_items[of "points s"] by (auto simp: to_json_shape_def)
qed

lemma from_to_shapes:
  "list_all shape_fits ss \<Longrightarrow> \<exists>js. map_result to_json_shape ss = Inr js \<and> (\<forall>r. push_shapes js r = (r\<lparr>root_shapes := root_shapes r @ ss\<rparr>, None))"
proof (induction ss)
  case (Cons s ss)
  then obtain js where js: "map_result to_json_shape ss = Inr js"
      "\<forall>r. push_shapes js r = (r\<lparr>root_shapes := root_shapes r @ ss\<rparr>, None)" by auto
  obtain j where j: "to_json_shape s = Inr j" "from_json_shape j = Inr s" using from_to_shape[of s] Cons.prems by auto
  with js show ?case by (intro exI[of _ "j # js"]) (simp add: set_from_def)
qed simp

lemma from_to_root:
  assumes "imageHeight rt = to_string h" "imageWidth rt = to_string w"
    and "- (2 ^ 31) \<le> h" "h < 2 ^ 31" "- (2 ^ 31) \<le> w" "w < 2 ^ 31" "list_all shape_fits (root_shapes rt)"
  shows "\<exists>j. to_json_root rt = Inr j \<and> from_json_root j root_empty = (rt\<lparr>root_flags := version rt\<rparr>, None)"
proof -
  obtain js where js: "map_result to_json_shape (root_shapes rt) = Inr js"
      "\<forall>r. push_shapes js r = (r\<lparr>root_shapes := root_shapes r @ root_shapes rt\<rparr>, None)"
    using from_to_shapes[OF assms(7)] by blast
  moreover have "fits_int h" "fits_int w" using assms(3-6) by (simp_all add: fits_int_def)
  ultimately show ?thesis
    using stoi_to_string[OF assms(3,4)] stoi_to_string[OF assms(5,6)] assms(1,2)
    by (simp add: to_json_root_def from_json_root_def string_field_def int_field_def set_from_def root_empty_def)
qed

lemma write_read_json:
  assumes "\<And>j. to_json_root rt = Inr j \<Longrightarrow> \<exists>t. dump j = Some t \<and> parse t = Some j" and "writable name"
    and "imageHeight rt = to_string h" and "imageWidth rt = to_string w"
    and "- (2 ^ 31) \<le> h" and "h < 2 ^ 31" and "- (2 ^ 31) \<le> w" and "w < 2 ^ 31" and "list_all shape_fits (root_shapes rt)"
  shows "\<exists>fs'. writeJson dump empty_text writable fs name rt = Inr (True, fs') \<and>
     readJson parse fs' name root_empty = Inr (True, rt\<lparr>root_flags := version rt\<rparr>)"
proof -
  obtain j where j: "to_json_root rt = Inr j" "from_json_root j root_empty = (rt\<lparr>root_flags := version rt\<rparr>, None)"
    using from_to_root[OF assms(3-9)] by blast
  obtain t where t: "dump j = Some t" "parse t = Some j" using assms(1) j(1) by blast
  with j assms(2) show ?thesis by (simp add: writeJson_def readJson_def)
qed

text \<open>
  What the reader and the writer of files need of the text codec: the values that are
  \<^verbatim>\<open>good\<close> can be written, and reading the text gives them back.
\<close>

locale json_codec =
  fixes dump :: "json \<Rightarrow> 't option" and parse :: "'t \<Rightarrow> json option" and good :: "json \<Rightarrow> bool"
  assumes read_back_good: "good j \<Longrightarrow> \<exists>t. dump j = Some t \<and> parse t = Some j"
begin

lemma good_root_reads_back:
  assumes "\<And>j. to_json_root rt = Inr j \<Longrightarrow> good j" and "writable name"
    and "imageHeight rt = to_string h" and "imageWidth rt = to_string w"
    and "- (2 ^ 31) \<le> h" and "h < 2 ^ 31" and "- (2 ^ 31) \<le> w" and "w < 2 ^ 31" and "list_all shape_fits (root_shapes rt)"
  shows "\<exists>fs'. writeJson dump empty_text writable fs name rt = Inr (True, fs') \<and>
     readJson parse fs' name root_empty = Inr (True, rt\<lparr>root_flags := version rt\<rparr>)"
  by (rule write_read_json[where h = h and w = w]) (use assms read_back_good in auto)

end

definition sample_root :: root_s where
  "sample_root = \<lparr>version = ''1.0'', root_flags = [],
     root_shapes = [\<lparr>label = ''cat'', points = [QPointF 1 2, QPointF 3 4], group_id = 0, description = [],
                     shape_type = ''rectangle'', flags = [], mask = 0\<rparr>],
     imagePath = ''a.png'', imageData = [], imageHeight = to_string 512, imageWidth = to_string 640\<rparr>"

text \<open>
  An image size that is no number (a root that was never filled has the empty string) makes
  writing fail without touching any file; a file that is missing or malformed makes reading fail
  and leaves the root as it was.
\<close>

theorem annotation_file_errors:
  "writeJson dump empty_text writable fs name (rt\<lparr>imageHeight := []\<rparr>) = Inr (False, fs) \<and>
   (fs name = None \<longrightarrow> readJson parse fs name rt = Inr (False, rt)) \<and>
   (\<forall>t. fs name = Some t \<and> parse t = None \<longrightarrow> readJson parse fs name rt = Inr (False, rt))"
proof -
  obtain js where "map_result to_json_shape (root_shapes rt) = Inr js" using to_json_shapes_total by blast
  then show ?thesis
    by (simp add: writeJson_def readJson_def to_json_root_def stoi_def)
qed

theorem annotation_file_errors_witness:
  "readJson Some (\<lambda>_. None) ''missing.json'' sample_root = Inr (False, sample_root)"
  using annotation_file_errors[where fs = "\<lambda>_. None" and parse = Some and name = "''missing.json''" and rt = sample_root]
  by simp

text \<open>
  Reading does not check that the keys are there: a file whose top-level object lacks the
  version reads a missing key through a constant subscript, which is undefined and is not caught.
\<close>

theorem missing_key_is_undefined:
  assumes "fs name = Some t" and "parse t = Some (Object kvs)" and "map_of kvs ''version'' = None"
  shows "readJson parse fs name rt = Inl (Undefined ''const operator[] with a missing key'')"
  using assms by (simp add: readJson_def from_json_root_def string_field_def set_from_def)

theorem missing_key_is_undefined_witness:
  "readJson Some [''b.json'' \<mapsto> Object []] ''b.json'' root_empty = Inl (Undefined ''const operator[] with a missing key'')"
  by (rule missing_key_is_undefined[where t = "Object []" and kvs = "[]"]) simp_all

end
