(* ===== verification/File_Manager.thy ===== *)
theory File_Manager
  imports Json_Codec "HOL-Library.List_Lexorder" "HOL-Library.Char_ord"
begin

text \<open>
  The file manager, \<^verbatim>\<open>src/controllers/filemanager.h\<close> and \<^verbatim>\<open>filemanager.cpp\<close>:
  the list of image files, the position in it, and the paths it saves to. The signals it emits
  are returned in order. The directory listing, the absolute path of a file and the answer of the
  directory dialog come from the system: they are parameters.
\<close>

subsection \<open>State\<close>

datatype FileMode = Close | SingleImage | MultiImage | ThirdDImage

record FileManager =
  fm_root :: root_s
  imageFiles :: "string list"
  outputFiles :: "string list"
  labelFile :: string
  m_path :: string
  m_savePath :: string
  curIdx :: int
  changeNotSaved :: bool
  isOpenJsonFile :: bool
  fm_mode :: FileMode

datatype fm_signal =
    prevEnableChanged bool
  | nextEnableChanged bool
  | fileListSetup

text \<open>The constructor does not initialise \<^verbatim>\<open>curIdx\<close>: it has the value the memory had.\<close>

definition FileManager_new :: "int \<Rightarrow> FileManager" where
  "FileManager_new garbage =
     \<lparr>fm_root = root_empty, imageFiles = [], outputFiles = [], labelFile = [], m_path = [], m_savePath = [],
      curIdx = garbage, changeNotSaved = False, isOpenJsonFile = False, fm_mode = Close\<rparr>"

subsection \<open>File names\<close>

text \<open>
  \<^verbatim>\<open>QFileInfo\<close>: the file name is what follows the last slash; its base name ends
  before the first dot, its suffix starts after the last one.
\<close>

definition getFileName :: "string \<Rightarrow> string" where
  "getFileName f = rev (takeWhile (\<lambda>c. c \<noteq> CHR ''/'') (rev f))"

definition getBaseName :: "string \<Rightarrow> string" where
  "getBaseName f = takeWhile (\<lambda>c. c \<noteq> CHR ''.'') (getFileName f)"

definition getSuffix :: "string \<Rightarrow> string" where
  "getSuffix f = (let n = getFileName f
                  in if CHR ''.'' \<in> set n then rev (takeWhile (\<lambda>c. c \<noteq> CHR ''.'') (rev n)) else [])"

definition FILENAME_DIR_LABEL :: string where
  "FILENAME_DIR_LABEL = ''_labels.json''"

subsection \<open>Queries\<close>

definition fm_count :: "FileManager \<Rightarrow> int" where
  "fm_count m = int (length (imageFiles m))"

definition imageFileNameAt :: "FileManager \<Rightarrow> int \<Rightarrow> string result" where
  "imageFileNameAt m idx = vec_at (imageFiles m) idx"

definition getCurrentImageFile :: "FileManager \<Rightarrow> string result" where
  "getCurrentImageFile m = bind_result (vec_at (imageFiles m) (curIdx m)) (\<lambda>f. Inr (m_path m @ f))"

definition getCurrentOutputFile :: "FileManager \<Rightarrow> string result" where
  "getCurrentOutputFile m =
     (if fm_mode m = ThirdDImage then vec_at (outputFiles m) 0 else vec_at (outputFiles m) (curIdx m))"

definition hasChangeNotSaved :: "FileManager \<Rightarrow> bool" where "hasChangeNotSaved m = changeNotSaved m"
definition IsOpenJsonFile :: "FileManager \<Rightarrow> bool" where "IsOpenJsonFile m = isOpenJsonFile m"
definition setChangeNotSaved :: "FileManager \<Rightarrow> FileManager" where
  "setChangeNotSaved m = m\<lparr>changeNotSaved := True\<rparr>"
definition resetChangeNotSaved :: "FileManager \<Rightarrow> FileManager" where
  "resetChangeNotSaved m = m\<lparr>changeNotSaved := False\<rparr>"
definition clearAllImg :: "FileManager \<Rightarrow> FileManager" where
  "clearAllImg m = m\<lparr>imageFiles := []\<rparr>"

text \<open>Both write the member they return.\<close>

definition getLabelFile :: "FileManager \<Rightarrow> (string \<times> FileManager) result" where
  "getLabelFile m =
     (if imageFiles m \<noteq> []
      then bind_result (imageFileNameAt m (curIdx m)) (\<lambda>f.
           let l = getBaseName f @ FILENAME_DIR_LABEL in Inr (l, m\<lparr>labelFile := l\<rparr>))
      else Inr (labelFile m, m))"

definition getSavePath :: "(string \<Rightarrow> string) \<Rightarrow> FileManager \<Rightarrow> string \<times> FileManager" where
  "getSavePath chooseDir m =
     (if m_savePath m = [] then let p = chooseDir (m_path m) in (p, m\<lparr>m_savePath := p\<rparr>)
      else (m_savePath m, m))"

subsection \<open>Operations\<close>

definition emitPrevNextEnable :: "FileManager \<Rightarrow> fm_signal list" where
  "emitPrevNextEnable m = [prevEnableChanged (curIdx m > 0), nextEnableChanged (curIdx m < fm_count m - 1)]"

definition selectFile :: "int \<Rightarrow> FileManager \<Rightarrow> FileManager \<times> fm_signal list" where
  "selectFile idx m =
     (if curIdx m = idx then (m, []) else let m1 = m\<lparr>curIdx := idx\<rparr> in (m1, emitPrevNextEnable m1))"

definition prevFile :: "FileManager \<Rightarrow> FileManager \<times> fm_signal list" where
  "prevFile m = (if curIdx m > 0 then selectFile (curIdx m - 1) m else (m, []))"

definition nextFile :: "FileManager \<Rightarrow> FileManager \<times> fm_signal list" where
  "nextFile m = (if curIdx m < fm_count m - 1 then selectFile (curIdx m + 1) m else (m, []))"

definition FileManager_close :: "FileManager \<Rightarrow> FileManager \<times> fm_signal list" where
  "FileManager_close m =
     (m\<lparr>fm_mode := Close, imageFiles := [], outputFiles := [], labelFile := [], curIdx := 0, changeNotSaved := False\<rparr>,
      [prevEnableChanged False, nextEnableChanged False, fileListSetup])"

definition setSingleImage :: "(string \<Rightarrow> string) \<Rightarrow> string \<Rightarrow> FileManager \<Rightarrow> FileManager \<times> fm_signal list" where
  "setSingleImage absolutePath fileName m =
     (let m1 = m\<lparr>imageFiles := [], outputFiles := [], labelFile := [], isOpenJsonFile := False, changeNotSaved := False,
                 fm_mode := SingleImage, curIdx := 0\<rparr>;
          m2 = m1\<lparr>imageFiles := [fileName], labelFile := absolutePath fileName @ FILENAME_DIR_LABEL\<rparr>
      in (m2, emitPrevNextEnable m2 @ [fileListSetup]))"

definition setMultiImage ::
    "(string \<Rightarrow> string list) \<Rightarrow> (string \<Rightarrow> string) \<Rightarrow> string \<Rightarrow> FileManager \<Rightarrow> FileManager \<times> fm_signal list" where
  "setMultiImage entryList absolutePath path m =
     (let m1 = m\<lparr>imageFiles := [], outputFiles := [], labelFile := [], changeNotSaved := False, m_path := path @ ''/'',
                 fm_mode := MultiImage, curIdx := 0\<rparr>;
          files = sort (entryList (m_path m1));
          m2 = m1\<lparr>imageFiles := files\<rparr>;
          m3 = (if 0 < length files then m2\<lparr>labelFile := absolutePath (hd files) @ FILENAME_DIR_LABEL\<rparr> else m2)
      in (m3, emitPrevNextEnable m3 @ [fileListSetup]))"

definition set3DImage :: "string list \<Rightarrow> FileManager \<Rightarrow> FileManager \<times> fm_signal list" where
  "set3DImage fileNames m =
     (let m1 = m\<lparr>imageFiles := sort fileNames, outputFiles := [], labelFile := [], changeNotSaved := False,
                 fm_mode := ThirdDImage, curIdx := 0\<rparr>
      in (m1, emitPrevNextEnable m1 @ [fileListSetup]))"

text \<open>
  \<^verbatim>\<open>openFile(root, fileName)\<close>: the success flag, the root it filled (also partly, when
  reading failed) and the manager.
\<close>

definition FileManager_openFile ::
    "('t \<Rightarrow> json option) \<Rightarrow> 't files \<Rightarrow> (string \<Rightarrow> string) \<Rightarrow> root_s \<Rightarrow> string \<Rightarrow> FileManager \<Rightarrow>
     (bool \<times> root_s \<times> FileManager) result" where
  "FileManager_openFile parse fs absolutePath r0 fileName m =
     bind_result (readJson parse fs fileName r0) (\<lambda>(ok, r).
       if \<not> ok then Inr (False, r, m)
       else let m1 = clearAllImg (m\<lparr>fm_root := r, isOpenJsonFile := True\<rparr>)
            in Inr (True, r, m1\<lparr>m_savePath := absolutePath fileName, labelFile := getFileName fileName\<rparr>))"

subsection \<open>Moving a cursor in a list\<close>

text \<open>
  The contract of a position in a list that can be stepped in both directions: steps stay in
  range, are inverse to each other inside it, and the ends are reached.
\<close>

locale bounded_cursor =
  fixes pos :: "'s \<Rightarrow> int"
    and len :: "'s \<Rightarrow> int"
    and fwd :: "'s \<Rightarrow> 's"
    and bwd :: "'s \<Rightarrow> 's"
  assumes len_fwd: "0 \<le> pos s \<Longrightarrow> pos s < len s \<Longrightarrow> len (fwd s) = len s"
    and len_bwd: "0 \<le> pos s \<Longrightarrow> pos s < len s \<Longrightarrow> len (bwd s) = len s"
    and pos_fwd: "0 \<le> pos s \<Longrightarrow> pos s < len s \<Longrightarrow> pos (fwd s) = min (pos s + 1) (len s - 1)"
    and pos_bwd: "0 \<le> pos s \<Longrightarrow> pos s < len s \<Longrightarrow> pos (bwd s) = max (pos s - 1) 0"
begin

definition in_range :: "'s \<Rightarrow> bool" where
  "in_range s \<longleftrightarrow> 0 \<le> pos s \<and> pos s < len s"

lemma fwd_in_range: "in_range s \<Longrightarrow> in_range (fwd s)"
  using pos_fwd[of s] len_fwd[of s] by (simp add: in_range_def)

lemma bwd_in_range: "in_range s \<Longrightarrow> in_range (bwd s)"
  using pos_bwd[of s] len_bwd[of s] by (simp add: in_range_def)

lemma steps_in_range: "in_range s \<Longrightarrow> in_range (fold (\<lambda>b. if b then fwd else bwd) bs s)"
proof (induction bs arbitrary: s)
  case (Cons b bs)
  have "in_range ((if b then fwd else bwd) s)" using fwd_in_range bwd_in_range Cons.prems by simp
  from Cons.IH[OF this] show ?case by simp
qed simp

lemma bwd_fwd: "in_range s \<Longrightarrow> pos s < len s - 1 \<Longrightarrow> pos (bwd (fwd s)) = pos s"
  using pos_fwd[of s] pos_bwd[of "fwd s"] len_fwd[of s] by (simp add: in_range_def)

lemma fwd_bwd: "in_range s \<Longrightarrow> 0 < pos s \<Longrightarrow> pos (fwd (bwd s)) = pos s"
  using pos_bwd[of s] pos_fwd[of "bwd s"] len_bwd[of s] by (simp add: in_range_def)

lemma fwd_reaches_end:
  "in_range s \<Longrightarrow> pos ((fwd ^^ n) s) = min (pos s + int n) (len s - 1) \<and> len ((fwd ^^ n) s) = len s \<and> in_range ((fwd ^^ n) s)"
  by (induction n) (auto simp: in_range_def pos_fwd len_fwd)

end

interpretation files: bounded_cursor curIdx fm_count "\<lambda>m. fst (nextFile m)" "\<lambda>m. fst (prevFile m)"
  by unfold_locales (auto simp: nextFile_def prevFile_def selectFile_def fm_count_def Let_def)

lemma prev_next_files: "imageFiles (fst (nextFile m)) = imageFiles m" "imageFiles (fst (prevFile m)) = imageFiles m"
  by (simp_all add: nextFile_def prevFile_def selectFile_def Let_def)

subsection \<open>Properties\<close>

text \<open>
  C39. Browsing never leaves the list of files: after opening a non-empty directory every sequence
  of next and previous steps has a current image, steps back and forth cancel inside the list,
  and enough next steps reach the last file.
\<close>

theorem browsing_stays_in_list:
  assumes "entryList (path @ ''/'') = f # fs"
  shows "\<exists>m. m = fst (setMultiImage entryList absolutePath path m0) \<and>
     (\<forall>bs. \<exists>g. getCurrentImageFile (fold (\<lambda>b. if b then \<lambda>m. fst (nextFile m) else (\<lambda>m. fst (prevFile m))) bs m) =
               Inr (path @ ''/'' @ g) \<and> g \<in> set (f # fs)) \<and>
     curIdx (((\<lambda>m. fst (nextFile m)) ^^ length fs) m) = int (length fs)"
proof -
  let ?m = "fst (setMultiImage entryList absolutePath path m0)"
  have files: "imageFiles ?m = sort (f # fs)" "curIdx ?m = 0" "m_path ?m = path @ ''/''"
    using assms by (simp_all add: setMultiImage_def Let_def)
  have len: "length (sort (f # fs)) = Suc (length fs)" by simp
  have r: "files.in_range ?m" using files by (simp add: files.in_range_def fm_count_def)
  have inv: "imageFiles (fold (\<lambda>b. if b then \<lambda>m. fst (nextFile m) else (\<lambda>m. fst (prevFile m))) bs m) = imageFiles m \<and>
      m_path (fold (\<lambda>b. if b then \<lambda>m. fst (nextFile m) else (\<lambda>m. fst (prevFile m))) bs m) = m_path m" for bs m
    by (induction bs arbitrary: m) (auto simp: prev_next_files nextFile_def prevFile_def selectFile_def Let_def)
  have cur: "\<exists>g. getCurrentImageFile (fold (\<lambda>b. if b then \<lambda>m. fst (nextFile m) else (\<lambda>m. fst (prevFile m))) bs ?m) =
               Inr (path @ ''/'' @ g) \<and> g \<in> set (f # fs)" for bs
  proof -
    let ?n = "fold (\<lambda>b. if b then \<lambda>m. fst (nextFile m) else (\<lambda>m. fst (prevFile m))) bs ?m"
    have n: "0 \<le> curIdx ?n" "curIdx ?n < int (length (imageFiles ?n))" "imageFiles ?n = sort (f # fs)" "m_path ?n = path @ ''/''"
      using files.steps_in_range[OF r, of bs] inv[of bs ?m] files(1,3) by (auto simp: files.in_range_def fm_count_def)
    then have "imageFiles ?n ! nat (curIdx ?n) \<in> set (sort (f # fs))"
      by (metis nat_less_iff nth_mem)
    then have "imageFiles ?n ! nat (curIdx ?n) \<in> set (f # fs)" unfolding set_sort .
    with n show ?thesis by (simp add: getCurrentImageFile_def vec_at_def)
  qed
  have "curIdx (((\<lambda>m. fst (nextFile m)) ^^ length fs) ?m) = int (length fs)"
    using files.fwd_reaches_end[OF r, of "length fs"] files len by (simp add: fm_count_def)
  with cur show ?thesis by blast
qed

theorem browsing_stays_in_list_witness:
  "\<exists>m. m = fst (setMultiImage (\<lambda>_. [''b.png'', ''a.png'']) (\<lambda>f. f) ''d'' (FileManager_new 7)) \<and>
     curIdx (((\<lambda>m. fst (nextFile m)) ^^ 1) m) = 1"
  using browsing_stays_in_list[of "\<lambda>_. [''b.png'', ''a.png'']" "''d''" "''b.png''" "[''a.png'']" "\<lambda>f. f" "FileManager_new 7"]
  by auto

text \<open>
  After a directory was browsed, opening a single file gives a current image file that is
  the file's name with the directory still in front of it: the path is right only if no directory
  was opened before.
\<close>

theorem single_image_path_iff:
  "getCurrentImageFile (fst (setSingleImage absolutePath fileName m)) = Inr fileName \<longleftrightarrow> m_path m = []"
  by (simp add: setSingleImage_def getCurrentImageFile_def vec_at_def Let_def)

text \<open>
  Opening a directory does not forget an annotation file that was open: the flag that makes
  saving reuse the old file's image and size stays set, while opening a single image clears it.
\<close>

theorem multi_image_keeps_json_flag:
  "IsOpenJsonFile (fst (setMultiImage entryList absolutePath path m)) = IsOpenJsonFile m \<and>
   fm_root (fst (setMultiImage entryList absolutePath path m)) = fm_root m \<and>
   \<not> IsOpenJsonFile (fst (setSingleImage absolutePath fileName m))"
  by (simp add: setMultiImage_def setSingleImage_def IsOpenJsonFile_def Let_def)

text \<open>
  The annotation file of an image is named after its base name, which ends at the first dot:
  two images of a directory that agree up to that dot share one annotation file, so the second
  save overwrites the first.
\<close>

theorem label_file_collision_iff:
  assumes "0 \<le> i" and "i < fm_count m" and "0 \<le> j" and "j < fm_count m"
  shows "(\<exists>l m1 m2. getLabelFile (m\<lparr>curIdx := i\<rparr>) = Inr (l, m1) \<and> getLabelFile (m\<lparr>curIdx := j\<rparr>) = Inr (l, m2)) \<longleftrightarrow>
     getBaseName (imageFiles m ! nat i) = getBaseName (imageFiles m ! nat j)"
proof -
  have "imageFiles m \<noteq> []" using assms(1,2) by (auto simp: fm_count_def)
  with assms show ?thesis
    by (auto simp: getLabelFile_def imageFileNameAt_def vec_at_def fm_count_def Let_def)
qed

theorem label_file_collision_iff_witness:
  "\<exists>l m1 m2. getLabelFile ((FileManager_new 0)\<lparr>imageFiles := [''a.1.png'', ''a.2.png''], curIdx := 0\<rparr>) = Inr (l, m1) \<and>
     getLabelFile ((FileManager_new 0)\<lparr>imageFiles := [''a.1.png'', ''a.2.png''], curIdx := 1\<rparr>) = Inr (l, m2)"
  using label_file_collision_iff[of 0 "(FileManager_new 0)\<lparr>imageFiles := [''a.1.png'', ''a.2.png'']\<rparr>" 1]
  by (simp add: fm_count_def getBaseName_def getFileName_def)

end
