(* ===== verification/List_Widgets.thy ===== *)
theory List_Widgets
  imports File_Manager
begin

text \<open>
  The widgets with logic of their own: \<^verbatim>\<open>src/ui/customlistwidget.cpp\<close> (the
  lists in the docks), the label line edit of \<^verbatim>\<open>src/ui/labeldialog.cpp\<close> and
  \<^verbatim>\<open>labellineedit.cpp\<close>, the sliders of \<^verbatim>\<open>src/ui/ImageAdj.cpp\<close>, and the
  rectangle helpers of \<^verbatim>\<open>src/qt/qtfunctions.h\<close>. A list widget is its items, the
  selected row and the current row, as Qt documents them; a null item that is dereferenced is
  undefined.
\<close>

subsection \<open>The list widget\<close>

record list_item =
  item_text :: string
  item_icon :: QColor
  item_checkable :: bool
  item_checked :: bool

record list_widget =
  items :: "list_item list"
  selected :: "nat option"

definition widget_empty :: list_widget where
  "widget_empty = \<lparr>items = [], selected = None\<rparr>"

text \<open>\<^verbatim>\<open>iconFromColor\<close>: an invalid colour gives a white icon.\<close>

definition iconFromColor :: "QColor \<Rightarrow> QColor" where
  "iconFromColor c = (if color_valid c then c else color_white)"

definition custom_item :: "string \<Rightarrow> QColor \<Rightarrow> bool \<Rightarrow> bool \<Rightarrow> list_item" where
  "custom_item lb color checkable checked =
     \<lparr>item_text = lb, item_icon = iconFromColor color, item_checkable = checkable, item_checked = checked\<rparr>"

definition addCustomItem :: "string \<Rightarrow> QColor \<Rightarrow> bool \<Rightarrow> list_widget \<Rightarrow> list_widget" where
  "addCustomItem lb color checked w = w\<lparr>items := items w @ [custom_item lb color True checked]\<rparr>"

text \<open>
  \<^verbatim>\<open>QListWidget::insertItem\<close> clamps the row; a selected row at or after it moves down.
\<close>

definition insert_row :: "int \<Rightarrow> list_item \<Rightarrow> list_widget \<Rightarrow> list_widget" where
  "insert_row idx it w =
     (let i = nat (max 0 (min idx (int (length (items w)))))
      in w\<lparr>items := list_insert i it (items w),
           selected := map_option (\<lambda>s. if i \<le> s then Suc s else s) (selected w)\<rparr>)"

definition insertCustomItem :: "string \<Rightarrow> QColor \<Rightarrow> bool \<Rightarrow> int \<Rightarrow> list_widget \<Rightarrow> list_widget" where
  "insertCustomItem lb color checked idx w = insert_row idx (custom_item lb color True checked) w"

definition addCustomItemUncheckable :: "string \<Rightarrow> QColor \<Rightarrow> list_widget \<Rightarrow> list_widget" where
  "addCustomItemUncheckable lb color w = w\<lparr>items := items w @ [custom_item lb color False False]\<rparr>"

definition insertCustomItemUncheckable :: "string \<Rightarrow> QColor \<Rightarrow> int \<Rightarrow> list_widget \<Rightarrow> list_widget" where
  "insertCustomItemUncheckable lb color idx w = insert_row idx (custom_item lb color False False) w"

fun find_row :: "list_item list \<Rightarrow> string \<Rightarrow> nat \<Rightarrow> nat option" where
  "find_row [] lb i = None"
| "find_row (it # its) lb i = (if item_text it = lb then Some i else find_row its lb (Suc i))"

definition findItemByText :: "list_widget \<Rightarrow> string \<Rightarrow> nat option" where
  "findItemByText w lb = find_row (items w) lb 0"

text \<open>\<^verbatim>\<open>takeItem\<close> of a row that does not exist takes nothing; \<^verbatim>\<open>row(nullptr)\<close> is -1.\<close>

definition removeCustomItemByIdx :: "int \<Rightarrow> list_widget \<Rightarrow> list_widget" where
  "removeCustomItemByIdx idx w =
     (if 0 \<le> idx \<and> idx < int (length (items w))
      then w\<lparr>items := list_remove (nat idx) (items w), selected := None\<rparr>
      else w\<lparr>selected := None\<rparr>)"

definition removeCustomItem :: "string \<Rightarrow> list_widget \<Rightarrow> list_widget" where
  "removeCustomItem lb w =
     removeCustomItemByIdx (case findItemByText w lb of None \<Rightarrow> -1 | Some i \<Rightarrow> int i) w"

definition update_row :: "nat option \<Rightarrow> (list_item \<Rightarrow> list_item) \<Rightarrow> list_widget \<Rightarrow> list_widget result" where
  "update_row r f w =
     (case r of None \<Rightarrow> Inl (Undefined ''null QListWidgetItem'')
      | Some i \<Rightarrow> Inr (w\<lparr>items := (items w)[i := f (items w ! i)]\<rparr>))"

definition item_row :: "list_widget \<Rightarrow> int \<Rightarrow> nat option" where
  "item_row w idx = (if 0 \<le> idx \<and> idx < int (length (items w)) then Some (nat idx) else None)"

definition changeCheckState :: "string \<Rightarrow> bool \<Rightarrow> list_widget \<Rightarrow> list_widget result" where
  "changeCheckState lb checked w = update_row (findItemByText w lb) (\<lambda>it. it\<lparr>item_checked := checked\<rparr>) w"

definition changeIconColor :: "string \<Rightarrow> QColor \<Rightarrow> list_widget \<Rightarrow> list_widget result" where
  "changeIconColor lb color w = update_row (findItemByText w lb) (\<lambda>it. it\<lparr>item_icon := iconFromColor color\<rparr>) w"

definition changeIconColorByIdx :: "int \<Rightarrow> QColor \<Rightarrow> list_widget \<Rightarrow> list_widget result" where
  "changeIconColorByIdx idx color w = update_row (item_row w idx) (\<lambda>it. it\<lparr>item_icon := iconFromColor color\<rparr>) w"

definition changeTextByIdx :: "int \<Rightarrow> string \<Rightarrow> list_widget \<Rightarrow> list_widget result" where
  "changeTextByIdx idx txt w = update_row (item_row w idx) (\<lambda>it. it\<lparr>item_text := txt\<rparr>) w"

definition CustomListWidget_clean :: "list_widget \<Rightarrow> list_widget" where
  "CustomListWidget_clean w = w\<lparr>items := [], selected := None\<rparr>"

text \<open>
  A click outside the items clears the selection; a click on one selects it (what
  \<^verbatim>\<open>QListWidget\<close> does). The arrow keys move a selection; without one, Qt's own
  handler \<^verbatim>\<open>qt\<close> runs, a parameter.
\<close>

definition list_mousePress :: "nat option \<Rightarrow> list_widget \<Rightarrow> list_widget" where
  "list_mousePress idx w = (case idx of None \<Rightarrow> w\<lparr>selected := None\<rparr> | Some i \<Rightarrow> w\<lparr>selected := Some i\<rparr>)"

datatype arrow = Key_Up | Key_Down

definition list_keyPress :: "(list_widget \<Rightarrow> list_widget) \<Rightarrow> arrow \<Rightarrow> list_widget \<Rightarrow> list_widget" where
  "list_keyPress qt k w =
     (case selected w of
        None \<Rightarrow> qt w
      | Some i \<Rightarrow>
          let newIdx = (if k = Key_Down then min (int i + 1) (int (length (items w)) - 1) else max (int i - 1) 0)
          in w\<lparr>selected := Some (nat newIdx)\<rparr>)"

subsection \<open>The label line edit\<close>

record label_edit =
  edit_text :: string
  edit_items :: "string list"
  edit_row :: int

text \<open>The list the dialog shows: one row for each shape, none of them current.\<close>

definition LabelLineEdit_new :: "string list \<Rightarrow> label_edit" where
  "LabelLineEdit_new labels = \<lparr>edit_text = [], edit_items = labels, edit_row = -1\<rparr>"

definition LabelLineEdit_keyPress :: "arrow \<Rightarrow> label_edit \<Rightarrow> label_edit result" where
  "LabelLineEdit_keyPress k e =
     (if 0 < length (edit_items e)
      then let step = (if k = Key_Up then -1 else 1);
               newRow = max 0 (min (edit_row e + step) (int (length (edit_items e)) - 1))
           in bind_result (vec_at (edit_items e) newRow) (\<lambda>t. Inr (e\<lparr>edit_row := newRow, edit_text := t\<rparr>))
      else Inr e)"

subsection \<open>The sliders\<close>

text \<open>
  \<^verbatim>\<open>QSlider::setValue\<close> clamps to the range and emits \<^verbatim>\<open>valueChanged\<close>
  only if the value changed; the handler then writes the configuration. The answer lists the
  contrast values sent to the canvas.
\<close>

record slider =
  sl_min :: int
  sl_max :: int
  sl_value :: int

definition slider_setValue :: "int \<Rightarrow> slider \<Rightarrow> slider \<times> int list" where
  "slider_setValue v s =
     (let v1 = max (sl_min s) (min (sl_max s) v)
      in if v1 = sl_value s then (s, []) else (s\<lparr>sl_value := v1\<rparr>, [v1]))"

text \<open>\<^verbatim>\<open>createSlider\<close>: a fresh slider has the range 0 to 99 and the value 0.\<close>

definition createSlider :: "int \<Rightarrow> int \<Rightarrow> int \<Rightarrow> slider" where
  "createSlider mn mx v =
     (let s0 = \<lparr>sl_min = 0, sl_max = 99, sl_value = 0\<rparr>;
          s1 = s0\<lparr>sl_min := mn, sl_max := max mn (sl_max s0), sl_value := max mn (sl_value s0)\<rparr>;
          s2 = s1\<lparr>sl_max := mx, sl_min := min (sl_min s1) mx, sl_value := min mx (sl_value s1)\<rparr>
      in fst (slider_setValue v s2))"

record ImageAdj =
  adj_contrast :: int
  adj_brightness :: int
  contrastSlider :: slider
  brightnessSlider :: slider

subsection \<open>Integer rectangles\<close>

record QRect =
  left :: int
  top :: int
  width :: int
  height :: int

definition right :: "QRect \<Rightarrow> int" where "right r = left r + width r - 1"
definition bottom :: "QRect \<Rightarrow> int" where "bottom r = top r + height r - 1"

text \<open>\<^verbatim>\<open>QRect(topLeft, bottomRight)\<close> counts both corners in.\<close>

definition adjustRect :: "int \<times> int \<Rightarrow> int \<times> int \<Rightarrow> QRect" where
  "adjustRect pt1 pt2 =
     (let x1 = min (fst pt1) (fst pt2); x2 = max (fst pt1) (fst pt2);
          y1 = min (snd pt1) (snd pt2); y2 = max (snd pt1) (snd pt2)
      in \<lparr>left = x1, top = y1, width = x2 - x1 + 1, height = y2 - y1 + 1\<rparr>)"

definition adjustPos :: "QRect \<Rightarrow> QRect \<Rightarrow> QRect" where
  "adjustPos rc rcParent =
     (let x = max (left rc) (left rcParent);
          y = max (top rc) (top rcParent);
          w = min (width rc) (width rcParent);
          h = min (height rc) (height rcParent);
          x1 = (if right rc \<ge> right rcParent then right rcParent - w else x);
          y1 = (if bottom rc \<ge> bottom rcParent then bottom rcParent - h else y)
      in \<lparr>left = x1, top = y1, width = w, height = h\<rparr>)"

definition inside :: "QRect \<Rightarrow> QRect \<Rightarrow> bool" where
  "inside r p \<longleftrightarrow> left p \<le> left r \<and> right r \<le> right p \<and> top p \<le> top r \<and> bottom r \<le> bottom p"

subsection \<open>Lemmas\<close>

definition sel_pos :: "list_widget \<Rightarrow> int" where
  "sel_pos w = (case selected w of None \<Rightarrow> -1 | Some i \<Rightarrow> int i)"

interpretation rows: bounded_cursor sel_pos "\<lambda>w. int (length (items w))" "list_keyPress qt Key_Down" "list_keyPress qt Key_Up" for qt
  by unfold_locales (auto simp: list_keyPress_def sel_pos_def Let_def split: option.splits)

lemma find_row_Some: "find_row its lb i = Some k \<Longrightarrow> \<exists>j < length its. k = i + j \<and> item_text (its ! j) = lb"
proof (induction its arbitrary: i)
  case (Cons it its)
  show ?case
  proof (cases "item_text it = lb")
    case False
    with Cons.IH[of "Suc i"] Cons.prems obtain j where "j < length its" "k = Suc i + j" "item_text (its ! j) = lb" by auto
    then show ?thesis by (intro exI[of _ "Suc j"]) simp
  qed (use Cons in auto)
qed simp

lemma find_row_None: "find_row its lb i = None \<longleftrightarrow> lb \<notin> item_text ` set its"
  by (induction its arbitrary: i) auto

subsection \<open>Properties\<close>

text \<open>
  The arrow keys keep the selection of a list inside its rows, whatever keys are pressed.
\<close>

theorem list_selection_in_range:
  assumes "selected w = Some i" and "i < length (items w)"
  shows "\<exists>k < length (items w).
     selected (fold (\<lambda>b. if b then list_keyPress qt Key_Down else list_keyPress qt Key_Up) bs w) = Some k"
proof -
  have r: "rows.in_range w" using assms by (simp add: rows.in_range_def sel_pos_def)
  have len: "rows.in_range v \<Longrightarrow>
      length (items (fold (\<lambda>b. if b then list_keyPress qt Key_Down else list_keyPress qt Key_Up) bs v)) = length (items v)" for bs v
  proof (induction bs arbitrary: v)
    case (Cons b bs)
    have "rows.in_range ((if b then list_keyPress qt Key_Down else list_keyPress qt Key_Up) v)"
      using rows.fwd_in_range rows.bwd_in_range Cons.prems by simp
    moreover have "length (items ((if b then list_keyPress qt Key_Down else list_keyPress qt Key_Up) v)) = length (items v)"
      using rows.len_fwd[of v qt] rows.len_bwd[of v qt] Cons.prems by (simp add: rows.in_range_def)
    ultimately show ?case using Cons.IH by simp
  qed simp
  from rows.steps_in_range[OF r, of qt bs] show ?thesis
    unfolding rows.in_range_def len[OF r] sel_pos_def by (auto split: option.splits)
qed

theorem list_selection_in_range_witness:
  "\<exists>k < 2. selected (fold (\<lambda>b. if b then list_keyPress id Key_Down else list_keyPress id Key_Up) [True, True, True]
      (list_mousePress (Some 0) (addCustomItem ''b'' color_white True (addCustomItem ''a'' color_white True widget_empty)))) = Some k"
  using list_selection_in_range[of "list_mousePress (Some 0) (addCustomItem ''b'' color_white True (addCustomItem ''a'' color_white True widget_empty))" 0 id "[True, True, True]"]
  by (simp add: list_mousePress_def addCustomItem_def widget_empty_def numeral_2_eq_2)

text \<open>
  Removing by label removes at most the first item with that label and nothing else; changing
  the check mark of a label that is not in the list dereferences a null item, while removing it
  is harmless.
\<close>

theorem list_items_by_label:
  "(lb \<notin> item_text ` set (items w) \<longrightarrow>
     items (removeCustomItem lb w) = items w \<and>
     changeCheckState lb b w = Inl (Undefined ''null QListWidgetItem'')) \<and>
   (lb \<in> item_text ` set (items w) \<longrightarrow>
     (\<exists>i < length (items w). item_text (items w ! i) = lb \<and> items (removeCustomItem lb w) = list_remove i (items w) \<and>
        changeCheckState lb b w = Inr (w\<lparr>items := (items w)[i := (items w ! i)\<lparr>item_checked := b\<rparr>]\<rparr>)))"
proof (cases "find_row (items w) lb 0")
  case None
  then have "lb \<notin> item_text ` set (items w)" by (simp add: find_row_None)
  with None show ?thesis
    by (simp add: removeCustomItem_def changeCheckState_def findItemByText_def removeCustomItemByIdx_def update_row_def)
next
  case (Some i)
  then have i: "i < length (items w)" "item_text (items w ! i) = lb" using find_row_Some[of "items w" lb 0 i] by auto
  then have "lb \<in> item_text ` set (items w)" by (metis image_eqI nth_mem)
  with Some i show ?thesis
    by (auto simp: removeCustomItem_def changeCheckState_def findItemByText_def removeCustomItemByIdx_def update_row_def)
qed

theorem list_items_by_label_witness:
  "changeCheckState ''cat'' True widget_empty = Inl (Undefined ''null QListWidgetItem'')"
  using list_items_by_label[of "''cat''" widget_empty True] by (simp add: widget_empty_def)

text \<open>
  The arrow keys of the label edit never read outside the list: with labels to choose from,
  the edit shows the label of a row of the list after every key.
\<close>

theorem label_edit_shows_row:
  assumes "edit_items e \<noteq> []"
  shows "\<exists>e'. LabelLineEdit_keyPress k e = Inr e' \<and> edit_items e' = edit_items e \<and>
     0 \<le> edit_row e' \<and> edit_row e' < int (length (edit_items e)) \<and> edit_text e' = edit_items e ! nat (edit_row e')"
  using assms by (auto simp: LabelLineEdit_keyPress_def Let_def vec_at_def)

theorem label_edit_shows_row_witness:
  "\<exists>e'. LabelLineEdit_keyPress Key_Up (LabelLineEdit_new [''cat'', ''dog'']) = Inr e' \<and> edit_items e' = [''cat'', ''dog'']"
  using label_edit_shows_row[of "LabelLineEdit_new [''cat'', ''dog'']" Key_Up] by (auto simp: LabelLineEdit_new_def)

text \<open>
  \<^verbatim>\<open>adjustRect\<close> gives the smallest rectangle with both points in it, whichever
  way it is dragged. \<^verbatim>\<open>adjustPos\<close> keeps a rectangle inside its parent whenever it
  is one pixel smaller, but moves one that exactly fits its parent a pixel out at the upper left,
  because \<^verbatim>\<open>right()\<close> and \<^verbatim>\<open>bottom()\<close> count the last pixel.
\<close>

theorem rectangle_helpers:
  "adjustRect p q = adjustRect q p \<and> left (adjustRect p q) = min (fst p) (fst q) \<and>
   right (adjustRect p q) = max (fst p) (fst q) \<and> top (adjustRect p q) = min (snd p) (snd q) \<and>
   bottom (adjustRect p q) = max (snd p) (snd q) \<and>
   (0 < width rc \<and> width rc < width rp \<and> 0 < height rc \<and> height rc < height rp \<longrightarrow> inside (adjustPos rc rp) rp) \<and>
   left (adjustPos rp rp) = left rp - 1 \<and> top (adjustPos rp rp) = top rp - 1"
  by (auto simp: adjustRect_def adjustPos_def right_def bottom_def inside_def Let_def min.commute max.commute)

theorem rectangle_helpers_witness:
  "inside (adjustPos \<lparr>left = -50, top = 900, width = 100, height = 100\<rparr> \<lparr>left = 0, top = 0, width = 640, height = 480\<rparr>)
     \<lparr>left = 0, top = 0, width = 640, height = 480\<rparr>"
  using rectangle_helpers[of "(0, 0)" "(1, 1)" "\<lparr>left = -50, top = 900, width = 100, height = 100\<rparr>"
      "\<lparr>left = 0, top = 0, width = 640, height = 480\<rparr>"] by simp

end
