(* ===== verification/Ini_Config.thy ===== *)
theory Ini_Config
  imports Json_Codec
begin

text \<open>
  The configuration file, \<^verbatim>\<open>3rd/Hv/utils/iniparser.cpp\<close> (the parser that the program
  starts with and saves on exit), with the string helpers it uses from
  \<^verbatim>\<open>3rd/Hv/base/hstring.cpp\<close> and \<^verbatim>\<open>hbase.c\<close>. A tree of nodes keeps comments
  and blank lines, so that saving keeps the layout of the file. The node that receives new entries
  while a file is read (\<^verbatim>\<open>pScopeNode\<close>) is the root or the last child of the root; the state
  of the reading loop says which. What is promised to the program is the locale
  \<^verbatim>\<open>config_store\<close>.
\<close>

subsection \<open>Strings\<close>

definition is_space :: "char \<Rightarrow> bool" where
  "is_space c \<longleftrightarrow> c \<in> {CHR '' '', CHR 0x09, CHR 0x0D, CHR 0x0A}"

definition trimL :: "string \<Rightarrow> string" where
  "trimL s = dropWhile is_space s"

definition trimR :: "string \<Rightarrow> string" where
  "trimR s = rev (dropWhile is_space (rev s))"

definition trim :: "string \<Rightarrow> string" where
  "trim s = trimR (trimL s)"

text \<open>\<^verbatim>\<open>stricmp\<close> ignores the case of letters.\<close>

definition lower :: "char \<Rightarrow> char" where
  "lower c = (let n = of_char c :: nat in if 65 \<le> n \<and> n \<le> 90 then char_of (n + 32) else c)"

definition getboolean :: "string \<Rightarrow> bool" where
  "getboolean s = (s \<in> {''1'', ''y'', ''Y''} \<or> map lower s \<in> {''on'', ''yes'', ''true'', ''enable''})"

text \<open>\<^verbatim>\<open>atoi\<close> is 0 if there is no number; a value outside 32 bits is undefined.\<close>

definition atoi :: "string \<Rightarrow> int result" where
  "atoi s =
     (case stoi s of
        Inr n \<Rightarrow> Inr n
      | Inl e \<Rightarrow> if e = StdException ''stoi: out of range'' then Inl (Undefined ''atoi out of range'') else Inr 0)"

text \<open>\<^verbatim>\<open>std::getline\<close> until it fails: a last line without a newline counts, an empty one does not.\<close>

definition newline :: char where
  "newline = CHR 0x0A"

function getlines :: "string \<Rightarrow> string list" where
  "getlines s =
     (if s = [] then []
      else takeWhile (\<lambda>c. c \<noteq> newline) s # getlines (drop 1 (dropWhile (\<lambda>c. c \<noteq> newline) s)))"
  by pat_completeness auto
termination
proof (relation "measure length")
  fix s :: string assume "s \<noteq> []"
  then have "0 < length s" by simp
  moreover have "length (dropWhile (\<lambda>c. c \<noteq> newline) s) \<le> length s" by (rule length_dropWhile_le)
  ultimately show "(drop 1 (dropWhile (\<lambda>c. c \<noteq> newline) s), s) \<in> measure length"
    unfolding in_measure length_drop by linarith
qed simp

declare getlines.simps [simp del]

subsection \<open>Nodes\<close>

datatype IniType = INI_UNKNOWN | INI_ROOT | INI_SECTION | INI_KEY_VALUE | INI_DIV | INI_SPAN

datatype IniNode = IniNode (node_type: IniType) (node_label: string) (node_value: string) (node_children: "IniNode list")

definition IniNode_Add :: "IniNode \<Rightarrow> IniNode \<Rightarrow> IniNode" where
  "IniNode_Add n p = IniNode (node_type p) (node_label p) (node_value p) (node_children p @ [n])"

definition is_entry :: "IniType \<Rightarrow> string \<Rightarrow> IniNode \<Rightarrow> bool" where
  "is_entry t l n \<longleftrightarrow> node_type n = t \<and> node_label n = l"

definition IniNode_Get :: "IniNode list \<Rightarrow> string \<Rightarrow> IniType \<Rightarrow> IniNode option" where
  "IniNode_Get ns l t = find (is_entry t l) ns"

subsection \<open>The parser object\<close>

text \<open>
  The constructor of a node leaves its type uninitialised, and \<^verbatim>\<open>SetValue\<close> does not set it for
  a root that it creates. What the memory of such a root holds is \<^verbatim>\<open>ini_memory\<close>, an arbitrary value
  that the parser is started with; a value outside the enumeration is treated as
  \<^verbatim>\<open>INI_UNKNOWN\<close> everywhere.
\<close>

record IniParser =
  ini_filepath :: string
  ini_root :: "IniNode option"
  ini_memory :: IniType

definition IniParser_new :: "IniType \<Rightarrow> IniParser" where
  "IniParser_new mem = \<lparr>ini_filepath = [], ini_root = None, ini_memory = mem\<rparr>"

definition root_children :: "IniParser \<Rightarrow> IniNode list" where
  "root_children p = (case ini_root p of None \<Rightarrow> [] | Some r \<Rightarrow> node_children r)"

definition GetValue :: "IniParser \<Rightarrow> string \<Rightarrow> string \<Rightarrow> string" where
  "GetValue p key sect =
     (case ini_root p of
        None \<Rightarrow> []
      | Some r \<Rightarrow>
          (case (if sect \<noteq> [] then IniNode_Get (node_children r) sect INI_SECTION else Some r) of
             None \<Rightarrow> []
           | Some pSection \<Rightarrow>
               (case IniNode_Get (node_children pSection) key INI_KEY_VALUE of None \<Rightarrow> [] | Some kv \<Rightarrow> node_value kv)))"

text \<open>
  \<^verbatim>\<open>SetValue\<close> changes the node that \<^verbatim>\<open>Get\<close> finds, or adds a new one at the end and
  changes that.
\<close>

fun update_entry :: "IniType \<Rightarrow> string \<Rightarrow> (IniNode \<Rightarrow> IniNode) \<Rightarrow> IniNode list \<Rightarrow> IniNode list" where
  "update_entry t l f [] = [f (IniNode t l [] [])]"
| "update_entry t l f (n # ns) = (if is_entry t l n then f n # ns else n # update_entry t l f ns)"

definition set_value :: "string \<Rightarrow> IniNode \<Rightarrow> IniNode" where
  "set_value v n = IniNode (node_type n) (node_label n) v (node_children n)"

definition on_children :: "(IniNode list \<Rightarrow> IniNode list) \<Rightarrow> IniNode \<Rightarrow> IniNode" where
  "on_children f n = IniNode (node_type n) (node_label n) (node_value n) (f (node_children n))"

definition SetValue :: "string \<Rightarrow> string \<Rightarrow> string \<Rightarrow> IniParser \<Rightarrow> IniParser" where
  "SetValue key v sect p =
     (let r = (case ini_root p of None \<Rightarrow> IniNode (ini_memory p) [] [] [] | Some r \<Rightarrow> r);
          put = update_entry INI_KEY_VALUE key (set_value v)
      in p\<lparr>ini_root := Some (on_children (if sect \<noteq> [] then update_entry INI_SECTION sect (on_children put) else put) r)\<rparr>)"

definition Get_int :: "IniParser \<Rightarrow> string \<Rightarrow> string \<Rightarrow> int \<Rightarrow> int result" where
  "Get_int p key sect defvalue =
     (let str = GetValue p key sect in if str = [] then Inr defvalue else atoi str)"

definition Get_bool :: "IniParser \<Rightarrow> string \<Rightarrow> string \<Rightarrow> bool \<Rightarrow> bool" where
  "Get_bool p key sect defvalue =
     (let str = GetValue p key sect in if str = [] then defvalue else getboolean str)"

definition Set_int :: "string \<Rightarrow> int \<Rightarrow> string \<Rightarrow> IniParser \<Rightarrow> IniParser" where
  "Set_int key v sect p = SetValue key (to_string v) sect p"

definition Set_bool :: "string \<Rightarrow> bool \<Rightarrow> string \<Rightarrow> IniParser \<Rightarrow> IniParser" where
  "Set_bool key v sect p = SetValue key (if v then ''true'' else ''false'') sect p"

subsection \<open>Reading\<close>

record ini_load =
  l_root :: "IniNode list"
  l_insec :: bool
  l_div :: string

definition scope_add :: "IniNode \<Rightarrow> ini_load \<Rightarrow> ini_load" where
  "scope_add n st =
     (if l_insec st then st\<lparr>l_root := butlast (l_root st) @ [IniNode_Add n (last (l_root st))]\<rparr>
      else st\<lparr>l_root := l_root st @ [n]\<rparr>)"

text \<open>The pending blank and comment lines become a node of their own before the next entry.\<close>

definition flush :: "ini_load \<Rightarrow> ini_load" where
  "flush st = (if l_div st \<noteq> [] then (scope_add (IniNode INI_DIV (l_div st) [] []) st)\<lparr>l_div := []\<rparr> else st)"

definition tail_comment :: "string \<Rightarrow> IniNode list" where
  "tail_comment content =
     (let comment = dropWhile (\<lambda>c. c \<noteq> CHR ''#'') content
      in if comment \<noteq> [] then [IniNode INI_SPAN comment [] []] else [])"

definition load_content :: "string \<Rightarrow> IniNode list \<Rightarrow> ini_load \<Rightarrow> ini_load" where
  "load_content content spans st =
     (if hd content = CHR ''[''
      then if last content = CHR '']''
           then st\<lparr>l_root := l_root st @ [IniNode INI_SECTION (trim (butlast (tl content))) [] spans], l_insec := True\<rparr>
           else st
      else if CHR ''='' \<in> set content
           then scope_add (IniNode INI_KEY_VALUE (trim (takeWhile (\<lambda>c. c \<noteq> CHR ''='') content))
                  (trim (tl (dropWhile (\<lambda>c. c \<noteq> CHR ''='') content))) spans) st
           else st)"

definition load_line :: "string \<Rightarrow> ini_load \<Rightarrow> ini_load" where
  "load_line strLine st =
     (let content0 = trimL strLine
      in if content0 = [] then st\<lparr>l_div := l_div st @ [newline]\<rparr>
         else
           let content = trimR (takeWhile (\<lambda>c. c \<noteq> CHR ''#'') content0)
           in if content = [] then st\<lparr>l_div := l_div st @ strLine @ [newline]\<rparr>
              else load_content content (tail_comment content0) (flush st))"

definition load_lines :: "string list \<Rightarrow> ini_load \<Rightarrow> ini_load" where
  "load_lines ls st = fold load_line ls st"

definition load_init :: ini_load where
  "load_init = \<lparr>l_root = [], l_insec = False, l_div = []\<rparr>"

definition LoadFromMem :: "string \<Rightarrow> IniParser \<Rightarrow> IniParser" where
  "LoadFromMem data p =
     (let st = load_lines (getlines data) load_init
      in p\<lparr>ini_root := Some (IniNode INI_ROOT [] []
            (l_root st @ (if l_div st \<noteq> [] then [IniNode INI_DIV (l_div st) [] []] else [])))\<rparr>)"

text \<open>The text of a file ends at its first NUL character. A file that cannot be opened leaves the tree.\<close>

definition LoadFromFile :: "string files \<Rightarrow> string \<Rightarrow> IniParser \<Rightarrow> bool \<times> IniParser" where
  "LoadFromFile fs path p =
     (let p1 = p\<lparr>ini_filepath := path\<rparr>
      in case fs path of
           None \<Rightarrow> (False, p1)
         | Some str \<Rightarrow> (True, LoadFromMem (takeWhile (\<lambda>c. c \<noteq> CHR 0x00) str) p1))"

subsection \<open>Writing\<close>

fun dump_node :: "IniNode \<Rightarrow> string \<Rightarrow> string" and dump_nodes :: "IniNode list \<Rightarrow> string \<Rightarrow> string" where
  "dump_node (IniNode t l v cs) str =
     (let str1 = (if t \<noteq> INI_SPAN \<and> str \<noteq> [] \<and> last str \<noteq> newline then str @ [newline] else str);
          str2 = (case t of
                    INI_SECTION \<Rightarrow> str1 @ ''['' @ l @ '']''
                  | INI_KEY_VALUE \<Rightarrow> str1 @ l @ '' = '' @ v
                  | INI_DIV \<Rightarrow> str1 @ l
                  | INI_SPAN \<Rightarrow> str1 @ [CHR 0x09] @ l
                  | _ \<Rightarrow> str1)
      in dump_nodes cs str2)"
| "dump_nodes [] str = str"
| "dump_nodes (n # ns) str = dump_nodes ns (dump_node n str)"

definition DumpString :: "IniParser \<Rightarrow> string" where
  "DumpString p = (case ini_root p of None \<Rightarrow> [] | Some r \<Rightarrow> dump_node r [])"

definition SaveAs :: "(string \<Rightarrow> bool) \<Rightarrow> string \<Rightarrow> string files \<Rightarrow> IniParser \<Rightarrow> bool \<times> string files" where
  "SaveAs can_write path fs p =
     (let str = DumpString p
      in if str = [] then (True, fs)
         else if can_write path then (True, fs(path \<mapsto> str)) else (False, fs))"

definition IniParser_Save :: "(string \<Rightarrow> bool) \<Rightarrow> string files \<Rightarrow> IniParser \<Rightarrow> bool \<times> string files" where
  "IniParser_Save can_write fs p = SaveAs can_write (ini_filepath p) fs p"

subsection \<open>What a configuration store promises\<close>

locale config_store =
  fixes get :: "'p \<Rightarrow> string \<Rightarrow> string \<Rightarrow> string"
    and put :: "string \<Rightarrow> string \<Rightarrow> string \<Rightarrow> 'p \<Rightarrow> 'p"
  assumes get_put: "get (put k v s p) k' s' = (if k = k' \<and> s = s' then v else get p k' s')"
begin

lemma get_same: "get (put k v s p) k s = v"
  by (simp add: get_put)

lemma put_commutes:
  assumes "(k, s) \<noteq> (k', s')"
  shows "get (put k v s (put k' v' s' p)) = get (put k' v' s' (put k v s p))"
  using assms by (auto simp: get_put fun_eq_iff)

lemma last_put_wins: "get (put k v s (put k v' s p)) = get (put k v s p)"
  by (simp add: get_put fun_eq_iff)

end

lemma find_update_entry:
  assumes "\<And>n. is_entry t l n \<Longrightarrow> is_entry t l (f n)"
  shows "find (is_entry t l) (update_entry t l f ns) =
     Some (f (case find (is_entry t l) ns of None \<Rightarrow> IniNode t l [] [] | Some n \<Rightarrow> n))"
  using assms by (induction ns) (auto simp: is_entry_def)

lemma find_update_entry_other:
  assumes "(t, l) \<noteq> (t', l')" "\<And>n. node_type (f n) = node_type n \<and> node_label (f n) = node_label n"
  shows "find (is_entry t' l') (update_entry t l f ns) = find (is_entry t' l') ns"
  using assms by (induction ns) (auto simp: is_entry_def)

lemma entry_edits [simp]:
  "node_type (set_value v n) = node_type n" "node_label (set_value v n) = node_label n" "node_value (set_value v n) = v"
  "node_children (set_value v n) = node_children n" "node_type (on_children f n) = node_type n"
  "node_label (on_children f n) = node_label n" "node_children (on_children f n) = f (node_children n)"
  "node_value (on_children f n) = node_value n"
  by (simp_all add: set_value_def on_children_def)

lemma entry_edits_is_entry [simp]:
  "is_entry t l (set_value v n) = is_entry t l n" "is_entry t l (on_children f n) = is_entry t l n"
  by (simp_all add: is_entry_def)

text \<open>Values and sections of a list of nodes; a missing entry has the empty value and no children.\<close>

definition kv_value :: "IniNode list \<Rightarrow> string \<Rightarrow> string" where
  "kv_value ns k = (case find (is_entry INI_KEY_VALUE k) ns of None \<Rightarrow> [] | Some n \<Rightarrow> node_value n)"

definition section_children :: "IniNode list \<Rightarrow> string \<Rightarrow> IniNode list" where
  "section_children ns s = (case find (is_entry INI_SECTION s) ns of None \<Rightarrow> [] | Some n \<Rightarrow> node_children n)"

definition tree_value :: "IniNode list \<Rightarrow> string \<Rightarrow> string \<Rightarrow> string" where
  "tree_value ns k s = kv_value (if s \<noteq> [] then section_children ns s else ns) k"

lemma GetValue_tree: "GetValue p k s = tree_value (root_children p) k s"
  by (auto simp: GetValue_def tree_value_def kv_value_def section_children_def root_children_def IniNode_Get_def split: option.splits)

lemma kv_value_put: "kv_value (update_entry INI_KEY_VALUE k (set_value v) ns) k' = (if k = k' then v else kv_value ns k')"
  using find_update_entry[of INI_KEY_VALUE k "set_value v" ns]
    find_update_entry_other[of INI_KEY_VALUE k INI_KEY_VALUE k' "set_value v" ns]
  by (cases "k = k'") (simp_all add: kv_value_def)

lemma kv_value_section: "kv_value (update_entry INI_SECTION s (on_children f) ns) k = kv_value ns k"
  using find_update_entry_other[of INI_SECTION s INI_KEY_VALUE k "on_children f" ns] by (simp add: kv_value_def)

lemma section_children_put: "section_children (update_entry INI_KEY_VALUE k (set_value v) ns) s = section_children ns s"
  using find_update_entry_other[of INI_KEY_VALUE k INI_SECTION s "set_value v" ns] by (simp add: section_children_def)

lemma section_children_section:
  "section_children (update_entry INI_SECTION s (on_children f) ns) s' = (if s = s' then f (section_children ns s) else section_children ns s')"
  using find_update_entry[of INI_SECTION s "on_children f" ns]
    find_update_entry_other[of INI_SECTION s INI_SECTION s' "on_children f" ns]
  by (auto simp: section_children_def split: option.splits)

lemma root_children_SetValue:
  "root_children (SetValue k v s p) =
     (if s \<noteq> [] then update_entry INI_SECTION s (on_children (update_entry INI_KEY_VALUE k (set_value v)))
      else update_entry INI_KEY_VALUE k (set_value v)) (root_children p)"
  by (simp add: root_children_def SetValue_def Let_def split: option.splits)

interpretation ini: config_store GetValue SetValue
  by unfold_locales
     (simp add: GetValue_tree root_children_SetValue tree_value_def kv_value_put kv_value_section section_children_put section_children_section)

end
