(* ===== verification/Main_Window.thy ===== *)
theory Main_Window
  imports Event_Behaviour List_Widgets Ini_Config
begin

text \<open>
  The main window, \<^verbatim>\<open>src/ui/window.h\<close> and \<^verbatim>\<open>window.cpp\<close>, with the label
  colours of \<^verbatim>\<open>src/global/ycommon.cpp\<close>: labelling a shape, saving and opening
  annotation files, opening images and directories, and the actions of the menus. The window owns
  the canvas, the file manager, the three lists of the docks and the adjustment widget; the global
  configuration is kept beside them. What Qt and
  the system answer (dialogs, decoded images, directory listings, the text form of JSON) is
  collected in the record \<^verbatim>\<open>platform\<close>, an argument of the operations.
\<close>

subsection \<open>State\<close>

record 't platform =
  fromHslF :: "rat \<Rightarrow> QColor"
  read_image :: "string \<Rightarrow> QImage option"
  toBase64 :: "QImage option \<Rightarrow> string"
  fromBase64 :: "string \<Rightarrow> QImage option"
  absolutePath :: "string \<Rightarrow> string"
  entryList :: "string \<Rightarrow> string list"
  chooseDir :: "string \<Rightarrow> string"
  parse :: "'t \<Rightarrow> json option"
  dump :: "json \<Rightarrow> 't option"
  empty_text :: 't
  writable :: "string \<Rightarrow> bool"
  viewSize :: QSize
  centre :: QPointF
  convert :: "QImage \<Rightarrow> QImage"

record 't Window =
  w_canvas :: canvas
  w_files :: FileManager
  w_labelList :: list_widget
  w_annoList :: list_widget
  w_fileList :: list_widget
  w_imageAdj :: ImageAdj
  currentHue :: rat
  disk :: "'t files"
  g_config :: IniParser

definition on_canvas :: "(canvas \<Rightarrow> canvas outcome) \<Rightarrow> 't Window \<Rightarrow> 't Window outcome" where
  "on_canvas f w = (case f (w_canvas w) of (c, e) \<Rightarrow> (w\<lparr>w_canvas := c\<rparr>, e))"

subsection \<open>Label colours\<close>

definition hue_step :: rat where
  "hue_step = 618033988749895 / 10 ^ 15"

definition fmod1 :: "rat \<Rightarrow> rat" where
  "fmod1 x = x - of_int (trunc x)"

text \<open>The colour and the next value of the static variable.\<close>

definition randomColor :: "(rat \<Rightarrow> QColor) \<Rightarrow> rat \<Rightarrow> QColor \<times> rat" where
  "randomColor hsl h = (let h1 = fmod1 (h + hue_step) in (hsl h1, h1))"

fun randomColors :: "(rat \<Rightarrow> QColor) \<Rightarrow> nat \<Rightarrow> rat \<Rightarrow> QColor list \<times> rat" where
  "randomColors hsl 0 h = ([], h)"
| "randomColors hsl (Suc n) h =
     (let h1 = fmod1 (h + hue_step); (cs, h2) = randomColors hsl n h1 in (hsl h1 # cs, h2))"

text \<open>\<^verbatim>\<open>sigLabelAdded\<close> is connected to the lists of labels and of annotations.\<close>

definition sigLabelAdded :: "string \<Rightarrow> QColor \<Rightarrow> bool \<Rightarrow> 't Window \<Rightarrow> 't Window" where
  "sigLabelAdded lb color checked w =
     w\<lparr>w_labelList := addCustomItem lb color checked (w_labelList w),
       w_annoList := addCustomItem lb color checked (w_annoList w)\<rparr>"

text \<open>
  \<^verbatim>\<open>LabelDialog\<close> offers the label of every shape; the answer of the dialog is the text
  of its line edit, or nothing if it was rejected.
\<close>

definition LabelDialog_rows :: "canvas \<Rightarrow> list_item list" where
  "LabelDialog_rows c =
     map (\<lambda>s. custom_item (lp_label (Shape_label s)) (lp_color (Shape_label s)) False False) (shapes c)"

definition slotSetProperty :: "'t platform \<Rightarrow> string option \<Rightarrow> ShapePtr option \<Rightarrow> 't Window \<Rightarrow> 't Window" where
  "slotSetProperty P answer shape w =
     (case (shape, answer) of
        (Some r, Some name) \<Rightarrow>
          if name = [] then w
          else let (color, h) = randomColor (fromHslF P) (currentHue w);
                   lb = LabelProperty_new name color True (Shape_id (get_shape (w_canvas w) r));
                   w1 = w\<lparr>currentHue := h, w_canvas := set_shape r (Shape_setLabel lb) (w_canvas w)\<rparr>
               in sigLabelAdded (lp_label lb) (lp_color lb) (lp_visible lb) w1
      | _ \<Rightarrow> w)"

subsection \<open>Saving\<close>

definition APP_VERSION :: string where
  "APP_VERSION = ''1.0.0''"

definition save_shape :: "Shape \<Rightarrow> shape_s" where
  "save_shape s =
     \<lparr>label = lp_label (Shape_label s), points = YPolygonPoints_getImgPoints (Shape_points s),
      group_id = lp_groupId (Shape_label s), description = lp_description (Shape_label s),
      shape_type = Shape_drawModeToStr (Shape_type s), flags = [], mask = 0\<rparr>"

text \<open>A null image has the size 0.\<close>

definition save_root :: "'t platform \<Rightarrow> FileManager \<Rightarrow> root_s result" where
  "save_root P m =
     (if \<not> IsOpenJsonFile m
      then bind_result (getCurrentImageFile m) (\<lambda>ImgPath.
           let img = read_image P ImgPath
           in Inr (root_empty\<lparr>imageData := toBase64 P img,
                              imageHeight := to_string (case img of None \<Rightarrow> 0 | Some i \<Rightarrow> int (img_h i)),
                              imagePath := ImgPath,
                              imageWidth := to_string (case img of None \<Rightarrow> 0 | Some i \<Rightarrow> int (img_w i))\<rparr>))
      else Inr (fm_root m))"

definition saveFile :: "'t platform \<Rightarrow> 't Window \<Rightarrow> 't Window outcome" where
  "saveFile P w =
     (case getSavePath (chooseDir P) (w_files w) of (path, m1) \<Rightarrow>
      let w1 = w\<lparr>w_files := m1\<rparr>
      in if path = [] then (w1, None)
         else (case getLabelFile m1 of
                 Inl e \<Rightarrow> (w1, Some e)
               | Inr (file, m2) \<Rightarrow>
                   let w2 = w1\<lparr>w_files := m2\<rparr>;
                       filename = path @ ''/'' @ file;
                       list = shapes (w_canvas w2)
                   in if list = [] then (w2, None)
                      else (case save_root P m2 of
                              Inl e \<Rightarrow> (w2, Some e)
                            | Inr r \<Rightarrow>
                                (case writeJson (dump P) (empty_text P) (writable P) (disk w2) filename
                                        (r\<lparr>root_shapes := map save_shape list, version := APP_VERSION, root_flags := []\<rparr>) of
                                   Inl e \<Rightarrow> (w2, Some e)
                                 | Inr (_, fs) \<Rightarrow> (w2\<lparr>disk := fs\<rparr>, None)))))"

subsection \<open>Opening\<close>

fun contains_str :: "string \<Rightarrow> string \<Rightarrow> bool" where
  "contains_str p [] = (p = [])"
| "contains_str p (x # xs) = (take (length p) (x # xs) = p \<or> contains_str p xs)"

text \<open>What \<^verbatim>\<open>openFile\<close> and the action for directories do first.\<close>

definition clean_all :: "'t Window \<Rightarrow> 't Window" where
  "clean_all w =
     w\<lparr>w_canvas := CanvasBase_clean (w_canvas w), w_labelList := CustomListWidget_clean (w_labelList w),
       w_annoList := CustomListWidget_clean (w_annoList w), w_fileList := CustomListWidget_clean (w_fileList w)\<rparr>"

text \<open>The points of one stored shape, mapped back and appended one by one.\<close>

fun append_points :: "canvas \<Rightarrow> QPointF list \<Rightarrow> Shape \<Rightarrow> Shape result" where
  "append_points c [] s = Inr s"
| "append_points c (p # ps) s =
     bind_result (mapFromImg c p) (\<lambda>q. append_points c ps (Shape_appendPoint q s))"

definition open_shape :: "'t platform \<Rightarrow> shape_s \<Rightarrow> 't Window \<Rightarrow> 't Window result" where
  "open_shape P it w =
     (let c = w_canvas w
      in case ShapeFactory_create (m_draw c) of
           None \<Rightarrow> Inl (Undefined ''null ShapePtr'')
         | Some newShape \<Rightarrow>
             bind_result (getImage c) (\<lambda>img.
             bind_result (append_points c (points it) (Shape_setimgWH (img_size img) newShape)) (\<lambda>s.
             let r = length (heap c);
                 c1 = c\<lparr>heap := heap c @ [Shape_setClosed s]\<rparr>
             in bind_result (CanvasBase_addShape r c1) (\<lambda>(_, c2).
                let name = (if label it = [] then ''unknonw'' else label it);
                    (color, h) = randomColor (fromHslF P) (currentHue w);
                    lb = LabelProperty_new name color True 0;
                    w1 = w\<lparr>currentHue := h, w_canvas := set_shape r (Shape_setLabel lb) c2\<rparr>
                in Inr (sigLabelAdded (lp_label lb) (lp_color lb) (lp_visible lb) w1)))))"

fun open_shapes :: "'t platform \<Rightarrow> shape_s list \<Rightarrow> 't Window \<Rightarrow> 't Window outcome" where
  "open_shapes P [] w = (w, None)"
| "open_shapes P (it # its) w = and_then (lift_result w (open_shape P it w)) (open_shapes P its)"

definition plain_item :: "string \<Rightarrow> list_item" where
  "plain_item t = \<lparr>item_text = t, item_icon = QColor_default, item_checkable = False, item_checked = False\<rparr>"

definition addItems :: "string list \<Rightarrow> list_widget \<Rightarrow> list_widget" where
  "addItems ts l = l\<lparr>items := items l @ map plain_item ts\<rparr>"

definition load_current :: "'t platform \<Rightarrow> 't Window \<Rightarrow> 't Window outcome" where
  "load_current P w =
     (case getCurrentImageFile (w_files w) of
        Inl e \<Rightarrow> (w, Some e)
      | Inr f \<Rightarrow> on_canvas (loadImage (viewSize P) (centre P) (read_image P f)) w)"

text \<open>The part that images and directories have in common: show the list and load its first image.\<close>

definition load_first :: "'t platform \<Rightarrow> 't Window \<Rightarrow> 't Window outcome" where
  "load_first P w =
     (let w1 = w\<lparr>w_fileList := addItems (imageFiles (w_files w)) (w_fileList w)\<rparr>
      in load_current P (w1\<lparr>w_files := fst (selectFile 0 (w_files w1))\<rparr>))"

definition openFile :: "'t platform \<Rightarrow> string \<Rightarrow> 't Window \<Rightarrow> 't Window outcome" where
  "openFile P file w0 =
     (let w = clean_all w0
      in if contains_str ''json'' file
         then (case FileManager_openFile (parse P) (disk w) (absolutePath P) root_empty file (w_files w) of
                 Inl e \<Rightarrow> (w, Some e)
               | Inr (_, rt, m) \<Rightarrow>
                   and_then (on_canvas (loadImage (viewSize P) (centre P) (fromBase64 P (imageData rt))) (w\<lparr>w_files := m\<rparr>))
                     (open_shapes P (root_shapes rt)))
         else load_first P (w\<lparr>w_files := fst (setSingleImage (absolutePath P) file (w_files w))\<rparr>))"

definition openDir :: "'t platform \<Rightarrow> string \<Rightarrow> 't Window \<Rightarrow> 't Window outcome" where
  "openDir P path w0 =
     (let w = clean_all w0
      in load_first P (w\<lparr>w_files := fst (setMultiImage (entryList P) (absolutePath P) path (w_files w))\<rparr>))"

text \<open>
  A click in the list of files. The warning about unsaved changes has only its default button, so
  the answer is never \<^verbatim>\<open>QMessageBox::Yes\<close>.
\<close>

datatype StandardButton = Ok | Yes

definition warning_answer :: StandardButton where
  "warning_answer = Ok"

definition fileList_clicked :: "'t platform \<Rightarrow> int \<Rightarrow> 't Window \<Rightarrow> 't Window outcome" where
  "fileList_clicked P row w =
     and_then (if \<not> hasChangeNotSaved (w_files w) then (w, None)
               else if warning_answer = Yes then saveFile P w else (w, None))
       (\<lambda>w1. load_current P (w1\<lparr>w_files := fst (selectFile row (w_files w1))\<rparr>))"

subsection \<open>Menus\<close>

datatype menu_action =
    ChangeTask task_mode_e
  | ChangeDrawMode draw_mode_e
  | ChangeOperatMode operat_mode_e
  | CreatePolygon
  | Undo
  | Redo
  | ZoomIn
  | ZoomOut
  | ZoomFit
  | ImageAdjust

text \<open>
  A slider that changes its value runs its handler in \<^verbatim>\<open>ImageAdj::initConnect\<close>: the value is
  kept, the canvas is told (the signal is connected directly), and the value becomes the default of the
  next start.
\<close>

definition contrast_valueChanged :: "'t platform \<Rightarrow> int \<Rightarrow> 't Window \<Rightarrow> 't Window outcome" where
  "contrast_valueChanged P value w =
     and_then (on_canvas (\<lambda>c. lift_result c (setContrast (convert P) value c))
                 (w\<lparr>w_imageAdj := (w_imageAdj w)\<lparr>adj_contrast := value\<rparr>\<rparr>))
       (\<lambda>w1. (w1\<lparr>g_config := Set_int ''default_contrast'' value ''image'' (g_config w1)\<rparr>, None))"

definition brightness_valueChanged :: "'t platform \<Rightarrow> int \<Rightarrow> 't Window \<Rightarrow> 't Window outcome" where
  "brightness_valueChanged P value w =
     and_then (on_canvas (\<lambda>c. lift_result c (setBrightness (convert P) value c))
                 (w\<lparr>w_imageAdj := (w_imageAdj w)\<lparr>adj_brightness := value\<rparr>\<rparr>))
       (\<lambda>w1. (w1\<lparr>g_config := Set_int ''default_brightness'' value ''image'' (g_config w1)\<rparr>, None))"

fun each_value :: "(int \<Rightarrow> 's \<Rightarrow> 's outcome) \<Rightarrow> int list \<Rightarrow> 's \<Rightarrow> 's outcome" where
  "each_value f [] w = (w, None)"
| "each_value f (v # vs) w = and_then (f v w) (each_value f vs)"

definition move_contrast :: "'t platform \<Rightarrow> int \<Rightarrow> 't Window \<Rightarrow> 't Window outcome" where
  "move_contrast P value w =
     (case slider_setValue value (contrastSlider (w_imageAdj w)) of (s, changes) \<Rightarrow>
        each_value (contrast_valueChanged P) changes (w\<lparr>w_imageAdj := (w_imageAdj w)\<lparr>contrastSlider := s\<rparr>\<rparr>))"

definition move_brightness :: "'t platform \<Rightarrow> int \<Rightarrow> 't Window \<Rightarrow> 't Window outcome" where
  "move_brightness P value w =
     (case slider_setValue value (brightnessSlider (w_imageAdj w)) of (s, changes) \<Rightarrow>
        each_value (brightness_valueChanged P) changes (w\<lparr>w_imageAdj := (w_imageAdj w)\<lparr>brightnessSlider := s\<rparr>\<rparr>))"

definition ImageAdj_setParam :: "'t platform \<Rightarrow> int \<Rightarrow> int \<Rightarrow> 't Window \<Rightarrow> 't Window outcome" where
  "ImageAdj_setParam P contrast brightness w =
     (let w1 = w\<lparr>w_imageAdj := (w_imageAdj w)\<lparr>adj_contrast := contrast, adj_brightness := brightness\<rparr>\<rparr>
      in and_then (move_contrast P (adj_contrast (w_imageAdj w1)) w1)
           (\<lambda>w2. move_brightness P (adj_brightness (w_imageAdj w2)) w2))"

definition image_adjust :: "'t platform \<Rightarrow> 't Window \<Rightarrow> 't Window outcome" where
  "image_adjust P w = ImageAdj_setParam P (m_contrast (w_canvas w)) (m_brightness (w_canvas w)) w"

definition trigger :: "'t platform \<Rightarrow> menu_action \<Rightarrow> 't Window \<Rightarrow> 't Window outcome" where
  "trigger P a w =
     (case a of
        ChangeTask t \<Rightarrow> on_canvas (\<lambda>c. (c\<lparr>m_task := t\<rparr>, None)) w
      | ChangeDrawMode m \<Rightarrow> on_canvas (\<lambda>c. (c\<lparr>m_draw := m\<rparr>, None)) w
      | ChangeOperatMode m \<Rightarrow> on_canvas (\<lambda>c. (c\<lparr>m_operat := m\<rparr>, None)) w
      | CreatePolygon \<Rightarrow> on_canvas (\<lambda>c. lift_result c (CanvasView_addShape c)) w
      | Undo \<Rightarrow> on_canvas (\<lambda>c. lift_result c (canvas_undo c)) w
      | Redo \<Rightarrow> on_canvas (\<lambda>c. lift_result c (canvas_redo c)) w
      | ZoomIn \<Rightarrow> on_canvas (\<lambda>c. (zoomIn c, None)) w
      | ZoomOut \<Rightarrow> on_canvas (\<lambda>c. (zoomOut c, None)) w
      | ZoomFit \<Rightarrow> on_canvas (adjustFitWindow (viewSize P) (centre P)) w
      | ImageAdjust \<Rightarrow> image_adjust P w)"

subsection \<open>Lemmas on opening\<close>

lemma loadImage_Some:
  "\<exists>c'. loadImage sz ctr (Some i) c = (c', None) \<and> m_image c' = Some i \<and> heap c' = heap c \<and>
     m_shapeList c' = m_shapeList c \<and> m_currentIndex c' = m_currentIndex c \<and> m_draw c' = m_draw c \<and>
     m_task c' = m_task c \<and> m_operat c' = m_operat c \<and> m_penLineWidth c' = m_penLineWidth c"
  by (simp add: loadImage_def setImage_def adjustFitWindow_def setSize_def Let_def)

lemma clean_all_simps [simp]:
  "m_image (w_canvas (clean_all w)) = None" "m_shapeList (w_canvas (clean_all w)) = []"
  "m_currentIndex (w_canvas (clean_all w)) = m_currentIndex (w_canvas w)" "w_files (clean_all w) = w_files w"
  "m_draw (w_canvas (clean_all w)) = m_draw (w_canvas w)" "m_task (w_canvas (clean_all w)) = m_task (w_canvas w)"
  "m_operat (w_canvas (clean_all w)) = m_operat (w_canvas w)" "disk (clean_all w) = disk w"
  by (simp_all add: clean_all_def CanvasBase_clean_def)

lemma contains_str_append: "contains_str p (xs @ p)"
proof (induction xs)
  case Nil
  show ?case by (cases p) simp_all
qed simp

lemma append_points_image:
  assumes "m_image c = Some i"
  shows "\<exists>s'. append_points c ps s = Inr s' \<and> m_type s' = m_type s \<and> m_label s' = m_label s \<and>
     m_oriPoints (m_points s') = m_oriPoints (m_points s) @ map (\<lambda>p. p - img_offset i) ps"
  using assms
proof (induction ps arbitrary: s)
  case (Cons p ps)
  from Cons.IH[OF Cons.prems, of "Shape_appendPoint (p - img_offset i) s"] obtain s' where
    "append_points c ps (Shape_appendPoint (p - img_offset i) s) = Inr s'" "m_type s' = m_type s" "m_label s' = m_label s"
    "m_oriPoints (m_points s') = m_oriPoints (m_points s) @ map (\<lambda>p. p - img_offset i) (p # ps)"
    by (auto simp: Shape_appendPoint_def YPolygonPoints_append_def)
  then show ?case using Cons.prems by auto
qed simp

definition opened_from :: "QImage \<Rightarrow> draw_mode_e \<Rightarrow> shape_s \<Rightarrow> Shape \<Rightarrow> bool" where
  "opened_from i mode it s \<longleftrightarrow>
     m_oriPoints (m_points s) = map (\<lambda>p. p - img_offset i) (points it) \<and> m_type s = mode \<and> m_isClosed s \<and>
     lp_label (m_label s) = (if label it = [] then ''unknonw'' else label it)"

lemma open_shape_effect:
  assumes "m_image (w_canvas w) = Some i" "m_draw (w_canvas w) = mode" "mode \<noteq> None_mode"
    and "\<forall>r \<in> set (m_shapeList (w_canvas w)). r < length (heap (w_canvas w))"
  shows "\<exists>w' s. open_shape P it w = Inr w' \<and> shapes (w_canvas w') = shapes (w_canvas w) @ [s] \<and> opened_from i mode it s \<and>
     m_image (w_canvas w') = Some i \<and> m_draw (w_canvas w') = mode \<and>
     (\<forall>r \<in> set (m_shapeList (w_canvas w')). r < length (heap (w_canvas w')))"
proof -
  let ?c = "w_canvas w"
  obtain n where n: "ShapeFactory_create mode = Some n" "m_type n = mode" "m_oriPoints (m_points n) = []"
    using assms(3) by (cases mode) (simp_all add: Shape_new_def YPolygonPoints_empty_def)
  let ?n = "Shape_setimgWH (img_size i) n"
  obtain s where s: "append_points ?c (points it) ?n = Inr s" "m_type s = mode"
      "m_oriPoints (m_points s) = map (\<lambda>p. p - img_offset i) (points it)"
    using append_points_image[OF assms(1), of "points it" ?n] n(2,3) by (auto simp: Shape_setimgWH_def YPolygonPoints_setImgWH_def)
  let ?r = "length (heap ?c)" and ?c1 = "?c\<lparr>heap := heap ?c @ [Shape_setClosed s]\<rparr>"
  have r: "?r < length (heap ?c1)" "?r \<notin> set (m_shapeList ?c1)" using assms(4) by auto
  obtain nm c2 where add: "CanvasBase_addShape ?r ?c1 = Inr (nm, c2)" using r(1) by (auto simp: addShape_result Let_def)
  note a = shapes_addShape[OF r add]
  have dr: "m_draw c2 = mode" using add r(1) assms(2) by (auto simp: addShape_result Let_def)
  have g: "get_shape c2 ?r = (Shape_setClosed s)\<lparr>m_name := nm\<rparr>"
    using a(1,2) arg_cong[of "shapes c2" _ last] by (simp add: shapes_def get_shape_def)
  have old: "shapes ?c1 = shapes ?c" using assms(4) by (auto simp: shapes_def get_shape_def nth_append)
  let ?lb = "LabelProperty_new (if label it = [] then ''unknonw'' else label it) (fst (randomColor (fromHslF P) (currentHue w))) True 0"
  let ?s = "Shape_setLabel ?lb ((Shape_setClosed s)\<lparr>m_name := nm\<rparr>)"
  have rest: "map (get_shape (set_shape ?r f c2)) (m_shapeList ?c) = shapes ?c" for f
    using a(1,2,8) old assms(4) by (auto simp: shapes_def get_set_shape)
  have "shapes (set_shape ?r (Shape_setLabel ?lb) c2) = shapes ?c @ [?s]"
    using rest a(2,4) g by (simp add: shapes_def get_set_shape)
  moreover have "opened_from i mode it ?s"
    using s by (simp add: opened_from_def Shape_setLabel_def Shape_setClosed_def LabelProperty_assign_def LabelProperty_new_def)
  moreover have "\<forall>r \<in> set (m_shapeList ?c). r < Suc ?r" using assms(4) less_SucI by blast
  ultimately show ?thesis
    using assms(1,2) n(1) s(1) add a(2,4,6) dr
    by (auto simp: open_shape_def sigLabelAdded_def Let_def split: prod.splits)
qed

lemma open_shapes_effect:
  assumes "m_image (w_canvas w) = Some i" "m_draw (w_canvas w) = mode" "mode \<noteq> None_mode"
    and "\<forall>r \<in> set (m_shapeList (w_canvas w)). r < length (heap (w_canvas w))"
  shows "\<exists>w' ss. open_shapes P its w = (w', None) \<and> shapes (w_canvas w') = shapes (w_canvas w) @ ss \<and>
     list_all2 (opened_from i mode) its ss"
  using assms
proof (induction its arbitrary: w)
  case (Cons it its)
  from open_shape_effect[OF Cons.prems, of P it] obtain w1 s where
    w1: "open_shape P it w = Inr w1" "shapes (w_canvas w1) = shapes (w_canvas w) @ [s]" "opened_from i mode it s"
      "m_image (w_canvas w1) = Some i" "m_draw (w_canvas w1) = mode"
      "\<forall>r \<in> set (m_shapeList (w_canvas w1)). r < length (heap (w_canvas w1))" by blast
  from Cons.IH[OF w1(4,5) Cons.prems(3) w1(6)] obtain w' ss where
    "open_shapes P its w1 = (w', None)" "shapes (w_canvas w') = shapes (w_canvas w1) @ ss" "list_all2 (opened_from i mode) its ss" by blast
  with w1 show ?case by (intro exI[of _ w'] exI[of _ "s # ss"]) simp
qed simp

lemma openFile_json:
  assumes "contains_str ''json'' file" "readJson (parse P) (disk w) file root_empty = Inr (True, rt)"
    and "fromBase64 P (imageData rt) = Some i" "m_draw (w_canvas w) \<noteq> None_mode"
  shows "\<exists>w'. openFile P file w = (w', None) \<and> list_all2 (opened_from i (m_draw (w_canvas w))) (root_shapes rt) (shapes (w_canvas w'))"
proof -
  obtain m where m: "FileManager_openFile (parse P) (disk w) (absolutePath P) root_empty file (w_files w) = Inr (True, rt, m)"
    using assms(2) by (simp add: FileManager_openFile_def Let_def)
  let ?w = "(clean_all w)\<lparr>w_files := m\<rparr>"
  obtain c where c: "loadImage (viewSize P) (centre P) (Some i) (w_canvas ?w) = (c, None)" "m_image c = Some i"
      "m_shapeList c = []" "m_draw c = m_draw (w_canvas w)"
    using loadImage_Some[of "viewSize P" "centre P" i "w_canvas ?w"] by auto
  have e: "shapes c = []" using c(3) by (simp add: shapes_def)
  from open_shapes_effect[of "?w\<lparr>w_canvas := c\<rparr>" i "m_draw (w_canvas w)" P "root_shapes rt"] c assms(4) e
  obtain w' where "open_shapes P (root_shapes rt) (?w\<lparr>w_canvas := c\<rparr>) = (w', None)"
      "list_all2 (opened_from i (m_draw (w_canvas w))) (root_shapes rt) (shapes (w_canvas w'))" by auto
  then show ?thesis using assms(1,3) m c(1) by (simp add: openFile_def on_canvas_def Let_def)
qed

subsection \<open>Saving and opening\<close>

definition on_image :: "QImage \<Rightarrow> Shape \<Rightarrow> bool" where
  "on_image i s \<longleftrightarrow> shape_wf s \<and> fits_int (lp_groupId (m_label s)) \<and> pts_offset (m_points s) = QPointF (of_nat (img_w i) / 2) (of_nat (img_h i) / 2)"

definition drift :: "QImage \<Rightarrow> QPointF" where
  "drift i = QPointF (if odd (img_w i) then 1/2 else 0) (if odd (img_h i) then 1/2 else 0)"

definition reopened :: "QImage \<Rightarrow> draw_mode_e \<Rightarrow> Shape \<Rightarrow> Shape \<Rightarrow> bool" where
  "reopened i mode s s' \<longleftrightarrow>
     m_oriPoints (m_points s') = map (\<lambda>p. p + drift i) (m_oriPoints (m_points s)) \<and> m_type s' = mode \<and> m_isClosed s' \<and>
     lp_label (m_label s') = (if lp_label (m_label s) = [] then ''unknonw'' else lp_label (m_label s))"

lemma half_drift: "(of_nat n :: rat) / 2 - of_int (c_div (int n) 2) = (if odd n then 1/2 else 0)"
proof (cases "odd n")
  case True
  then obtain k where "n = 2 * k + 1" by (elim oddE)
  then show ?thesis by (simp add: c_div_2 zdiv_int[symmetric] add_divide_distrib)
next
  case False
  then obtain k where "n = 2 * k" by (auto elim: evenE)
  then show ?thesis by (simp add: c_div_2 zdiv_int[symmetric])
qed

lemma offset_drift: "QPointF (of_nat (img_w i) / 2) (of_nat (img_h i) / 2) - img_offset i = drift i"
  by (simp add: img_offset_def drift_def minus_QPointF_def half_drift)

lemma reopened_saved:
  assumes "on_image i s" "opened_from i mode (save_shape s) s'"
  shows "reopened i mode s s'"
proof -
  have "m_imgPoints (m_points s) = map (\<lambda>p. p + QPointF (of_nat (img_w i) / 2) (of_nat (img_h i) / 2)) (m_oriPoints (m_points s))"
    using assms(1) by (simp add: on_image_def shape_wf_def views_agree_def)
  then show ?thesis
    using assms(2) offset_drift[of i]
    by (simp add: opened_from_def reopened_def save_shape_def YPolygonPoints_getImgPoints_def add_diff_eq[symmetric] o_def)
qed

lemma getLabelFile_json:
  assumes "getLabelFile m = Inr (file, m')" "getCurrentImageFile m = Inr f"
  shows "contains_str ''json'' (path @ ''/'' @ file)" "getCurrentImageFile m' = Inr f"
    "isOpenJsonFile m' = isOpenJsonFile m"
proof -
  have "imageFiles m \<noteq> []" using assms(2) by (auto simp: getCurrentImageFile_def vec_at_def split: if_splits)
  with assms(1) have fl: "\<exists>b. file = b @ FILENAME_DIR_LABEL" and m: "m' = m\<lparr>labelFile := file\<rparr>"
    by (auto simp: getLabelFile_def Let_def bind_result_Inr_iff)
  from fl obtain b where "path @ ''/'' @ file = (path @ ''/'' @ b @ ''_labels.'') @ ''json''"
    by (auto simp: FILENAME_DIR_LABEL_def)
  then show "contains_str ''json'' (path @ ''/'' @ file)" using contains_str_append by metis
  show "getCurrentImageFile m' = Inr f" "isOpenJsonFile m' = isOpenJsonFile m"
    using assms(2) by (simp_all add: m getCurrentImageFile_def)
qed

lemma saved_shapes_fit:
  "list_all (\<lambda>s. fits_int (lp_groupId (m_label s))) ss \<Longrightarrow> list_all shape_fits (map save_shape ss)"
  by (simp add: list_all_iff shape_fits_def save_shape_def fits_int_def)

text \<open>What is written, and that the codec of the platform reads it back\<close>

definition saved_root :: "root_s \<Rightarrow> Shape list \<Rightarrow> root_s" where
  "saved_root r list = r\<lparr>root_shapes := map save_shape list, version := APP_VERSION, root_flags := []\<rparr>"

definition image_root :: "'t platform \<Rightarrow> string \<Rightarrow> QImage \<Rightarrow> root_s" where
  "image_root P f i = root_empty\<lparr>imageData := toBase64 P (Some i), imageHeight := to_string (int (img_h i)), imagePath := f,
                        imageWidth := to_string (int (img_w i))\<rparr>"

definition reads_file :: "'t platform \<Rightarrow> root_s \<Rightarrow> bool" where
  "reads_file P rt \<longleftrightarrow> (\<forall>j. to_json_root rt = Inr j \<longrightarrow> (\<exists>t. dump P j = Some t \<and> parse P t = Some j))"

lemma saveFile_writes:
  assumes "reads_file P (saved_root rt (shapes (w_canvas w)))"
    and "m_savePath (w_files w) = path" "path \<noteq> []" "getLabelFile (w_files w) = Inr (file, m)"
    and "writable P (path @ ''/'' @ file)" "shapes (w_canvas w) \<noteq> []" "save_root P m = Inr rt"
    and "imageHeight rt = to_string h" "imageWidth rt = to_string wd"
    and "- (2 ^ 31) \<le> h" "h < 2 ^ 31" "- (2 ^ 31) \<le> wd" "wd < 2 ^ 31"
    and "list_all (\<lambda>s. fits_int (lp_groupId (m_label s))) (shapes (w_canvas w))"
  shows "\<exists>w1. saveFile P w = (w1, None) \<and> w_canvas w1 = w_canvas w \<and>
     readJson (parse P) (disk w1) (path @ ''/'' @ file) root_empty =
       Inr (True, rt\<lparr>root_shapes := map save_shape (shapes (w_canvas w)), version := APP_VERSION, root_flags := APP_VERSION\<rparr>)"
proof -
  let ?r = "saved_root rt (shapes (w_canvas w))"
  have "\<exists>fs'. writeJson (dump P) (empty_text P) (writable P) (disk w) (path @ ''/'' @ file) ?r = Inr (True, fs') \<and>
     readJson (parse P) fs' (path @ ''/'' @ file) root_empty = Inr (True, ?r\<lparr>root_flags := version ?r\<rparr>)"
    by (rule write_read_json[where h = h and w = wd])
       (use assms(1-13) saved_shapes_fit[OF assms(14)] in \<open>auto simp: saved_root_def reads_file_def\<close>)
  then obtain fs' where
    "writeJson (dump P) (empty_text P) (writable P) (disk w) (path @ ''/'' @ file) ?r = Inr (True, fs')"
    "readJson (parse P) fs' (path @ ''/'' @ file) root_empty = Inr (True, ?r\<lparr>root_flags := version ?r\<rparr>)" by blast
  with assms(2-4,6,7) show ?thesis by (simp add: saveFile_def getSavePath_def Let_def saved_root_def)
qed

text \<open>
  An annotated image survives saving and opening: saving writes a file, and opening that file
  gives as many shapes with the same labels, in the same order, all closed. Three things differ. A
  shape without a label comes back as ``unknonw''; every shape comes back with the draw mode that
  is selected, not with its own; and for an odd width or height the vertices are moved by half a
  pixel, because one direction halves the size as a double and the other as an int.
\<close>

lemma saved_file_opens:
  assumes "reads_file P (saved_root (image_root P f i) (shapes (w_canvas w)))"
    and "fromBase64 P (toBase64 P (Some i)) = Some i"
    and "m_savePath (w_files w) = path" and "path \<noteq> []" and "getLabelFile (w_files w) = Inr (file, m)"
    and "writable P (path @ ''/'' @ file)" and "\<not> isOpenJsonFile (w_files w)"
    and "getCurrentImageFile (w_files w) = Inr f" and "read_image P f = Some i"
    and "img_w i < 2 ^ 31" and "img_h i < 2 ^ 31"
    and "shapes (w_canvas w) \<noteq> []" and "list_all (on_image i) (shapes (w_canvas w))" and "m_draw (w_canvas w) \<noteq> None_mode"
  shows "\<exists>w1 w2. saveFile P w = (w1, None) \<and> openFile P (path @ ''/'' @ file) w1 = (w2, None) \<and>
     list_all2 (reopened i (m_draw (w_canvas w))) (shapes (w_canvas w)) (shapes (w_canvas w2))"
proof -
  note lf = getLabelFile_json[OF assms(5,8)]
  let ?rt = "image_root P f i"
  have rt: "save_root P m = Inr ?rt" using lf(2,3) assms(7,9) by (simp add: image_root_def save_root_def IsOpenJsonFile_def Let_def)
  have fit: "list_all (\<lambda>s. fits_int (lp_groupId (m_label s))) (shapes (w_canvas w))"
    using assms(13) by (simp add: list_all_iff on_image_def)
  have "\<exists>w1. saveFile P w = (w1, None) \<and> w_canvas w1 = w_canvas w \<and>
     readJson (parse P) (disk w1) (path @ ''/'' @ file) root_empty =
       Inr (True, ?rt\<lparr>root_shapes := map save_shape (shapes (w_canvas w)), version := APP_VERSION, root_flags := APP_VERSION\<rparr>)"
    by (rule saveFile_writes[where h = "int (img_h i)" and wd = "int (img_w i)" and m = m]) (use assms rt fit in \<open>auto simp: image_root_def\<close>)
  then obtain w1 where w1: "saveFile P w = (w1, None)" "w_canvas w1 = w_canvas w"
    "readJson (parse P) (disk w1) (path @ ''/'' @ file) root_empty =
       Inr (True, ?rt\<lparr>root_shapes := map save_shape (shapes (w_canvas w)), version := APP_VERSION, root_flags := APP_VERSION\<rparr>)" by blast
  from openFile_json[OF lf(1) w1(3), of i] w1(2) assms(2,14) obtain w2 where
    w2: "openFile P (path @ ''/'' @ file) w1 = (w2, None)"
      "list_all2 (opened_from i (m_draw (w_canvas w))) (map save_shape (shapes (w_canvas w))) (shapes (w_canvas w2))" by (auto simp: image_root_def)
  have "list_all2 (reopened i (m_draw (w_canvas w))) (shapes (w_canvas w)) (shapes (w_canvas w2))"
    using w2(2) assms(13) reopened_saved
    by (fastforce simp: list_all2_conv_all_nth list_all_length)
  with w1(1) w2(1) show ?thesis by blast
qed

definition sample_platform :: "QImage \<Rightarrow> json platform" where
  "sample_platform i =
     \<lparr>fromHslF = \<lambda>_. color_white, read_image = \<lambda>_. Some i, toBase64 = \<lambda>_. [], fromBase64 = \<lambda>_. Some i, absolutePath = id,
      entryList = \<lambda>_. [''a.png''], chooseDir = \<lambda>_. ''out'', parse = Some, dump = Some, empty_text = Null,
      writable = \<lambda>_. True, viewSize = \<lparr>sz_width = 640, sz_height = 512\<rparr>, centre = 0, convert = id\<rparr>"

definition sample_window :: "QImage \<Rightarrow> 't Window" where
  "sample_window i =
     \<lparr>w_canvas = sample_canvas\<lparr>m_image := Some i, heap := [Shape_appendPoint (QPointF 1 2) (Shape_setimgWH (img_size i) (Shape_new YPolygon Polygon))],
        m_shapeList := [0], m_currentIndex := 0\<rparr>,
      w_files = (FileManager_new 0)\<lparr>imageFiles := [''a.png''], m_savePath := ''out''\<rparr>,
      w_labelList = widget_empty, w_annoList = widget_empty, w_fileList = widget_empty,
      w_imageAdj = \<lparr>adj_contrast = 0, adj_brightness = 0, contrastSlider = createSlider 0 500 0, brightnessSlider = createSlider 0 500 0\<rparr>,
      currentHue = 0, disk = Map.empty, g_config = (IniParser_new INI_UNKNOWN)\<rparr>"

text \<open>
  C35. Opening an image after shapes were drawn leaves the canvas with no shape but with the index of
  the last one: the next left click in draw mode reads the list of shapes out of range.
\<close>

theorem click_after_reopen_is_undefined:
  assumes "0 \<le> m_currentIndex (w_canvas w)" and "m_task (w_canvas w) = segmentation" and "m_operat (w_canvas w) = draw"
    and "\<not> contains_str ''json'' file" and "read_image P (m_path (w_files w) @ file) = Some i"
  shows "\<exists>w'. openFile P file w = (w', None) \<and> shapes (w_canvas w') = [] \<and>
     snd (mousePressEvent cp LeftButton p (w_canvas w')) = Some (Undefined ''QVector::at'')"
proof -
  let ?m = "fst (selectFile 0 (fst (setSingleImage (absolutePath P) file (w_files w))))"
  have f: "getCurrentImageFile ?m = Inr (m_path (w_files w) @ file)"
    by (simp add: setSingleImage_def selectFile_def getCurrentImageFile_def vec_at_def Let_def)
  obtain c where c: "loadImage (viewSize P) (centre P) (Some i) (w_canvas (clean_all w)) = (c, None)" "m_image c = Some i"
      "m_shapeList c = []" "m_currentIndex c = m_currentIndex (w_canvas w)" "m_task c = segmentation" "m_operat c = draw"
    using loadImage_Some[of "viewSize P" "centre P" i "w_canvas (clean_all w)"] assms(2,3) by auto
  have "\<exists>w'. openFile P file w = (w', None) \<and> w_canvas w' = c"
    using assms(4,5) f c(1) by (simp add: openFile_def load_first_def load_current_def on_canvas_def Let_def)
  moreover have "snd (mousePressEvent cp LeftButton p c) = Some (Undefined ''QVector::at'')"
    using c assms(1) by (auto simp: mousePressEvent_def bindImgEdge_eq press_draw_def currentShape_def vec_at_def)
  ultimately show ?thesis using c(3) by (auto simp: shapes_def)
qed

theorem click_after_reopen_is_undefined_witness:
  "\<exists>w'. openFile (sample_platform (blank_image 100 100)) ''b.png'' (sample_window (blank_image 100 100)) = (w', None) \<and>
     snd (mousePressEvent (\<lambda>ps p. False) LeftButton 0 (w_canvas w')) = Some (Undefined ''QVector::at'')"
  using click_after_reopen_is_undefined[of "sample_window (blank_image 100 100)" "''b.png''" "sample_platform (blank_image 100 100)"
      "blank_image 100 100" "\<lambda>ps p. False" 0]
  by (auto simp: sample_window_def sample_platform_def FileManager_new_def)

text \<open>
  Cancelling the file dialog (an empty name) throws away the shapes and then throws an
  exception out of the slot, unless the bare directory is an image.
\<close>

theorem cancelled_dialog_discards_shapes:
  assumes "read_image P (m_path (w_files w)) = None"
  shows "\<exists>w'. openFile P [] w = (w', Some (CanvasException ''image is null'')) \<and> shapes (w_canvas w') = [] \<and>
     items (w_labelList w') = [] \<and> items (w_annoList w') = []"
  using assms
  by (simp add: openFile_def load_first_def load_current_def on_canvas_def Let_def setSingleImage_def selectFile_def
      getCurrentImageFile_def vec_at_def loadImage_def setImage_def clean_all_def CanvasBase_clean_def CustomListWidget_clean_def shapes_def)

theorem cancelled_dialog_discards_shapes_witness:
  "\<exists>w'. openFile ((sample_platform (blank_image 100 100))\<lparr>read_image := \<lambda>_. None\<rparr>) [] (sample_window (blank_image 100 100)) =
     (w', Some (CanvasException ''image is null'')) \<and> shapes (w_canvas w') = []"
  using cancelled_dialog_discards_shapes[of "(sample_platform (blank_image 100 100))\<lparr>read_image := \<lambda>_. None\<rparr>"
      "sample_window (blank_image 100 100)"] by auto

text \<open>
  C36. After an annotation file was open, the shapes drawn on an image of a directory are saved with
  the image of that annotation file: opening the directory does not reset the flag that says
  where the image comes from.
\<close>

theorem directory_saved_with_old_image:
  assumes "reads_file P (saved_root (fm_root (w_files w)) (shapes c))"
    and "isOpenJsonFile (w_files w)" and "m_savePath (w_files w) = path" and "path \<noteq> []"
    and "imageHeight (fm_root (w_files w)) = to_string h" and "imageWidth (fm_root (w_files w)) = to_string wd"
    and "- (2 ^ 31) \<le> h" and "h < 2 ^ 31" and "- (2 ^ 31) \<le> wd" and "wd < 2 ^ 31"
    and "openDir P dir w = (w1, None)" and "getLabelFile (w_files w1) = Inr (file, m)"
    and "writable P (path @ ''/'' @ file)" and "shapes c \<noteq> []" and "list_all (\<lambda>s. fits_int (lp_groupId (m_label s))) (shapes c)"
  shows "\<exists>w2 rt. saveFile P (w1\<lparr>w_canvas := c\<rparr>) = (w2, None) \<and>
     readJson (parse P) (disk w2) (path @ ''/'' @ file) root_empty = Inr (True, rt) \<and> root_shapes rt = map save_shape (shapes c) \<and>
     imageData rt = imageData (fm_root (w_files w)) \<and> imagePath rt = imagePath (fm_root (w_files w))"
proof -
  let ?w = "w1\<lparr>w_canvas := c\<rparr>"
  have keep: "isOpenJsonFile (w_files w1)" "m_savePath (w_files w1) = path" "fm_root (w_files w1) = fm_root (w_files w)"
    using assms(2,3,11)
    by (auto simp: openDir_def load_first_def load_current_def on_canvas_def setMultiImage_def selectFile_def Let_def
        split: sum.splits prod.splits if_splits)
  then have rt: "save_root P m = Inr (fm_root (w_files w))"
    using assms(12) by (auto simp: save_root_def IsOpenJsonFile_def getLabelFile_def Let_def bind_result_Inr_iff split: if_splits)
  have "\<exists>w2. saveFile P ?w = (w2, None) \<and> w_canvas w2 = w_canvas ?w \<and>
     readJson (parse P) (disk w2) (path @ ''/'' @ file) root_empty =
       Inr (True, (fm_root (w_files w))\<lparr>root_shapes := map save_shape (shapes (w_canvas ?w)), version := APP_VERSION, root_flags := APP_VERSION\<rparr>)"
    by (rule saveFile_writes[where h = h and wd = wd and m = m]) (use assms keep rt in auto)
  then show ?thesis by auto
qed

theorem directory_saved_with_old_image_witness:
  "\<exists>w1 w2 rt. openDir (sample_platform (blank_image 100 100)) ''pics''
        ((sample_window (blank_image 100 100))\<lparr>w_files := (FileManager_new 0)\<lparr>isOpenJsonFile := True, m_savePath := ''out'', fm_root := sample_root\<rparr>\<rparr>) = (w1, None) \<and>
     saveFile (sample_platform (blank_image 100 100)) (w1\<lparr>w_canvas := w_canvas (sample_window (blank_image 100 100) :: json Window)\<rparr>) = (w2, None) \<and>
     readJson Some (disk w2) ''out/a_labels.json'' root_empty = Inr (True, rt) \<and> imagePath rt = ''a.png''"
proof -
  let ?P = "sample_platform (blank_image 100 100)" and ?v = "sample_window (blank_image 100 100) :: json Window"
  let ?w = "?v\<lparr>w_files := (FileManager_new 0)\<lparr>isOpenJsonFile := True, m_savePath := ''out'', fm_root := sample_root\<rparr>\<rparr>"
  obtain c where c: "loadImage (viewSize ?P) (centre ?P) (Some (blank_image 100 100)) (w_canvas (clean_all ?w)) = (c, None)"
    using loadImage_Some[of "viewSize ?P" "centre ?P" "blank_image 100 100"] by blast
  obtain w1 where w1: "openDir ?P ''pics'' ?w = (w1, None)" "imageFiles (w_files w1) = [''a.png'']" "curIdx (w_files w1) = 0"
  proof -
    have p: "read_image ?P f = Some (blank_image 100 100)" "entryList ?P d = [''a.png'']" for f d
      by (simp_all add: sample_platform_def)
    show ?thesis
      using c that
      by (simp add: openDir_def load_first_def load_current_def on_canvas_def setMultiImage_def selectFile_def Let_def
          getCurrentImageFile_def vec_at_def p)
  qed
  have lf: "getLabelFile (w_files w1) = Inr (''a_labels.json'', (w_files w1)\<lparr>labelFile := ''a_labels.json''\<rparr>)"
    using w1(2,3) by (simp add: getLabelFile_def imageFileNameAt_def vec_at_def getBaseName_def getFileName_def FILENAME_DIR_LABEL_def Let_def)
  have "\<exists>w2 rt. saveFile ?P (w1\<lparr>w_canvas := w_canvas ?v\<rparr>) = (w2, None) \<and>
     readJson (parse ?P) (disk w2) (''out'' @ ''/'' @ ''a_labels.json'') root_empty = Inr (True, rt) \<and>
     root_shapes rt = map save_shape (shapes (w_canvas ?v)) \<and>
     imageData rt = imageData (fm_root (w_files ?w)) \<and> imagePath rt = imagePath (fm_root (w_files ?w))"
    by (rule directory_saved_with_old_image[where h = 512 and wd = 640 and dir = "''pics''", OF _ _ _ _ _ _ _ _ _ _ w1(1) lf])
       (auto simp: reads_file_def sample_platform_def sample_root_def sample_window_def shapes_def get_shape_def Shape_appendPoint_def Shape_setimgWH_def
          Shape_new_def LabelProperty_default_def fits_int_def)
  with w1(1) show ?thesis by (auto simp: sample_platform_def sample_root_def)
qed

subsection \<open>Label colours\<close>

lemma fmod1_frac: "0 \<le> x \<Longrightarrow> fmod1 x = frac x"
  by (simp add: fmod1_def trunc_def frac_def)

lemma frac_add_step: "frac (frac (x :: rat) + y) = frac (x + y)"
  by (simp add: frac_def algebra_simps)

lemma randomColors_hues:
  "0 \<le> h \<Longrightarrow> fst (randomColors hsl n h) = map (\<lambda>k. hsl (frac (h + of_nat (Suc k) * hue_step))) [0..<n]"
proof (induction n arbitrary: h)
  case (Suc n)
  have h1: "fmod1 (h + hue_step) = frac (h + hue_step)" using Suc.prems by (simp add: fmod1_frac hue_step_def)
  have st: "frac (frac (h + hue_step) + of_nat (Suc k) * hue_step) = frac (h + of_nat (Suc (Suc k)) * hue_step)" for k
    unfolding frac_add_step by (simp add: algebra_simps)
  have "fst (randomColors hsl n (frac (h + hue_step))) = map (\<lambda>k. hsl (frac (h + of_nat (Suc (Suc k)) * hue_step))) [0..<n]"
    using Suc.IH[of "frac (h + hue_step)"] unfolding st by simp
  then show ?case
    by (simp add: h1 Let_def case_prod_beta upt_conv_Cons map_Suc_upt[symmetric] o_def del: upt_Suc)
qed simp

lemma hue_period:
  assumes "i < j" "frac (h + of_nat i * hue_step) = frac (h + of_nat j * hue_step)"
  shows "i + 2 * 10 ^ 14 \<le> j"
proof -
  obtain k where k: "i + k = j" "0 < k" using assms(1) less_imp_add_positive by blast
  obtain z where "of_nat k * hue_step = (of_int z :: rat)"
    using assms(2) k(1)[symmetric] by (auto simp: frac_def algebra_simps intro: that[of "\<lfloor>h + of_nat j * hue_step\<rfloor> - \<lfloor>h + of_nat i * hue_step\<rfloor>"])
  then have "(of_int (int k * 618033988749895) :: rat) = of_int (z * 10 ^ 15)" by (simp add: hue_step_def field_simps)
  then have "int k * 618033988749895 = z * 10 ^ 15" by (simp only: of_int_eq_iff)
  then have "int k * 123606797749979 = z * (2 ^ 15 * 5 ^ 14)" by simp
  then have d: "2 ^ 15 * 5 ^ 14 dvd int k * 123606797749979" by simp
  have "coprime (2 ^ 15 * 5 ^ 14 :: int) 123606797749979" by (simp add: coprime_iff_gcd_eq_1 gcd_non_0_int)
  with d have "2 ^ 15 * 5 ^ 14 dvd int k" by (simp only: coprime_dvd_mult_left_iff)
  then have "2 ^ 15 * 5 ^ 14 \<le> int k" using k(2) by (intro zdvd_imp_le) simp_all
  then show ?thesis using k(1) by simp
qed

text \<open>
  The colours of labels are spread over the colour circle: the generator produces hues in the
  half-open unit interval, and the first two hundred million million of them are pairwise different.
\<close>

theorem label_hues_distinct:
  assumes "0 \<le> h" and "n \<le> 2 * 10 ^ 14"
  shows "\<exists>hs. fst (randomColors hsl n h) = map hsl hs \<and> length hs = n \<and> distinct hs \<and> set hs \<subseteq> {0..<1}"
proof (intro exI conjI)
  let ?hs = "map (\<lambda>k. frac (h + of_nat (Suc k) * hue_step)) [0..<n]"
  show "fst (randomColors hsl n h) = map hsl ?hs" using randomColors_hues[OF assms(1)] by (simp add: o_def)
  have "i = j" if ij: "i < n" "j < n" "frac (h + of_nat (Suc i) * hue_step) = frac (h + of_nat (Suc j) * hue_step)" for i j
  proof (cases i j rule: linorder_cases)
    case less
    then have "Suc i + 2 * 10 ^ 14 \<le> Suc j" by (intro hue_period[OF _ ij(3)]) simp
    then show ?thesis using ij(2) assms(2) by linarith
  next
    case greater
    then have "Suc j + 2 * 10 ^ 14 \<le> Suc i" by (intro hue_period[OF _ ij(3)[symmetric]]) simp
    then show ?thesis using ij(1) assms(2) by linarith
  qed
  then show "distinct ?hs" by (auto simp: distinct_map intro!: inj_onI)
  show "set ?hs \<subseteq> {0..<1}" by (auto simp: frac_lt_1)
qed simp

theorem label_hues_distinct_witness:
  "\<exists>hs :: rat list. fst (randomColors (\<lambda>_. color_white) 3 0) = map (\<lambda>_. color_white) hs \<and> length hs = 3 \<and> distinct hs"
proof -
  have "(3 :: nat) \<le> 2 * 10 ^ 14" by simp
  from label_hues_distinct[OF order_refl this, of "\<lambda>_. color_white"] show ?thesis by blast
qed

end
