(* ===== verification/Ini_Roundtrip.thy ===== *)
theory Ini_Roundtrip
  imports Ini_Config
begin

text \<open>
  The configuration file survives saving and loading. Writing a tree and reading the text again may
  move comments to another node, but keeps every section, key and value; trees that were read from
  a file stay in the class for which this holds when settings are changed.
\<close>

subsection \<open>Lines\<close>

definition line_start :: "string \<Rightarrow> bool" where
  "line_start s \<longleftrightarrow> s = [] \<or> last s = newline"

definition fresh_line :: "string \<Rightarrow> string" where
  "fresh_line s = (if line_start s then s else s @ [newline])"

lemma getlines_Nil [simp]: "getlines [] = []"
  by (simp add: getlines.simps)

lemma getlines_one: "newline \<notin> set l \<Longrightarrow> l \<noteq> [] \<Longrightarrow> getlines l = [l]"
proof -
  assume l: "newline \<notin> set l" "l \<noteq> []"
  then have e: "takeWhile (\<lambda>c. c \<noteq> newline) l = l" "dropWhile (\<lambda>c. c \<noteq> newline) l = []" by auto
  show ?thesis unfolding getlines.simps[of l] e using l(2) by simp
qed

lemma getlines_newline: "newline \<notin> set l \<Longrightarrow> getlines (l @ newline # r) = l # getlines r"
proof -
  assume l: "newline \<notin> set l"
  then have "takeWhile (\<lambda>c. c \<noteq> newline) (l @ newline # r) = l" "dropWhile (\<lambda>c. c \<noteq> newline) (l @ newline # r) = newline # r"
    by (auto simp: takeWhile_append dropWhile_append)
  then show ?thesis by (subst getlines.simps) simp
qed

text \<open>Induction over the lines of a text.\<close>

lemma lines_induct [case_names rest line]:
  assumes "\<And>s. newline \<notin> set s \<Longrightarrow> P s" "\<And>l r. newline \<notin> set l \<Longrightarrow> P r \<Longrightarrow> P (l @ newline # r)"
  shows "P s"
proof (induction s rule: length_induct)
  case (1 s)
  show ?case
  proof (cases "newline \<in> set s")
    case True
    then obtain l r where "s = l @ newline # r" "newline \<notin> set l" by (meson split_list_first)
    then show ?thesis using 1 assms(2) by simp
  qed (rule assms(1))
qed

lemma getlines_append: "line_start s \<Longrightarrow> getlines (s @ t) = getlines s @ getlines t"
proof (induction s rule: lines_induct)
  case (rest s)
  then have "s = []" unfolding line_start_def by (metis last_in_set)
  then show ?case by simp
next
  case (line l r)
  then have "line_start r" by (cases r) (auto simp: line_start_def)
  with line show ?case by (simp add: getlines_newline)
qed

lemma getlines_fresh: "getlines (fresh_line s) = getlines s"
proof (induction s rule: lines_induct)
  case (rest s)
  then show ?case
    using getlines_newline[OF rest, of "[]"] getlines_one[OF rest] by (auto simp: fresh_line_def line_start_def)
next
  case (line l r)
  have "fresh_line (l @ newline # r) = l @ newline # fresh_line r"
    by (cases "r = []") (auto simp: fresh_line_def line_start_def)
  with line show ?case by (simp add: getlines_newline)
qed

lemma line_start_fresh [simp]: "line_start (fresh_line s)"
  by (simp add: fresh_line_def line_start_def)

definition load_text :: "string \<Rightarrow> ini_load" where
  "load_text s = load_lines (getlines s) load_init"

lemma load_text_append: "load_text (fresh_line s @ t) = load_lines (getlines t) (load_text s)"
  by (simp add: load_text_def getlines_append getlines_fresh load_lines_def)

lemma load_text_line: "newline \<notin> set l \<Longrightarrow> l \<noteq> [] \<Longrightarrow> load_text (fresh_line s @ l) = load_line l (load_text s)"
  by (simp add: load_text_append getlines_one load_lines_def)

subsection \<open>Trimming\<close>

definition trimmed :: "string \<Rightarrow> bool" where
  "trimmed s \<longleftrightarrow> s = [] \<or> (\<not> is_space (hd s) \<and> \<not> is_space (last s))"

lemma trimL_fixed: "s \<noteq> [] \<Longrightarrow> \<not> is_space (hd s) \<Longrightarrow> trimL s = s"
  by (cases s) (simp_all add: trimL_def)

lemma trimR_fixed: "s \<noteq> [] \<Longrightarrow> \<not> is_space (last s) \<Longrightarrow> trimR s = s"
  by (cases s rule: rev_cases) (simp_all add: trimR_def)

lemma trim_trimmed: "trimmed s \<Longrightarrow> trim s = s"
  by (cases "s = []") (simp_all add: trimmed_def trim_def trimL_fixed trimR_fixed, simp add: trimL_def trimR_def)

lemma trimR_space: "is_space c \<Longrightarrow> trimR (s @ [c]) = trimR s"
  by (simp add: trimR_def)

lemma trimL_space: "is_space c \<Longrightarrow> trimL (c # s) = trimL s"
  by (simp add: trimL_def)

lemma set_trim: "set (trimL s) \<subseteq> set s" "set (trimR s) \<subseteq> set s" "set (trim s) \<subseteq> set s"
proof -
  show l: "set (trimL s) \<subseteq> set s" for s using set_dropWhileD by (fastforce simp: trimL_def)
  show r: "set (trimR s) \<subseteq> set s" for s using set_dropWhileD by (fastforce simp: trimR_def)
  show "set (trim s) \<subseteq> set s" using l[of s] r[of "trimL s"] by (simp add: trim_def)
qed

lemma trimL_hd: "trimL s \<noteq> [] \<Longrightarrow> \<not> is_space (hd (trimL s))"
  unfolding trimL_def by (rule hd_dropWhile) simp

lemma trimR_last: "trimR s \<noteq> [] \<Longrightarrow> \<not> is_space (last (trimR s))"
  unfolding trimR_def last_rev by (rule hd_dropWhile) simp

lemma trimR_hd: "trimR s \<noteq> [] \<Longrightarrow> hd (trimR s) = hd s"
proof -
  assume "trimR s \<noteq> []"
  moreover have "s = trimR s @ rev (takeWhile is_space (rev s))"
    unfolding trimR_def by (metis rev_append rev_rev_ident takeWhile_dropWhile_id)
  ultimately show ?thesis by (metis hd_append2)
qed

lemma trimmed_trim: "trimmed (trim s)"
  unfolding trimmed_def trim_def using trimL_hd trimR_last trimR_hd by (metis list.sel(1) trimR_def dropWhile.simps(1) rev.simps(1))

lemma is_space_simps [simp]:
  "is_space (CHR '' '')" "is_space (CHR 0x09)" "\<not> is_space (CHR ''='')" "\<not> is_space (CHR ''['')" "\<not> is_space (CHR '']'')"
  "\<not> is_space (CHR ''#'')"
  by (simp_all add: is_space_def)

subsection \<open>Well-formed trees\<close>

definition line_ok :: "string \<Rightarrow> bool" where
  "line_ok s \<longleftrightarrow> newline \<notin> set s \<and> CHR 0x00 \<notin> set s"

definition text_ok :: "string \<Rightarrow> bool" where
  "text_ok s \<longleftrightarrow> line_ok s \<and> CHR ''#'' \<notin> set s \<and> trimmed s"

definition key_ok :: "string \<Rightarrow> bool" where
  "key_ok k \<longleftrightarrow> text_ok k \<and> CHR ''='' \<notin> set k \<and> (k \<noteq> [] \<longrightarrow> hd k \<noteq> CHR ''['')"

definition quiet :: "string \<Rightarrow> bool" where
  "quiet l \<longleftrightarrow> trimR (takeWhile (\<lambda>c. c \<noteq> CHR ''#'') (trimL l)) = []"

fun spans_ok :: "IniNode list \<Rightarrow> bool" where
  "spans_ok [] = True"
| "spans_ok [IniNode t l v cs] = (t = INI_SPAN \<and> v = [] \<and> cs = [] \<and> line_ok l \<and> l \<noteq> [] \<and> hd l = CHR ''#'')"
| "spans_ok _ = False"

fun entry_ok :: "IniNode \<Rightarrow> bool" where
  "entry_ok (IniNode INI_KEY_VALUE k v cs) = (key_ok k \<and> text_ok v \<and> spans_ok cs)"
| "entry_ok (IniNode INI_DIV l v cs) = (v = [] \<and> cs = [] \<and> l \<noteq> [] \<and> last l = newline \<and> CHR 0x00 \<notin> set l \<and> list_all quiet (getlines l))"
| "entry_ok _ = False"

fun section_ok :: "IniNode \<Rightarrow> bool" where
  "section_ok (IniNode INI_SECTION s v cs) = (text_ok s \<and> v = [] \<and> (\<exists>sp es. cs = sp @ es \<and> spans_ok sp \<and> list_all entry_ok es))"
| "section_ok (IniNode INI_DIV l v cs) = entry_ok (IniNode INI_DIV l v cs)"
| "section_ok _ = False"

definition tree_ok :: "IniNode list \<Rightarrow> bool" where
  "tree_ok ns \<longleftrightarrow> (\<exists>es ss. ns = es @ ss \<and> list_all entry_ok es \<and> list_all section_ok ss)"

text \<open>The tree without its blank lines and comment lines.\<close>

definition no_div :: "IniNode list \<Rightarrow> IniNode list" where
  "no_div ns = filter (\<lambda>n. node_type n \<noteq> INI_DIV) ns"

definition strip :: "IniNode list \<Rightarrow> IniNode list" where
  "strip ns = map (on_children no_div) (no_div ns)"

lemma strip_append [simp]: "strip (a @ b) = strip a @ strip b"
  by (simp add: strip_def no_div_def)

lemma find_no_div: "t \<noteq> INI_DIV \<Longrightarrow> find (is_entry t l) (no_div ns) = find (is_entry t l) ns"
  by (induction ns) (auto simp: no_div_def is_entry_def)

lemma find_map_on_children: "find (is_entry t l) (map (on_children f) ns) = map_option (on_children f) (find (is_entry t l) ns)"
  by (induction ns) auto

lemma tree_value_strip: "tree_value (strip ns) = tree_value ns"
proof -
  have kv: "kv_value (no_div ns) k = kv_value ns k" for ns k by (simp add: kv_value_def find_no_div)
  have "kv_value (strip ns) k = kv_value ns k" for k
    by (simp add: kv_value_def strip_def find_map_on_children find_no_div split: option.split)
  moreover have "section_children (strip ns) s = no_div (section_children ns s)" for s
    by (simp add: section_children_def strip_def find_map_on_children find_no_div no_div_def[of "[]"] split: option.split)
  ultimately show ?thesis by (simp add: tree_value_def fun_eq_iff kv)
qed

subsection \<open>Reading one line\<close>

definition span_text :: "IniNode list \<Rightarrow> string" where
  "span_text cs = concat (map (\<lambda>n. CHR 0x09 # node_label n) cs)"

text \<open>A tail comment is split off exactly, and with it the tabulator before it.\<close>

lemma split_span:
  assumes "spans_ok cs" "CHR ''#'' \<notin> set b"
  shows "takeWhile (\<lambda>c. c \<noteq> CHR ''#'') (b @ span_text cs) = b @ (if cs = [] then [] else [CHR 0x09])"
    "tail_comment (b @ span_text cs) = cs"
proof -
  have b: "\<forall>x \<in> set b. x \<noteq> CHR ''#''" using assms(2) by auto
  show "takeWhile (\<lambda>c. c \<noteq> CHR ''#'') (b @ span_text cs) = b @ (if cs = [] then [] else [CHR 0x09])"
  proof (cases cs rule: spans_ok.cases)
    case (2 t l v cs')
    then obtain r where "l = CHR ''#'' # r" using assms(1) by (cases l) auto
    then show ?thesis using 2 b by (simp add: span_text_def takeWhile_append2)
  qed (use assms(1) b in \<open>auto simp: span_text_def takeWhile_eq_all_conv\<close>)
  show "tail_comment (b @ span_text cs) = cs"
  proof (cases cs rule: spans_ok.cases)
    case (2 t l v cs')
    then obtain r where "l = CHR ''#'' # r" using assms(1) by (cases l) auto
    then show ?thesis using 2 b assms(1) by (simp add: span_text_def tail_comment_def dropWhile_append2)
  qed (use assms(1) b in \<open>auto simp: span_text_def tail_comment_def\<close>)
qed

lemma line_content:
  assumes "spans_ok cs" "CHR ''#'' \<notin> set b" "trimL l = b @ span_text cs" "trimR b \<noteq> []"
  shows "load_line l st = load_content (trimR b) cs (flush st)"
proof -
  have "trimR (takeWhile (\<lambda>c. c \<noteq> CHR ''#'') (trimL l)) = trimR b"
    using split_span(1)[OF assms(1,2)] by (simp add: assms(3) trimR_space)
  moreover have "b \<noteq> []" using assms(4) by (auto simp: trimR_def)
  then have "trimL l \<noteq> []" by (simp add: assms(3))
  moreover have "tail_comment (trimL l) = cs" by (simp add: assms(3) split_span(2)[OF assms(1,2)])
  ultimately show ?thesis using assms(4) by (simp add: load_line_def Let_def)
qed

lemma load_kv_line:
  assumes "key_ok k" "text_ok v" "spans_ok cs"
  shows "load_line (k @ '' = '' @ v @ span_text cs) st = scope_add (IniNode INI_KEY_VALUE k v cs) (flush st)"
proof -
  let ?x = "if k = [] then [] else k @ '' ''" and ?y = "if v = [] then [] else CHR '' '' # v"
  let ?b = "?x @ ''= '' @ v"
  have k: "trimmed k" "CHR ''#'' \<notin> set k" "CHR ''='' \<notin> set k" "k \<noteq> [] \<Longrightarrow> hd k \<noteq> CHR ''[''"
    using assms(1) by (auto simp: key_ok_def text_ok_def)
  have v: "trimmed v" "CHR ''#'' \<notin> set v" using assms(2) by (auto simp: text_ok_def)
  have l: "trimL (k @ '' = '' @ v @ span_text cs) = ?b @ span_text cs"
    using k(1) by (cases "k = []") (simp_all add: trimL_fixed trimL_space trimmed_def)
  have c: "trimR ?b = ?x @ ''='' @ ?y"
  proof (cases "v = []")
    case True
    then have "trimR ?b = trimR (?x @ ''='')" using trimR_space[of "CHR '' ''" "?x @ ''=''"] by simp
    also have "\<dots> = ?x @ ''=''" by (intro trimR_fixed) simp_all
    finally show ?thesis using True by simp
  next
    case False
    then have "trimR ?b = ?b" using v(1) by (intro trimR_fixed) (simp_all add: trimmed_def)
    then show ?thesis using False by simp
  qed
  have x: "CHR ''='' \<notin> set ?x" using k(3) by simp
  have "trim ?x = k" using k(1) trim_trimmed[of k]
    by (cases "k = []") (simp_all add: trim_def trimL_fixed trimR_space trimmed_def trimR_fixed)
  moreover have "trim ?y = v" using v(1) trim_trimmed[of v] by (cases "v = []") (simp_all add: trim_def trimL_space)
  moreover have "takeWhile (\<lambda>c. c \<noteq> CHR ''='') (?x @ ''='' @ ?y) = ?x" "dropWhile (\<lambda>c. c \<noteq> CHR ''='') (?x @ ''='' @ ?y) = ''='' @ ?y"
    using x by (subst takeWhile_append2 dropWhile_append2; auto)+
  moreover have "hd (?x @ ''='' @ ?y) \<noteq> CHR ''[''" using k(4) by (cases "k = []") simp_all
  moreover have "CHR ''#'' \<notin> set ?b" "trimR ?b \<noteq> []" using k(2) v(2) c by auto
  ultimately show ?thesis
    using line_content[OF assms(3) _ l, of st] unfolding c load_content_def by simp
qed

lemma load_section_line:
  assumes "text_ok s" "spans_ok cs"
  shows "load_line (''['' @ s @ '']'' @ span_text cs) st =
     (flush st)\<lparr>l_root := l_root (flush st) @ [IniNode INI_SECTION s [] cs], l_insec := True\<rparr>"
proof -
  let ?b = "''['' @ s @ '']''"
  have "trimL (''['' @ s @ '']'' @ span_text cs) = ?b @ span_text cs" by (subst trimL_fixed) simp_all
  moreover have b: "trimR ?b = ?b" by (intro trimR_fixed) simp_all
  moreover have "CHR ''#'' \<notin> set ?b" "trim s = s" using assms(1) trim_trimmed by (auto simp: text_ok_def)
  ultimately show ?thesis using line_content[OF assms(2), of ?b _ st] by (simp add: load_content_def b butlast_append)
qed

lemma load_quiet: "list_all quiet ls \<Longrightarrow> \<exists>d. load_lines ls st = st\<lparr>l_div := d\<rparr>"
proof (induction ls arbitrary: st)
  case (Cons l ls)
  have "\<exists>d. load_line l st = st\<lparr>l_div := d\<rparr>" using Cons.prems by (simp add: load_line_def quiet_def Let_def) blast
  then obtain d where "load_line l st = st\<lparr>l_div := d\<rparr>" by blast
  then show ?case using Cons.IH[of "st\<lparr>l_div := d\<rparr>"] Cons.prems by (simp add: load_lines_def)
qed (simp add: load_lines_def, metis ini_load.surjective ini_load.update_convs(3) old.unit.exhaust)

subsection \<open>Writing and reading a tree\<close>

lemma dump_nodes_append: "dump_nodes (a @ b) str = dump_nodes b (dump_nodes a str)"
  by (induction a arbitrary: str) simp_all

lemma dump_spans: "spans_ok cs \<Longrightarrow> dump_nodes cs str = str @ span_text cs"
  by (cases cs rule: spans_ok.cases) (simp_all add: span_text_def)

lemma dump_lines:
  "spans_ok cs \<Longrightarrow> dump_node (IniNode INI_KEY_VALUE k v cs) str = fresh_line str @ k @ '' = '' @ v @ span_text cs"
  "dump_node (IniNode INI_DIV l v []) str = fresh_line str @ l"
  "spans_ok cs \<Longrightarrow> dump_node (IniNode INI_SECTION s v (cs @ es)) str = dump_nodes es (fresh_line str @ ''['' @ s @ '']'' @ span_text cs)"
  by (auto simp: dump_spans dump_nodes_append fresh_line_def line_start_def)

definition load_inv :: "ini_load \<Rightarrow> bool" where
  "load_inv st \<longleftrightarrow> (l_insec st \<longrightarrow> l_root st \<noteq> [] \<and> node_type (last (l_root st)) = INI_SECTION)"

text \<open>Entries added to the last section, or to the root before the first section.\<close>

definition extend :: "bool \<Rightarrow> IniNode list \<Rightarrow> IniNode list \<Rightarrow> IniNode list" where
  "extend b R es = (if b then butlast R @ [on_children (\<lambda>cs. cs @ es) (last R)] else R @ es)"

lemma on_children_compose: "on_children f (on_children g n) = on_children (f \<circ> g) n"
  by (simp add: on_children_def)

lemma extend_extend: "extend b (extend b R es) fs = extend b R (es @ fs)"
  by (simp add: extend_def on_children_compose o_def)

lemma extend_Nil: "(b \<Longrightarrow> R \<noteq> []) \<Longrightarrow> extend b R [] = R"
  by (cases R rule: rev_cases) (auto simp: extend_def on_children_def)

lemma no_div_spans: "spans_ok cs \<Longrightarrow> no_div cs = cs"
  by (cases cs rule: spans_ok.cases) (simp_all add: no_div_def)

lemma scope_add_effect:
  assumes "load_inv st"
  shows "load_inv (scope_add n st)" "l_insec (scope_add n st) = l_insec st"
    "node_type n = INI_DIV \<Longrightarrow> strip (l_root (scope_add n st)) = strip (l_root st)"
    "node_type n \<noteq> INI_DIV \<Longrightarrow> no_div (node_children n) = node_children n \<Longrightarrow>
       strip (l_root (scope_add n st)) = extend (l_insec st) (strip (l_root st)) [n]"
proof -
  show "load_inv (scope_add n st)" "l_insec (scope_add n st) = l_insec st"
    using assms by (auto simp: load_inv_def scope_add_def IniNode_Add_def)
  have l: "strip (l_root st) = strip (butlast (l_root st)) @ [on_children no_div (last (l_root st))]" if ins: "l_insec st"
  proof -
    obtain R x where "l_root st = R @ [x]" "node_type x \<noteq> INI_DIV"
      using ins assms by (cases "l_root st" rule: rev_cases) (auto simp: load_inv_def)
    then show ?thesis by (simp add: strip_def no_div_def)
  qed
  have t: "node_type (last (l_root st)) \<noteq> INI_DIV" if "l_insec st" using that assms by (auto simp: load_inv_def)
  show "strip (l_root (scope_add n st)) = strip (l_root st)" if "node_type n = INI_DIV"
    using that l t by (cases "l_insec st") (simp_all add: scope_add_def strip_def no_div_def IniNode_Add_def on_children_def)
  show "strip (l_root (scope_add n st)) = extend (l_insec st) (strip (l_root st)) [n]"
    if "node_type n \<noteq> INI_DIV" "no_div (node_children n) = node_children n"
  proof (cases "l_insec st")
    case True
    with that(1) t show ?thesis
      unfolding l[OF True] by (simp add: scope_add_def extend_def strip_def no_div_def IniNode_Add_def on_children_def)
  next
    case False
    then show ?thesis using that by (cases n) (simp add: scope_add_def extend_def strip_def on_children_def no_div_def)
  qed
qed

lemma flush_effect:
  assumes "load_inv st"
  shows "load_inv (flush st)" "l_insec (flush st) = l_insec st" "strip (l_root (flush st)) = strip (l_root st)"
  using scope_add_effect(1-3)[OF assms, of "IniNode INI_DIV (l_div st) [] []"] assms
  by (auto simp: flush_def load_inv_def)

lemma strip_root_nonempty: "load_inv st \<Longrightarrow> l_insec st \<Longrightarrow> strip (l_root st) \<noteq> []"
  by (cases "l_root st" rule: rev_cases) (auto simp: load_inv_def strip_def no_div_def)

lemma dump_load_entry:
  assumes "load_inv (load_text str)" "entry_ok n"
  shows "load_inv (load_text (dump_node n str))" "l_insec (load_text (dump_node n str)) = l_insec (load_text str)"
    "strip (l_root (load_text (dump_node n str))) = extend (l_insec (load_text str)) (strip (l_root (load_text str))) (no_div [n])"
proof -
  let ?st = "load_text str"
  have "load_inv (load_text (dump_node n str)) \<and> l_insec (load_text (dump_node n str)) = l_insec ?st \<and>
    strip (l_root (load_text (dump_node n str))) = extend (l_insec ?st) (strip (l_root ?st)) (no_div [n])"
    using assms(2)
  proof (cases n rule: entry_ok.cases)
    case (1 k v cs)
    then have ok: "key_ok k" "text_ok v" "spans_ok cs" using assms(2) by auto
    let ?l = "k @ '' = '' @ v @ span_text cs"
    have "newline \<notin> set (span_text cs)" using ok(3) by (cases cs rule: spans_ok.cases) (auto simp: span_text_def line_ok_def newline_def)
    then have "newline \<notin> set ?l" using ok by (auto simp: key_ok_def text_ok_def line_ok_def) (simp_all add: newline_def)
    then have "load_text (dump_node n str) = load_line ?l ?st"
      using load_text_line[of ?l str] dump_lines(1)[OF ok(3), of k v str] 1 by simp
    also have "\<dots> = scope_add (IniNode INI_KEY_VALUE k v cs) (flush ?st)" by (rule load_kv_line[OF ok])
    finally show ?thesis
      using scope_add_effect[OF flush_effect(1)[OF assms(1)], of n] flush_effect[OF assms(1)] 1 no_div_spans[OF ok(3)]
      by (simp add: no_div_def)
  next
    case (2 l v cs)
    with assms(2) obtain d where "load_lines (getlines l) ?st = ?st\<lparr>l_div := d\<rparr>" using load_quiet by fastforce
    then have "load_text (dump_node n str) = ?st\<lparr>l_div := d\<rparr>"
      using 2 assms(2) load_text_append[of str l] dump_lines(2)[of l v str] by simp
    then show ?thesis
      using 2 assms(1) extend_Nil[of "l_insec ?st" "strip (l_root ?st)"] strip_root_nonempty[OF assms(1)]
      by (simp add: load_inv_def no_div_def)
  qed simp_all
  then show "load_inv (load_text (dump_node n str))" "l_insec (load_text (dump_node n str)) = l_insec (load_text str)"
    "strip (l_root (load_text (dump_node n str))) = extend (l_insec (load_text str)) (strip (l_root (load_text str))) (no_div [n])"
    by blast+
qed

lemma dump_load_entries:
  assumes "load_inv (load_text str)" "list_all entry_ok es"
  shows "load_inv (load_text (dump_nodes es str)) \<and> l_insec (load_text (dump_nodes es str)) = l_insec (load_text str) \<and>
    strip (l_root (load_text (dump_nodes es str))) = extend (l_insec (load_text str)) (strip (l_root (load_text str))) (no_div es)"
  using assms
proof (induction es arbitrary: str)
  case Nil
  then show ?case using extend_Nil strip_root_nonempty by (simp add: no_div_def)
next
  case (Cons n es)
  have n: "entry_ok n" "list_all entry_ok es" using Cons.prems(2) by simp_all
  note e = dump_load_entry[OF Cons.prems(1) n(1)]
  have "no_div (n # es) = no_div [n] @ no_div es" by (simp add: no_div_def)
  then show ?case using Cons.IH[OF e(1) n(2)] e by (simp add: extend_extend)
qed

lemma dump_load_sections:
  assumes "load_inv (load_text str)" "list_all section_ok ss"
  shows "strip (l_root (load_text (dump_nodes ss str))) = strip (l_root (load_text str)) @ strip ss"
  using assms
proof (induction ss arbitrary: str)
  case (Cons n ss)
  let ?st = "load_text str"
  have n: "section_ok n" "list_all section_ok ss" using Cons.prems(2) by simp_all
  have "load_inv (load_text (dump_node n str)) \<and> strip (l_root (load_text (dump_node n str))) = strip (l_root ?st) @ strip [n]"
    using n(1)
  proof (cases n rule: section_ok.cases)
    case (1 s v cs)
    with n(1) obtain sp es where cs: "cs = sp @ es" "spans_ok sp" "list_all entry_ok es" "text_ok s" "v = []" by auto
    let ?l = "''['' @ s @ '']'' @ span_text sp"
    have "newline \<notin> set (span_text sp)" using cs(2) by (cases sp rule: spans_ok.cases) (auto simp: span_text_def line_ok_def newline_def)
    then have nl: "newline \<notin> set ?l" using cs(4) by (auto simp: text_ok_def line_ok_def) (simp_all add: newline_def)
    let ?h = "load_text (fresh_line str @ ?l)"
    have h: "?h = (flush ?st)\<lparr>l_root := l_root (flush ?st) @ [IniNode INI_SECTION s [] sp], l_insec := True\<rparr>"
      using load_text_line[OF nl] load_section_line[OF cs(4,2), of ?st] by simp
    then have "load_inv ?h" by (simp add: load_inv_def)
    moreover have "strip (l_root ?h) = strip (l_root ?st) @ [IniNode INI_SECTION s [] sp]"
      using h flush_effect(3)[OF Cons.prems(1)] no_div_spans[OF cs(2)] by (simp add: strip_def no_div_def on_children_def)
    moreover have "l_insec ?h" using h by simp
    ultimately show ?thesis
      using dump_load_entries[of "fresh_line str @ ?l" es] cs 1 dump_lines(3)[OF cs(2), of s v es str] no_div_spans[OF cs(2)]
      by (simp add: extend_def strip_def on_children_def no_div_def)
  next
    case (2 l v cs)
    then have "entry_ok n" using n(1) by simp
    from dump_load_entry[OF Cons.prems(1) this] 2 extend_Nil[of "l_insec ?st" "strip (l_root ?st)"] strip_root_nonempty[OF Cons.prems(1)]
    show ?thesis by (simp add: no_div_def strip_def)
  qed simp_all
  then show ?case using Cons.IH[OF _ n(2), of "dump_node n str"] by (simp add: strip_def no_div_def)
qed (simp add: strip_def no_div_def)

lemma dump_load_tree:
  assumes "tree_ok ns"
  shows "strip (l_root (load_text (dump_nodes ns []))) = strip ns"
proof -
  obtain es ss where ns: "ns = es @ ss" "list_all entry_ok es" "list_all section_ok ss" using assms by (auto simp: tree_ok_def)
  have init: "load_text [] = load_init" by (simp add: load_text_def load_lines_def)
  have "strip (no_div es) = no_div es" if "list_all entry_ok es" for es
    using that
  proof (induction es)
    case (Cons n es)
    moreover have "node_type n \<noteq> INI_DIV \<Longrightarrow> on_children no_div n = n"
      using Cons.prems no_div_spans by (cases n rule: entry_ok.cases) (auto simp: on_children_def)
    ultimately show ?case by (simp add: no_div_def strip_def)
  qed (simp add: no_div_def strip_def)
  moreover have "strip (no_div es) = strip es" for es by (simp add: strip_def no_div_def)
  ultimately have "no_div es = strip es" using ns(2) by metis
  then show ?thesis
    using dump_load_entries[of "[]" es] dump_load_sections[of "dump_nodes es []" ss] ns
    by (simp add: init dump_nodes_append extend_def load_init_def load_inv_def strip_def[of "[]"] no_div_def[of "[]"])
qed

text \<open>
  A root that was read has its type; a root that \<^verbatim>\<open>SetValue\<close> made may have any, but it has no text
  and nothing but sections below it.
\<close>

definition root_node_ok :: "IniNode \<Rightarrow> bool" where
  "root_node_ok r \<longleftrightarrow> tree_ok (node_children r) \<and>
     (node_type r = INI_ROOT \<or> node_label r = [] \<and> node_value r = [] \<and> list_all section_ok (node_children r))"

definition ini_ok :: "IniParser \<Rightarrow> bool" where
  "ini_ok p \<longleftrightarrow> (\<forall>r. ini_root p = Some r \<longrightarrow> root_node_ok r)"

text \<open>What is written for the root itself\<close>

fun root_text :: "IniType \<Rightarrow> string" where
  "root_text INI_SECTION = ''[]''"
| "root_text INI_KEY_VALUE = '' = ''"
| "root_text INI_SPAN = [CHR 0x09]"
| "root_text _ = []"

lemma DumpString_ok:
  assumes "ini_ok p"
  obtains t where "DumpString p = dump_nodes (root_children p) (root_text t)" "t = INI_ROOT \<or> list_all section_ok (root_children p)"
proof (cases "ini_root p")
  case None
  then show ?thesis using that[of INI_ROOT] by (simp add: DumpString_def root_children_def)
next
  case (Some r)
  obtain t l v cs where r: "r = IniNode t l v cs" by (cases r)
  with Some assms show ?thesis using that[of t]
    by (cases t) (auto simp: ini_ok_def root_node_ok_def DumpString_def root_children_def)
qed

lemma tree_ok_root: "ini_ok p \<Longrightarrow> tree_ok (root_children p)"
  by (auto simp: ini_ok_def root_node_ok_def root_children_def tree_ok_def split: option.split)

text \<open>Text of the root before the sections changes no value.\<close>

lemma root_text_read:
  "load_inv (load_text (root_text t))"
  "l_root (load_text (root_text t)) = (case t of INI_SECTION \<Rightarrow> [IniNode INI_SECTION [] [] []]
     | INI_KEY_VALUE \<Rightarrow> [IniNode INI_KEY_VALUE [] [] []] | _ \<Rightarrow> [])"
proof -
  have "text_ok []" "key_ok []" by (simp_all add: text_ok_def key_ok_def line_ok_def trimmed_def)
  moreover have "load_text l = load_line l load_init" if "newline \<notin> set l" "l \<noteq> []" for l
    using that getlines_one[of l] by (simp add: load_text_def load_lines_def)
  ultimately have "load_text ''[]'' = \<lparr>l_root = [IniNode INI_SECTION [] [] []], l_insec = True, l_div = []\<rparr>"
    "load_text '' = '' = \<lparr>l_root = [IniNode INI_KEY_VALUE [] [] []], l_insec = False, l_div = []\<rparr>"
    "load_text [CHR 0x09] = \<lparr>l_root = [], l_insec = False, l_div = [newline]\<rparr>" "load_text [] = load_init"
    using load_section_line[of "[]" "[]" load_init] load_kv_line[of "[]" "[]" "[]" load_init]
    by (simp_all add: newline_def span_text_def flush_def load_init_def scope_add_def load_line_def trimL_def load_text_def load_lines_def)
  then show "load_inv (load_text (root_text t))"
    "l_root (load_text (root_text t)) = (case t of INI_SECTION \<Rightarrow> [IniNode INI_SECTION [] [] []]
     | INI_KEY_VALUE \<Rightarrow> [IniNode INI_KEY_VALUE [] [] []] | _ \<Rightarrow> [])"
    by (cases t; simp add: load_inv_def load_init_def)+
qed

lemma sections_no_value: "list_all section_ok ss \<Longrightarrow> kv_value ss k = []"
proof -
  assume "list_all section_ok ss"
  then have "\<not> is_entry INI_KEY_VALUE k n" if "n \<in> set ss" for n
    using that by (cases n rule: section_ok.cases) (auto simp: list_all_iff is_entry_def)
  then have "find (is_entry INI_KEY_VALUE k) ss = None" by (auto simp: find_None_iff)
  then show ?thesis by (simp add: kv_value_def)
qed

lemma root_text_values:
  assumes "list_all section_ok ss"
  shows "tree_value (l_root (load_text (dump_nodes ss (root_text t)))) = tree_value ss"
proof -
  let ?R = "l_root (load_text (root_text t))"
  have "strip (l_root (load_text (dump_nodes ss (root_text t)))) = strip (?R @ ss)"
    using dump_load_sections[OF root_text_read(1) assms, of t] by simp
  then have "tree_value (l_root (load_text (dump_nodes ss (root_text t)))) = tree_value (?R @ ss)"
    using tree_value_strip by metis
  also have "\<dots> = tree_value ss" using sections_no_value[OF assms]
    by (auto simp: root_text_read(2) tree_value_def kv_value_def section_children_def is_entry_def fun_eq_iff split: IniType.split)
  finally show ?thesis .
qed

lemma load_dump_values:
  assumes "ini_ok p"
  shows "GetValue (LoadFromMem (DumpString p) q) k s = GetValue p k s"
proof -
  obtain t where t: "DumpString p = dump_nodes (root_children p) (root_text t)" "t = INI_ROOT \<or> list_all section_ok (root_children p)"
    by (rule DumpString_ok[OF assms])
  let ?st = "load_text (DumpString p)"
  have "strip (root_children (LoadFromMem (DumpString p) q)) = strip (l_root ?st)"
    by (simp add: LoadFromMem_def root_children_def load_text_def Let_def) (simp add: strip_def no_div_def)
  then have "tree_value (root_children (LoadFromMem (DumpString p) q)) = tree_value (l_root ?st)" using tree_value_strip by metis
  also have "\<dots> = tree_value (root_children p)"
    using t(2) root_text_values[of "root_children p" t] dump_load_tree[OF tree_ok_root[OF assms]] tree_value_strip
    unfolding t(1) by (metis root_text.simps(5))
  finally show ?thesis by (simp add: GetValue_tree)
qed

subsection \<open>Trees that were read\<close>

lemma getlines_sets: "l \<in> set (getlines s) \<Longrightarrow> newline \<notin> set l \<and> set l \<subseteq> set s"
proof (induction s rule: lines_induct)
  case (rest s)
  then show ?case using getlines_one[of s] by (cases "s = []") auto
next
  case (line l' r)
  then show ?case by (auto simp: getlines_newline)
qed

definition div_ok :: "string \<Rightarrow> bool" where
  "div_ok d \<longleftrightarrow> d = [] \<or> entry_ok (IniNode INI_DIV d [] [])"

lemma div_ok_append: "div_ok d \<Longrightarrow> line_ok l \<Longrightarrow> quiet l \<Longrightarrow> div_ok (d @ l @ [newline])"
proof -
  assume a: "div_ok d" "line_ok l" "quiet l"
  then have "line_start d" by (auto simp: div_ok_def line_start_def)
  then have "getlines (d @ l @ [newline]) = getlines d @ [l]"
    using getlines_append[of d "l @ [newline]"] getlines_newline[of l "[]"] a(2) by (simp add: line_ok_def)
  then show ?thesis using a by (auto simp: div_ok_def line_ok_def newline_def)
qed

definition root_ok :: "bool \<Rightarrow> IniNode list \<Rightarrow> bool" where
  "root_ok b R \<longleftrightarrow> (\<exists>es ss. R = es @ ss \<and> list_all entry_ok es \<and> list_all section_ok ss \<and>
     (if b then ss \<noteq> [] \<and> node_type (last ss) = INI_SECTION else ss = []))"

definition load_ok :: "ini_load \<Rightarrow> bool" where
  "load_ok st \<longleftrightarrow> root_ok (l_insec st) (l_root st) \<and> div_ok (l_div st)"

lemma section_okI: "text_ok s \<Longrightarrow> spans_ok sp \<Longrightarrow> list_all entry_ok es \<Longrightarrow> section_ok (IniNode INI_SECTION s [] (sp @ es))"
  by auto

lemma scope_add_ok:
  assumes "load_ok st" "entry_ok n"
  shows "load_ok (scope_add n st)"
proof -
  from assms(1) obtain es ss where st: "l_root st = es @ ss" "list_all entry_ok es" "list_all section_ok ss"
    "if l_insec st then ss \<noteq> [] \<and> node_type (last ss) = INI_SECTION else ss = []" "div_ok (l_div st)" by (auto simp: load_ok_def root_ok_def)
  show ?thesis
  proof (cases "l_insec st")
    case True
    with st(4) obtain ss' x where ss: "ss = ss' @ [x]" "node_type x = INI_SECTION" by (cases ss rule: rev_cases) auto
    with st(3) obtain s sp es' where x: "x = IniNode INI_SECTION s [] (sp @ es')" "text_ok s" "spans_ok sp" "list_all entry_ok es'"
      by (cases x rule: section_ok.cases) auto
    have "section_ok (IniNode_Add n x)"
      using x assms(2) section_okI[of s sp "es' @ [n]"] by (simp add: IniNode_Add_def)
    moreover have "l_root (scope_add n st) = es @ (ss' @ [IniNode_Add n x])" using True st(1) ss by (simp add: scope_add_def butlast_append)
    moreover have "node_type (IniNode_Add n x) = INI_SECTION" using ss(2) by (simp add: IniNode_Add_def)
    ultimately have "root_ok True (l_root (scope_add n st))"
      unfolding root_ok_def using st(2,3) ss(1) by (intro exI[of _ es] exI[of _ "ss' @ [IniNode_Add n x]"]) simp
    then show ?thesis using True st(5) by (simp add: load_ok_def scope_add_def)
  next
    case False
    then show ?thesis using st assms(2) by (auto simp: load_ok_def root_ok_def scope_add_def)
  qed
qed

lemma flush_ok: "load_ok st \<Longrightarrow> load_ok (flush st)"
  using scope_add_ok[of st "IniNode INI_DIV (l_div st) [] []"] by (auto simp: flush_def load_ok_def div_ok_def)

lemma tail_comment_ok: "line_ok l \<Longrightarrow> set c \<subseteq> set l \<Longrightarrow> spans_ok (tail_comment c)"
proof -
  assume a: "line_ok l" "set c \<subseteq> set l"
  let ?d = "dropWhile (\<lambda>x. x \<noteq> CHR ''#'') c"
  have "set ?d \<subseteq> set l" using a(2) set_dropWhileD by fastforce
  then have "line_ok ?d" using a(1) by (auto simp: line_ok_def)
  moreover have "?d \<noteq> [] \<Longrightarrow> hd ?d = CHR ''#''" using hd_dropWhile[of "\<lambda>x. x \<noteq> CHR ''#''" c] by blast
  ultimately show ?thesis by (simp add: tail_comment_def Let_def)
qed

lemma text_ok_trim: "line_ok l \<Longrightarrow> set c \<subseteq> set l \<Longrightarrow> CHR ''#'' \<notin> set c \<Longrightarrow> text_ok (trim c)"
  using set_trim(3)[of c] trimmed_trim[of c] by (auto simp: text_ok_def line_ok_def)

lemma root_ok_section: "root_ok b R \<Longrightarrow> section_ok n \<Longrightarrow> node_type n = INI_SECTION \<Longrightarrow> root_ok True (R @ [n])"
proof -
  assume a: "root_ok b R" "section_ok n" "node_type n = INI_SECTION"
  then obtain es ss where "R = es @ ss" "list_all entry_ok es" "list_all section_ok ss" by (auto simp: root_ok_def)
  with a(2,3) show ?thesis unfolding root_ok_def by (intro exI[of _ es] exI[of _ "ss @ [n]"]) simp
qed

lemma load_content_ok:
  assumes "load_ok st" "line_ok l" "set content \<subseteq> set l" "CHR ''#'' \<notin> set content" "content \<noteq> []" "\<not> is_space (hd content)" "spans_ok sp"
  shows "load_ok (load_content content sp st)"
proof -
  let ?k = "takeWhile (\<lambda>c. c \<noteq> CHR ''='') content" and ?v = "tl (dropWhile (\<lambda>c. c \<noteq> CHR ''='') content)"
  have sub: "set ?k \<subseteq> set content" "set ?v \<subseteq> set content" "set (butlast (tl content)) \<subseteq> set content"
    using set_takeWhileD set_dropWhileD list.set_sel(2) in_set_butlastD
    by (fastforce, metis list.sel(2) set_dropWhileD list.set_sel(2) subsetI, metis in_set_butlastD list.sel(2) list.set_sel(2) subsetI)
  have ok: "text_ok (trim ?k)" "text_ok (trim ?v)" "text_ok (trim (butlast (tl content)))"
    using sub assms(3,4) by (auto intro!: text_ok_trim[OF assms(2)])
  have "CHR ''='' \<notin> set (trim ?k)" using set_trim(3)[of ?k] set_takeWhileD by fastforce
  moreover have "hd (trim ?k) = hd content" if "trim ?k \<noteq> []"
  proof -
    have "?k \<noteq> []" using that by (auto simp: trim_def trimL_def trimR_def)
    then have hd: "hd ?k = hd content" by (cases content) (auto split: if_splits)
    with \<open>?k \<noteq> []\<close> assms(6) have "trimL ?k = ?k" by (simp add: trimL_fixed)
    with that hd show ?thesis using trimR_hd[of ?k] by (simp add: trim_def)
  qed
  ultimately have kv: "hd content \<noteq> CHR ''['' \<Longrightarrow> entry_ok (IniNode INI_KEY_VALUE (trim ?k) (trim ?v) sp)"
    using ok assms(7) by (auto simp: key_ok_def)
  have sec: "section_ok (IniNode INI_SECTION (trim (butlast (tl content))) [] sp)"
    using section_okI[OF ok(3) assms(7), of "[]"] by simp
  have "root_ok True (l_root st @ [IniNode INI_SECTION (trim (butlast (tl content))) [] sp])"
    by (rule root_ok_section[OF _ sec]) (use assms(1) in \<open>auto simp: load_ok_def\<close>)
  then have "load_ok (st\<lparr>l_root := l_root st @ [IniNode INI_SECTION (trim (butlast (tl content))) [] sp], l_insec := True\<rparr>)"
    using assms(1) by (simp add: load_ok_def)
  then show ?thesis using scope_add_ok[OF assms(1) kv] assms(1) by (simp add: load_content_def)
qed

lemma load_line_ok:
  assumes "load_ok st" "line_ok l"
  shows "load_ok (load_line l st)"
proof -
  let ?w = "trimL l"
  let ?t = "takeWhile (\<lambda>c. c \<noteq> CHR ''#'') ?w"
  let ?c = "trimR ?t"
  have d: "load_ok (st\<lparr>l_div := l_div st @ m @ [newline]\<rparr>)" if "line_ok m" "quiet m" for m
    using assms(1) div_ok_append[OF _ that, of "l_div st"] by (auto simp: load_ok_def)
  have "load_ok (load_content ?c (tail_comment ?w) (flush st))" if c: "?c \<noteq> []"
  proof (rule load_content_ok[OF flush_ok[OF assms(1)] assms(2) _ _ c])
    show "spans_ok (tail_comment ?w)" by (rule tail_comment_ok[OF assms(2) set_trim(1)])
    show "set ?c \<subseteq> set l" using set_trim(2)[of ?t] set_trim(1)[of l] set_takeWhileD by fastforce
    show "CHR ''#'' \<notin> set ?c" using set_trim(2)[of ?t] set_takeWhileD by fastforce
    have "?t \<noteq> []" using c by (auto simp: trimR_def)
    then have "hd ?t = hd ?w" "?w \<noteq> []" by (cases ?w; auto split: if_splits)+
    then show "\<not> is_space (hd ?c)" using trimR_hd[OF c] trimL_hd[of l] by simp
  qed
  moreover have "quiet []" "line_ok []" by (simp_all add: quiet_def trimL_def trimR_def line_ok_def)
  ultimately show ?thesis
    using d[of l] d[of "[]"] assms(2) by (auto simp: load_line_def Let_def quiet_def)
qed

lemma LoadFromMem_ok:
  assumes "CHR 0x00 \<notin> set data"
  shows "ini_ok (LoadFromMem data p)"
proof -
  have "load_ok (load_lines ls st)" if "load_ok st" "\<forall>l \<in> set ls. line_ok l" for ls st
    using that by (induction ls arbitrary: st) (simp_all add: load_lines_def load_line_ok)
  moreover have "load_ok load_init" by (simp add: load_ok_def root_ok_def load_init_def div_ok_def)
  moreover have "\<forall>l \<in> set (getlines data). line_ok l" using getlines_sets assms by (fastforce simp: line_ok_def)
  ultimately have st: "load_ok (load_lines (getlines data) load_init)" by blast
  let ?st = "load_lines (getlines data) load_init"
  obtain es ss where "l_root ?st = es @ ss" "list_all entry_ok es" "list_all section_ok ss"
    using st by (auto simp: load_ok_def root_ok_def)
  moreover have "l_div ?st \<noteq> [] \<Longrightarrow> section_ok (IniNode INI_DIV (l_div ?st) [] [])" using st by (simp add: load_ok_def div_ok_def)
  ultimately have "tree_ok (l_root ?st @ (if l_div ?st \<noteq> [] then [IniNode INI_DIV (l_div ?st) [] []] else []))"
    unfolding tree_ok_def
    by (intro exI[of _ es] exI[of _ "ss @ (if l_div ?st \<noteq> [] then [IniNode INI_DIV (l_div ?st) [] []] else [])"]) simp
  then show ?thesis by (simp add: ini_ok_def root_node_ok_def LoadFromMem_def Let_def)
qed

subsection \<open>Changing settings\<close>

lemma update_entry_skip: "\<forall>n \<in> set ns. \<not> is_entry t l n \<Longrightarrow> update_entry t l f (ns @ ms) = ns @ update_entry t l f ms"
  by (induction ns) simp_all

lemma entries_put:
  assumes "list_all entry_ok es" "key_ok k" "text_ok v"
  shows "list_all entry_ok (update_entry INI_KEY_VALUE k (set_value v) es)"
  using assms(1)
proof (induction es)
  case (Cons n es)
  have "entry_ok (set_value v n)" if "is_entry INI_KEY_VALUE k n"
    using that Cons.prems assms(3) by (cases n rule: entry_ok.cases) (auto simp: is_entry_def set_value_def)
  with Cons show ?case by auto
qed (use assms(2,3) in \<open>simp add: set_value_def\<close>)

lemma section_put:
  assumes "section_ok n" "node_type n = INI_SECTION" "key_ok k" "text_ok v"
  shows "section_ok (on_children (update_entry INI_KEY_VALUE k (set_value v)) n)"
proof -
  obtain s sp es where n: "n = IniNode INI_SECTION s [] (sp @ es)" "text_ok s" "spans_ok sp" "list_all entry_ok es"
    using assms(1,2) by (cases n rule: section_ok.cases) auto
  have "\<forall>m \<in> set sp. \<not> is_entry INI_KEY_VALUE k m" using n(3) by (cases sp rule: spans_ok.cases) (auto simp: is_entry_def)
  then have "on_children (update_entry INI_KEY_VALUE k (set_value v)) n =
      IniNode INI_SECTION s [] (sp @ update_entry INI_KEY_VALUE k (set_value v) es)"
    using n(1) by (simp add: on_children_def update_entry_skip)
  then show ?thesis using section_okI[OF n(2,3) entries_put[OF n(4) assms(3,4)]] by simp
qed

lemma sections_put:
  assumes "list_all section_ok ss" "text_ok s" "key_ok k" "text_ok v"
  shows "list_all section_ok (update_entry INI_SECTION s (on_children (update_entry INI_KEY_VALUE k (set_value v))) ss)"
  using assms(1)
proof (induction ss)
  case Nil
  have "section_ok (IniNode INI_SECTION s [] [])" using section_okI[OF assms(2), of "[]" "[]"] by simp
  then show ?case using section_put[OF _ _ assms(3,4), of "IniNode INI_SECTION s [] []"] by simp
next
  case (Cons n ss)
  then show ?case using section_put[OF _ _ assms(3,4), of n] by (auto simp: is_entry_def)
qed

definition setting_ok :: "string \<times> string \<times> string \<Rightarrow> bool" where
  "setting_ok u = (case u of (k, v, s) \<Rightarrow> key_ok k \<and> text_ok v \<and> text_ok s \<and> s \<noteq> [])"

lemma SetValue_ok:
  assumes "ini_ok p" "setting_ok (k, v, s)"
  shows "ini_ok (SetValue k v s p)"
proof -
  have ok: "key_ok k" "text_ok v" "text_ok s" "s \<noteq> []" using assms(2) by (simp_all add: setting_ok_def)
  obtain es ss where ns: "root_children p = es @ ss" "list_all entry_ok es" "list_all section_ok ss"
    using tree_ok_root[OF assms(1)] by (auto simp: tree_ok_def)
  have "\<forall>n \<in> set es. \<not> is_entry INI_SECTION s n"
  proof
    fix n assume "n \<in> set es"
    then have "entry_ok n" using ns(2) by (simp add: list_all_iff)
    then show "\<not> is_entry INI_SECTION s n" by (cases n rule: entry_ok.cases) (auto simp: is_entry_def)
  qed
  then have "root_children (SetValue k v s p) =
      es @ update_entry INI_SECTION s (on_children (update_entry INI_KEY_VALUE k (set_value v))) ss"
    using ok(4) ns(1) by (simp add: root_children_SetValue update_entry_skip)
  then have tree: "tree_ok (root_children (SetValue k v s p))"
    using ns(2) sections_put[OF ns(3) ok(3,1,2)] unfolding tree_ok_def by blast
  have secs: "list_all section_ok (root_children (SetValue k v s p))" if "list_all section_ok (root_children p)"
    using sections_put[OF that ok(3,1,2)] ok(4) by (simp add: root_children_SetValue)
  obtain r where r: "ini_root (SetValue k v s p) = Some r" "node_children r = root_children (SetValue k v s p)"
    by (simp add: SetValue_def root_children_def Let_def)
  have "node_type r = INI_ROOT \<or> node_label r = [] \<and> node_value r = [] \<and> list_all section_ok (root_children p)"
    using assms(1) r(1) by (cases "ini_root p") (auto simp: ini_ok_def root_node_ok_def root_children_def SetValue_def Let_def)
  then show ?thesis using tree secs r by (auto simp: ini_ok_def root_node_ok_def)
qed

lemma dump_no_nul:
  "list_all entry_ok es \<Longrightarrow> CHR 0x00 \<notin> set str \<Longrightarrow> CHR 0x00 \<notin> set (dump_nodes es str)"
  "list_all section_ok ss \<Longrightarrow> CHR 0x00 \<notin> set str \<Longrightarrow> CHR 0x00 \<notin> set (dump_nodes ss str)"
proof -
  have fr: "CHR 0x00 \<notin> set (fresh_line str)" if "CHR 0x00 \<notin> set str" for str
    using that by (simp add: fresh_line_def newline_def)
  have sp: "CHR 0x00 \<notin> set (span_text cs)" if "spans_ok cs" for cs
    using that by (cases cs rule: spans_ok.cases) (auto simp: span_text_def line_ok_def)
  have en: "CHR 0x00 \<notin> set (dump_node n str)" if "entry_ok n" "CHR 0x00 \<notin> set str" for n str
    using that(1)
  proof (cases n rule: entry_ok.cases)
    case (1 k v cs)
    then show ?thesis
      using that fr[OF that(2)] sp[of cs] dump_lines(1)[of cs k v str] by (auto simp: key_ok_def text_ok_def line_ok_def)
  next
    case (2 l v cs)
    then show ?thesis using that fr[OF that(2)] dump_lines(2)[of l v str] by auto
  qed (use that in simp_all)
  show es: "list_all entry_ok es \<Longrightarrow> CHR 0x00 \<notin> set str \<Longrightarrow> CHR 0x00 \<notin> set (dump_nodes es str)" for es str
    by (induction es arbitrary: str) (simp_all add: en)
  have "CHR 0x00 \<notin> set (dump_node n str)" if "section_ok n" "CHR 0x00 \<notin> set str" for n str
    using that(1)
  proof (cases n rule: section_ok.cases)
    case (1 s v cs)
    with that(1) obtain sp es where "cs = sp @ es" "spans_ok sp" "list_all entry_ok es" "text_ok s" by auto
    then show ?thesis
      using 1 es fr[OF that(2)] sp[of sp] dump_lines(3)[of sp s v es str] by (auto simp: text_ok_def line_ok_def)
  next
    case (2 l v cs)
    then show ?thesis using that en[of n str] by (simp del: dump_node.simps)
  qed (use that in simp_all)
  then show "list_all section_ok ss \<Longrightarrow> CHR 0x00 \<notin> set str \<Longrightarrow> CHR 0x00 \<notin> set (dump_nodes ss str)"
    by (induction ss arbitrary: str) simp_all
qed

lemma DumpString_no_nul: "ini_ok p \<Longrightarrow> CHR 0x00 \<notin> set (DumpString p)"
proof -
  assume p: "ini_ok p"
  obtain es ss where "root_children p = es @ ss" "list_all entry_ok es" "list_all section_ok ss"
    using tree_ok_root[OF p] by (auto simp: tree_ok_def)
  moreover obtain t where "DumpString p = dump_nodes (root_children p) (root_text t)" by (rule DumpString_ok[OF p])
  moreover have "CHR 0x00 \<notin> set (root_text t)" for t by (cases t) simp_all
  ultimately show ?thesis using dump_no_nul by (simp add: dump_nodes_append)
qed

lemma dump_grows: "length str \<le> length (dump_node n str)" "length str \<le> length (dump_nodes ns str)"
proof (induction n str and ns str rule: dump_node_dump_nodes.induct)
  case (1 t l v cs str)
  from 1[OF refl refl] show ?case
    unfolding dump_node.simps Let_def by (rule order.trans[rotated]) (simp split: IniType.splits)
qed (auto intro: order.trans)

lemma dump_section_nonempty: "n \<in> set ns \<Longrightarrow> node_type n = INI_SECTION \<Longrightarrow> dump_nodes ns str \<noteq> []"
proof (induction ns arbitrary: str)
  case (Cons m ns)
  show ?case
  proof (cases "n = m")
    case True
    obtain l v cs where m: "m = IniNode INI_SECTION l v cs" using Cons.prems(2) True by (cases m) simp
    have "0 < length (dump_node m str)" unfolding m dump_node.simps Let_def
      by (rule less_le_trans[OF _ dump_grows(2)]) simp
    also have "\<dots> \<le> length (dump_nodes ns (dump_node m str))" by (rule dump_grows)
    finally show ?thesis by auto
  qed (use Cons in auto)
qed simp

lemma update_entry_has: "(\<And>n. is_entry t l n \<Longrightarrow> is_entry t l (f n)) \<Longrightarrow> \<exists>n \<in> set (update_entry t l f ns). node_type n = t"
  by (induction ns) (auto simp: is_entry_def)

definition apply_settings :: "(string \<times> string \<times> string) list \<Rightarrow> IniParser \<Rightarrow> IniParser" where
  "apply_settings us p = fold (\<lambda>(k, v, s). SetValue k v s) us p"

lemma apply_settings_ok: "ini_ok p \<Longrightarrow> list_all setting_ok us \<Longrightarrow> ini_ok (apply_settings us p)"
  unfolding apply_settings_def by (induction us arbitrary: p) (auto simp: SetValue_ok)

lemma apply_settings_nonempty:
  assumes "ini_ok p" "list_all setting_ok us" "us \<noteq> []"
  shows "DumpString (apply_settings us p) \<noteq> []"
proof -
  obtain us' k v s where us: "us = us' @ [(k, v, s)]" using assms(3) by (metis prod_cases3 rev_exhaust)
  have "apply_settings us p = SetValue k v s (apply_settings us' p)" by (simp add: us apply_settings_def)
  moreover have "s \<noteq> []" using assms(2) us by (simp add: setting_ok_def)
  ultimately have "\<exists>n \<in> set (root_children (apply_settings us p)). node_type n = INI_SECTION"
    using update_entry_has[of INI_SECTION s] by (simp add: root_children_SetValue)
  then show ?thesis
    using dump_section_nonempty DumpString_ok[OF apply_settings_ok[OF assms(1,2)]] by metis
qed

lemma apply_settings_path: "ini_filepath (apply_settings us p) = ini_filepath p"
  unfolding apply_settings_def by (induction us arbitrary: p) (auto simp: SetValue_def Let_def)

lemma LoadFromFile_ok: "ini_ok (snd (LoadFromFile fs path (IniParser_new mem)))" "ini_filepath (snd (LoadFromFile fs path (IniParser_new mem))) = path"
proof -
  have "CHR 0x00 \<notin> set (takeWhile (\<lambda>c. c \<noteq> CHR 0x00) str)" for str using set_takeWhileD by fastforce
  then show "ini_ok (snd (LoadFromFile fs path (IniParser_new mem)))"
    by (cases "fs path") (simp_all add: LoadFromFile_def LoadFromMem_ok Let_def, simp add: ini_ok_def IniParser_new_def)
  show "ini_filepath (snd (LoadFromFile fs path (IniParser_new mem))) = path"
    by (cases "fs path") (simp_all add: LoadFromFile_def LoadFromMem_def Let_def)
qed

lemma load_saved:
  assumes "ini_ok p"
  shows "GetValue (snd (LoadFromFile (fs(path \<mapsto> DumpString p)) path (IniParser_new mem))) = GetValue p"
proof -
  have "takeWhile (\<lambda>c. c \<noteq> CHR 0x00) (DumpString p) = DumpString p"
    using DumpString_no_nul[OF assms] by (auto simp: takeWhile_eq_all_conv)
  then have "snd (LoadFromFile (fs(path \<mapsto> DumpString p)) path (IniParser_new mem)) =
      LoadFromMem (DumpString p) ((IniParser_new mem)\<lparr>ini_filepath := path\<rparr>)"
    unfolding LoadFromFile_def Let_def fun_upd_same option.case snd_conv by (rule arg_cong)
  then show ?thesis using load_dump_values[OF assms] by (simp add: fun_eq_iff)
qed

lemma restart_values:
  assumes "list_all setting_ok us" "us \<noteq> []" "can_write path"
  shows "\<exists>fs'. IniParser_Save can_write fs (apply_settings us (snd (LoadFromFile fs path (IniParser_new mem)))) = (True, fs') \<and> fs' path \<noteq> None \<and>
     GetValue (snd (LoadFromFile fs' path (IniParser_new mem'))) = GetValue (apply_settings us (snd (LoadFromFile fs path (IniParser_new mem))))"
proof -
  define q where "q = snd (LoadFromFile fs path (IniParser_new mem))"
  have q: "ini_ok q" "ini_filepath q = path" unfolding q_def by (rule LoadFromFile_ok)+
  have "IniParser_Save can_write fs (apply_settings us q) = (True, fs(path \<mapsto> DumpString (apply_settings us q)))"
    using apply_settings_nonempty[OF q(1) assms(1,2)] assms(3)
    by (simp add: IniParser_Save_def SaveAs_def Let_def apply_settings_path q(2))
  with load_saved[OF apply_settings_ok[OF q(1) assms(1)]] show ?thesis unfolding q_def[symmetric]
    by (metis fun_upd_same option.distinct(1))
qed

text \<open>
  C10. Settings survive a restart. Whatever the configuration file contained, and also without one, after
  changing any settings that the format can express, saving succeeds, and a new start of the program
  reads for every key of every section the value that was last set, or else the value of the old file.
  The format can express a setting if its section has a name, its key has no equals sign and does not
  start with a bracket, and neither section, key nor value has a comment sign, a line break, a NUL or
  blanks at its ends. The type of a root that was never set may be anything.
\<close>

theorem settings_survive_restart:
  assumes "list_all setting_ok us" and "us \<noteq> []" and "can_write path"
  shows "\<exists>fs'. IniParser_Save can_write fs (apply_settings us (snd (LoadFromFile fs path (IniParser_new mem)))) = (True, fs') \<and>
     (\<forall>k s. GetValue (snd (LoadFromFile fs' path (IniParser_new mem'))) k s =
        (case map_of (rev (map (\<lambda>(k, v, s). ((k, s), v)) us)) (k, s) of
           Some v \<Rightarrow> v | None \<Rightarrow> GetValue (snd (LoadFromFile fs path (IniParser_new mem))) k s))"
proof -
  have "GetValue (apply_settings us p) k s =
      (case map_of (rev (map (\<lambda>(k, v, s). ((k, s), v)) us)) (k, s) of Some v \<Rightarrow> v | None \<Rightarrow> GetValue p k s)" for p k s
    unfolding apply_settings_def
    by (induction us rule: rev_induct) (auto simp: ini.get_put)
  with restart_values[where can_write = can_write and path = path and us = us and fs = fs and mem = mem and mem' = mem', OF assms]
  show ?thesis by auto
qed

text \<open>An existing file: one setting is changed, and one with a comment behind it is kept.\<close>

definition sample_conf :: string where
  "sample_conf = ''[ui]'' @ [newline] @ ''skin = dark # default'' @ [newline] @ ''[image]'' @ [newline] @ ''default_contrast = 150''"

lemma sample_conf_lines:
  "getlines sample_conf = [''[ui]'', ''skin = dark # default'', ''[image]'', ''default_contrast = 150'']"
  using getlines_newline[of "''[ui]''"] getlines_newline[of "''skin = dark # default''"] getlines_newline[of "''[image]''"]
    getlines_one[of "''default_contrast = 150''"]
  by (simp add: sample_conf_def newline_def)

theorem settings_survive_restart_witness:
  "\<exists>fs'. IniParser_Save (\<lambda>_. True) [''a.conf'' \<mapsto> sample_conf] (apply_settings [(''default_contrast'', ''69'', ''image'')]
        (snd (LoadFromFile [''a.conf'' \<mapsto> sample_conf] ''a.conf'' (IniParser_new INI_UNKNOWN)))) = (True, fs') \<and>
     GetValue (snd (LoadFromFile fs' ''a.conf'' (IniParser_new INI_UNKNOWN))) ''default_contrast'' ''image'' = ''69'' \<and>
     GetValue (snd (LoadFromFile fs' ''a.conf'' (IniParser_new INI_UNKNOWN))) ''skin'' ''ui'' = ''dark''"
proof -
  have "list_all setting_ok [(''default_contrast'', ''69'', ''image'')]"
    by (simp add: setting_ok_def key_ok_def text_ok_def line_ok_def trimmed_def is_space_def newline_def)
  moreover have nul: "takeWhile (\<lambda>c. c \<noteq> CHR 0x00) sample_conf = sample_conf" by (simp add: sample_conf_def newline_def)
  have "GetValue (snd (LoadFromFile [''a.conf'' \<mapsto> sample_conf] ''a.conf'' (IniParser_new INI_UNKNOWN))) ''skin'' ''ui'' = ''dark''"
    unfolding LoadFromFile_def Let_def fun_upd_same option.case snd_conv nul
    by (simp add: LoadFromMem_def sample_conf_lines load_lines_def load_line_def load_content_def load_init_def
        flush_def scope_add_def tail_comment_def trim_def trimL_def trimR_def is_space_def IniNode_Add_def
        GetValue_def IniNode_Get_def is_entry_def Let_def)
  ultimately show ?thesis
    using settings_survive_restart[where can_write = "\<lambda>_. True" and path = "''a.conf''" and fs = "[''a.conf'' \<mapsto> sample_conf]"
        and us = "[(''default_contrast'', ''69'', ''image'')]" and mem = INI_UNKNOWN and mem' = INI_UNKNOWN]
    by auto
qed

end
