(* ===== verification/Hv_Strings.thy ===== *)
theory Hv_Strings
  imports Ini_Config "HOL-Library.Sublist"
begin

text \<open>
  The string functions of the bundled base library that the program is built with,
  \<^verbatim>\<open>3rd/Hv/base/hstring.cpp\<close> and \<^verbatim>\<open>hbase.c\<close>. A C string is the list of its
  characters before the terminating NUL; buffers are the text that is left in them. Paths have both
  kinds of slashes as separators, as on Windows, for which the program is built.
\<close>

subsection \<open>Searching\<close>

definition find_last :: "(char \<Rightarrow> bool) \<Rightarrow> string \<Rightarrow> nat option" where
  "find_last P s = (case dropWhile (\<lambda>c. \<not> P c) (rev s) of [] \<Rightarrow> None | c # r \<Rightarrow> Some (length r))"

text \<open>\<^verbatim>\<open>std::string::find\<close> from a position; the empty text is found there.\<close>

fun find_sub :: "string \<Rightarrow> string \<Rightarrow> nat option" where
  "find_sub p [] = (if p = [] then Some 0 else None)"
| "find_sub p (c # cs) = (if prefix p (c # cs) then Some 0 else map_option Suc (find_sub p cs))"

definition find_from :: "string \<Rightarrow> string \<Rightarrow> nat \<Rightarrow> nat option" where
  "find_from p s pos = (if pos \<le> length s then map_option (\<lambda>i. pos + i) (find_sub p (drop pos s)) else None)"

subsection \<open>hstring.cpp\<close>

fun split_loop :: "char \<Rightarrow> string \<Rightarrow> string \<Rightarrow> string list" where
  "split_loop delim value [] = [value]"
| "split_loop delim value (c # p) =
     (if c = delim then value # split_loop delim [] p else split_loop delim (value @ [c]) p)"

definition split :: "string \<Rightarrow> char \<Rightarrow> string list" where
  "split str delim = split_loop delim [] str"

text \<open>
  \<^verbatim>\<open>splitKV\<close>: \<^verbatim>\<open>key\<close> and \<^verbatim>\<open>value\<close> are pointers into the text, that is, the rest of the
  text from there on.
\<close>

record kv_state =
  in_key :: bool
  kv_key :: string
  kv_value :: string
  key_len :: nat
  value_len :: nat
  kvs :: "string \<rightharpoonup> string"

definition kv_store :: "kv_state \<Rightarrow> kv_state" where
  "kv_store st = st\<lparr>kvs := (kvs st)(take (key_len st) (kv_key st) \<mapsto> take (value_len st) (kv_value st))\<rparr>"

fun kv_loop :: "char \<Rightarrow> char \<Rightarrow> string \<Rightarrow> kv_state \<Rightarrow> kv_state" where
  "kv_loop kv_kv k_v [] st = (if key_len st \<noteq> 0 \<and> value_len st \<noteq> 0 then kv_store st else st)"
| "kv_loop kv_kv k_v (c # p) st =
     kv_loop kv_kv k_v p
       (if c = kv_kv
        then (if key_len st \<noteq> 0 \<and> value_len st \<noteq> 0 then (kv_store st)\<lparr>key_len := 0, value_len := 0\<rparr> else st)\<lparr>in_key := True, kv_key := p\<rparr>
        else if c = k_v then st\<lparr>in_key := False, kv_value := p\<rparr>
        else if in_key st then st\<lparr>key_len := Suc (key_len st)\<rparr> else st\<lparr>value_len := Suc (value_len st)\<rparr>)"

definition splitKV :: "string \<Rightarrow> char \<Rightarrow> char \<Rightarrow> string \<rightharpoonup> string" where
  "splitKV str kv_kv k_v =
     kvs (kv_loop kv_kv k_v str \<lparr>in_key = True, kv_key = str, kv_value = [], key_len = 0, value_len = 0, kvs = Map.empty\<rparr>)"

text \<open>The loop of \<^verbatim>\<open>replace\<close> searches on behind the text it has put in.\<close>

partial_function (option) replace_loop :: "string \<Rightarrow> string \<Rightarrow> string \<Rightarrow> nat \<Rightarrow> string option" where
  "replace_loop pat rep res pos =
     (case find_from pat res pos of
        None \<Rightarrow> Some res
      | Some i \<Rightarrow> replace_loop pat rep (take i res @ rep @ drop (i + length pat) res) (i + length rep))"

definition replace_str :: "string \<Rightarrow> string \<Rightarrow> string \<Rightarrow> string option" where
  "replace_str str pat rep = replace_loop pat rep str 0"

definition is_sep :: "char \<Rightarrow> bool" where
  "is_sep c \<longleftrightarrow> c = CHR ''/'' \<or> c = CHR 0x5C"

definition basename :: "string \<Rightarrow> string" where
  "basename str =
     (case find_last (\<lambda>c. \<not> is_sep c) str of
        None \<Rightarrow> ''/''
      | Some pos1 \<Rightarrow>
          let pos2 = (case find_last is_sep (take (Suc pos1) str) of None \<Rightarrow> 0 | Some p \<Rightarrow> Suc p)
          in take (pos1 - pos2 + 1) (drop pos2 str))"

definition dirname :: "string \<Rightarrow> string" where
  "dirname str =
     (case find_last (\<lambda>c. \<not> is_sep c) str of
        None \<Rightarrow> ''/''
      | Some pos1 \<Rightarrow>
          (case find_last is_sep (take (Suc pos1) str) of
             None \<Rightarrow> ''.''
           | Some pos2 \<Rightarrow> take (if pos2 = 0 then 1 else pos2) str))"

definition file_part :: "string \<Rightarrow> string" where
  "file_part str = (case find_last is_sep str of None \<Rightarrow> str | Some p \<Rightarrow> drop (Suc p) str)"

definition filename :: "string \<Rightarrow> string" where
  "filename str =
     (let file = file_part str in case find_last (\<lambda>c. c = CHR ''.'') file of None \<Rightarrow> file | Some p \<Rightarrow> take p file)"

definition suffixname :: "string \<Rightarrow> string" where
  "suffixname str =
     (let file = file_part str in case find_last (\<lambda>c. c = CHR ''.'') file of None \<Rightarrow> [] | Some p \<Rightarrow> drop (Suc p) file)"

subsection \<open>hbase.c\<close>

definition strlower :: "string \<Rightarrow> string" where
  "strlower s = map lower s"

text \<open>Two pointers that swap and meet.\<close>

function reverse_loop :: "string \<Rightarrow> nat \<Rightarrow> nat \<Rightarrow> string" where
  "reverse_loop s b e = (if e > b then reverse_loop (s[e := s ! b, b := s ! e]) (b + 1) (e - 1) else s)"
  by pat_completeness auto
termination by (relation "measure (\<lambda>(s, b, e). e - b)") auto

definition strreverse :: "string \<Rightarrow> string" where
  "strreverse s = reverse_loop s 0 (length s - 1)"

text \<open>
  \<^verbatim>\<open>n\<close> is the size of the buffer, a \<^verbatim>\<open>size_t\<close>: decrementing 0 wraps. The result is what
  is written before the NUL.
\<close>

fun safe_strncpy :: "string \<Rightarrow> 64 word \<Rightarrow> string" where
  "safe_strncpy [] n = []"
| "safe_strncpy (c # src) n = (if n - 1 > 0 then c # safe_strncpy src (n - 1) else [])"

definition safe_strncat :: "string \<Rightarrow> string \<Rightarrow> 64 word \<Rightarrow> string" where
  "safe_strncat dest src n = dest @ safe_strncpy src (n - of_nat (length dest))"

fun strstartswith :: "string \<Rightarrow> string \<Rightarrow> bool" where
  "strstartswith (c # str) (d # start) = (if c = d then strstartswith str start else False)"
| "strstartswith str start = (start = [])"

text \<open>
  The first two loops leave the pointers one behind the terminating NUL; the comparison then goes
  backwards over as many characters as the end has.
\<close>

fun ends_loop :: "nat \<Rightarrow> string \<Rightarrow> string \<Rightarrow> bool" where
  "ends_loop 0 rstr rend = True"
| "ends_loop (Suc n) (c # rstr) (d # rend) = (if c \<noteq> d then False else ends_loop n rstr rend)"
| "ends_loop (Suc n) _ _ = True"

definition strendswith :: "string \<Rightarrow> string \<Rightarrow> bool" where
  "strendswith str suf =
     (if length str < length suf then False
      else ends_loop (length suf) (CHR 0x00 # rev str) (CHR 0x00 # rev suf))"

definition hv_basename :: "string \<Rightarrow> string" where
  "hv_basename filepath = (case find_last is_sep filepath of None \<Rightarrow> filepath | Some p \<Rightarrow> drop (Suc p) filepath)"

text \<open>
  \<^verbatim>\<open>strncpy\<close> writes no NUL if the text fills the buffer; reading it back then runs past the end.
  Without a separator the buffer keeps its text.
\<close>

definition get_executable_dir :: "string \<Rightarrow> string \<Rightarrow> nat \<Rightarrow> string result" where
  "get_executable_dir filepath buf sz =
     (case find_last is_sep filepath of
        None \<Rightarrow> Inr buf
      | Some pos \<Rightarrow> if pos < sz then Inr (take pos filepath) else Inl (Undefined ''unterminated buffer''))"

subsection \<open>Splitting\<close>

fun join :: "char \<Rightarrow> string list \<Rightarrow> string" where
  "join d [] = []"
| "join d [x] = x"
| "join d (x # xs) = x @ d # join d xs"

lemma join_Cons: "xs \<noteq> [] \<Longrightarrow> join d (x # xs) = x @ d # join d xs"
  by (cases xs) simp_all

lemma split_loop_spec:
  assumes "d \<notin> set v"
  shows "join d (split_loop d v s) = v @ s \<and> list_all (\<lambda>x. d \<notin> set x) (split_loop d v s) \<and> split_loop d v s \<noteq> []"
  using assms by (induction d v s rule: split_loop.induct) (auto simp: join_Cons)

text \<open>
  Splitting cuts at every delimiter and nowhere else: the pieces are free of it, and joined with it they
  give the text back.
\<close>

theorem split_join: "join d (split s d) = s \<and> list_all (\<lambda>x. d \<notin> set x) (split s d)"
  using split_loop_spec[of d "[]" s] by (simp add: split_def)

text \<open>
  A key without a value spoils the next pair, because its length is not reset: in \<^verbatim>\<open>a&b=c\<close> the
  value is stored under the key \<^verbatim>\<open>b=\<close>.
\<close>

theorem splitKV_keeps_key_length:
  "splitKV ''a&b=c'' CHR ''&'' CHR ''='' = [''b='' \<mapsto> ''c'']"
  by (simp add: splitKV_def kv_store_def)

subsection \<open>Paths\<close>

lemma find_last_None: "find_last P s = None \<longleftrightarrow> (\<forall>c \<in> set s. \<not> P c)"
proof -
  have "(case xs of [] \<Rightarrow> None | c # r \<Rightarrow> Some (length r)) = None \<longleftrightarrow> xs = []" for xs :: string by (cases xs) simp_all
  then have "find_last P s = None \<longleftrightarrow> dropWhile (\<lambda>c. \<not> P c) (rev s) = []" unfolding find_last_def by (simp only:)
  then show ?thesis by (simp add: dropWhile_eq_Nil_conv)
qed

lemma find_last_Some:
  assumes "P c" "\<forall>x \<in> set ys. \<not> P x"
  shows "find_last P (xs @ c # ys) = Some (length xs)"
proof -
  have "dropWhile (\<lambda>c. \<not> P c) (rev ys @ c # rev xs) = c # rev xs" using assms by (subst dropWhile_append2) auto
  then show ?thesis by (simp add: find_last_def)
qed

lemma split_last: "b \<noteq> [] \<Longrightarrow> \<exists>b' c. b = b' @ [c]"
  by (metis append_butlast_last_id)

text \<open>
  The directory and the name of a path are its parts before and after the last separator, whatever
  separators follow the name; a path of one name is in the directory \<^verbatim>\<open>.\<close>.
\<close>

theorem dirname_basename:
  assumes "b \<noteq> []" and "\<forall>c \<in> set b. \<not> is_sep c" and "\<forall>c \<in> set t. is_sep c" and "is_sep sp"
  shows "basename (d @ sp # b @ t) = b \<and> basename (b @ t) = b \<and> dirname (b @ t) = ''.'' \<and>
     (d \<noteq> [] \<longrightarrow> dirname (d @ sp # b @ t) = d)"
proof -
  obtain b' c where b: "b = b' @ [c]" using assms(1) split_last by blast
  have c: "\<not> is_sep c" "\<forall>x \<in> set b'. \<not> is_sep x" using assms(2) b by auto
  have f1: "find_last (\<lambda>c. \<not> is_sep c) (d @ sp # b @ t) = Some (length d + 1 + length b')"
    using find_last_Some[of "\<lambda>c. \<not> is_sep c" c t "d @ sp # b'"] c assms(3) b by simp
  have f2: "find_last (\<lambda>c. \<not> is_sep c) (b @ t) = Some (length b')"
    using find_last_Some[of "\<lambda>c. \<not> is_sep c" c t b'] c assms(3) b by simp
  have t1: "take (Suc (length d + 1 + length b')) (d @ sp # b @ t) = d @ sp # b" by (simp add: b)
  have t2: "take (Suc (length b')) (b @ t) = b" by (simp add: b)
  have g1: "find_last is_sep (d @ sp # b) = Some (length d)" using find_last_Some[of is_sep sp b d] assms(2,4) by simp
  have g2: "find_last is_sep b = None" using assms(2) by (simp add: find_last_None)
  show ?thesis
    unfolding basename_def dirname_def f1 f2 option.case t1 t2 g1 g2 Let_def by (simp add: b)
qed

theorem dirname_basename_witness:
  "basename ''/usr/bin//'' = ''bin'' \<and> dirname ''/usr/bin//'' = ''/usr'' \<and> dirname ''bin//'' = ''.''"
  using dirname_basename[of "''bin''" "''//''" "CHR ''/''" "''/usr''"] by (simp add: is_sep_def)

subsection \<open>Replacing\<close>

lemma find_sub_Some: "find_sub p s = Some i \<Longrightarrow> i + length p \<le> length s"
  by (induction p s arbitrary: i rule: find_sub.induct) (auto dest: prefix_length_le split: if_splits)

text \<open>The reference: replace the first occurrence and go on behind it.\<close>

function subst_all :: "string \<Rightarrow> string \<Rightarrow> string \<Rightarrow> string" where
  "subst_all pat rep s =
     (if pat = [] then s
      else case find_sub pat s of
             None \<Rightarrow> s
           | Some i \<Rightarrow> take i s @ rep @ subst_all pat rep (drop (i + length pat) s))"
  by pat_completeness auto
termination
proof (relation "measure (\<lambda>(pat, rep, s). length s)")
  fix pat rep s :: string and i
  assume a: "pat \<noteq> []" "find_sub pat s = Some i"
  have "0 < length pat" using a(1) by simp
  then have "length s - (i + length pat) < length s" using find_sub_Some[OF a(2)] by linarith
  then show "((pat, rep, drop (i + length pat) s), (pat, rep, s)) \<in> measure (\<lambda>(pat, rep, s). length s)" by simp
qed simp

declare subst_all.simps [simp del]

lemma replace_loop_spec:
  assumes "pat \<noteq> []"
  shows "replace_loop pat rep (pre @ s) (length pre) = Some (pre @ subst_all pat rep s)"
  using assms
proof (induction pat rep s arbitrary: pre rule: subst_all.induct)
  case (1 pat rep s)
  have f: "find_from pat (pre @ s) (length pre) = map_option (\<lambda>i. length pre + i) (find_sub pat s)"
    by (simp add: find_from_def)
  show ?case
  proof (cases "find_sub pat s")
    case None
    then show ?thesis using 1(2) f by (subst replace_loop.simps, subst subst_all.simps) simp
  next
    case (Some i)
    have l: "length (pre @ take i s @ rep) = length pre + i + length rep" using find_sub_Some[OF Some] by simp
    from 1(1)[OF 1(2) Some 1(2), of "pre @ take i s @ rep"] show ?thesis
      unfolding l using Some f 1(2) by (subst replace_loop.simps, subst subst_all.simps) (simp add: ac_simps)
  qed
qed

lemma replace_empty_diverges:
  assumes "replace_loop pat rep res pos = Some r"
  shows "pat = [] \<longrightarrow> length res < pos"
proof (rule replace_loop.raw_induct[OF _ assms])
  fix loop :: "string \<Rightarrow> string \<Rightarrow> string \<Rightarrow> nat \<Rightarrow> string option" and pat rep res :: string and pos r
  assume IH: "\<And>pat rep res pos r. loop pat rep res pos = Some r \<Longrightarrow> pat = [] \<longrightarrow> length res < pos"
    and step: "(case find_from pat res pos of None \<Rightarrow> Some res
       | Some i \<Rightarrow> loop pat rep (take i res @ rep @ drop (i + length pat) res) (i + length rep)) = Some r"
  have e: "find_sub [] xs = Some 0" for xs by (cases xs) simp_all
  show "pat = [] \<longrightarrow> length res < pos"
  proof (rule impI, rule ccontr)
    assume p: "pat = []" "\<not> length res < pos"
    then have "find_from pat res pos = Some pos" by (simp add: find_from_def e)
    with step IH[of pat rep "take pos res @ rep @ drop (pos + length pat) res" "pos + length rep" r] p show False by simp
  qed
qed

text \<open>
  \<^verbatim>\<open>replace\<close> returns if and only if the text to look for is not empty, and then every
  occurrence is replaced from left to right, without looking into what was put in.
\<close>

theorem replace_returns_iff:
  "replace_str str pat rep = (if pat = [] then None else Some (subst_all pat rep str))"
proof (cases "pat = []")
  case True
  then show ?thesis using replace_empty_diverges[of pat rep str 0] by (cases "replace_str str pat rep") (auto simp: replace_str_def)
next
  case False
  then show ?thesis using replace_loop_spec[OF False, of rep "[]" str] by (simp add: replace_str_def)
qed

subsection \<open>C strings\<close>

lemma reverse_loop_nth:
  "e < length s \<Longrightarrow> length (reverse_loop s b e) = length s \<and>
   (\<forall>i < length s. reverse_loop s b e ! i = (if b \<le> i \<and> i \<le> e then s ! (b + e - i) else s ! i))"
proof (induction s b e rule: reverse_loop.induct)
  case (1 s b e)
  show ?case
  proof (cases "e > b")
    case True
    let ?s = "s[e := s ! b, b := s ! e]"
    have IH: "length (reverse_loop ?s (b + 1) (e - 1)) = length s \<and>
       (\<forall>i < length s. reverse_loop ?s (b + 1) (e - 1) ! i = (if b + 1 \<le> i \<and> i \<le> e - 1 then ?s ! (b + 1 + (e - 1) - i) else ?s ! i))"
      using 1(1)[OF True] 1(2) by simp
    have eq: "reverse_loop s b e = reverse_loop ?s (b + 1) (e - 1)" using True by simp
    have "(if b + 1 \<le> i \<and> i \<le> e - 1 then ?s ! (b + 1 + (e - 1) - i) else ?s ! i) = (if b \<le> i \<and> i \<le> e then s ! (b + e - i) else s ! i)"
      if "i < length s" for i
      using that True 1(2) by (auto simp: nth_list_update)
    then show ?thesis unfolding eq using IH by simp
  next
    case False
    moreover have "s ! i = s ! (b + e - i)" if "\<not> b < e" "b \<le> i" "i \<le> e" for i
    proof -
      have "b + e - i = i" using that by linarith
      then show ?thesis by simp
    qed
    ultimately show ?thesis by auto
  qed
qed

declare reverse_loop.simps [simp del]

theorem strreverse_rev: "strreverse s = rev s"
proof (cases s)
  case Nil
  then show ?thesis by (simp add: strreverse_def reverse_loop.simps)
next
  case (Cons c cs)
  then show ?thesis
    using reverse_loop_nth[of "length s - 1" s 0] by (intro nth_equalityI) (auto simp: strreverse_def rev_nth simp del: rev.simps)
qed

text \<open>
  Copying into a buffer of \<^verbatim>\<open>n\<close> bytes writes at most \<^verbatim>\<open>n - 1\<close> characters, except for
  size 0, where the counter wraps and the whole text is written.
\<close>

theorem safe_strncpy_spec:
  "safe_strncpy src n = take (if n = 0 then 2 ^ 64 - 1 else unat n - 1) src"
proof (induction src n rule: safe_strncpy.induct)
  case (2 c src n)
  have "unat (- 1 :: 64 word) = 2 ^ 64 - 1" by (simp add: unsigned_minus_1_eq_mask mask_eq_exp_minus_1)
  then have "unat (n - 1) = (if n = 0 then 2 ^ 64 - 1 else unat n - 1)" by (simp add: unat_minus_one)
  moreover have "0 < n - 1 \<longleftrightarrow> 0 < unat (n - 1)" by (simp add: word_less_nat_alt)
  ultimately show ?case using 2 by (cases "unat (n - 1)") (auto simp: unat_eq_0 take_Cons')
qed simp

lemma ends_loop_take: "n \<le> length xs \<Longrightarrow> n \<le> length ys \<Longrightarrow> ends_loop n xs ys \<longleftrightarrow> take n xs = take n ys"
  by (induction n xs ys rule: ends_loop.induct) auto

text \<open>
  The comparison of ends starts at the terminating NUL, so the first character of the end is never
  compared: the function holds exactly if the text is long enough and ends with the rest of it.
\<close>

theorem strendswith_iff: "strendswith str suf \<longleftrightarrow> length suf \<le> length str \<and> suffix (tl suf) str"
proof (cases suf)
  case (Cons c cs)
  have "take (length cs) (rev cs @ [c]) = rev cs" by simp
  then have "strendswith str suf \<longleftrightarrow> length suf \<le> length str \<and> take (length cs) (rev str) = rev cs"
    using Cons by (auto simp: strendswith_def ends_loop_take)
  also have "take (length cs) (rev str) = rev cs \<longleftrightarrow> suffix cs str"
    by (metis suffix_to_prefix length_rev prefix_def take_is_prefix append_eq_conv_conj)
  finally show ?thesis using Cons by simp
qed (simp add: strendswith_def)

end
