(* ===== verification/App_Start.thy ===== *)
theory App_Start
  imports Main_Window Ini_Roundtrip Hv_Strings
begin

text \<open>
  Start and end of the program, \<^verbatim>\<open>src/global/main.cpp\<close>: where the configuration and the
  log are, how the window is shown and where, which values the adjustment widget and the canvas start
  with (\<^verbatim>\<open>ImageAdj::initParam\<close>, \<^verbatim>\<open>Window::initParams\<close>), and what is saved at
  the end. The configuration file has its own view of the disk; whether it can be written is a
  parameter, as is the path of the program, which the system reports, and what the memory holds that
  the parser leaves uninitialised.
\<close>

subsection \<open>Paths\<close>

definition APP_NAME :: string where
  "APP_NAME = ''XY-Annotation''"

text \<open>\<^verbatim>\<open>snprintf\<close> into a buffer of 256 bytes keeps 255 characters.\<close>

definition snprintf_path :: "string \<Rightarrow> string" where
  "snprintf_path s = take 255 s"

definition conf_file :: "string \<Rightarrow> string" where
  "conf_file exec_dir = snprintf_path (exec_dir @ ''/conf/'' @ APP_NAME @ ''.conf'')"

text \<open>\<^verbatim>\<open>QFile::copy\<close> fails without effect if there is no source, or a target already.\<close>

definition QFile_copy :: "(string \<Rightarrow> bool) \<Rightarrow> string \<Rightarrow> string \<Rightarrow> string files \<Rightarrow> string files" where
  "QFile_copy can_write src dst fs =
     (case (fs src, fs dst) of (Some t, None) \<Rightarrow> if can_write dst then fs(dst \<mapsto> t) else fs | _ \<Rightarrow> fs)"

definition load_config :: "IniType \<Rightarrow> (string \<Rightarrow> bool) \<Rightarrow> string \<Rightarrow> string files \<Rightarrow> string files \<times> IniParser \<times> string" where
  "load_config mem can_write exec_dir fs =
     (let conf = conf_file exec_dir;
          fs1 = (if fs conf = None
                 then QFile_copy can_write (exec_dir @ ''/conf/'' @ APP_NAME @ ''.conf.default'') conf fs else fs);
          config = snd (LoadFromFile fs1 conf (IniParser_new mem));
          str = GetValue config ''logfile'' [];
          str1 = (if str = [] then ''logs/'' @ APP_NAME @ ''.log'' else str)
      in (fs1, config, snprintf_path (exec_dir @ ''/'' @ str1)))"

definition config_of :: "string files \<times> IniParser \<times> string \<Rightarrow> IniParser" where
  "config_of r = fst (snd r)"

text \<open>\<^verbatim>\<open>g_exec_dir\<close> is a global buffer of 256 bytes, empty at first.\<close>

definition load_config_of :: "IniType \<Rightarrow> (string \<Rightarrow> bool) \<Rightarrow> string \<Rightarrow> string files \<Rightarrow> (string files \<times> IniParser \<times> string) result" where
  "load_config_of mem can_write exec_path fs =
     bind_result (get_executable_dir exec_path [] 256) (\<lambda>exec_dir. Inr (load_config mem can_write exec_dir fs))"

lemma load_config_of_dir:
  assumes "is_sep sp" "\<forall>c \<in> set exe. \<not> is_sep c"
  shows "load_config_of mem can_write (d @ sp # exe) fs =
     (if length d < 256 then Inr (load_config mem can_write d fs) else Inl (Undefined ''unterminated buffer''))"
  using find_last_Some[of is_sep sp exe d] assms by (simp add: load_config_of_def get_executable_dir_def)

subsection \<open>The geometry of the window\<close>

text \<open>
  \<^verbatim>\<open>sscanf\<close> with literal text and \<^verbatim>\<open>%d\<close>: white space before a number is
  skipped, and the scan stops at the first mismatch. The result is the list of the numbers that were
  assigned.
\<close>

definition scan_int :: "string \<Rightarrow> (int \<times> string) option" where
  "scan_int s =
     (let t = skip_space s;
          neg = (t \<noteq> [] \<and> hd t = CHR ''-'');
          u = (if t \<noteq> [] \<and> hd t \<in> {CHR ''-'', CHR ''+''} then tl t else t);
          ds = takeWhile (\<lambda>c. char_digit c \<noteq> None) u
      in case read_digits 0 ds of
           None \<Rightarrow> None
         | Some n \<Rightarrow> if ds = [] then None else Some (if neg then - int n else int n, drop (length ds) u))"

fun sscanf :: "string list \<Rightarrow> string \<Rightarrow> int list" where
  "sscanf [] s = []"
| "sscanf (lit # lits) s =
     (if take (length lit) s = lit
      then (case scan_int (drop (length lit) s) of None \<Rightarrow> [] | Some (n, t) \<Rightarrow> n # sscanf lits t)
      else [])"

datatype show_call = show_normal | showMinimized | showMaximized | showFullScreen

record started =
  window_state :: int
  setGeometry :: "(int \<times> int \<times> int \<times> int) option"
  shown :: show_call

unbundle bit_operations_syntax

text \<open>
  The variables are not initialised: if the text has fewer than four numbers, the test reads one
  that was never assigned. The test itself is the bitwise \<^verbatim>\<open>w&h\<close>.
\<close>

definition read_rect :: "string \<Rightarrow> (int \<times> int \<times> int \<times> int) option result" where
  "read_rect str =
     (case sscanf [''rect('', '','', '','', '',''] str of
        [x, y, w, h] \<Rightarrow>
          if list_all fits_int [x, y, w, h] then Inr (if w AND h \<noteq> 0 then Some (x, y, w, h) else None)
          else Inl (Undefined ''sscanf out of range'')
      | _ \<Rightarrow> Inl (Undefined ''uninitialised w or h''))"

text \<open>\<^verbatim>\<open>Window::mv_fullscreen\<close> has an empty body.\<close>

definition mv_fullscreen :: "started \<Rightarrow> started" where
  "mv_fullscreen s = s"

definition window_init :: "IniParser \<Rightarrow> started result" where
  "window_init config =
     bind_result (Get_int config ''main_window_state'' ''ui'' 0) (\<lambda>st.
     bind_result
       (if st = 3 then Inr \<lparr>window_state = st, setGeometry = None, shown = showFullScreen\<rparr>
        else if st = 2 then Inr \<lparr>window_state = st, setGeometry = None, shown = showMaximized\<rparr>
        else if st = 1 then Inr \<lparr>window_state = st, setGeometry = None, shown = showMinimized\<rparr>
        else let str = GetValue config ''main_window_rect'' ''ui''
             in bind_result (if str = [] then Inr None else read_rect str) (\<lambda>g.
                Inr \<lparr>window_state = st, setGeometry = g, shown = show_normal\<rparr>)) (\<lambda>s.
     Inr (if Get_bool config ''mv_fullscreen'' ''ui'' False then mv_fullscreen s else s)))"

subsection \<open>Initial values\<close>

definition ImageAdj_new :: "IniParser \<Rightarrow> ImageAdj result" where
  "ImageAdj_new config =
     bind_result (Get_int config ''max_contrast'' ''image'' 500) (\<lambda>maxContrast.
     bind_result (Get_int config ''min_contrast'' ''image'' 0) (\<lambda>minContrast.
     bind_result (Get_int config ''max_brightness'' ''image'' 500) (\<lambda>maxBrightness.
     bind_result (Get_int config ''min_brightness'' ''image'' 0) (\<lambda>minBrightness.
       Inr \<lparr>adj_contrast = 0, adj_brightness = 0, contrastSlider = createSlider minContrast maxContrast 0,
            brightnessSlider = createSlider minBrightness maxBrightness 0\<rparr>))))"

definition Window_initParams :: "(QImage \<Rightarrow> QImage) \<Rightarrow> IniParser \<Rightarrow> canvas \<Rightarrow> canvas result" where
  "Window_initParams conv config c =
     bind_result (Get_int config ''default_contrast'' ''image'' 150) (\<lambda>contrast.
     bind_result (Get_int config ''default_brightness'' ''image'' 150) (\<lambda>brightness.
     bind_result (setContrast conv contrast c) (setBrightness conv brightness)))"

text \<open>The menus set the three modes; the numbers are the random hue that colours start with and what memory holds for the index of a new file manager.\<close>

definition Window_new :: "(QImage \<Rightarrow> QImage) \<Rightarrow> rat \<Rightarrow> int \<Rightarrow> 't files \<Rightarrow> IniParser \<Rightarrow> 't Window result" where
  "Window_new conv hue garbage fs config =
     bind_result (ImageAdj_new config) (\<lambda>adj.
     bind_result (Window_initParams conv config CanvasBase_new) (\<lambda>c.
       Inr \<lparr>w_canvas = c\<lparr>m_task := segmentation, m_draw := Polygon, m_operat := draw\<rparr>, w_files = FileManager_new garbage,
            w_labelList = widget_empty, w_annoList = widget_empty, w_fileList = widget_empty, w_imageAdj = adj,
            currentHue = hue, disk = fs, g_config = config\<rparr>))"

subsection \<open>The end of the program\<close>

definition rect_text :: "int \<times> int \<times> int \<times> int \<Rightarrow> string" where
  "rect_text g =
     (case g of (x, y, w, h) \<Rightarrow>
        ''rect('' @ to_string x @ '','' @ to_string y @ '','' @ to_string w @ '','' @ to_string h @ '')'')"

definition main_exit :: "(string \<Rightarrow> bool) \<Rightarrow> string files \<Rightarrow> int \<Rightarrow> int \<times> int \<times> int \<times> int \<Rightarrow> IniParser \<Rightarrow> bool \<times> string files" where
  "main_exit can_write fs st geometry config =
     (let config1 = Set_int ''main_window_state'' st ''ui'' config;
          config2 = SetValue ''main_window_rect'' (rect_text geometry) ''ui'' config1
      in IniParser_Save can_write fs config2)"

subsection \<open>Numbers in texts\<close>

lemma to_string_chars:
  assumes "c \<in> set (to_string i)"
  shows "c = CHR ''-'' \<or> char_digit c \<noteq> None"
proof -
  from assms have "c = CHR ''-'' \<or> c \<in> set (nat_digits (nat \<bar>i\<bar>))"
    by (auto simp: to_string_def QString_number_def split: if_splits)
  then show ?thesis by (auto dest!: nat_digits_chars)
qed

lemma to_string_not_Nil [simp]: "to_string i \<noteq> []"
  by (simp add: to_string_def QString_number_def)

lemma not_number_char: "c \<in> {CHR '' '', CHR 0x00, CHR 0x09, CHR 0x0A, CHR 0x0B, CHR 0x0C, CHR 0x0D, CHR ''#'', CHR ''='', CHR ''['', CHR '',''} \<Longrightarrow> c \<notin> set (to_string i)"
  by (auto dest!: to_string_chars simp: char_digit_def Let_def)

lemma to_string_text_ok: "text_ok (to_string i)"
proof -
  have "hd (to_string i) \<in> set (to_string i)" "last (to_string i) \<in> set (to_string i)" by simp_all
  then show ?thesis using not_number_char[where i = i]
    by (auto simp: text_ok_def line_ok_def trimmed_def is_space_def newline_def simp del: hd_in_set last_in_set)
qed

lemma rect_text_ok: "text_ok (rect_text g)"
proof -
  obtain x y w h where g: "g = (x, y, w, h)" by (cases g)
  show ?thesis using not_number_char[where i = x] not_number_char[where i = y] not_number_char[where i = w] not_number_char[where i = h]
    unfolding g by (auto simp: rect_text_def text_ok_def line_ok_def trimmed_def is_space_def newline_def)
qed

lemma scan_nat:
  assumes "t = [] \<or> char_digit (hd t) = None"
  shows "takeWhile (\<lambda>c. char_digit c \<noteq> None) (nat_digits n @ t) = nat_digits n"
proof -
  have "\<forall>c \<in> set (nat_digits n). char_digit c \<noteq> None" using nat_digits_chars by force
  then show ?thesis using assms by (cases t) (auto simp: takeWhile_append2 takeWhile_eq_all_conv)
qed

lemma scan_int_to_string:
  assumes "t = [] \<or> char_digit (hd t) = None"
  shows "scan_int (to_string i @ t) = Some (i, t)"
proof (cases "i < 0")
  case True
  have "skip_space (CHR ''-'' # u) = CHR ''-'' # u" for u by simp
  with True show ?thesis using scan_nat[OF assms] read_nat_digits
    by (simp add: scan_int_def to_string_def QString_number_def Let_def)
next
  case False
  obtain c cs where c: "nat_digits (nat i) = c # cs" by (cases "nat_digits (nat i)") auto
  then obtain d where "d < 10" "c = digit_char d" using nat_digits_chars[of c "nat i"] by auto
  then have "char_digit c \<noteq> None" by simp
  then have "c \<notin> {CHR '' '', CHR 0x09, CHR 0x0A, CHR 0x0B, CHR 0x0C, CHR 0x0D, CHR ''-'', CHR ''+''}"
    by (auto simp: char_digit_def Let_def)
  then show ?thesis using False c scan_nat[OF assms, of "nat i"] read_nat_digits[of "nat i"]
    by (simp add: scan_int_def to_string_def QString_number_def Let_def)
qed

lemma read_rect_text:
  assumes "list_all fits_int [x, y, w, h]"
  shows "read_rect (rect_text (x, y, w, h)) = Inr (if w AND h \<noteq> 0 then Some (x, y, w, h) else None)"
proof -
  have sep: "char_digit (CHR '','') = None" "char_digit (CHR '')'') = None" by (simp_all add: char_digit_def Let_def)
  show ?thesis using assms by (simp add: read_rect_def rect_text_def scan_int_to_string sep numeral_eq_Suc)
qed

lemma Get_int_to_string:
  assumes "GetValue p k s = to_string i" "fits_int i"
  shows "Get_int p k s d = Inr i"
  using assms stoi_to_string by (simp add: Get_int_def atoi_def fits_int_def)

subsection \<open>From one run to the next\<close>

lemma next_start:
  assumes "load_config mem can_write d fs = (fs1, config, logfile)"
    and "list_all setting_ok us" "us \<noteq> []" "can_write (conf_file d)"
  shows "\<exists>fs'. IniParser_Save can_write fs1 (apply_settings us config) = (True, fs') \<and>
     GetValue (config_of (load_config mem' can_write d fs')) = GetValue (apply_settings us config)"
proof -
  have config: "config = snd (LoadFromFile fs1 (conf_file d) (IniParser_new mem))"
    using assms(1) by (auto simp: load_config_def Let_def)
  obtain fs' where fs': "IniParser_Save can_write fs1 (apply_settings us config) = (True, fs')" "fs' (conf_file d) \<noteq> None"
      "GetValue (snd (LoadFromFile fs' (conf_file d) (IniParser_new mem'))) = GetValue (apply_settings us config)"
    using restart_values[where can_write = can_write and path = "conf_file d" and us = us and fs = fs1 and mem = mem and mem' = mem', OF assms(2-4)]
    unfolding config by blast
  have "config_of (load_config mem' can_write d fs') = snd (LoadFromFile fs' (conf_file d) (IniParser_new mem'))"
    using fs'(2) by (auto simp: config_of_def load_config_def Let_def)
  with fs' show ?thesis by auto
qed

definition exit_settings :: "int \<Rightarrow> int \<times> int \<times> int \<times> int \<Rightarrow> (string \<times> string \<times> string) list" where
  "exit_settings st g = [(''main_window_state'', to_string st, ''ui''), (''main_window_rect'', rect_text g, ''ui'')]"

lemma exit_settings_ok: "list_all setting_ok (exit_settings st g)"
  using to_string_text_ok rect_text_ok
  by (simp add: exit_settings_def setting_ok_def key_ok_def text_ok_def line_ok_def trimmed_def is_space_def newline_def)

lemma main_exit_settings:
  "main_exit can_write fs st g (apply_settings us config) = IniParser_Save can_write fs (apply_settings (us @ exit_settings st g) config)"
  by (simp add: main_exit_def exit_settings_def apply_settings_def Set_int_def Let_def)

lemma next_start_after_exit:
  assumes "load_config mem can_write d fs = (fs1, config, logfile)" "list_all setting_ok us" "can_write (conf_file d)"
  shows "\<exists>fs'. main_exit can_write fs1 st g (apply_settings us config) = (True, fs') \<and>
     GetValue (config_of (load_config mem' can_write d fs')) = GetValue (apply_settings (us @ exit_settings st g) config)"
  unfolding main_exit_settings
  by (rule next_start[OF assms(1)]) (use assms exit_settings_ok in \<open>auto simp: exit_settings_def\<close>)

definition started_with :: "int \<Rightarrow> int \<times> int \<times> int \<times> int \<Rightarrow> started" where
  "started_with st g =
     \<lparr>window_state = st,
      setGeometry = (case g of (x, y, w, h) \<Rightarrow> if st \<notin> {1, 2, 3} \<and> w AND h \<noteq> 0 then Some (x, y, w, h) else None),
      shown = (if st = 1 then showMinimized else if st = 2 then showMaximized else if st = 3 then showFullScreen else show_normal)\<rparr>"

lemma window_init_saved:
  assumes "GetValue c = GetValue (apply_settings (us @ exit_settings st (x, y, w, h)) config)" "list_all fits_int [st, x, y, w, h]"
  shows "window_init c = Inr (started_with st (x, y, w, h))"
proof -
  have "GetValue c ''main_window_state'' ''ui'' = to_string st" "GetValue c ''main_window_rect'' ''ui'' = rect_text (x, y, w, h)"
    unfolding assms(1) by (simp_all add: exit_settings_def apply_settings_def ini.get_put)
  moreover have "rect_text (x, y, w, h) \<noteq> []" by (simp add: rect_text_def)
  moreover have "fits_int st" "list_all fits_int [x, y, w, h]" using assms(2) by simp_all
  ultimately show ?thesis
    by (simp add: window_init_def Get_int_to_string read_rect_text mv_fullscreen_def started_with_def Let_def)
qed

text \<open>
  Window geometry. However the settings were changed in a run, the end of the program saves
  the geometry, and the next start shows the window in the saved state; a normal window gets exactly
  the saved position and size if width and height have a common bit, and its default geometry
  otherwise.
\<close>

theorem geometry_survives_restart:
  assumes "load_config mem can_write d fs = (fs1, config, logfile)" and "list_all setting_ok us" and "can_write (conf_file d)"
    and "list_all fits_int [st, x, y, w, h]"
  shows "\<exists>fs'. main_exit can_write fs1 st (x, y, w, h) (apply_settings us config) = (True, fs') \<and>
     window_init (config_of (load_config mem' can_write d fs')) = Inr (started_with st (x, y, w, h))"
  using next_start_after_exit[OF assms(1-3), of st "(x, y, w, h)"] window_init_saved[OF _ assms(4)] by blast

lemma first_load: "load_config mem (\<lambda>_. True) ''app'' Map.empty = (Map.empty, \<lparr>ini_filepath = ''app/conf/XY-Annotation.conf'', ini_root = None, ini_memory = mem\<rparr>, ''app/logs/XY-Annotation.log'')"
  by (simp add: load_config_def QFile_copy_def LoadFromFile_def conf_file_def snprintf_path_def APP_NAME_def IniParser_new_def GetValue_def Let_def)

theorem geometry_survives_restart_witness:
  "\<exists>fs'. main_exit (\<lambda>_. True) Map.empty 0 (10, 20, 1024, 512) \<lparr>ini_filepath = ''app/conf/XY-Annotation.conf'', ini_root = None, ini_memory = INI_SECTION\<rparr> = (True, fs') \<and>
     window_init (config_of (load_config INI_UNKNOWN (\<lambda>_. True) ''app'' fs')) =
       Inr \<lparr>window_state = 0, setGeometry = None, shown = show_normal\<rparr>"
proof -
  have "list_all fits_int [0, 10, 20, 1024, 512]" by (simp add: fits_int_def)
  from geometry_survives_restart[OF first_load[of INI_SECTION] _ _ this, of "[]" INI_UNKNOWN] show ?thesis by (simp add: apply_settings_def started_with_def)
qed

subsection \<open>The adjustment of the image\<close>

lemma move_contrast_config:
  assumes "move_contrast P v w = (w1, None)" "sl_min (contrastSlider (w_imageAdj w)) \<le> v" "v \<le> sl_max (contrastSlider (w_imageAdj w))"
    and "v \<noteq> sl_value (contrastSlider (w_imageAdj w))"
  shows "g_config w1 = SetValue ''default_contrast'' (to_string v) ''image'' (g_config w) \<and>
     m_contrast (w_canvas w1) = v \<and> brightnessSlider (w_imageAdj w1) = brightnessSlider (w_imageAdj w)"
  using assms
  by (auto simp: move_contrast_def slider_setValue_def contrast_valueChanged_def on_canvas_def Set_int_def setContrast_def Let_def
        bind_result_Inl_iff split: prod.splits sum.splits elim!: and_then.elims lift_result.elims)

lemma move_brightness_config:
  assumes "move_brightness P v w = (w1, None)" "sl_min (brightnessSlider (w_imageAdj w)) \<le> v" "v \<le> sl_max (brightnessSlider (w_imageAdj w))"
    and "v \<noteq> sl_value (brightnessSlider (w_imageAdj w))"
  shows "g_config w1 = SetValue ''default_brightness'' (to_string v) ''image'' (g_config w)"
  using assms
  by (auto simp: move_brightness_def slider_setValue_def brightness_valueChanged_def on_canvas_def Set_int_def setBrightness_def Let_def
        bind_result_Inl_iff split: prod.splits sum.splits elim!: and_then.elims lift_result.elims)

definition adjust_settings :: "int \<Rightarrow> int \<Rightarrow> (string \<times> string \<times> string) list" where
  "adjust_settings v b = [(''default_contrast'', to_string v, ''image''), (''default_brightness'', to_string b, ''image'')]"

lemma adjust_settings_ok: "list_all setting_ok (adjust_settings v b)"
  using to_string_text_ok
  by (simp add: adjust_settings_def setting_ok_def key_ok_def text_ok_def line_ok_def trimmed_def is_space_def newline_def)

definition slider_accepts :: "int \<Rightarrow> slider \<Rightarrow> bool" where
  "slider_accepts v s \<longleftrightarrow> sl_min s \<le> v \<and> v \<le> sl_max s \<and> v \<noteq> sl_value s \<and> fits_int v"

text \<open>
  C34. Image adjustment. When the sliders for contrast and brightness were moved to new values
  within their range, and the program ends, the next start displays images with these values.
\<close>

theorem adjustment_survives_restart:
  assumes "load_config mem can_write d fs = (fs1, config, logfile)" and "can_write (conf_file d)"
    and "list_all setting_ok us" and "g_config w = apply_settings us config"
    and "slider_accepts v (contrastSlider (w_imageAdj w))" and "slider_accepts b (brightnessSlider (w_imageAdj w))"
    and "and_then (move_contrast P v w) (move_brightness P b) = (w', None)"
  shows "\<exists>fs' c. main_exit can_write fs1 st g (g_config w') = (True, fs') \<and>
     Window_initParams conv (config_of (load_config mem' can_write d fs')) CanvasBase_new = Inr c \<and> m_contrast c = v \<and> m_brightness c = b"
proof -
  obtain w1 where w1: "move_contrast P v w = (w1, None)" "move_brightness P b w1 = (w', None)"
    using assms(7) by (auto elim!: and_then.elims)
  note c = move_contrast_config[OF w1(1)] and b = move_brightness_config[OF w1(2)]
  have w': "g_config w' = apply_settings (us @ adjust_settings v b) config"
    using c b assms(4-6) by (simp add: slider_accepts_def adjust_settings_def apply_settings_def)
  obtain fs' where fs': "main_exit can_write fs1 st g (g_config w') = (True, fs')"
      "GetValue (config_of (load_config mem' can_write d fs')) = GetValue (apply_settings ((us @ adjust_settings v b) @ exit_settings st g) config)"
    using next_start_after_exit[OF assms(1) _ assms(2), of "us @ adjust_settings v b" st g] assms(3) adjust_settings_ok[of v b]
    unfolding w' list_all_append by blast
  have "GetValue (config_of (load_config mem' can_write d fs')) ''default_contrast'' ''image'' = to_string v"
    "GetValue (config_of (load_config mem' can_write d fs')) ''default_brightness'' ''image'' = to_string b"
    unfolding fs'(2) by (simp_all add: exit_settings_def adjust_settings_def apply_settings_def ini.get_put)
  then have "\<exists>c. Window_initParams conv (config_of (load_config mem' can_write d fs')) CanvasBase_new = Inr c \<and> m_contrast c = v \<and> m_brightness c = b"
    using assms(5,6)
    by (simp add: Window_initParams_def Get_int_to_string slider_accepts_def setContrast_def setBrightness_def lightContrastImage_def CanvasBase_new_def Let_def)
  with fs'(1) show ?thesis by blast
qed

theorem adjustment_survives_restart_witness:
  "\<exists>fs' c. main_exit (\<lambda>_. True) Map.empty 0 (0, 0, 800, 600)
       (g_config (fst (and_then (move_contrast (sample_platform (blank_image 8 8)) 69 (sample_window (blank_image 8 8)\<lparr>w_canvas := CanvasBase_new,
           g_config := \<lparr>ini_filepath = ''app/conf/XY-Annotation.conf'', ini_root = None, ini_memory = INI_SECTION\<rparr>\<rparr>))
          (move_brightness (sample_platform (blank_image 8 8)) 138)))) = (True, fs') \<and>
     Window_initParams id (config_of (load_config INI_UNKNOWN (\<lambda>_. True) ''app'' fs')) CanvasBase_new = Inr c \<and> m_contrast c = 69 \<and> m_brightness c = 138"
proof -
  let ?P = "sample_platform (blank_image 8 8)"
  let ?w = "sample_window (blank_image 8 8)\<lparr>w_canvas := CanvasBase_new,
           g_config := \<lparr>ini_filepath = ''app/conf/XY-Annotation.conf'', ini_root = None, ini_memory = INI_SECTION\<rparr>\<rparr>"
  have sl: "slider_accepts 69 (contrastSlider (w_imageAdj ?w))" "slider_accepts 138 (brightnessSlider (w_imageAdj ?w))"
    by (simp_all add: slider_accepts_def sample_window_def createSlider_def slider_setValue_def fits_int_def Let_def)
  have run: "and_then (move_contrast ?P 69 ?w) (move_brightness ?P 138) =
      (fst (and_then (move_contrast ?P 69 ?w) (move_brightness ?P 138)), None)"
    by (simp add: move_contrast_def move_brightness_def sample_window_def createSlider_def slider_setValue_def
        contrast_valueChanged_def brightness_valueChanged_def on_canvas_def setContrast_def setBrightness_def lightContrastImage_def CanvasBase_new_def Let_def)
  show ?thesis
    by (rule adjustment_survives_restart[OF first_load _ _ _ sl run, where us = "[]"]) (simp_all add: apply_settings_def)
qed

end
