(* ===== verification/Undo_Sessions.thy ===== *)
theory Undo_Sessions
  imports Event_Behaviour
begin

text \<open>
  Undo and redo in sessions: an undo that is redone, the classes of the shapes, and what an undo
  leaves of a rectangle whose second corner was just set.
\<close>

subsection \<open>Undo and redo\<close>

text \<open>
  C4. At every moment of a session in which there is something to undo, undo followed by redo
  brings back the list of shapes in its order, every shape under its name, and the position in the
  undo stack; no edit made since the command was pushed can get in the way.
\<close>

theorem undo_redo_roundtrip:
  assumes "session_reachable cp c" and "0 < stack_index (m_undoStack c)"
  shows "\<exists>c1 c2. canvas_undo c = Inr c1 \<and> canvas_redo c1 = Inr c2 \<and> doc_inv c2 \<and> m_shapeList c2 = m_shapeList c \<and>
     map m_name (shapes c2) = map m_name (shapes c) \<and> stack_index (m_undoStack c2) = stack_index (m_undoStack c)"
  using session_live[OF assms(1)] canvas_undo_redo assms(2) by (simp add: live_def)

lemma sample_session:
  "\<exists>c. session_reachable cp c \<and> m_image c = Some (blank_image 100 100) \<and> m_shapeList c = []"
proof -
  obtain c :: canvas and e where c: "loadImage \<lparr>sz_width = 200, sz_height = 100\<rparr> 0 (Some (blank_image 100 100)) CanvasBase_new = (c, e)"
    by (meson surj_pair)
  then have "session_reachable cp c" by (rule session_reachable.start)
  moreover have "m_image c = Some (blank_image 100 100)" "m_shapeList c = []"
    using c by (auto simp: loadImage_def setImage_def adjustFitWindow_def setSize_def Let_def CanvasBase_new_def)
  ultimately show ?thesis by blast
qed

lemma sample_session_shape:
  "\<exists>c. session_reachable cp c \<and> length (m_shapeList c) = 1 \<and> 0 < stack_index (m_undoStack c)"
proof -
  obtain c where c: "session_reachable cp c" "m_shapeList c = []" using sample_session[of cp] by blast
  note l = session_live[OF c(1)]
  obtain i s where i: "m_image c = Some i" "ShapeFactory_create (m_draw c) = Some s"
    using l by (cases "m_draw c") (auto simp: live_def)
  from addShape_view[OF l i] obtain c' where c': "CanvasView_addShape c = Inr c'" "m_shapeList c' = [length (heap c)]"
    using c(2) by auto
  have "0 < stack_index (m_undoStack c')"
    using c'(1) i by (auto simp: CanvasView_addShape_def canvas_push_def QUndoStack_push_def Let_def)
  moreover have "session_reachable cp c'" using session_reachable.step[OF c(1) session_step.view_op[of OpAddShape]] c'(1) by simp
  ultimately show ?thesis using c'(2) by auto
qed

theorem undo_redo_roundtrip_witness:
  "\<exists>c c1 c2. session_reachable (\<lambda>ps p. False) c \<and> canvas_undo c = Inr c1 \<and> canvas_redo c1 = Inr c2 \<and> length (m_shapeList c2) = 1"
proof -
  obtain c where c: "session_reachable (\<lambda>ps p. False) c" "length (m_shapeList c) = 1" "0 < stack_index (m_undoStack c)"
    using sample_session_shape by blast
  with undo_redo_roundtrip[OF c(1,3)] show ?thesis by auto
qed

subsection \<open>Classes\<close>

text \<open>
  C32. In every session, whatever was drawn, edited, undone and redone, each shape of the document is an
  object of the class of its mode, so that it is drawn and hit as what it was drawn for; its two lists
  of vertices agree up to the offset; and its name is the first of the names of its type that no shape
  before it in the list has.
\<close>

theorem session_shapes_typed:
  assumes "session_reachable cp c" and "k < length (shapes c)"
  shows "let s = shapes c ! k; tn = Shape_typeToString (m_type s); before = m_name ` set (take k (shapes c)) in
     mode_class (m_type s) = Some (dyn_class s) \<and> views_agree (m_points s) \<and>
     (\<exists>n. m_name s = candidate tn n \<and> candidate tn n \<notin> before \<and> candidate tn ` {..<n} \<subseteq> before)"
proof -
  let ?s = "shapes c ! k"
  have l: "live c" by (rule session_live[OF assms(1)])
  then have inv: "doc_inv c" by (simp add: live_def)
  have r: "m_shapeList c ! k \<in> set (m_shapeList c)" "?s = get_shape c (m_shapeList c ! k)"
    using assms(2) by (simp_all add: shapes_def)
  have h: "m_shapeList c ! k < length (heap c)" using live_heap[OF l r(1)] .
  then have "class_matches ?s" using l r(2) by (simp add: live_def typed_def list_all_length get_shape_def)
  moreover have "shape_wf ?s" using doc_inv_heap[OF inv h] r(2) by simp
  moreover have "m_name ?s = uniqueName_loop (take k (shapes c)) (Shape_typeToString (m_type ?s)) 0"
    using inv assms(2) by (simp add: doc_inv_def names_canonical_def)
  ultimately show ?thesis
    using uniqueName_loop_first[of 0 "take k (shapes c)" "Shape_typeToString (m_type ?s)"]
    by (auto simp: Let_def class_matches_def shape_wf_def)
qed

theorem session_shapes_typed_witness:
  "\<exists>c s. session_reachable (\<lambda>ps p. False) c \<and> shapes c = [s] \<and> mode_class (m_type s) = Some (dyn_class s) \<and>
     m_name s = Shape_typeToString (m_type s)"
proof -
  obtain c where c: "session_reachable (\<lambda>ps p. False) c" "length (m_shapeList c) = 1"
    using sample_session_shape by blast
  then obtain s where s: "shapes c = [s]" by (cases "m_shapeList c") (auto simp: shapes_def)
  from session_shapes_typed[OF c(1), of 0] s have "mode_class (m_type s) = Some (dyn_class s)"
      "\<exists>n. m_name s = candidate (Shape_typeToString (m_type s)) n \<and> candidate (Shape_typeToString (m_type s)) ` {..<n} \<subseteq> {}"
    by (auto simp: Let_def)
  moreover from this(2) have "m_name s = Shape_typeToString (m_type s)" by (auto simp: candidate_def)
  ultimately show ?thesis using c(1) s by blast
qed

subsection \<open>The second corner of a rectangle\<close>

text \<open>The command that a press leaves on top of the stack.\<close>

lemma addPoint_top:
  assumes "live c" "m_shapeList c \<noteq> []" "CanvasView_addPoint q c = Inr c'"
  shows "\<exists>tx. done_cmds (m_undoStack c') = done_cmds (m_undoStack c) @
     [AddPointCommand (Some (last (m_shapeList c))) q (QString_number (int (vertex_count (last (shapes c))))) tx]"
proof -
  let ?r = "last (m_shapeList c)"
  have h: "?r < length (heap c)" "get_shape c ?r = last (shapes c)"
    using live_heap[OF assms(1)] assms(2) by (simp_all add: shapes_def last_map)
  have "stack_wf (m_undoStack c)" using assms(1) by (simp add: live_def)
  with assms(2,3) live_current[OF assms(1)] h append_vertices[of q "last (shapes c)"] show ?thesis
    by (auto simp: CanvasView_addPoint_def canvas_push_def QUndoStack_push_def AddPointCommand_new_def AddPointCommand_redo_def
        CanvasBase_addPoint_def deref_def Let_def done_cmds_def stack_wf_def YPolygonPoints_size_def)
qed

lemma press_add_top:
  assumes "drawing Rectangle c" "m_shapeList c \<noteq> []" "press_add q c = Inr c'"
  shows "\<exists>tx. done_cmds (m_undoStack c') = done_cmds (m_undoStack c) @
     [AddPointCommand (Some (last (m_shapeList c))) q (QString_number (int (vertex_count (last (shapes c))))) tx]"
proof -
  have l: "live c" using assms(1) by (simp add: drawing_def)
  obtain c1 where c1: "CanvasView_addPoint q c = Inr c1" "live c1" "m_shapeList c1 \<noteq> []" "m_draw c1 = Rectangle"
    using addPoint_view[OF l assms(2), of q] assms(1,2) by (auto simp: drawing_def)
  have "m_undoStack c' = m_undoStack c1"
    using assms(1,3) c1(1,4) press_current_live[OF c1(2,3), of "Shape_updateEndPt q"]
    by (auto simp: press_add_def drawing_def Let_def set_shape_def split: if_splits)
  with addPoint_top[OF l assms(2) c1(1)] show ?thesis by simp
qed

lemma canvas_undo_vertex:
  assumes "live c" "done_cmds (m_undoStack c) = cs @ [AddPointCommand (Some r) q (QString_number (int k)) tx]"
    and "r < length (heap c)" "Shape_deletePoint (int k) (get_shape c r) = Inr s"
  shows "\<exists>st. canvas_undo c = Inr ((set_shape r (\<lambda>_. s) c)\<lparr>m_undoStack := st\<rparr>)"
proof -
  have u: "command_undo (AddPointCommand (Some r) q (QString_number (int k)) tx) c =
      Inr (AddPointCommand (Some r) q (QString_number (int k)) (PointText (QString_number (int k))), set_shape r (\<lambda>_. s) c)"
    using assms(3,4) by (simp add: AddPointCommand_undo_def CanvasBase_deletePoint_def deref_def)
  have "stack_wf (m_undoStack c)" using assms(1) by (simp add: live_def)
  from undo_done[where undo_cmd = command_undo, OF this assms(2) u] show ?thesis by (auto simp: canvas_undo_def)
qed

text \<open>
  C31. The second click of a rectangle is undone only in part: the undo removes the corner but the
  rectangle stays closed, and a closed rectangle with one corner cannot be painted. The repaint
  that follows reads the missing corner, in draw mode and in edit mode.
\<close>

theorem undo_of_second_corner:
  assumes "drawing Rectangle c" and "m_shapeList c = []" and "m_disImg c = Some im"
    and "bindImgEdge c p1 = Inr q1" and "bindImgEdge c p2 = Inr q2"
  shows "\<exists>c1 c2 c3 s. mousePressEvent cp LeftButton p1 c = (c1, None) \<and> mousePressEvent cp LeftButton p2 c1 = (c2, None) \<and>
     snd (paint c2) = None \<and> canvas_undo c2 = Inr c3 \<and> shapes c3 = [s] \<and> m_isClosed s \<and> m_oriPoints (m_points s) = [q1] \<and>
     (\<forall>m. snd (paint (c3\<lparr>m_operat := m\<rparr>)) = Some (Undefined ''QVector::at''))"
proof -
  from rectangle_clicks[OF assms(1) disjI1[OF assms(2)] assms(4,5), of cp] obtain c1 c2 s1 s2 where
    c: "mousePressEvent cp LeftButton p1 c = (c1, None)" "mousePressEvent cp LeftButton p2 c1 = (c2, None)"
      "drawing Rectangle c1" "shapes c1 = shapes c @ [s1]" "m_oriPoints (m_points s1) = [q1]" "m_shapeList c1 \<noteq> []"
      "press_add q2 c1 = Inr c2" "drawing Rectangle c2" "m_shapeList c2 = m_shapeList c1" "m_image c2 = m_image c"
      "m_disImg c2 = Some im" "shapes c2 = shapes c @ [s2]" "dyn_class s2 = YRectangle" "m_isClosed s2"
      "m_oriPoints (m_points s2) = [q1, q2]"
    using assms(3) by auto
  have e: "shapes c = []" using assms(2) by (simp add: shapes_def)
  let ?r = "last (m_shapeList c1)"
  have l: "live c2" and dm: "m_task c2 = segmentation" "m_operat c2 = draw" "m_draw c2 = Rectangle"
    using c(8) by (simp_all add: drawing_def)
  have h: "?r < length (heap c2)" "get_shape c2 ?r = s2"
    using live_heap[OF l] c(6,9) arg_cong[OF c(12), of last] by (simp_all add: shapes_def last_map)
  obtain i where i: "m_image c2 = Some i" using live_img[OF l] by blast
  obtain ls where ls: "drawCross c2 = (ls, None)" using drawCross_image[OF i] by blast
  obtain ps where ps: "Shape_draw s2 False True = Inr ps"
    using rect_draw_succeeds_iff(1)[of s2 False True] c(13,15) by (auto simp: Shape_draw_def)
  have paint2: "snd (paint c2) = None"
    using c(11,12,14) e ls ps dm by (simp add: paint_def drawShape_def)
  have wf: "shape_wf s2" using doc_inv_heap[of c2 ?r] h l by (simp add: live_def)
  obtain s3 where s3: "Shape_deletePoint 1 s2 = Inr s3" "m_oriPoints (m_points s3) = [q1]"
    using deletePoint_last[OF wf] c(15) by (auto simp: YPolygonPoints_size_def)
  have k: "m_isClosed s3" "dyn_class s3 = YRectangle"
    using s3(1) c(13,14) by (auto simp: Shape_deletePoint_def split: if_splits)
  obtain tx where "done_cmds (m_undoStack c2) = done_cmds (m_undoStack c1) @ [AddPointCommand (Some ?r) q2 (QString_number (int 1)) tx]"
    using press_add_top[OF c(3,6,7)] c(4,5) by auto
  from canvas_undo_vertex[OF l this h(1)] h(2) s3(1) obtain st where
    u: "canvas_undo c2 = Inr ((set_shape ?r (\<lambda>_. s3) c2)\<lparr>m_undoStack := st\<rparr>)" (is "_ = Inr ?c3") by auto
  have "shapes (set_shape ?r (\<lambda>_. s3) c2) = [s3]" using shapes_set_last[OF l, of "\<lambda>_. s3"] c(6,9,12) e by simp
  then have sh: "shapes (?c3\<lparr>m_operat := m\<rparr>) = [s3]" "shapes ?c3 = [s3]" for m by (simp_all add: shapes_def get_shape_def[abs_def])
  obtain er where er: "Shape_draw s3 False True = Inl er"
    using rect_draw_succeeds_iff(1)[of s3 False True] s3(2) k(2) by (cases "YRectangle_draw s3 False True") (auto simp: Shape_draw_def)
  have fields: "m_disImg ?c3 = Some im" "m_task ?c3 = segmentation" using c(11) dm by (simp_all add: set_shape_def)
  have "snd (paint (?c3\<lparr>m_operat := m\<rparr>)) = Some (Undefined ''QVector::at'')" for m
    using er draw_error[OF er] sh(1)[of m] k(1) fields by (cases m) (simp_all add: paint_def drawShape_def)
  with c(1,2) paint2 u sh(2) k(1) s3(2) show ?thesis
    by (intro exI[of _ c1] exI[of _ c2] exI[of _ ?c3] exI[of _ s3]) simp
qed

theorem undo_of_second_corner_witness:
  "\<exists>c1 c2 c3. mousePressEvent (\<lambda>ps p. False) LeftButton 0 (sample_canvas\<lparr>m_draw := Rectangle\<rparr>) = (c1, None) \<and>
     mousePressEvent (\<lambda>ps p. False) LeftButton (QPointF 10 10) c1 = (c2, None) \<and> canvas_undo c2 = Inr c3 \<and>
     snd (paint (c3\<lparr>m_operat := draw\<rparr>)) = Some (Undefined ''QVector::at'')"
proof -
  have d: "drawing Rectangle (sample_canvas\<lparr>m_draw := Rectangle\<rparr>)" using sample_live by (simp add: drawing_def live_def)
  obtain q1 q2 where q: "bindImgEdge (sample_canvas\<lparr>m_draw := Rectangle\<rparr> :: canvas) 0 = Inr q1"
      "bindImgEdge (sample_canvas\<lparr>m_draw := Rectangle\<rparr> :: canvas) (QPointF 10 10) = Inr q2"
    using bindImgEdge_live d unfolding drawing_def by blast
  have "m_shapeList (sample_canvas\<lparr>m_draw := Rectangle\<rparr> :: canvas) = []"
      "m_disImg (sample_canvas\<lparr>m_draw := Rectangle\<rparr> :: canvas) = Some (blank_image 100 100)"
    by (simp_all add: sample_canvas_def CanvasBase_new_def)
  from undo_of_second_corner[OF d this q, of "\<lambda>ps p. False"] show ?thesis by blast
qed

end
