(* ===== verification/Canvas_Frame.thy ===== *)
theory Canvas_Frame
  imports Event_Safety
begin

text \<open>
  What the events of the canvas, the undo commands and the zoom leave alone: the image and the settings
  of its contrast and brightness. Only loading an image and the adjustment change them.
\<close>

definition picture :: "'c CanvasBase \<Rightarrow> QImage option \<times> int \<times> int" where
  "picture c = (m_image c, m_contrast c, m_brightness c)"

lemma picture_fields [simp]:
  "picture (c\<lparr>heap := h\<rparr>) = picture c" "picture (c\<lparr>m_currentIndex := i\<rparr>) = picture c" "picture (c\<lparr>m_shapeList := l\<rparr>) = picture c"
  "picture (c\<lparr>m_scaleValue := v\<rparr>) = picture c" "picture (c\<lparr>item_scale := v\<rparr>) = picture c" "picture (c\<lparr>item_pos := p\<rparr>) = picture c"
  "picture (c\<lparr>item_cursor := cu\<rparr>) = picture c" "picture (c\<lparr>m_task := t\<rparr>) = picture c" "picture (c\<lparr>m_operat := m\<rparr>) = picture c"
  "picture (c\<lparr>m_draw := d\<rparr>) = picture c" "picture (c\<lparr>m_undoStack := st\<rparr>) = picture c" "picture (c\<lparr>m_lastPressPos := p\<rparr>) = picture c"
  "picture (c\<lparr>m_activePoint := i\<rparr>) = picture c" "picture (c\<lparr>m_mouseDrag := b\<rparr>) = picture c" "picture (c\<lparr>m_insertPoint := i\<rparr>) = picture c"
  "picture (c\<lparr>m_crossPos := p\<rparr>) = picture c" "picture (c\<lparr>emitted := em\<rparr>) = picture c"
  "picture (set_shape r f c) = picture c"
  by (simp_all add: picture_def set_shape_def)

subsection \<open>Operations that return a canvas\<close>

lemma picture_setCurrent: "setCurrentShape i c = Inr c' \<Longrightarrow> picture c' = picture c"
  by (auto simp: setCurrentShape_def Let_def split: if_splits)

lemma picture_addShape: "CanvasBase_addShape r c = Inr (nm, c') \<Longrightarrow> picture c' = picture c"
  by (auto simp: CanvasBase_addShape_def deref_def Let_def dest!: picture_setCurrent split: if_splits)

lemma picture_deleteShape: "CanvasBase_deleteShape nm c = Inr c' \<Longrightarrow> picture c' = picture c"
  by (auto simp: CanvasBase_deleteShape_def Let_def dest!: picture_setCurrent split: if_splits)

lemma picture_commands:
  "command_redo cmd c = Inr (cmd', c') \<Longrightarrow> picture c' = picture c"
  "command_undo cmd c = Inr (cmd', c') \<Longrightarrow> picture c' = picture c"
  by (cases cmd; auto simp: AddShapeCommand_redo_def RemoveShapeCommand_redo_def AddPointCommand_redo_def AddShapeCommand_undo_def
      RemoveShapeCommand_undo_def AddPointCommand_undo_def CanvasBase_addPoint_def CanvasBase_deletePoint_def Let_def
      dest!: picture_addShape picture_deleteShape split: option.splits)+

lemma picture_stack:
  "canvas_push cmd c = Inr c' \<Longrightarrow> picture c' = picture c"
  "canvas_undo c = Inr c' \<Longrightarrow> picture c' = picture c"
  "canvas_redo c = Inr c' \<Longrightarrow> picture c' = picture c"
  by (auto simp: canvas_push_def canvas_undo_def canvas_redo_def QUndoStack_push_def QUndoStack_undo_def QUndoStack_redo_def
      dest!: picture_commands split: if_splits)

lemma picture_run_op: "run_op x c = Inr c' \<Longrightarrow> picture c' = picture c"
  by (cases x) (auto simp: CanvasView_addShape_def CanvasView_addPoint_def CanvasView_removeShape_def Let_def
      dest!: picture_stack(1) split: option.splits if_splits)

lemmas picture_view = picture_run_op[of OpAddShape, simplified] picture_run_op[of "OpAddPoint p" for p, simplified]

lemma picture_zoom [simp]:
  "picture (zoomIn c) = picture c" "picture (zoomOut c) = picture c" "picture (wheelEvent d p c) = picture c"
  by (simp_all add: zoomIn_def zoomOut_def wheelEvent_def Let_def)

lemma picture_fit [simp]: "picture (fst (adjustFitWindow sz ctr c)) = picture c"
  by (cases "m_image c") (simp_all add: adjustFitWindow_def setSize_def imgWidth_def imgHeight_def getImage_def Let_def)

subsection \<open>Handlers\<close>

lemma picture_lift:
  assumes "\<And>c'. r = Inr c' \<Longrightarrow> picture c' = picture c"
  shows "picture (fst (lift_result c r)) = picture c"
  using assms by (cases r) simp_all

lemma picture_try:
  "picture c = p \<Longrightarrow> (\<And>x. r = Inr x \<Longrightarrow> picture (fst (f x)) = p) \<Longrightarrow> picture (fst (try_bind c r f)) = p"
  by (cases r) simp_all

lemma picture_for_each:
  assumes "\<And>r c. picture (fst (body r c)) = picture c"
  shows "picture (fst (for_each body rs c)) = picture c"
proof (induction rs arbitrary: c)
  case (Cons r rs)
  then show ?case using assms[of r c] by (simp split: prod.split sum.split loop_ctl.split) (metis fst_conv)
qed simp

lemma picture_bodies:
  "picture (fst (press_body cp p r c)) = picture c" "picture (fst (release_body cp p r c)) = picture c"
  "picture (fst (hover_body cp p r c)) = picture c" "picture (fst (move_body cp p r c)) = picture c"
  by (auto simp: press_body_def release_body_def hover_body_def move_body_def move_act_def Let_def intro!: picture_try split: prod.split)

lemma picture_press_current: "press_current f c = Inr (r, c') \<Longrightarrow> picture c' = picture c"
proof -
  assume "press_current f c = Inr (r, c')"
  then have "c' = set_shape r f c" unfolding press_current_def bind_result_Inr_iff by (force split: option.splits)
  then show ?thesis by simp
qed

lemma picture_press_add:
  assumes "press_add p c = Inr c'"
  shows "picture c' = picture c"
proof -
  have add: "picture d' = picture d" if "CanvasView_addPoint p d = Inr d'" for d d' using that by (rule picture_view(2))
  have "\<exists>c1 r c2. CanvasView_addPoint p c = Inr c1 \<and> press_current (Shape_updateEndPt p) c1 = Inr (r, c2) \<and> picture c' = picture c2"
    if "m_draw c \<notin> {Polygon, None_mode}"
    using assms that by (cases "m_draw c") (auto simp: press_add_def Let_def split: if_splits)
  then have "picture c' = picture c" if "m_draw c \<notin> {Polygon, None_mode}" using that add picture_press_current by metis
  moreover have "picture c' = picture c" if "m_draw c \<in> {Polygon, None_mode}" using assms add that by (auto simp: press_add_def)
  ultimately show ?thesis by blast
qed

lemma picture_press_draw: "press_draw p c = Inr c' \<Longrightarrow> picture c' = picture c"
  by (auto simp: press_draw_def dest!: picture_press_add picture_view(1) split: if_splits option.splits)

lemma picture_press [simp]: "picture (fst (mousePressEvent cp b p c)) = picture c"
proof -
  have "picture (fst (lift_result c (press_draw q c))) = picture c" for q by (rule picture_lift) (rule picture_press_draw)
  then show ?thesis
    by (simp add: mousePressEvent_def press_edit_def picture_for_each[OF picture_bodies(1)]
        split: sum.split task_mode_e.split operat_mode_e.split)
qed

lemma picture_release [simp]: "picture (fst (mouseReleaseEvent cp p c)) = picture c"
  by (simp add: mouseReleaseEvent_def picture_for_each[OF picture_bodies(2)] Let_def split: sum.split)

lemma picture_dblclick [simp]: "picture (fst (mouseDoubleClickEvent cp b p c)) = picture c"
proof -
  have "picture d = picture c" if "dblclick_close c = Inr (x, d)" for x d
    using that by (auto simp: dblclick_close_def Let_def split: option.splits if_splits)
  then show ?thesis
    by (cases "dblclick_close c") (auto simp: mouseDoubleClickEvent_def split: bool.splits if_splits)
qed

lemma picture_hover [simp]: "picture (fst (hoverMoveEvent cp p c)) = picture c"
proof -
  have "picture (fst (hover_draw q d)) = picture d" for q d
    unfolding hover_draw_def by (rule picture_lift) (auto split: option.splits if_splits)
  then show ?thesis
    by (simp add: hoverMoveEvent_def picture_for_each[OF picture_bodies(3)] Let_def split: sum.split task_mode_e.split operat_mode_e.split)
qed

lemma picture_move [simp]: "picture (fst (mouseMoveEvent cp p c)) = picture c"
  by (simp add: mouseMoveEvent_def picture_for_each[OF picture_bodies(4)] split: sum.split)

lemma picture_key [simp]: "picture (fst (keyPressEvent k c)) = picture c"
  unfolding keyPressEvent_def fst_catch_std by (rule picture_lift) (auto simp: Let_def split: option.splits if_splits)

subsection \<open>Steps of a session\<close>

text \<open>Every step of a session keeps the image and its settings, except for loading an image, which keeps the settings.\<close>

lemma session_step_picture:
  assumes "session_step cp c c'"
  shows "picture c' = picture c \<or> (\<exists>i. picture c' = (Some i, m_contrast c, m_brightness c))"
  using assms
proof cases
  case (load sz ctr i e)
  then show ?thesis by (auto simp: loadImage_def setImage_def adjustFitWindow_def setSize_def Let_def picture_def)
next
  case (press b p e) then show ?thesis using picture_press[of cp b p c] by simp
next
  case (release p e) then show ?thesis using picture_release[of cp p c] by simp
next
  case (dblclick b p e) then show ?thesis using picture_dblclick[of cp b p c] by simp
next
  case (hover p e) then show ?thesis using picture_hover[of cp p c] by simp
next
  case (move p e) then show ?thesis using picture_move[of cp p c] by simp
next
  case (key k e) then show ?thesis using picture_key[of k c] by simp
next
  case (fit sz ctr e) then show ?thesis using picture_fit[of sz ctr c] by simp
qed (auto dest: picture_run_op picture_stack)

end
