(* ===== verification/Window_Sessions.thy ===== *)
theory Window_Sessions
  imports App_Start Undo_Sessions Canvas_Frame
begin

text \<open>
  Sessions of the whole window: the events of the canvas together with the actions of the menus,
  labelling, saving, the sliders, the list of files, and opening files and directories. Opening
  keeps the index of the current shape although it empties the list of shapes, so it is part of a
  safe session only if no shape was current or the file brings shapes of its own;
  \<^verbatim>\<open>Main_Window\<close> shows what happens otherwise. A session goes on only after steps that
  returned.
\<close>

text \<open>
  What the filter needs of an image: in the 24-bit format, converted if it has another one, it has the
  same size and a buffer of whole scan lines. It is what Qt promises of decoded images and of
  \<^verbatim>\<open>QImage::convertToFormat\<close>.
\<close>

definition filterable :: "'t platform \<Rightarrow> QImage \<Rightarrow> bool" where
  "filterable P i \<longleftrightarrow>
     (let j = (if img_rgb888 i then i else convert P i) in wf_rgb888 j \<and> img_w j = img_w i \<and> img_h j = img_h i)"

definition decodes_filterable :: "'t platform \<Rightarrow> bool" where
  "decodes_filterable P \<longleftrightarrow> (\<forall>f i. read_image P f = Some i \<longrightarrow> filterable P i) \<and> (\<forall>d i. fromBase64 P d = Some i \<longrightarrow> filterable P i)"

text \<open>The limits of the sliders and the settings of the canvas, which come from the configuration.\<close>

definition adjustment_moderate :: "'t Window \<Rightarrow> bool" where
  "adjustment_moderate w \<longleftrightarrow>
     moderate (sl_min (contrastSlider (w_imageAdj w))) \<and> moderate (sl_max (contrastSlider (w_imageAdj w))) \<and>
     moderate (sl_min (brightnessSlider (w_imageAdj w))) \<and> moderate (sl_max (brightnessSlider (w_imageAdj w))) \<and>
     moderate (m_contrast (w_canvas w)) \<and> moderate (m_brightness (w_canvas w))"

text \<open>
  The events of the canvas are the steps of its sessions without the loading of images, for which the
  window has steps of its own.
\<close>

inductive window_step :: "'t platform \<Rightarrow> (QPointF list \<Rightarrow> QPointF \<Rightarrow> bool) \<Rightarrow> 't Window \<Rightarrow> 't Window \<Rightarrow> bool" for P cp where
  on_event: "session_step cp (w_canvas w) c' \<Longrightarrow> m_image c' = m_image (w_canvas w) \<Longrightarrow> window_step P cp w (w\<lparr>w_canvas := c'\<rparr>)"
| on_action: "trigger P a w = (w', None) \<Longrightarrow> a \<noteq> ChangeDrawMode None_mode \<Longrightarrow> window_step P cp w w'"
| on_property: "r \<in> set (m_shapeList (w_canvas w)) \<Longrightarrow> window_step P cp w (slotSetProperty P answer (Some r) w)"
| on_save: "saveFile P w = (w', None) \<Longrightarrow> window_step P cp w w'"
| on_contrast: "move_contrast P v w = (w', None) \<Longrightarrow> window_step P cp w w'"
| on_brightness: "move_brightness P v w = (w', None) \<Longrightarrow> window_step P cp w w'"
| on_file: "fileList_clicked P row w = (w', None) \<Longrightarrow> window_step P cp w w'"
| on_open: "openFile P file w = (w', None) \<Longrightarrow> m_currentIndex (w_canvas w) = -1 \<or> m_shapeList (w_canvas w') \<noteq> [] \<Longrightarrow>
     window_step P cp w w'"
| on_open_dir: "openDir P path w = (w', None) \<Longrightarrow> m_currentIndex (w_canvas w) = -1 \<Longrightarrow> window_step P cp w w'"

inductive window_reachable :: "'t platform \<Rightarrow> (QPointF list \<Rightarrow> QPointF \<Rightarrow> bool) \<Rightarrow> 't Window \<Rightarrow> bool" for P cp where
  started: "Window_new (convert P) hue garbage fs config = Inr w0 \<Longrightarrow> adjustment_moderate w0 \<Longrightarrow> openFile P file w0 = (w, None) \<Longrightarrow>
     window_reachable P cp w"
| started_dir: "Window_new (convert P) hue garbage fs config = Inr w0 \<Longrightarrow> adjustment_moderate w0 \<Longrightarrow> openDir P path w0 = (w, None) \<Longrightarrow>
     window_reachable P cp w"
| continued: "window_reachable P cp w \<Longrightarrow> window_step P cp w w' \<Longrightarrow> window_reachable P cp w'"

subsection \<open>A canvas before its image\<close>

definition quiet :: "canvas \<Rightarrow> bool" where
  "quiet c \<longleftrightarrow> doc_inv c \<and> traced c \<and> typed c \<and> m_draw c \<noteq> None_mode \<and> stack_wf (m_undoStack c)"

lemma live_quiet: "live c \<longleftrightarrow> quiet c \<and> m_image c \<noteq> None"
  by (auto simp: live_def quiet_def)

lemma quiet_clean: "quiet c \<Longrightarrow> m_currentIndex c = -1 \<Longrightarrow> quiet (CanvasBase_clean c)"
  by (simp add: quiet_def CanvasBase_clean_def doc_inv_def canvas_inv_def refs_valid_def shapes_def names_canonical_def
      stack_wf_def traced_empty typed_def)

lemma Window_new_quiet:
  assumes "Window_new conv hue garbage fs config = Inr w"
  shows "quiet (w_canvas w) \<and> m_currentIndex (w_canvas w) = -1 \<and> w_files w = FileManager_new garbage"
proof -
  obtain x y where c: "w_canvas w = CanvasBase_new\<lparr>m_contrast := x, m_brightness := y, m_disImg := None, m_task := segmentation,
      m_draw := Polygon, m_operat := draw\<rparr>" and f: "w_files w = FileManager_new garbage"
    using assms
    by (auto simp: Window_new_def Window_initParams_def setContrast_def setBrightness_def lightContrastImage_def CanvasBase_new_def Let_def)
  have "quiet (w_canvas w)" using new_canvas_doc unfolding quiet_def c by simp
  moreover have "m_currentIndex (w_canvas w) = -1" unfolding c by (simp add: CanvasBase_new_def)
  ultimately show ?thesis using f by blast
qed

lemma loadImage_quiet:
  assumes "quiet c" "loadImage sz ctr im c = (c', e)"
  shows "quiet c' \<and> (e = None \<longrightarrow> live c') \<and> (m_image c \<noteq> None \<longrightarrow> live c') \<and> m_shapeList c' = m_shapeList c \<and>
     m_undoStack c' = m_undoStack c"
  using assms
  by (cases im) (auto simp: loadImage_def setImage_def adjustFitWindow_def setSize_def Let_def live_quiet quiet_def)

lemma load_current_quiet:
  assumes "quiet (w_canvas w)" "load_current P w = (w', e)"
  shows "quiet (w_canvas w') \<and> (e = None \<or> m_image (w_canvas w) \<noteq> None \<longrightarrow> live (w_canvas w'))"
proof (cases "getCurrentImageFile (w_files w)")
  case (Inl x)
  with assms show ?thesis by (auto simp: load_current_def live_quiet)
next
  case (Inr f)
  obtain c' e' where l: "loadImage (viewSize P) (centre P) (read_image P f) (w_canvas w) = (c', e')" by (meson surj_pair)
  with loadImage_quiet[OF assms(1) l] assms(2) Inr show ?thesis by (auto simp: load_current_def on_canvas_def)
qed

lemma clean_all_canvas [simp]: "w_canvas (clean_all w) = CanvasBase_clean (w_canvas w)"
  by (simp add: clean_all_def)

lemma openDir_live:
  assumes "quiet (w_canvas w)" "m_currentIndex (w_canvas w) = -1" "openDir P path w = (w', None)"
  shows "live (w_canvas w')"
  using assms(3) load_current_quiet[OF _ assms(3)[unfolded openDir_def load_first_def Let_def]] quiet_clean[OF assms(1,2)]
  by simp

subsection \<open>Opening\<close>

lemma addShape_index: "CanvasBase_addShape r (c\<lparr>m_currentIndex := k\<rparr>) = CanvasBase_addShape r c"
proof (cases "r < length (heap c)")
  case True
  have "shapes (c\<lparr>m_currentIndex := k\<rparr>) = shapes c" by (simp add: shapes_def get_shape_def[abs_def])
  with True show ?thesis by (simp add: addShape_result uniqueName_def Let_def set_shape_def get_shape_def)
qed (simp add: CanvasBase_addShape_def deref_def)

text \<open>The first stored shape makes the index valid again, whatever it was.\<close>

lemma append_points_index: "append_points (c\<lparr>m_currentIndex := k\<rparr>) ps s = append_points c ps s"
  by (induction ps arbitrary: s) (simp_all add: mapFromImg_def imgWidth_def imgHeight_def getImage_def)

lemma open_shape_index:
  "open_shape P it (w\<lparr>w_canvas := (w_canvas w)\<lparr>m_currentIndex := k\<rparr>\<rparr>) = open_shape P it w"
proof -
  have "CanvasBase_addShape r ((w_canvas w)\<lparr>m_currentIndex := k, heap := h\<rparr>) = CanvasBase_addShape r ((w_canvas w)\<lparr>heap := h\<rparr>)" for r h
  proof -
    have "(w_canvas w)\<lparr>m_currentIndex := k, heap := h\<rparr> = (w_canvas w)\<lparr>heap := h, m_currentIndex := k\<rparr>" by simp
    then show ?thesis by (simp only: addShape_index)
  qed
  then show ?thesis
    by (cases "ShapeFactory_create (m_draw (w_canvas w))") (simp_all add: open_shape_def append_points_index getImage_def Let_def)
qed

lemma append_points_wf:
  "append_points c ps s = Inr s' \<Longrightarrow> (shape_wf s \<longrightarrow> shape_wf s') \<and> m_type s' = m_type s \<and> dyn_class s' = dyn_class s"
proof (induction ps arbitrary: s)
  case (Cons p ps)
  then show ?case by (fastforce simp: appendPoint_wf appendPoint_keeps)
qed simp

lemma open_shape_live:
  assumes "live (w_canvas w)" "stack_cmds (m_undoStack (w_canvas w)) = []" "open_shape P it w = Inr w'"
  shows "live (w_canvas w') \<and> stack_cmds (m_undoStack (w_canvas w')) = [] \<and> m_shapeList (w_canvas w') \<noteq> []"
proof -
  let ?c = "w_canvas w" and ?r = "length (heap (w_canvas w))"
  from assms(1,3) live_img[OF assms(1)] obtain n i s where
    n: "ShapeFactory_create (m_draw ?c) = Some n" "m_image ?c = Some i"
      "append_points ?c (points it) (Shape_setimgWH (img_size i) n) = Inr s"
    by (auto simp: open_shape_def Let_def split: option.splits)
  let ?c1 = "?c\<lparr>heap := heap ?c @ [Shape_setClosed s]\<rparr>"
  have inv: "doc_inv ?c" using assms(1) by (simp add: live_def)
  have wf: "shape_wf (Shape_setClosed s)" "class_matches (Shape_setClosed s)"
    using append_points_wf[OF n(3)] create_wf[OF n(1)] create_matches[OF n(1)]
      class_matches_cong[of "Shape_setClosed s" "Shape_setimgWH (img_size i) n"]
    by (simp_all add: Shape_setClosed_def shape_wf_def)
  have inv1: "doc_inv ?c1" using restores_alloc[OF inv wf(1)] by (simp add: restores_def)
  have r: "?r < length (heap ?c1)" "?r \<notin> set (m_shapeList ?c1)" using doc_inv_refs[OF inv] by auto
  obtain nm c2 where add: "CanvasBase_addShape ?r ?c1 = Inr (nm, c2)" using r(1) by (auto simp: addShape_result Let_def)
  note a = shapes_addShape[OF r add]
  have "typed ?c1" using assms(1) wf(2) by (simp add: live_def typed_def)
  then have ty: "typed c2" using typed_extends[OF _ extends_addShape[OF r(1) add] a(4)] by blast
  have "m_draw c2 = m_draw ?c" using add r(1) by (auto simp: addShape_result Let_def)
  moreover have st: "stack_cmds (m_undoStack c2) = []" "stack_index (m_undoStack c2) = 0"
    using a(7) assms(1,2) by (simp_all add: live_def stack_wf_def)
  ultimately have l2: "live c2"
    using doc_inv_addShape[OF inv1 r add] ty traced_empty[of c2] assms(1) a(6) by (simp add: live_def stack_wf_def)
  obtain lb where "w_canvas w' = set_shape ?r (Shape_setLabel lb) c2"
    using assms(3) n add by (auto simp: open_shape_def sigLabelAdded_def Let_def split: prod.splits)
  moreover have "live (set_shape ?r (Shape_setLabel l) c2)" for l
    using l2 r(1) a(4) by (intro live_set_shape) (auto simp: Shape_setLabel_def)
  ultimately show ?thesis using st a(2) by simp
qed

lemma open_shapes_live:
  assumes "live (w_canvas w)" "stack_cmds (m_undoStack (w_canvas w)) = []" "open_shapes P its w = (w', None)"
  shows "live (w_canvas w')"
  using assms
proof (induction its arbitrary: w)
  case (Cons it its)
  then obtain w1 where "open_shape P it w = Inr w1" "open_shapes P its w1 = (w', None)"
    by (cases "open_shape P it w") auto
  with open_shape_live[OF Cons.prems(1,2)] Cons.IH show ?case by blast
qed simp

lemma openFile_json_live:
  assumes "quiet (w_canvas w)" "contains_str ''json'' file" "openFile P file w = (w', None)"
    and "m_currentIndex (w_canvas w) = -1 \<or> m_shapeList (w_canvas w') \<noteq> []"
  shows "live (w_canvas w')"
proof -
  let ?v = "clean_all w"
  obtain b rt m where m: "FileManager_openFile (parse P) (disk ?v) (absolutePath P) root_empty file (w_files ?v) = Inr (b, rt, m)"
    using assms(2,3) by (auto simp: openFile_def Let_def split: sum.splits)
  obtain c1 e where c1: "loadImage (viewSize P) (centre P) (fromBase64 P (imageData rt)) (CanvasBase_clean (w_canvas w)) = (c1, e)"
    by (meson surj_pair)
  let ?w1 = "?v\<lparr>w_files := m, w_canvas := c1\<rparr>"
  have os: "e = None" "open_shapes P (root_shapes rt) ?w1 = (w', None)"
    using assms(2,3) m c1 by (cases e; auto simp: openFile_def on_canvas_def Let_def)+
  obtain i where i: "fromBase64 P (imageData rt) = Some i" using c1 os(1) by (cases "fromBase64 P (imageData rt)") (auto simp: loadImage_def setImage_def)
  define c2 where "c2 = c1\<lparr>m_currentIndex := -1\<rparr>"
  let ?w2 = "?v\<lparr>w_files := m, w_canvas := c2\<rparr>"
  have "quiet (CanvasBase_clean ((w_canvas w)\<lparr>m_currentIndex := -1\<rparr>))"
    using assms(1) by (simp add: quiet_def CanvasBase_clean_def doc_inv_def canvas_inv_def refs_valid_def shapes_def names_canonical_def
      stack_wf_def traced_empty typed_def)
  moreover have "loadImage (viewSize P) (centre P) (Some i) (CanvasBase_clean ((w_canvas w)\<lparr>m_currentIndex := -1\<rparr>)) = (c2, None)"
    using c1 os(1) i by (auto simp: c2_def loadImage_def setImage_def adjustFitWindow_def setSize_def Let_def CanvasBase_clean_def)
  ultimately have l2: "live c2" "stack_cmds (m_undoStack c2) = []"
    using loadImage_quiet by (fastforce simp: CanvasBase_clean_def)+
  have "open_shapes P (root_shapes rt) ?w2 = (w', None) \<or> w' = ?w1 \<and> c2 = c1"
  proof (cases "root_shapes rt")
    case Nil
    have "m_shapeList c1 = []" "m_currentIndex c1 = m_currentIndex (w_canvas w)"
      using c1 i by (auto simp: loadImage_def setImage_def adjustFitWindow_def setSize_def Let_def CanvasBase_clean_def)
    then show ?thesis using Nil os(2) assms(4) by (auto simp: c2_def)
  next
    case (Cons it its)
    have "open_shape P it ?w2 = open_shape P it ?w1"
      using open_shape_index[where w = ?w1 and k = "-1"] by (simp add: c2_def)
    with os(2) Cons show ?thesis by (cases "open_shape P it ?w1") auto
  qed
  then show ?thesis using open_shapes_live[of ?w2 P "root_shapes rt" w'] l2 by auto
qed

lemma openFile_live:
  assumes "quiet (w_canvas w)" "openFile P file w = (w', None)" "m_currentIndex (w_canvas w) = -1 \<or> m_shapeList (w_canvas w') \<noteq> []"
  shows "live (w_canvas w')"
proof (cases "contains_str ''json'' file")
  case True
  from openFile_json_live[OF assms(1) True assms(2,3)] show ?thesis .
next
  case False
  let ?v = "clean_all w"
  have l: "load_first P (?v\<lparr>w_files := fst (setSingleImage (absolutePath P) file (w_files ?v))\<rparr>) = (w', None)"
    using assms(2) False by (simp add: openFile_def Let_def)
  have "m_shapeList (w_canvas w') = []"
  proof -
    have "m_shapeList c' = m_shapeList c" if "loadImage sz ctr im c = (c', None)" for sz ctr im and c c' :: canvas
      using that by (cases im) (auto simp: loadImage_def setImage_def adjustFitWindow_def setSize_def Let_def)
    with l show ?thesis by (auto simp: load_first_def load_current_def on_canvas_def Let_def CanvasBase_clean_def split: sum.splits prod.splits)
  qed
  with assms(3) have "quiet (CanvasBase_clean (w_canvas w))" using quiet_clean[OF assms(1)] by simp
  then show ?thesis using load_current_quiet[OF _ l[unfolded load_first_def Let_def]] by simp
qed

subsection \<open>The other slots\<close>

lemma setContrast_live: "live c \<Longrightarrow> setContrast cv v c = Inr c' \<Longrightarrow> live c'"
  by (auto simp: setContrast_def Let_def)

lemma setBrightness_live: "live c \<Longrightarrow> setBrightness cv v c = Inr c' \<Longrightarrow> live c'"
  by (auto simp: setBrightness_def Let_def)

lemma value_changed_live:
  "live (w_canvas w) \<Longrightarrow> live (w_canvas (fst (contrast_valueChanged P v w)))"
  "live (w_canvas w) \<Longrightarrow> live (w_canvas (fst (brightness_valueChanged P v w)))"
proof -
  assume l: "live (w_canvas w)"
  show "live (w_canvas (fst (contrast_valueChanged P v w)))"
    using l setContrast_live[OF l, of "convert P" v]
    by (cases "setContrast (convert P) v (w_canvas w)") (simp_all add: contrast_valueChanged_def on_canvas_def)
  show "live (w_canvas (fst (brightness_valueChanged P v w)))"
    using l setBrightness_live[OF l, of "convert P" v]
    by (cases "setBrightness (convert P) v (w_canvas w)") (simp_all add: brightness_valueChanged_def on_canvas_def)
qed

lemma each_value_live:
  "(\<And>v w. live (w_canvas w) \<Longrightarrow> live (w_canvas (fst (f v w)))) \<Longrightarrow> live (w_canvas w) \<Longrightarrow> live (w_canvas (fst (each_value f vs w)))"
proof (induction vs arbitrary: w)
  case (Cons v vs)
  obtain w1 e where "f v w = (w1, e)" by (meson surj_pair)
  with Cons.prems(1)[OF Cons.prems(2), of v] Cons.IH[OF Cons.prems(1), of w1] show ?case by (cases e) simp_all
qed simp

lemma move_live_window:
  "live (w_canvas w) \<Longrightarrow> live (w_canvas (fst (move_contrast P v w)))"
  "live (w_canvas w) \<Longrightarrow> live (w_canvas (fst (move_brightness P v w)))"
  by (auto simp: move_contrast_def move_brightness_def split: prod.split intro!: each_value_live value_changed_live)

lemma image_adjust_live: "live (w_canvas w) \<Longrightarrow> live (w_canvas (fst (image_adjust P w)))"
proof -
  assume l: "live (w_canvas w)"
  let ?w = "w\<lparr>w_imageAdj := (w_imageAdj w)\<lparr>adj_contrast := m_contrast (w_canvas w), adj_brightness := m_brightness (w_canvas w)\<rparr>\<rparr>"
  obtain w1 e where w1: "move_contrast P (m_contrast (w_canvas w)) ?w = (w1, e)" by (meson surj_pair)
  have "live (w_canvas w1)" using move_live_window(1)[of ?w P "m_contrast (w_canvas w)"] l w1 by simp
  with w1 move_live_window(2)[of w1 P] show ?thesis
    by (cases e) (simp_all add: image_adjust_def ImageAdj_setParam_def Let_def)
qed

lemma trigger_live:
  assumes "live (w_canvas w)" "a \<noteq> ChangeDrawMode None_mode"
  shows "live (w_canvas (fst (trigger P a w)))" "a \<noteq> ImageAdjust \<Longrightarrow> snd (trigger P a w) = None"
proof -
  note l = assms(1)
  obtain c1 c2 c3 where c: "CanvasView_addShape (w_canvas w) = Inr c1" "live c1" "canvas_undo (w_canvas w) = Inr c2" "live c2"
      "canvas_redo (w_canvas w) = Inr c3" "live c3"
    using live_run_op[OF l, of OpAddShape] undo_live[OF l] redo_live[OF l] by auto
  obtain i where i: "m_image (w_canvas w) = Some i" using live_img[OF l] by blast
  have d: "live ((w_canvas w)\<lparr>m_draw := m\<rparr>)" if "m \<noteq> None_mode" for m using l that by (simp add: live_def)
  show "live (w_canvas (fst (trigger P a w)))" "a \<noteq> ImageAdjust \<Longrightarrow> snd (trigger P a w) = None"
    using assms c i d image_adjust_live[OF l, of P] zoom_live[of "w_canvas w"]
    by (cases a; auto simp: trigger_def on_canvas_def adjustFitWindow_def setSize_def Let_def)+
qed

lemma slotSetProperty_live:
  assumes "live (w_canvas w)" "r \<in> set (m_shapeList (w_canvas w))"
  shows "live (w_canvas (slotSetProperty P answer (Some r) w))"
proof -
  have "live (set_shape r (Shape_setLabel lb) (w_canvas w))" for lb
    using assms(1) live_heap[OF assms] by (intro live_set_shape) (auto simp: Shape_setLabel_def)
  with assms(1) show ?thesis by (cases answer) (auto simp: slotSetProperty_def sigLabelAdded_def Let_def split: prod.split)
qed

lemma saveFile_canvas: "saveFile P w = (w', e) \<Longrightarrow> w_canvas w' = w_canvas w"
  by (auto simp: saveFile_def Let_def split: prod.splits sum.splits if_splits)

lemma fileList_clicked_live:
  assumes "live (w_canvas w)" "fileList_clicked P row w = (w', e)"
  shows "live (w_canvas w')"
proof -
  have "load_current P (w\<lparr>w_files := fst (selectFile row (w_files w))\<rparr>) = (w', e)"
    using assms(2) by (simp add: fileList_clicked_def warning_answer_def split: if_splits)
  from load_current_quiet[OF _ this] assms(1) show ?thesis by (simp add: live_quiet)
qed

subsection \<open>The adjustment of the image\<close>

definition picture_ok :: "'t platform \<Rightarrow> 't Window \<Rightarrow> bool" where
  "picture_ok P w \<longleftrightarrow> (\<forall>i. m_image (w_canvas w) = Some i \<longrightarrow> filterable P i) \<and> adjustment_moderate w"

lemma picture_ok_cong:
  assumes "picture (w_canvas w') = picture (w_canvas w)" "w_imageAdj w' = w_imageAdj w"
  shows "picture_ok P w' = picture_ok P w"
  using assms by (simp add: picture_ok_def adjustment_moderate_def picture_def)

lemma filter_returns:
  assumes "\<And>i. im = Some i \<Longrightarrow> filterable P i" "moderate light" "moderate contrast"
  shows "\<exists>j. lightContrastImage (convert P) im light contrast = Inr j"
proof (cases im)
  case (Some i)
  let ?j = "if img_rgb888 i then i else convert P i"
  have "wf_rgb888 ?j" "img_w ?j = img_w i" "img_h ?j = img_h i" using assms(1)[OF Some] by (simp_all add: filterable_def Let_def)
  then have "3 * (img_w i * img_h i) \<le> length (img_bits ?j)"
    using buffer_holds_pixels[of "img_w i" "img_h i"] by (simp add: wf_rgb888_def bytesPerLine_def)
  from adjust_loop_result[OF assms(2,3) this, of 0] show ?thesis by (simp add: Some lightContrastImage_def Let_def)
qed (simp add: lightContrastImage_def)

lemma value_changed_ok:
  assumes "picture_ok P w" "moderate v"
  shows "snd (contrast_valueChanged P v w) = None \<and> picture_ok P (fst (contrast_valueChanged P v w))"
    "snd (brightness_valueChanged P v w) = None \<and> picture_ok P (fst (brightness_valueChanged P v w))"
proof -
  let ?c = "w_canvas w"
  have m: "moderate (m_contrast ?c)" "moderate (m_brightness ?c)" and im: "\<And>i. m_image ?c = Some i \<Longrightarrow> filterable P i"
    using assms(1) by (simp_all add: picture_ok_def adjustment_moderate_def)
  obtain j where "lightContrastImage (convert P) (m_image ?c) (m_brightness ?c) v = Inr j" using filter_returns[OF im m(2) assms(2)] by blast
  then show "snd (contrast_valueChanged P v w) = None \<and> picture_ok P (fst (contrast_valueChanged P v w))" using assms
    by (simp add: contrast_valueChanged_def on_canvas_def setContrast_def Let_def picture_ok_def adjustment_moderate_def)
  obtain j where "lightContrastImage (convert P) (m_image ?c) v (m_contrast ?c) = Inr j" using filter_returns[OF im assms(2) m(1)] by blast
  then show "snd (brightness_valueChanged P v w) = None \<and> picture_ok P (fst (brightness_valueChanged P v w))" using assms
    by (simp add: brightness_valueChanged_def on_canvas_def setBrightness_def Let_def picture_ok_def adjustment_moderate_def)
qed

lemma slider_moderate:
  assumes "slider_setValue v s = (s', vs)" "moderate (sl_min s)" "moderate (sl_max s)"
  shows "sl_min s' = sl_min s \<and> sl_max s' = sl_max s \<and> (vs = [] \<or> (\<exists>u. vs = [u] \<and> moderate u))"
  using assms by (auto simp: slider_setValue_def moderate_def Let_def split: if_splits)

lemma move_ok:
  assumes "picture_ok P w"
  shows "snd (move_contrast P v w) = None \<and> picture_ok P (fst (move_contrast P v w))"
    "snd (move_brightness P v w) = None \<and> picture_ok P (fst (move_brightness P v w))"
proof -
  have one: "snd (each_value f [u] x) = snd (f u x) \<and> fst (each_value f [u] x) = fst (f u x)" for f u and x :: "'a Window"
    by (cases "f u x"; cases "snd (f u x)") simp_all
  obtain s vs where s: "slider_setValue v (contrastSlider (w_imageAdj w)) = (s, vs)" by (meson surj_pair)
  have ok: "picture_ok P (w\<lparr>w_imageAdj := (w_imageAdj w)\<lparr>contrastSlider := s\<rparr>\<rparr>)"
    using assms slider_moderate[OF s] by (simp add: picture_ok_def adjustment_moderate_def)
  show "snd (move_contrast P v w) = None \<and> picture_ok P (fst (move_contrast P v w))"
    using slider_moderate[OF s] assms ok value_changed_ok(1)[OF ok] one[of "contrast_valueChanged P"]
    by (auto simp: move_contrast_def s picture_ok_def[of P w] adjustment_moderate_def)
  obtain s vs where s: "slider_setValue v (brightnessSlider (w_imageAdj w)) = (s, vs)" by (meson surj_pair)
  have ok: "picture_ok P (w\<lparr>w_imageAdj := (w_imageAdj w)\<lparr>brightnessSlider := s\<rparr>\<rparr>)"
    using assms slider_moderate[OF s] by (simp add: picture_ok_def adjustment_moderate_def)
  show "snd (move_brightness P v w) = None \<and> picture_ok P (fst (move_brightness P v w))"
    using slider_moderate[OF s] assms ok value_changed_ok(2)[OF ok] one[of "brightness_valueChanged P"]
    by (auto simp: move_brightness_def s picture_ok_def[of P w] adjustment_moderate_def)
qed

lemma and_then_ok:
  assumes "snd r = None \<and> I (fst r)" "\<And>s. I s \<Longrightarrow> snd (f s) = None \<and> I (fst (f s))"
  shows "snd (and_then r f) = None \<and> I (fst (and_then r f))"
  using assms by (cases r; cases "snd r") auto

lemma image_adjust_ok:
  assumes "picture_ok P w"
  shows "snd (image_adjust P w) = None \<and> picture_ok P (fst (image_adjust P w))"
proof -
  have ok: "picture_ok P (w\<lparr>w_imageAdj := (w_imageAdj w)\<lparr>adj_contrast := x, adj_brightness := y\<rparr>\<rparr>)" for x y
    using assms by (simp add: picture_ok_def adjustment_moderate_def)
  show ?thesis unfolding image_adjust_def ImageAdj_setParam_def Let_def
    by (rule and_then_ok[where I = "picture_ok P", OF move_ok(1)[OF ok] move_ok(2)])
qed

lemma trigger_ok:
  assumes "live (w_canvas w)" "picture_ok P w" "a \<noteq> ChangeDrawMode None_mode"
  shows "snd (trigger P a w) = None" "picture_ok P (fst (trigger P a w))"
proof -
  show "snd (trigger P a w) = None"
    using trigger_live(2)[OF assms(1,3), of P] image_adjust_ok[OF assms(2)] by (cases "a = ImageAdjust") (auto simp: trigger_def)
  have on: "w_canvas (fst (on_canvas f w)) = fst (f (w_canvas w)) \<and> w_imageAdj (fst (on_canvas f w)) = w_imageAdj w" for f
    by (simp add: on_canvas_def split: prod.split)
  have "picture (fst (lift_result c (CanvasView_addShape c))) = picture c" "picture (fst (lift_result c (canvas_undo c))) = picture c"
    "picture (fst (lift_result c (canvas_redo c))) = picture c" for c
    using picture_lift picture_view(1) picture_stack(2,3) by blast+
  then have "picture (w_canvas (fst (trigger P a w))) = picture (w_canvas w) \<and> w_imageAdj (fst (trigger P a w)) = w_imageAdj w"
    if "a \<noteq> ImageAdjust"
    using that by (cases a) (simp_all add: trigger_def on)
  then show "picture_ok P (fst (trigger P a w))"
    using image_adjust_ok[OF assms(2)] picture_ok_cong assms(2) by (cases "a = ImageAdjust") (auto simp: trigger_def)
qed

subsection \<open>Loaded images\<close>

lemma loadImage_picture:
  "loadImage sz ctr im c = (c', None) \<Longrightarrow> \<exists>i. im = Some i \<and> picture c' = (Some i, m_contrast c, m_brightness c)"
  by (cases im) (auto simp: loadImage_def setImage_def adjustFitWindow_def setSize_def Let_def picture_def)

lemma loaded_ok:
  assumes "loadImage sz ctr im (w_canvas w) = (c', None)" "\<And>i. im = Some i \<Longrightarrow> filterable P i" "adjustment_moderate w"
  shows "picture_ok P (w\<lparr>w_canvas := c'\<rparr>)"
  using loadImage_picture[OF assms(1)] assms(2,3) by (auto simp: picture_ok_def adjustment_moderate_def picture_def)

lemma load_current_ok:
  assumes "decodes_filterable P" "adjustment_moderate w" "load_current P w = (w', None)"
  shows "picture_ok P w'"
  using assms loaded_ok by (fastforce simp: load_current_def on_canvas_def decodes_filterable_def split: sum.splits prod.splits)

lemma load_first_ok:
  assumes "decodes_filterable P" "adjustment_moderate w" "load_first P w = (w', None)"
  shows "picture_ok P w'"
  by (rule load_current_ok[OF assms(1) _ assms(3)[unfolded load_first_def Let_def]]) (use assms(2) in \<open>simp add: adjustment_moderate_def\<close>)

lemma open_shape_picture:
  "open_shape P it w = Inr w' \<Longrightarrow> picture (w_canvas w') = picture (w_canvas w) \<and> w_imageAdj w' = w_imageAdj w"
  by (cases "randomColor (fromHslF P) (currentHue w)")
     (auto simp: open_shape_def sigLabelAdded_def Let_def dest!: picture_addShape split: option.splits)

lemma open_shapes_ok:
  "open_shapes P its w = (w', None) \<Longrightarrow> picture_ok P w \<Longrightarrow> picture_ok P w'"
proof (induction its arbitrary: w)
  case (Cons it its)
  then obtain w1 where w1: "open_shape P it w = Inr w1" "open_shapes P its w1 = (w', None)"
    by (cases "open_shape P it w") auto
  with open_shape_picture[OF w1(1)] picture_ok_cong Cons show ?case by blast
qed simp

lemma clean_moderate: "adjustment_moderate w \<Longrightarrow> adjustment_moderate ((clean_all w)\<lparr>w_files := m\<rparr>)"
  by (simp add: adjustment_moderate_def clean_all_def CanvasBase_clean_def)

lemma openFile_ok:
  assumes "decodes_filterable P" "adjustment_moderate w" "openFile P file w = (w', None)"
  shows "picture_ok P w'"
proof (cases "contains_str ''json'' file")
  case True
  let ?v = "clean_all w"
  obtain b rt m where m: "FileManager_openFile (parse P) (disk ?v) (absolutePath P) root_empty file (w_files ?v) = Inr (b, rt, m)"
    using True assms(3) by (auto simp: openFile_def Let_def split: sum.splits)
  obtain c1 e where c1: "loadImage (viewSize P) (centre P) (fromBase64 P (imageData rt)) (w_canvas (?v\<lparr>w_files := m\<rparr>)) = (c1, e)"
    by (meson surj_pair)
  then have os: "e = None" "open_shapes P (root_shapes rt) (?v\<lparr>w_files := m, w_canvas := c1\<rparr>) = (w', None)"
    using True assms(3) m by (cases e; auto simp: openFile_def on_canvas_def Let_def)+
  have "picture_ok P (?v\<lparr>w_files := m, w_canvas := c1\<rparr>)"
    using loaded_ok[OF c1[unfolded os(1)] _ clean_moderate[OF assms(2)]] assms(1) by (simp add: decodes_filterable_def)
  with open_shapes_ok[OF os(2)] show ?thesis .
next
  case False
  then show ?thesis using assms(3) load_first_ok[OF assms(1) clean_moderate[OF assms(2)]] by (simp add: openFile_def Let_def)
qed

lemma openDir_ok: "decodes_filterable P \<Longrightarrow> adjustment_moderate w \<Longrightarrow> openDir P path w = (w', None) \<Longrightarrow> picture_ok P w'"
  using load_first_ok[OF _ clean_moderate] by (simp add: openDir_def Let_def)

lemma saveFile_adj: "saveFile P w = (w', e) \<Longrightarrow> w_imageAdj w' = w_imageAdj w"
  by (auto simp: saveFile_def Let_def split: prod.splits sum.splits if_splits)

lemma slotSetProperty_picture:
  "picture (w_canvas (slotSetProperty P answer (Some r) w)) = picture (w_canvas w) \<and>
   w_imageAdj (slotSetProperty P answer (Some r) w) = w_imageAdj w"
  by (cases answer) (auto simp: slotSetProperty_def sigLabelAdded_def Let_def split: prod.split)

subsection \<open>The property\<close>

lemma window_step_live:
  assumes "window_step P cp w w'" "live (w_canvas w)"
  shows "live (w_canvas w')"
  using assms
proof cases
  case (on_event c') then show ?thesis using session_step_live assms(2) by simp
next
  case (on_action a) then show ?thesis using trigger_live(1)[OF assms(2), of a P] by simp
next
  case (on_property r answer) then show ?thesis using slotSetProperty_live[OF assms(2)] by simp
next
  case on_save then show ?thesis using saveFile_canvas assms(2) by metis
next
  case (on_contrast v) then show ?thesis using move_live_window(1)[OF assms(2), of P v] by simp
next
  case (on_brightness v) then show ?thesis using move_live_window(2)[OF assms(2), of P v] by simp
next
  case (on_file row) then show ?thesis using fileList_clicked_live[OF assms(2)] by simp
next
  case (on_open f) then show ?thesis using openFile_live[OF _ on_open] assms(2)[unfolded live_quiet] by blast
next
  case (on_open_dir path) then show ?thesis using openDir_live assms(2)[unfolded live_quiet] by blast
qed

lemma window_step_ok:
  assumes "decodes_filterable P" "window_step P cp w w'" "live (w_canvas w)" "picture_ok P w"
  shows "picture_ok P w'"
proof -
  have m: "adjustment_moderate w" using assms(4) by (simp add: picture_ok_def)
  show ?thesis using assms(2)
  proof cases
    case (on_event c')
    then have "picture (w_canvas w') = picture (w_canvas w)" using session_step_picture[OF on_event(2)] by (auto simp: picture_def)
    then show ?thesis using picture_ok_cong on_event(1) assms(4) by fastforce
  next
    case (on_action a) then show ?thesis using trigger_ok(2)[OF assms(3,4) on_action(2)] by simp
  next
    case (on_property r answer) then show ?thesis using picture_ok_cong slotSetProperty_picture assms(4) by metis
  next
    case on_save then show ?thesis using picture_ok_cong saveFile_canvas saveFile_adj assms(4) by metis
  next
    case (on_contrast v) then show ?thesis using move_ok(1)[OF assms(4), of v] by simp
  next
    case (on_brightness v) then show ?thesis using move_ok(2)[OF assms(4), of v] by simp
  next
    case (on_file row)
    then have "load_current P (w\<lparr>w_files := fst (selectFile row (w_files w))\<rparr>) = (w', None)"
      by (simp add: fileList_clicked_def warning_answer_def split: if_splits)
    from load_current_ok[OF assms(1) _ this] m show ?thesis by (simp add: adjustment_moderate_def)
  next
    case (on_open f) then show ?thesis using openFile_ok[OF assms(1) m] by blast
  next
    case (on_open_dir path) then show ?thesis using openDir_ok[OF assms(1) m] by blast
  qed
qed

lemma window_live: "window_reachable P cp w \<Longrightarrow> live (w_canvas w)"
proof (induction rule: window_reachable.induct)
  case (started hue garbage fs config w0 f w)
  then show ?case using openFile_live[OF _ started(3)] Window_new_quiet[OF started(1)] by blast
next
  case (started_dir hue garbage fs config w0 path w)
  then show ?case using openDir_live[OF _ _ started_dir(3)] Window_new_quiet[OF started_dir(1)] by blast
next
  case (continued w w')
  then show ?case using window_step_live by blast
qed

lemma window_ok: "window_reachable P cp w \<Longrightarrow> decodes_filterable P \<Longrightarrow> picture_ok P w"
proof (induction rule: window_reachable.induct)
  case (continued w w')
  then show ?case using window_step_ok window_live by blast
qed (auto intro: openFile_ok openDir_ok)

text \<open>
  C1. The whole window is safe. Sessions start with the first image or directory that is opened after the
  start of the program, with slider limits and settings of at most 500 million. They go on with mouse,
  wheel and key events, menu actions including undo and redo, labelling, saving, the adjustment sliders,
  clicks in the list of files, and opening files or directories while no shape is current (or files
  that bring shapes), in any interleaving, as long as the steps return; a file that cannot be read or
  saved ends the session. At every moment of such a session the canvas shows an image and satisfies its
  invariant, and every event handler, every action of the menus, the adjustment dialog with its filter
  included, and every move of a slider returns without an escaping exception and without undefined
  behaviour. Decoded images are well-formed, which is Qt's part, and the draw mode that draws nothing,
  which no menu offers, is not chosen.
\<close>

theorem window_session_is_safe:
  assumes "decodes_filterable P" and "window_reachable P cp w"
  shows "doc_inv (w_canvas w) \<and> m_image (w_canvas w) \<noteq> None \<and>
     snd (mousePressEvent cp b p (w_canvas w)) = None \<and> snd (mouseReleaseEvent cp p (w_canvas w)) = None \<and>
     snd (mouseDoubleClickEvent cp b p (w_canvas w)) = None \<and> snd (hoverMoveEvent cp p (w_canvas w)) = None \<and>
     snd (mouseMoveEvent cp p (w_canvas w)) = None \<and> snd (keyPressEvent k (w_canvas w)) = None \<and>
     (a \<noteq> ChangeDrawMode None_mode \<longrightarrow> snd (trigger P a w) = None) \<and>
     snd (move_contrast P v w) = None \<and> snd (move_brightness P v w) = None"
proof -
  note l = window_live[OF assms(2)] and ok = window_ok[OF assms(2,1)]
  show ?thesis
    using press_live[OF l, of cp b p] release_live[OF l, of cp p] dblclick_live[OF l, of cp b p] hover_live[OF l, of cp p]
      move_live[OF l, of cp p] key_live[OF l, of k] trigger_ok(1)[OF l ok, of a] move_ok[OF ok, of v] l
    by (auto simp: live_def)
qed

lemma first_image_reachable:
  assumes "Window_new (convert P) hue garbage fs config = Inr w0" "adjustment_moderate w0" "\<not> contains_str ''json'' file"
    and "read_image P (m_path (FileManager_new garbage) @ file) = Some i"
  shows "\<exists>w. openFile P file w0 = (w, None) \<and> window_reachable P cp w"
proof -
  let ?m = "fst (selectFile 0 (fst (setSingleImage (absolutePath P) file (w_files w0))))"
  have f: "getCurrentImageFile ?m = Inr (m_path (w_files w0) @ file)"
    by (simp add: setSingleImage_def selectFile_def getCurrentImageFile_def vec_at_def Let_def)
  obtain c where "loadImage (viewSize P) (centre P) (Some i) (CanvasBase_clean (w_canvas w0)) = (c, None)"
    using loadImage_Some by blast
  then have "\<exists>w. openFile P file w0 = (w, None)"
    using assms(3,4) f Window_new_quiet[OF assms(1)]
    by (simp add: openFile_def load_first_def load_current_def on_canvas_def Let_def)
  with window_reachable.started[OF assms(1,2)] show ?thesis by blast
qed

text \<open>A platform that decodes every file as an image of one line of four pixels.\<close>

definition line_image :: QImage where
  "line_image = \<lparr>img_w = 4, img_h = 1, img_rgb888 = True, img_bits = replicate 12 100\<rparr>"

theorem window_session_is_safe_witness:
  "\<exists>w. window_reachable (sample_platform line_image) (\<lambda>ps p. False) w \<and>
     snd (trigger (sample_platform line_image) ImageAdjust w) = None \<and> snd (move_contrast (sample_platform line_image) 69 w) = None"
proof -
  let ?P = "sample_platform line_image"
  have "GetValue (IniParser_new INI_UNKNOWN) k s = []" for k s by (simp add: GetValue_def IniParser_new_def)
  then obtain w0 :: "json Window" where w0: "Window_new (convert ?P) 0 0 Map.empty (IniParser_new INI_UNKNOWN) = Inr w0" "adjustment_moderate w0"
    by (simp add: Window_new_def ImageAdj_new_def Window_initParams_def Get_int_def setContrast_def setBrightness_def
        lightContrastImage_def CanvasBase_new_def adjustment_moderate_def moderate_def createSlider_def slider_setValue_def Let_def)
  have r: "read_image ?P f = Some line_image" for f by (simp add: sample_platform_def)
  then obtain w where w: "window_reachable ?P (\<lambda>ps p. False) w"
    using first_image_reachable[OF w0, of "''a.png''" line_image "\<lambda>ps p. False"] by auto
  have "filterable ?P line_image" by (simp add: filterable_def line_image_def wf_rgb888_def bytesPerLine_def)
  then have "decodes_filterable ?P" by (simp add: decodes_filterable_def sample_platform_def filterable_def)
  with window_session_is_safe[OF _ w, of LeftButton 0 Key_Return ImageAdjust 69] w show ?thesis by blast
qed

end
