(* ===== verification/Program_Run.thy ===== *)
theory Program_Run
  imports Window_Sessions
begin

text \<open>
  The whole of \<^verbatim>\<open>main\<close>: the look of the application (\<^verbatim>\<open>loadSkin\<close>,
  \<^verbatim>\<open>setPalette\<close> and \<^verbatim>\<open>setFont\<close> of \<^verbatim>\<open>src/qt/qtfunctions.h\<close> with the
  defaults of \<^verbatim>\<open>qtstyles.h\<close>), the place of the tool bars, and the order in which a run
  loads the configuration, creates the window, processes events and saves. The files compiled into
  the program and the events are parameters.
\<close>

subsection \<open>The look\<close>

definition DEFAULT_SKIN :: string where
  "DEFAULT_SKIN = ''dark''"

definition DEFAULT_PALETTE_COLOR :: "32 word" where
  "DEFAULT_PALETTE_COLOR = 0xFF132D48"

definition DEFAULT_FONT_SIZE :: int where
  "DEFAULT_FONT_SIZE = 12"

definition TOOLBAR_LOCATION :: int where
  "TOOLBAR_LOCATION = 1"

record look =
  styleSheet :: "string option"
  palette :: "QColor option"
  pointSize :: "int option"
  warnings :: "string list"

definition look_new :: look where
  "look_new = \<lparr>styleSheet = None, palette = None, pointSize = None, warnings = []\<rparr>"

text \<open>A resource is opened under the name after the colon.\<close>

definition loadSkin :: "(string \<Rightarrow> string option) \<Rightarrow> string \<Rightarrow> look \<Rightarrow> look" where
  "loadSkin resource skin l =
     (case resource ('':'' @ skin) of
        Some text \<Rightarrow> l\<lparr>styleSheet := Some text\<rparr>
      | None \<Rightarrow> l\<lparr>warnings := warnings l @ [''read '' @ skin @ ''.qss error.'']\<rparr>)"

text \<open>\<^verbatim>\<open>QColor(QRgb)\<close> takes the three colours and ignores the alpha byte.\<close>

definition qRed :: "32 word \<Rightarrow> int" where "qRed rgb = uint (drop_bit 16 rgb AND 0xFF)"
definition qGreen :: "32 word \<Rightarrow> int" where "qGreen rgb = uint (drop_bit 8 rgb AND 0xFF)"
definition qBlue :: "32 word \<Rightarrow> int" where "qBlue rgb = uint (rgb AND 0xFF)"

definition QColor_QRgb :: "32 word \<Rightarrow> QColor" where
  "QColor_QRgb rgb = QColor True (qRed rgb) (qGreen rgb) (qBlue rgb) 255"

definition setPalette :: "QColor \<Rightarrow> look \<Rightarrow> look" where
  "setPalette clr l = l\<lparr>palette := Some clr\<rparr>"

text \<open>\<^verbatim>\<open>QFont::setPointSize\<close> warns about a size that is not positive and keeps the old one.\<close>

definition setFont :: "int \<Rightarrow> look \<Rightarrow> look" where
  "setFont pts l = (if pts \<le> 0 then l else l\<lparr>pointSize := Some pts\<rparr>)"

subsection \<open>strtoul\<close>

definition hex_digit :: "char \<Rightarrow> nat option" where
  "hex_digit c =
     (let n = of_char c :: nat
      in if 48 \<le> n \<and> n \<le> 57 then Some (n - 48)
         else if 65 \<le> n \<and> n \<le> 70 then Some (n - 55)
         else if 97 \<le> n \<and> n \<le> 102 then Some (n - 87) else None)"

fun hex_prefix :: "nat \<Rightarrow> string \<Rightarrow> nat" where
  "hex_prefix acc [] = acc"
| "hex_prefix acc (c # cs) = (case hex_digit c of None \<Rightarrow> acc | Some d \<Rightarrow> hex_prefix (16 * acc + d) cs)"

text \<open>
  \<^verbatim>\<open>strtoul(s, NULL, 16)\<close> where \<^verbatim>\<open>unsigned long\<close> has 32 bits, as on Windows: white
  space, a sign, the prefix \<^verbatim>\<open>0x\<close> if a digit follows, and the longest run of digits; a
  number that is too large gives the largest value.
\<close>

definition strtoul16 :: "string \<Rightarrow> 32 word" where
  "strtoul16 s =
     (let t = skip_space s;
          neg = (t \<noteq> [] \<and> hd t = CHR ''-'');
          u = (if t \<noteq> [] \<and> hd t \<in> {CHR ''-'', CHR ''+''} then tl t else t);
          v = (if length u > 2 \<and> u ! 0 = CHR ''0'' \<and> u ! 1 \<in> {CHR ''x'', CHR ''X''} \<and> hex_digit (u ! 2) \<noteq> None then drop 2 u else u);
          n = hex_prefix 0 v
      in if n \<ge> 2 ^ 32 then - 1 else if neg then - of_nat n else of_nat n)"

subsection \<open>A run\<close>

definition main_look :: "(string \<Rightarrow> string option) \<Rightarrow> IniParser \<Rightarrow> look result" where
  "main_look resource config =
     (let skin = GetValue config ''skin'' ''ui'';
          l1 = loadSkin resource (if skin = [] then DEFAULT_SKIN else skin) look_new;
          pal = GetValue config ''palette'' ''ui'';
          l2 = setPalette (QColor_QRgb (if pal = [] then DEFAULT_PALETTE_COLOR else strtoul16 pal)) l1
      in bind_result (Get_int config ''fontsize'' ''ui'' DEFAULT_FONT_SIZE) (\<lambda>pts. Inr (setFont pts l2)))"

definition toolBar_location :: "IniParser \<Rightarrow> int result" where
  "toolBar_location config = Get_int config ''toolbar_location'' ''ui'' TOOLBAR_LOCATION"

text \<open>How a run ends: the exit code of the event loop and what the window then is.\<close>

record 't finished =
  exitcode :: int
  last_window :: "'t Window"
  last_state :: int
  last_geometry :: "int \<times> int \<times> int \<times> int"

record run =
  run_look :: look
  run_started :: started
  run_log :: string
  run_exit :: int
  run_saved :: bool
  run_files :: "string files"

definition main_run ::
    "IniType \<Rightarrow> (string \<Rightarrow> bool) \<Rightarrow> (string \<Rightarrow> string option) \<Rightarrow> (QImage \<Rightarrow> QImage) \<Rightarrow> rat \<Rightarrow> int \<Rightarrow> 't files \<Rightarrow>
     ('t Window \<Rightarrow> started \<Rightarrow> 't finished) \<Rightarrow> string \<Rightarrow> string files \<Rightarrow> run result" where
  "main_run mem can_write resource conv hue garbage wfs exec exec_path fs =
     bind_result (load_config_of mem can_write exec_path fs) (\<lambda>(fs1, config, logfile).
     bind_result (main_look resource config) (\<lambda>l.
     bind_result (Window_new conv hue garbage wfs config) (\<lambda>w.
     bind_result (toolBar_location config) (\<lambda>_.
     bind_result (window_init config) (\<lambda>st.
       let fin = exec w st;
           (ok, fs2) = main_exit can_write fs1 (last_state fin) (last_geometry fin) (g_config (last_window fin))
       in Inr \<lparr>run_look = l, run_started = st, run_log = logfile, run_exit = exitcode fin, run_saved = ok, run_files = fs2\<rparr>)))))"

subsection \<open>Properties\<close>

text \<open>
  The default skin does not exist: the program's resources offer the style sheets under the names
  \<^verbatim>\<open>darkstyle\<close> and \<^verbatim>\<open>lightstyle\<close>, so a configuration without a skin leaves the
  application without a style sheet and with a warning in the log.
\<close>

theorem default_skin_is_missing:
  assumes "GetValue config ''skin'' ''ui'' = []" and "resource '':dark'' = None" and "main_look resource config = Inr l"
  shows "styleSheet l = None \<and> warnings l = [''read dark.qss error.'']"
  using assms by (auto simp: main_look_def loadSkin_def DEFAULT_SKIN_def setPalette_def setFont_def look_new_def Let_def)

lemma get_new: "GetValue (IniParser_new mem) k s = []"
  by (simp add: GetValue_def IniParser_new_def)

theorem default_skin_is_missing_witness:
  "\<exists>l. main_look (\<lambda>n. if n = '':darkstyle'' then Some ''QWidget{}'' else None) (IniParser_new INI_UNKNOWN) = Inr l \<and> styleSheet l = None"
proof -
  obtain l where "main_look (\<lambda>n. if n = '':darkstyle'' then Some ''QWidget{}'' else None) (IniParser_new INI_UNKNOWN) = Inr l"
    by (simp add: main_look_def Get_int_def get_new Let_def)
  with default_skin_is_missing[OF get_new _ this] show ?thesis by simp
qed

lemma strtoul16_prefixed:
  "cs \<noteq> [] \<Longrightarrow> hex_digit (hd cs) \<noteq> None \<Longrightarrow> hex_prefix 0 cs < 2 ^ 32 \<Longrightarrow> strtoul16 (''0x'' @ cs) = of_nat (hex_prefix 0 cs)"
  by (cases cs) (simp_all add: strtoul16_def Let_def)

lemma hex_digit_bound: "hex_digit c = Some d \<Longrightarrow> d < 16"
  by (auto simp: hex_digit_def Let_def split: if_splits)

lemma byte_of_word: "uint ((w :: 32 word) AND 0xFF) = uint w mod 256"
proof -
  have e: "w AND 0xFF = take_bit 8 w" by (simp add: take_bit_eq_mask mask_eq_exp_minus_1 del: take_bit_eq_mod)
  have "uint (w AND 0xFF) = take_bit 8 (uint w)" by (simp only: e unsigned_take_bit_eq)
  then show ?thesis by (simp add: take_bit_eq_mod)
qed

lemma uint_small: "n < 2 ^ 32 \<Longrightarrow> uint (of_nat n :: 32 word) = int n"
  by (simp add: uint_nat unat_of_nat)

lemma uint_drop: "uint (drop_bit k (w :: 32 word)) = uint w div 2 ^ k"
  unfolding uint_nat unat_drop_bit_eq by (simp only: drop_bit_eq_div zdiv_int) simp

lemma QColor_of_nat:
  assumes "n < 2 ^ 32"
  shows "QColor_QRgb (of_nat n) = QColor True (int (n div 2 ^ 16 mod 256)) (int (n div 2 ^ 8 mod 256)) (int (n mod 256)) 255"
  unfolding QColor_QRgb_def qRed_def qGreen_def qBlue_def byte_of_word
  by (simp only: uint_drop uint_small[OF assms]) (simp add: zdiv_int zmod_int)

lemma low_byte: "b < 256 \<Longrightarrow> (m * 256 + b) div 256 = m \<and> (m * 256 + b) mod 256 = (b :: nat)"
  by simp

lemma byte_digits:
  fixes a r g b :: nat
  assumes "r < 256" "g < 256" "b < 256"
  shows "(((a * 256 + r) * 256 + g) * 256 + b) div 2 ^ 16 mod 256 = r" "(((a * 256 + r) * 256 + g) * 256 + b) div 2 ^ 8 mod 256 = g"
    "(((a * 256 + r) * 256 + g) * 256 + b) mod 256 = b"
proof -
  have p: "n div 2 ^ 8 = n div 256" "n div 2 ^ 16 = n div 256 div 256" for n :: nat by (simp_all add: div_mult2_eq[symmetric])
  show "(((a * 256 + r) * 256 + g) * 256 + b) mod 256 = b" "(((a * 256 + r) * 256 + g) * 256 + b) div 2 ^ 8 mod 256 = g"
    "(((a * 256 + r) * 256 + g) * 256 + b) div 2 ^ 16 mod 256 = r"
    unfolding p using assms by (simp_all only: low_byte)
qed

text \<open>
  The palette of the configuration: a value written as \<^verbatim>\<open>0xAARRGGBB\<close>, with digits of
  either case, makes the colour with these red, green and blue parts the palette; the part \<^verbatim>\<open>AA\<close>
  that the configuration file documents has no effect.
\<close>

theorem palette_of_config:
  assumes "GetValue config ''palette'' ''ui'' = ''0x'' @ [a1, a2, r1, r2, g1, g2, b1, b2]"
    and "map hex_digit [a1, a2, r1, r2, g1, g2, b1, b2] = map Some [a1', a2', r1', r2', g1', g2', b1', b2']"
    and "main_look resource config = Inr l"
  shows "palette l = Some (QColor True (int (16 * r1' + r2')) (int (16 * g1' + g2')) (int (16 * b1' + b2')) 255)"
proof -
  let ?a = "16 * a1' + a2'" and ?r = "16 * r1' + r2'" and ?g = "16 * g1' + g2'" and ?b = "16 * b1' + b2'"
  let ?n = "((?a * 256 + ?r) * 256 + ?g) * 256 + ?b"
  have d: "hex_digit a1 = Some a1'" "hex_digit a2 = Some a2'" "hex_digit r1 = Some r1'" "hex_digit r2 = Some r2'"
      "hex_digit g1 = Some g1'" "hex_digit g2 = Some g2'" "hex_digit b1 = Some b1'" "hex_digit b2 = Some b2'"
    using assms(2) by simp_all
  note lt = d[THEN hex_digit_bound]
  have n: "?n < 2 ^ 32" using lt by simp
  have h: "hex_prefix 0 [a1, a2, r1, r2, g1, g2, b1, b2] = ?n" by (simp add: d)
  have "strtoul16 (''0x'' @ [a1, a2, r1, r2, g1, g2, b1, b2]) = of_nat ?n"
    using strtoul16_prefixed[of "[a1, a2, r1, r2, g1, g2, b1, b2]"] d(1) n unfolding h by simp
  then have "palette l = Some (QColor_QRgb (of_nat ?n))"
    using assms(1,3) by (auto simp: main_look_def setPalette_def setFont_def loadSkin_def Let_def split: option.splits)
  moreover have "?r < 256" "?g < 256" "?b < 256" using lt by simp_all
  ultimately show ?thesis by (simp only: QColor_of_nat[OF n] byte_digits)
qed

theorem palette_of_config_witness:
  "\<exists>l. main_look (\<lambda>_. None) (SetValue ''palette'' ''0xFF132d48'' ''ui'' (IniParser_new INI_UNKNOWN)) = Inr l \<and> palette l = Some (QColor True 19 45 72 255)"
proof -
  let ?c = "SetValue ''palette'' ''0xFF132d48'' ''ui'' (IniParser_new INI_UNKNOWN)"
  have g: "GetValue ?c ''palette'' ''ui'' = ''0x'' @ ''FF132d48''" "GetValue ?c ''fontsize'' ''ui'' = []"
    by (simp_all add: ini.get_put get_new)
  obtain l where l: "main_look (\<lambda>_. None) ?c = Inr l" by (simp add: main_look_def Get_int_def g(2) Let_def)
  have "map hex_digit ''FF132d48'' = map Some [15, 15, 1, 3, 2, 13, 4, 8]" by (simp add: hex_digit_def Let_def)
  from palette_of_config[OF g(1) this l] l show ?thesis by simp
qed

subsection \<open>Two runs\<close>

text \<open>The only settings that change while the window is open are those of the two sliders.\<close>

definition slider_setting :: "string \<times> string \<times> string \<Rightarrow> bool" where
  "slider_setting u = (case u of (k, v, s) \<Rightarrow>
     k \<in> {''default_contrast'', ''default_brightness''} \<and> s = ''image'' \<and> (\<exists>i. fits_int i \<and> v = to_string i))"

lemma slider_setting_ok: "list_all slider_setting us \<Longrightarrow> list_all setting_ok us"
  using adjust_settings_ok by (fastforce simp: list_all_iff slider_setting_def adjust_settings_def)

lemma get_untouched:
  "list_all (\<lambda>(k', v, s'). (k', s') \<noteq> (k, s)) us \<Longrightarrow> GetValue (apply_settings us p) k s = GetValue p k s"
  unfolding apply_settings_def by (induction us rule: rev_induct) (auto simp: ini.get_put)

lemma get_unset:
  assumes "list_all slider_setting us" "s \<noteq> ''image'' \<or> k \<notin> {''default_contrast'', ''default_brightness''}"
    "s \<noteq> ''ui'' \<or> k \<notin> {''main_window_state'', ''main_window_rect''}"
  shows "GetValue (apply_settings (us @ exit_settings st g) p) k s = GetValue p k s"
proof (rule get_untouched)
  have "list_all (\<lambda>(k', v, s'). (k', s') \<noteq> (k, s)) us" using assms(1,2) by (auto simp: list_all_iff slider_setting_def)
  then show "list_all (\<lambda>(k', v, s'). (k', s') \<noteq> (k, s)) (us @ exit_settings st g)" using assms(3) by (auto simp: exit_settings_def)
qed

lemma get_slider:
  assumes "list_all slider_setting us" "Get_int p k ''image'' d = Inr v"
  shows "\<exists>v'. Get_int (apply_settings us p) k ''image'' d = Inr v'"
  using assms(1)
proof (induction us rule: rev_induct)
  case Nil
  then show ?case using assms(2) by (simp add: apply_settings_def)
next
  case (snoc u us)
  obtain k' i where u: "u = (k', to_string i, ''image'')" "fits_int i" using snoc.prems by (auto simp: slider_setting_def)
  then have step: "GetValue (apply_settings (us @ [u]) p) k ''image'' =
      (if k' = k then to_string i else GetValue (apply_settings us p) k ''image'')"
    by (simp add: apply_settings_def ini.get_put)
  show ?case
  proof (cases "k' = k")
    case True
    with step Get_int_to_string[OF _ u(2)] show ?thesis by auto
  next
    case False
    then show ?thesis using snoc step by (simp add: Get_int_def Let_def)
  qed
qed

lemma Get_int_cong: "GetValue p k s = GetValue q k s \<Longrightarrow> Get_int p k s d = Get_int q k s d"
  by (simp add: Get_int_def)

lemma Window_new_again:
  assumes "Window_new conv hue garbage wfs p = Inr w" "list_all slider_setting us"
    and "GetValue q = GetValue (apply_settings (us @ exit_settings st g) p)"
  shows "\<exists>w'. Window_new conv hue' garbage' wfs' q = Inr w'"
proof -
  have same: "Get_int q k ''image'' d = Get_int p k ''image'' d" if "k \<notin> {''default_contrast'', ''default_brightness''}" for k d
    using that by (intro Get_int_cong) (simp add: assms(3) get_unset[OF assms(2)])
  have "Get_int q k ''image'' d = Get_int (apply_settings us p) k ''image'' d" for k d
    by (intro Get_int_cong, unfold assms(3)) (simp add: apply_settings_def exit_settings_def ini.get_put)
  then have sl: "\<exists>v'. Get_int q k ''image'' d = Inr v'" if "Get_int p k ''image'' d = Inr v" for k d v
    using get_slider[OF assms(2) that] by simp
  obtain adj v b where "ImageAdj_new p = Inr adj" "Get_int p ''default_contrast'' ''image'' 150 = Inr v"
      "Get_int p ''default_brightness'' ''image'' 150 = Inr b"
    using assms(1) by (auto simp: Window_new_def Window_initParams_def)
  then obtain v' b' where "ImageAdj_new q = Inr adj" "Get_int q ''default_contrast'' ''image'' 150 = Inr v'"
      "Get_int q ''default_brightness'' ''image'' 150 = Inr b'"
    using sl same by (auto simp: ImageAdj_new_def) metis
  then show ?thesis
    by (simp add: Window_new_def Window_initParams_def setContrast_def setBrightness_def lightContrastImage_def CanvasBase_new_def Let_def)
qed

lemma main_look_again:
  assumes "list_all slider_setting us" "GetValue q = GetValue (apply_settings (us @ exit_settings st g) p)"
  shows "main_look resource q = main_look resource p" "toolBar_location q = toolBar_location p"
  using get_unset[OF assms(1), of "''ui''"]
  by (simp_all add: main_look_def toolBar_location_def Get_int_def assms(2))

text \<open>
  C5. A run prepares the next one: whatever the configuration was, if a run starts at all and its
  configuration can be written, it saves on exit, the next run starts too, with the same look and the
  same log file, and it shows the window in the state in which the first run left it and, for a
  normal window whose width and height have a common bit, in the same place.
\<close>

theorem next_run_starts:
  assumes "is_sep sp" and "\<forall>c \<in> set exe. \<not> is_sep c" and "can_write (conf_file d)"
    and "main_run mem can_write resource conv hue garbage wfs exec (d @ sp # exe) fs = Inr r"
    and "\<And>w st. g_config (last_window (exec w st)) = apply_settings us (g_config w)" and "list_all slider_setting us"
    and "\<And>w st. last_state (exec w st) = st' \<and> last_geometry (exec w st) = (x, y, wd, h)" and "list_all fits_int [st', x, y, wd, h]"
  shows "run_saved r \<and> (\<exists>r2. main_run mem' can_write resource conv hue' garbage' wfs' exec' (d @ sp # exe) (run_files r) = Inr r2 \<and>
     run_started r2 = started_with st' (x, y, wd, h) \<and> run_look r2 = run_look r \<and> run_log r2 = run_log r)"
proof -
  obtain fs1 p lg where lc: "load_config mem can_write d fs = (fs1, p, lg)" by (metis prod_cases3)
  have len: "length d < 256" using assms(4) load_config_of_dir[OF assms(1,2)] by (auto simp: main_run_def split: if_splits)
  then have lo: "load_config_of mem can_write (d @ sp # exe) fs' = Inr (load_config mem can_write d fs')" for mem fs'
    using load_config_of_dir[OF assms(1,2)] by simp
  from assms(4) lc obtain l w t st where r1: "main_look resource p = Inr l" "Window_new conv hue garbage wfs p = Inr w"
      "toolBar_location p = Inr t" "window_init p = Inr st" "run_look r = l" "run_log r = lg"
      "(run_saved r, run_files r) = main_exit can_write fs1 st' (x, y, wd, h) (apply_settings us (g_config w))"
    by (auto simp: main_run_def lo assms(5,7) Let_def case_prod_beta)
  have "g_config w = p" using r1(2) by (auto simp: Window_new_def)
  with r1(7) next_start_after_exit[OF lc slider_setting_ok[OF assms(6)] assms(3), of st' "(x, y, wd, h)" mem']
  have sv: "run_saved r" and q: "GetValue (config_of (load_config mem' can_write d (run_files r))) =
      GetValue (apply_settings (us @ exit_settings st' (x, y, wd, h)) p)" by auto
  obtain fs2 q lg2 where lc2: "load_config mem' can_write d (run_files r) = (fs2, q, lg2)" by (metis prod_cases3)
  have gq: "GetValue q = GetValue (apply_settings (us @ exit_settings st' (x, y, wd, h)) p)" using q lc2 by (simp add: config_of_def)
  have "GetValue q ''logfile'' [] = GetValue p ''logfile'' []" unfolding gq by (rule get_unset[OF assms(6)]) simp_all
  then have "lg2 = lg" using lc lc2 by (auto simp: load_config_def Let_def)
  moreover obtain w2 where "Window_new conv hue' garbage' wfs' q = Inr w2" using Window_new_again[OF r1(2) assms(6) gq] by blast
  ultimately have "\<exists>r2. main_run mem' can_write resource conv hue' garbage' wfs' exec' (d @ sp # exe) (run_files r) = Inr r2 \<and>
     run_started r2 = started_with st' (x, y, wd, h) \<and> run_look r2 = run_look r \<and> run_log r2 = run_log r"
    using r1 main_look_again[OF assms(6) gq] window_init_saved[OF gq assms(8)]
    by (simp add: main_run_def lo lc2 Let_def case_prod_beta)
  with sv show ?thesis by blast
qed

definition sample_exec :: "json Window \<Rightarrow> started \<Rightarrow> json finished" where
  "sample_exec w st = \<lparr>exitcode = 0, last_window = w, last_state = 0, last_geometry = (10, 20, 640, 512)\<rparr>"

lemma sample_run: "\<exists>r. main_run mem (\<lambda>_. True) (\<lambda>_. None) id 0 0 Map.empty sample_exec ''app/x.exe'' Map.empty = Inr r"
proof -
  let ?p = "\<lparr>ini_filepath = ''app/conf/XY-Annotation.conf'', ini_root = None, ini_memory = mem\<rparr> :: IniParser"
  have g: "GetValue ?p k s = []" for k s by (simp add: GetValue_def)
  have "load_config_of mem (\<lambda>_. True) ''app/x.exe'' Map.empty = Inr (Map.empty, ?p, ''app/logs/XY-Annotation.log'')"
    using load_config_of_dir[of "CHR ''/''" "''x.exe''" mem "\<lambda>_. True" "''app''" Map.empty] first_load by (simp add: is_sep_def)
  then show ?thesis
    by (simp add: main_run_def main_look_def Window_new_def ImageAdj_new_def Window_initParams_def toolBar_location_def window_init_def
        Get_int_def Get_bool_def g setContrast_def setBrightness_def lightContrastImage_def CanvasBase_new_def Let_def case_prod_beta)
qed

theorem next_run_starts_witness:
  "\<exists>r r2. main_run INI_SECTION (\<lambda>_. True) (\<lambda>_. None) id 0 0 Map.empty sample_exec ''app/x.exe'' Map.empty = Inr r \<and>
     main_run INI_SECTION (\<lambda>_. True) (\<lambda>_. None) id 0 0 Map.empty sample_exec ''app/x.exe'' (run_files r) = Inr r2 \<and>
     setGeometry (run_started r2) = Some (10, 20, 640, 512)"
proof -
  obtain r where r: "main_run INI_SECTION (\<lambda>_. True) (\<lambda>_. None) id 0 0 Map.empty sample_exec (''app'' @ CHR ''/'' # ''x.exe'') Map.empty = Inr r"
    using sample_run by auto
  have "run_saved r \<and> (\<exists>r2. main_run INI_SECTION (\<lambda>_. True) (\<lambda>_. None) id 0 0 Map.empty sample_exec (''app'' @ CHR ''/'' # ''x.exe'') (run_files r) = Inr r2 \<and>
     run_started r2 = started_with 0 (10, 20, 640, 512) \<and> run_look r2 = run_look r \<and> run_log r2 = run_log r)"
    by (rule next_run_starts[where us = "[]", OF _ _ _ r]) (simp_all add: sample_exec_def apply_settings_def is_sep_def fits_int_def)
  with r show ?thesis by (auto simp: started_with_def)
qed

end
