(* ===== verification/Drawing_Gestures.thy ===== *)
theory Drawing_Gestures
  imports Event_Behaviour
begin

text \<open>
  Whole drawings: sequences of mouse moves and clicks on the canvas, as Qt delivers them, and what
  they end in. A click is a press with the left button and the release after it.
\<close>

datatype pointer = Move QPointF | Click QPointF

fun gesture :: "(QPointF list \<Rightarrow> QPointF \<Rightarrow> bool) \<Rightarrow> pointer list \<Rightarrow> canvas \<Rightarrow> canvas outcome" where
  "gesture cp [] c = (c, None)"
| "gesture cp (Move p # gs) c = and_then (hoverMoveEvent cp p c) (gesture cp gs)"
| "gesture cp (Click p # gs) c =
     and_then (and_then (mousePressEvent cp LeftButton p c) (mouseReleaseEvent cp p)) (gesture cp gs)"

fun clicks :: "pointer list \<Rightarrow> QPointF list" where
  "clicks [] = []"
| "clicks (Move p # gs) = clicks gs"
| "clicks (Click p # gs) = p # clicks gs"

text \<open>The modes whose shapes have any number of vertices and are finished by a key.\<close>

definition open_ended :: "draw_mode_e \<Rightarrow> bool" where
  "open_ended mode \<longleftrightarrow> mode \<in> {Polygon, Curve, Polyline}"

text \<open>What the handlers leave alone while a shape is drawn.\<close>

definition same_frame :: "canvas \<Rightarrow> canvas \<Rightarrow> bool" where
  "same_frame c c' \<longleftrightarrow> m_image c' = m_image c \<and> m_penLineWidth c' = m_penLineWidth c \<and> emitted c' = emitted c"

lemma same_frame_trans: "same_frame a b \<Longrightarrow> same_frame b c \<Longrightarrow> same_frame a c"
  by (simp add: same_frame_def)

text \<open>
  The state of a drawing: the finished shapes, and the vertices placed so far of the open shape
  after them; without a vertex there is no open shape yet.
\<close>

definition sketch :: "draw_mode_e \<Rightarrow> Shape list \<Rightarrow> QPointF list \<Rightarrow> canvas \<Rightarrow> bool" where
  "sketch mode base vs c \<longleftrightarrow> drawing mode c \<and> (base = [] \<or> m_isClosed (last base)) \<and>
     (if vs = [] then shapes c = base
      else \<exists>s. shapes c = base @ [s] \<and> m_oriPoints (m_points s) = vs \<and> \<not> m_isClosed s \<and> m_type s = mode)"

lemma shapes_Nil_iff: "shapes c = [] \<longleftrightarrow> m_shapeList c = []"
  by (simp add: shapes_def)

subsection \<open>Single events\<close>

lemma press_add_open:
  assumes "drawing mode c" "open_ended mode" "m_shapeList c \<noteq> []"
  shows "\<exists>c' s'. press_add q c = Inr c' \<and> drawing mode c' \<and> same_frame c c' \<and> shapes c' = butlast (shapes c) @ [s'] \<and>
     m_oriPoints (m_points s') = m_oriPoints (m_points (last (shapes c))) @ [q] \<and>
     m_isClosed s' = m_isClosed (last (shapes c)) \<and> m_type s' = m_type (last (shapes c))"
proof -
  have l: "live c" using assms(1) by (simp add: drawing_def)
  let ?s = "Shape_appendPoint q (last (shapes c))"
  from addPoint_view[OF l assms(3), of q] obtain c1 where
    c1: "CanvasView_addPoint q c = Inr c1" "live c1" "m_shapeList c1 = m_shapeList c" "shapes c1 = butlast (shapes c) @ [?s]"
      "m_image c1 = m_image c" "m_draw c1 = m_draw c" "m_task c1 = m_task c" "m_operat c1 = m_operat c"
      "m_penLineWidth c1 = m_penLineWidth c" "emitted c1 = emitted c" by blast
  have s: "m_isClosed ?s = m_isClosed (last (shapes c))" "m_type ?s = m_type (last (shapes c))"
    by (simp_all add: Shape_appendPoint_def)
  show ?thesis
  proof (cases "mode = Polygon")
    case True
    then show ?thesis using assms(1) c1 s append_vertices[of q "last (shapes c)"]
      by (intro exI[of _ c1] exI[of _ ?s]) (auto simp: drawing_def press_add_def same_frame_def)
  next
    case False
    have ne: "m_shapeList c1 \<noteq> []" using c1(3) assms(3) by simp
    let ?c2 = "set_shape (last (m_shapeList c1)) (Shape_updateEndPt q) c1"
    have pc: "press_current (Shape_updateEndPt q) c1 = Inr (last (m_shapeList c1), ?c2)" "live ?c2"
      using press_current_live[OF c1(2) ne, of "Shape_updateEndPt q"] by auto
    have "shapes ?c2 = butlast (shapes c) @ [Shape_updateEndPt q ?s]"
      using shapes_set_last[OF c1(2) ne, of "Shape_updateEndPt q"] c1(4) by simp
    moreover have "press_add q c = Inr ?c2"
      using False assms(1,2) c1(1) pc(1) by (auto simp: press_add_def drawing_def open_ended_def)
    ultimately show ?thesis using assms(1) c1 pc(2) s append_vertices[of q "last (shapes c)"]
      by (intro exI[of _ ?c2] exI[of _ "Shape_updateEndPt q ?s"]) (auto simp: drawing_def same_frame_def set_shape_def)
  qed
qed

lemma press_sketch:
  assumes "sketch mode base vs c" "open_ended mode" "bindImgEdge c p = Inr q"
  shows "\<exists>c'. mousePressEvent cp LeftButton p c = (c', None) \<and> sketch mode base (vs @ [q]) c' \<and> same_frame c c'"
proof -
  have d: "drawing mode c" and b: "base = [] \<or> m_isClosed (last base)" using assms(1) by (simp_all add: sketch_def)
  obtain i where i: "m_image c = Some i" using d by (auto simp: drawing_def live_def)
  have nm: "mode \<noteq> None_mode" using assms(2) by (auto simp: open_ended_def)
  have "\<exists>c1 s. press_draw q c = press_add q c1 \<and> drawing mode c1 \<and> same_frame c c1 \<and> shapes c1 = base @ [s] \<and>
      m_oriPoints (m_points s) = vs \<and> \<not> m_isClosed s \<and> m_type s = mode"
  proof (cases "vs = []")
    case True
    then have "m_shapeList c = [] \<or> m_isClosed (last (shapes c))" using assms(1) b by (auto simp: sketch_def shapes_def)
    from press_starts[OF d i nm this, of q] True assms(1) i show ?thesis
      by (fastforce simp: sketch_def same_frame_def dest: fresh_shape_open)
  next
    case False
    then obtain s where "shapes c = base @ [s]" "m_oriPoints (m_points s) = vs" "\<not> m_isClosed s" "m_type s = mode"
      using assms(1) by (auto simp: sketch_def)
    then show ?thesis using press_continues[OF d, of q] d by (force simp: shapes_Nil_iff[symmetric] same_frame_def)
  qed
  then obtain c1 s where c1: "press_draw q c = press_add q c1" "drawing mode c1" "same_frame c c1" "shapes c1 = base @ [s]"
      "m_oriPoints (m_points s) = vs" "\<not> m_isClosed s" "m_type s = mode" by blast
  have "m_shapeList c1 \<noteq> []" using c1(4) by (auto simp: shapes_def)
  from press_add_open[OF c1(2) assms(2) this, of q] c1(4-7) obtain c' where
    "press_add q c1 = Inr c'" "sketch mode base (vs @ [q]) c'" "same_frame c1 c'"
    using b by (fastforce simp: sketch_def)
  with c1(1,3) press_drawing[OF d assms(3)] same_frame_trans show ?thesis by auto
qed

lemma release_sketch:
  assumes "sketch mode base vs c"
  shows "mouseReleaseEvent cp p c = (c, None)"
proof -
  have l: "live c" using assms by (simp add: sketch_def drawing_def)
  then obtain i q where "m_image c = Some i" "bindImgEdge c p = Inr q" using live_img bindImgEdge_live by blast
  with assms show ?thesis by (simp add: mouseReleaseEvent_def sketch_def drawing_def)
qed

lemma hover_sketch:
  assumes "sketch mode base vs c"
  shows "\<exists>c'. hoverMoveEvent cp p c = (c', None) \<and> sketch mode base vs c' \<and> same_frame c c'"
proof -
  have l: "live c" using assms by (simp add: sketch_def drawing_def)
  obtain q where q: "bindImgEdge c p = Inr q" using bindImgEdge_live[OF l] by blast
  let ?c = "c\<lparr>m_crossPos := q\<rparr>" and ?r = "last (m_shapeList c)"
  have l': "live ?c" using l by (simp add: live_def)
  have sh: "shapes ?c = shapes c" by (simp add: shapes_def get_shape_def[abs_def])
  have sk: "sketch mode base vs ?c"
    using assms l' sh by (simp add: sketch_def drawing_def)
  have ev: "hoverMoveEvent cp p c = catch_std (hover_draw q ?c)"
    using assms q by (simp add: hoverMoveEvent_def sketch_def drawing_def Let_def)
  show ?thesis
  proof (cases "m_shapeList c = [] \<or> m_isClosed (last (shapes c))")
    case True
    then have "hover_draw q ?c = (?c, None)"
      using live_current[OF l'] live_heap[OF l', of ?r] by (auto simp: hover_draw_def deref_def shapes_def last_map get_shape_def)
    with ev sk show ?thesis by (auto simp: same_frame_def)
  next
    case False
    have h: "?r < length (heap ?c)" using False live_heap[OF l', of ?r] by simp
    have g: "get_shape ?c ?r = last (shapes c)" using False by (simp add: shapes_def last_map get_shape_def)
    have cur: "m_currentIndex c = int (length (m_shapeList c)) - 1" using l by (simp add: live_def doc_inv_def)
    let ?c1 = "set_shape ?r (Shape_updateEndPt q) ?c"
    have "hover_draw q ?c = (?c1, None)"
      using False live_current[OF l'] h g cur by (simp add: hover_draw_def deref_def)
    moreover have "live ?c1" using live_set_shape[OF l' h] by simp
    moreover have "shapes ?c1 = butlast (shapes ?c) @ [Shape_updateEndPt q (last (shapes ?c))]"
      using shapes_set_last[OF l', of "Shape_updateEndPt q"] False by simp
    moreover have "vs \<noteq> []" using sk False by (auto simp: sketch_def shapes_def get_shape_def[abs_def])
    ultimately show ?thesis using ev sk
      by (intro exI[of _ ?c1]) (auto simp: sketch_def drawing_def same_frame_def set_shape_def)
  qed
qed

subsection \<open>Whole drawings\<close>

lemma map_result_cong_fun: "(\<And>x. f x = g x) \<Longrightarrow> map_result f xs = map_result g xs"
  by (induction xs) simp_all

lemma gesture_sketch:
  assumes "sketch mode base vs c" "open_ended mode" "map_result (bindImgEdge c) (clicks gs) = Inr us"
  shows "\<exists>c'. gesture cp gs c = (c', None) \<and> sketch mode base (vs @ us) c' \<and> same_frame c c'"
  using assms
proof (induction cp gs c arbitrary: vs us rule: gesture.induct)
  case (1 cp c)
  then show ?case by (simp add: same_frame_def)
next
  case (2 cp p gs c)
  from hover_sketch[OF 2(2), of cp p] obtain c1 where
    c1: "hoverMoveEvent cp p c = (c1, None)" "sketch mode base vs c1" "same_frame c c1" by blast
  have "map_result (bindImgEdge c1) (clicks gs) = Inr us"
    using 2(4) map_result_cong_fun[of "bindImgEdge c1" "bindImgEdge c"] bindImgEdge_cong[of c1 c] c1(3) by (simp add: same_frame_def)
  from 2(1)[OF c1(2) 2(3) this] c1 same_frame_trans show ?case by auto
next
  case (3 cp p gs c)
  then obtain q us' where q: "bindImgEdge c p = Inr q" "map_result (bindImgEdge c) (clicks gs) = Inr us'" "us = q # us'" by auto
  from press_sketch[OF 3(2,3) q(1), of cp] obtain c1 where
    c1: "mousePressEvent cp LeftButton p c = (c1, None)" "sketch mode base (vs @ [q]) c1" "same_frame c c1" by blast
  have "map_result (bindImgEdge c1) (clicks gs) = Inr us'"
    using q(2) map_result_cong_fun[of "bindImgEdge c1" "bindImgEdge c"] bindImgEdge_cong[of c1 c] c1(3) by (simp add: same_frame_def)
  from 3(1)[OF c1(2) 3(3) this] c1 release_sketch[OF c1(2)] q(3) same_frame_trans show ?case by auto
qed

text \<open>
  C6. Every outline can be drawn. From a state without an open shape, in the modes polygon, curve
  and polyline, every sequence of mouse moves and at least three clicks, followed by the return or
  enter key, ends without an error in one new closed shape whose vertices are the clicked positions,
  in order and pulled into the image, and the label of that shape is asked for, once. The shapes that
  were there stay as they are.
\<close>

theorem drawing_finishes:
  assumes "drawing mode c" and "open_ended mode" and "m_shapeList c = [] \<or> m_isClosed (last (shapes c))"
    and "map_result (bindImgEdge c) (clicks gs) = Inr vs" and "3 \<le> length vs" and "k \<in> {Key_Return, Key_Enter}"
  shows "\<exists>c1 c2 s. gesture cp gs c = (c1, None) \<and> keyPressEvent k c1 = (c2, None) \<and> shapes c2 = shapes c @ [s] \<and>
     m_oriPoints (m_points s) = vs \<and> m_isClosed s \<and> m_type s = mode \<and> emitted c2 = emitted c @ [last (m_shapeList c2)]"
proof -
  have "sketch mode (shapes c) [] c" using assms(1,3) by (auto simp: sketch_def shapes_Nil_iff)
  from gesture_sketch[OF this assms(2,4), of cp] assms(5) obtain c1 s where
    c1: "gesture cp gs c = (c1, None)" "same_frame c c1" "drawing mode c1" "shapes c1 = shapes c @ [s]" "m_oriPoints (m_points s) = vs"
      "m_type s = mode" by (auto simp: sketch_def split: if_splits)
  have ne: "m_shapeList c1 \<noteq> []" using c1(4) by (auto simp: shapes_def)
  have "2 < vertex_count (last (shapes c1))" using c1(4,5) assms(5) by simp
  with return_key[OF c1(3) ne, of k] c1 assms(6) show ?thesis by (auto simp: same_frame_def)
qed

theorem drawing_finishes_witness:
  "\<exists>c1 c2 s. gesture (\<lambda>ps p. False) [Click 0, Move (QPointF 5 0), Click (QPointF 10 0), Click (QPointF 0 10)] sample_canvas = (c1, None) \<and>
     keyPressEvent Key_Return c1 = (c2, None) \<and> shapes c2 = [s] \<and> m_isClosed s \<and> length (m_oriPoints (m_points s)) = 3"
proof -
  let ?gs = "[Click 0, Move (QPointF 5 0), Click (QPointF 10 0), Click (QPointF 0 10)]"
  have d: "drawing Polygon sample_canvas" using sample_live by (simp add: drawing_def)
  obtain q1 q2 q3 where "bindImgEdge (sample_canvas :: canvas) 0 = Inr q1"
      "bindImgEdge (sample_canvas :: canvas) (QPointF 10 0) = Inr q2" "bindImgEdge (sample_canvas :: canvas) (QPointF 0 10) = Inr q3"
    using bindImgEdge_live[OF sample_live] by blast
  then have "map_result (bindImgEdge (sample_canvas :: canvas)) (clicks ?gs) = Inr [q1, q2, q3]" by simp
  from drawing_finishes[OF d _ _ this, of Key_Return "\<lambda>ps p. False"] show ?thesis by (auto simp: shapes_def open_ended_def)
qed

end
