(* ===== verification/Json_Types.thy ===== *)
theory Json_Types
  imports Json_Codec
begin

text \<open>
  Which JSON values are annotation files: a typing of the values that
  \<^verbatim>\<open>src/controllers/jsonManager.cpp\<close> reads. The reader succeeds exactly on the typed
  values, and what the writer produces is typed.
\<close>

subsection \<open>Typing\<close>

text \<open>An empty value (null, or an empty array or object) stands for the default of every field.\<close>

fun text_typed :: "json \<Rightarrow> bool" where
  "text_typed (Str s) = True"
| "text_typed v = json_empty v"

fun int_typed :: "json \<Rightarrow> bool" where
  "int_typed (Integer i) = True"
| "int_typed (Boolean b) = True"
| "int_typed (Float r) = fits_int (trunc r)"
| "int_typed v = json_empty v"

fun number_typed :: "json \<Rightarrow> bool" where
  "number_typed (Integer i) = True"
| "number_typed (Float r) = True"
| "number_typed _ = False"

fun point_typed :: "json \<Rightarrow> bool" where
  "point_typed (Array (x # y # rest)) = (number_typed x \<and> number_typed y)"
| "point_typed _ = False"

definition has :: "(string \<times> json) list \<Rightarrow> string \<Rightarrow> (json \<Rightarrow> bool) \<Rightarrow> bool" where
  "has kvs k typed = (case map_of kvs k of None \<Rightarrow> False | Some v \<Rightarrow> typed v)"

fun shape_typed :: "json \<Rightarrow> bool" where
  "shape_typed (Object kvs) =
     (has kvs ''label'' text_typed \<and> has kvs ''description'' text_typed \<and> has kvs ''shape_type'' text_typed \<and>
      has kvs ''flags'' text_typed \<and> has kvs ''group_id'' int_typed \<and> has kvs ''mask'' int_typed \<and>
      has kvs ''points'' (\<lambda>v. list_all point_typed (json_range v)))"
| "shape_typed _ = False"

text \<open>The flags of the root may be anything, but if they are not empty the version is read in their place.\<close>

fun root_typed :: "json \<Rightarrow> bool" where
  "root_typed (Object kvs) =
     (has kvs ''version'' text_typed \<and>
      has kvs ''flags'' (\<lambda>v. json_empty v \<or> has kvs ''version'' (\<lambda>t. \<not> json_empty t)) \<and>
      has kvs ''shapes'' (\<lambda>v. list_all shape_typed (json_range v)) \<and>
      has kvs ''imagePath'' text_typed \<and> has kvs ''imageData'' text_typed \<and>
      has kvs ''imageHeight'' int_typed \<and> has kvs ''imageWidth'' int_typed)"
| "root_typed _ = False"

subsection \<open>Fields\<close>

definition succeeds :: "'a result \<Rightarrow> bool" where
  "succeeds r \<longleftrightarrow> (\<exists>x. r = Inr x)"

lemma succeeds_simps [simp]: "succeeds (Inr x)" "\<not> succeeds (Inl e)"
  by (simp_all add: succeeds_def)

lemma succeeds_bind: "succeeds (bind_result r f) \<longleftrightarrow> (\<exists>x. r = Inr x \<and> succeeds (f x))"
  by (cases r) (simp_all add: succeeds_def)

lemma succeeds_fold: "(\<exists>x. r = Inr x) \<longleftrightarrow> succeeds r"
  by (simp add: succeeds_def)

lemma get_string_typed: "succeeds (get_string v) \<longleftrightarrow> text_typed v \<and> \<not> json_empty v"
  by (cases v) auto

lemma string_field_typed: "succeeds (string_field (Object kvs) k k) \<longleftrightarrow> has kvs k text_typed"
proof (cases "map_of kvs k")
  case (Some v)
  then show ?thesis by (cases v) (auto simp: string_field_def has_def)
qed (simp add: string_field_def has_def)

lemma int_field_typed: "succeeds (int_field (Object kvs) k) \<longleftrightarrow> has kvs k int_typed"
proof (cases "map_of kvs k")
  case (Some v)
  then show ?thesis by (cases v) (auto simp: int_field_def has_def double_to_int_def)
qed (simp add: int_field_def has_def)

lemma number_field_typed: "succeeds (get_double v) \<longleftrightarrow> number_typed v"
  by (cases v) auto

lemma point_field_typed: "succeeds (from_json_point j) \<longleftrightarrow> point_typed j"
  by (cases j rule: point_typed.cases)
     (simp_all add: from_json_point_def succeeds_bind succeeds_fold number_field_typed)

lemma map_result_succeeds: "succeeds (map_result f xs) \<longleftrightarrow> list_all (\<lambda>x. succeeds (f x)) xs"
  by (induction xs) (auto simp: succeeds_bind succeeds_def)

lemma shape_field_typed: "succeeds (from_json_shape j) \<longleftrightarrow> shape_typed j"
proof (cases j)
  case (Object kvs)
  have "(\<exists>jp. json_key (Object kvs) ''points'' = Inr jp \<and> list_all point_typed (json_range jp)) \<longleftrightarrow>
      has kvs ''points'' (\<lambda>v. list_all point_typed (json_range v))"
    by (auto simp: has_def split: option.splits)
  then show ?thesis
    by (simp add: Object from_json_shape_def succeeds_bind succeeds_fold string_field_typed int_field_typed map_result_succeeds
        point_field_typed del: json_key.simps)
qed (simp_all add: from_json_shape_def string_field_def succeeds_def)

subsection \<open>Files\<close>

lemma set_from_None: "snd (set_from r f s) = None \<longleftrightarrow> succeeds r"
  by (cases r) (simp_all add: set_from_def)

lemma push_shapes_None: "snd (push_shapes js rt) = None \<longleftrightarrow> list_all shape_typed js"
  by (induction js arbitrary: rt) (simp_all add: and_then_None_iff set_from_None shape_field_typed)

lemma flags_field_typed:
  assumes "has kvs ''version'' text_typed"
  shows "succeeds (string_field (Object kvs) ''flags'' ''version'') \<longleftrightarrow>
     has kvs ''flags'' (\<lambda>v. json_empty v \<or> has kvs ''version'' (\<lambda>t. \<not> json_empty t))"
  using assms by (auto simp: string_field_def has_def get_string_typed split: option.splits)

lemma shapes_field_typed:
  "snd (case json_key (Object kvs) ''shapes'' of Inl e \<Rightarrow> (rt, Some e) | Inr js \<Rightarrow> push_shapes (json_range js) rt) = None \<longleftrightarrow>
     has kvs ''shapes'' (\<lambda>v. list_all shape_typed (json_range v))"
  by (auto simp: has_def push_shapes_None split: option.splits)

text \<open>What the writer produces is typed.\<close>

lemma written_shape_typed: "to_json_shape s = Inr j \<Longrightarrow> shape_typed j"
  using fold_points_items[of "points s"] by (auto simp: to_json_shape_def has_def list_all_iff)

lemma map_result_all: "map_result f xs = Inr ys \<Longrightarrow> (\<And>x y. f x = Inr y \<Longrightarrow> P y) \<Longrightarrow> list_all P ys"
  by (induction xs arbitrary: ys) auto

lemma written_root_typed: "to_json_root rt = Inr j \<Longrightarrow> root_typed j"
  using map_result_all[of to_json_shape "root_shapes rt" _ shape_typed] written_shape_typed
  by (auto simp: to_json_root_def has_def)

text \<open>
  C15. The reader of annotation files is exact about types: it fills the whole root without an
  error if and only if the JSON value is an object with every key, texts where texts and numbers
  where numbers are expected (or empty values), points of at least two numbers, and a non-empty
  version unless the flags are empty.
\<close>

theorem reader_accepts_iff_typed: "snd (from_json_root j rt) = None \<longleftrightarrow> root_typed j"
proof (cases j)
  case (Object kvs)
  show ?thesis
    using flags_field_typed[of kvs]
    by (auto simp: Object from_json_root_def and_then_None_iff set_from_None shapes_field_typed string_field_typed int_field_typed
        simp del: json_key.simps)
qed (simp_all add: from_json_root_def string_field_def set_from_def)

end
