(* ===== verification/Fifo_Map.thy ===== *)
theory Fifo_Map
  imports Json_Codec "HOL-Library.AList"
begin

text \<open>
  The container of JSON objects, \<^verbatim>\<open>3rd/nlohmannJson/fifo_map.hpp\<close>, which
  \<^verbatim>\<open>jsonManager.cpp\<close> selects so that keys keep the order in which they were written: an
  ordered \<^verbatim>\<open>std::map\<close> whose comparison looks up the time at which each key was added. It
  is shown to implement a plain association list, the form in which
  \<^verbatim>\<open>Json_Codec\<close> has its objects.

  A \<^verbatim>\<open>std::map\<close> is the list of its entries in order: a search goes to the first entry that is
  not less than the key, as \<^verbatim>\<open>lower_bound\<close> does. Time stamps do not wrap (that takes
  \<^verbatim>\<open>2^64\<close> insertions). The comparison holds a pointer to the time stamps of its own map, which
  only \<^verbatim>\<open>swap\<close> can redirect: for that operation two maps are modelled together with
  the pointers between them. A hint of an insertion does not change its result, so that insertion with a
  hint is insertion.
\<close>

subsection \<open>Ordered maps with a comparison\<close>

fun lower_bound :: "('k \<Rightarrow> 'k \<Rightarrow> bool) \<Rightarrow> 'k \<Rightarrow> ('k \<times> 'v) list \<Rightarrow> nat" where
  "lower_bound lt k [] = 0"
| "lower_bound lt k (e # es) = (if lt (fst e) k then Suc (lower_bound lt k es) else 0)"

definition map_find :: "('k \<Rightarrow> 'k \<Rightarrow> bool) \<Rightarrow> 'k \<Rightarrow> ('k \<times> 'v) list \<Rightarrow> nat option" where
  "map_find lt k es =
     (let i = lower_bound lt k es in if i < length es \<and> \<not> lt k (fst (es ! i)) then Some i else None)"

definition map_insert :: "('k \<Rightarrow> 'k \<Rightarrow> bool) \<Rightarrow> 'k \<Rightarrow> 'v \<Rightarrow> ('k \<times> 'v) list \<Rightarrow> ('k \<times> 'v) list" where
  "map_insert lt k v es =
     (case map_find lt k es of None \<Rightarrow> list_insert (lower_bound lt k es) (k, v) es | Some i \<Rightarrow> es)"

text \<open>\<^verbatim>\<open>m[k] = v\<close>\<close>

definition map_assign :: "('k \<Rightarrow> 'k \<Rightarrow> bool) \<Rightarrow> 'k \<Rightarrow> 'v \<Rightarrow> ('k \<times> 'v) list \<Rightarrow> ('k \<times> 'v) list" where
  "map_assign lt k v es =
     (case map_find lt k es of
        None \<Rightarrow> list_insert (lower_bound lt k es) (k, v) es
      | Some i \<Rightarrow> es[i := (fst (es ! i), v)])"

fun upper_bound :: "('k \<Rightarrow> 'k \<Rightarrow> bool) \<Rightarrow> 'k \<Rightarrow> ('k \<times> 'v) list \<Rightarrow> nat" where
  "upper_bound lt k [] = 0"
| "upper_bound lt k (e # es) = (if lt k (fst e) then 0 else Suc (upper_bound lt k es))"

definition map_erase :: "('k \<Rightarrow> 'k \<Rightarrow> bool) \<Rightarrow> 'k \<Rightarrow> ('k \<times> 'v) list \<Rightarrow> nat \<times> ('k \<times> 'v) list" where
  "map_erase lt k es =
     (case map_find lt k es of None \<Rightarrow> (0, es) | Some i \<Rightarrow> (1, take i es @ drop (Suc i) es))"

subsection \<open>The container\<close>

record ('k, 'v) fifo_map =
  m_keys :: "'k \<rightharpoonup> nat"
  m_timestamp :: nat
  m_map :: "('k \<times> 'v) list"

definition fifo_map_compare :: "('k \<rightharpoonup> nat) \<Rightarrow> 'k \<Rightarrow> 'k \<Rightarrow> bool" where
  "fifo_map_compare keys lhs rhs =
     (case keys lhs of
        None \<Rightarrow> False
      | Some timestamp_lhs \<Rightarrow> (case keys rhs of None \<Rightarrow> True | Some timestamp_rhs \<Rightarrow> timestamp_lhs < timestamp_rhs))"

text \<open>\<^verbatim>\<open>std::unordered_map::insert\<close> keeps the entry of a key that is there; the time advances anyway.\<close>

definition add_key :: "'k \<Rightarrow> ('k, 'v) fifo_map \<Rightarrow> ('k, 'v) fifo_map" where
  "add_key key m =
     m\<lparr>m_keys := (if m_keys m key = None then (m_keys m)(key \<mapsto> m_timestamp m) else m_keys m),
       m_timestamp := Suc (m_timestamp m)\<rparr>"

definition remove_key :: "'k \<Rightarrow> ('k, 'v) fifo_map \<Rightarrow> ('k, 'v) fifo_map" where
  "remove_key key m = m\<lparr>m_keys := (m_keys m)(key := None)\<rparr>"

definition fifo_new :: "('k, 'v) fifo_map" where
  "fifo_new = \<lparr>m_keys = Map.empty, m_timestamp = 1, m_map = []\<rparr>"

definition fifo_find :: "('k, 'v) fifo_map \<Rightarrow> 'k \<Rightarrow> 'v option" where
  "fifo_find m key =
     map_option (\<lambda>i. snd (m_map m ! i)) (map_find (fifo_map_compare (m_keys m)) key (m_map m))"

definition fifo_at :: "('k, 'v) fifo_map \<Rightarrow> 'k \<Rightarrow> 'v result" where
  "fifo_at m key = (case fifo_find m key of None \<Rightarrow> Inl (StdException ''map::at'') | Some v \<Rightarrow> Inr v)"

definition fifo_count :: "('k, 'v) fifo_map \<Rightarrow> 'k \<Rightarrow> nat" where
  "fifo_count m key = (if fifo_find m key = None then 0 else 1)"

definition fifo_empty :: "('k, 'v) fifo_map \<Rightarrow> bool" where
  "fifo_empty m \<longleftrightarrow> m_map m = []"

definition fifo_size :: "('k, 'v) fifo_map \<Rightarrow> nat" where
  "fifo_size m = length (m_map m)"

text \<open>\<^verbatim>\<open>operator[]\<close> followed by an assignment\<close>

definition fifo_set :: "'k \<Rightarrow> 'v \<Rightarrow> ('k, 'v) fifo_map \<Rightarrow> ('k, 'v) fifo_map" where
  "fifo_set key v m =
     (let m1 = add_key key m in m1\<lparr>m_map := map_assign (fifo_map_compare (m_keys m1)) key v (m_map m1)\<rparr>)"

definition fifo_insert :: "'k \<times> 'v \<Rightarrow> ('k, 'v) fifo_map \<Rightarrow> ('k, 'v) fifo_map" where
  "fifo_insert value m =
     (let m1 = add_key (fst value) m
      in m1\<lparr>m_map := map_insert (fifo_map_compare (m_keys m1)) (fst value) (snd value) (m_map m1)\<rparr>)"

text \<open>A range: the keys of all its elements are added before the first of them is inserted.\<close>

definition fifo_insert_range :: "('k \<times> 'v) list \<Rightarrow> ('k, 'v) fifo_map \<Rightarrow> ('k, 'v) fifo_map" where
  "fifo_insert_range es m =
     (let m1 = fold (\<lambda>e. add_key (fst e)) es m
      in m1\<lparr>m_map := fold (\<lambda>e. map_insert (fifo_map_compare (m_keys m1)) (fst e) (snd e)) es (m_map m1)\<rparr>)"

definition fifo_of_range :: "('k \<times> 'v) list \<Rightarrow> ('k, 'v) fifo_map" where
  "fifo_of_range es = fold fifo_insert es fifo_new"

definition fifo_erase :: "'k \<Rightarrow> ('k, 'v) fifo_map \<Rightarrow> nat \<times> ('k, 'v) fifo_map" where
  "fifo_erase key m =
     (case map_erase (fifo_map_compare (m_keys m)) key (m_map m) of
        (res, es) \<Rightarrow> (res, if res > 0 then remove_key key (m\<lparr>m_map := es\<rparr>) else m\<lparr>m_map := es\<rparr>))"

definition fifo_erase_at :: "nat \<Rightarrow> ('k, 'v) fifo_map \<Rightarrow> ('k, 'v) fifo_map" where
  "fifo_erase_at pos m =
     (let m1 = remove_key (fst (m_map m ! pos)) m
      in m1\<lparr>m_map := take pos (m_map m1) @ drop (Suc pos) (m_map m1)\<rparr>)"

definition fifo_erase_range :: "nat \<Rightarrow> nat \<Rightarrow> ('k, 'v) fifo_map \<Rightarrow> ('k, 'v) fifo_map" where
  "fifo_erase_range i j m =
     (let m1 = fold (\<lambda>e. remove_key (fst e)) (take (j - i) (drop i (m_map m))) m
      in m1\<lparr>m_map := take i (m_map m1) @ drop j (m_map m1)\<rparr>)"

definition fifo_equal_range :: "('k, 'v) fifo_map \<Rightarrow> 'k \<Rightarrow> nat \<times> nat" where
  "fifo_equal_range m key =
     (lower_bound (fifo_map_compare (m_keys m)) key (m_map m), upper_bound (fifo_map_compare (m_keys m)) key (m_map m))"

text \<open>The time is not reset.\<close>

definition fifo_clear :: "('k, 'v) fifo_map \<Rightarrow> ('k, 'v) fifo_map" where
  "fifo_clear m = m\<lparr>m_map := [], m_keys := Map.empty\<rparr>"

text \<open>The copy constructor inserts the entries of the other map in their order, with its time stamps.\<close>

definition fifo_copy :: "('k, 'v) fifo_map \<Rightarrow> ('k, 'v) fifo_map" where
  "fifo_copy f =
     \<lparr>m_keys = m_keys f, m_timestamp = m_timestamp f,
      m_map = fold (\<lambda>e. map_insert (fifo_map_compare (m_keys f)) (fst e) (snd e)) (m_map f) []\<rparr>"

subsection \<open>Invariant\<close>

definition fifo_wf :: "('k, 'v) fifo_map \<Rightarrow> bool" where
  "fifo_wf m \<longleftrightarrow>
     dom (m_keys m) = fst ` set (m_map m) \<and> (\<forall>t \<in> ran (m_keys m). t < m_timestamp m) \<and>
     sorted_wrt (fifo_map_compare (m_keys m)) (map fst (m_map m))"

lemma compare_irrefl [simp]: "\<not> fifo_map_compare ks k k"
  by (simp add: fifo_map_compare_def split: option.splits)

lemma compare_asym: "fifo_map_compare ks a b \<Longrightarrow> \<not> fifo_map_compare ks b a"
  by (auto simp: fifo_map_compare_def split: option.splits)

lemma fifo_wf_distinct: "fifo_wf m \<Longrightarrow> distinct (map fst (m_map m))"
proof -
  have "sorted_wrt (fifo_map_compare ks) xs \<Longrightarrow> distinct xs" for ks and xs :: "'a list" by (induction xs) auto
  then show "fifo_wf m \<Longrightarrow> ?thesis" by (auto simp: fifo_wf_def)
qed

text \<open>A search in a sorted list: to the entry of the key, or to the end if every entry is less.\<close>

lemma lower_bound_present:
  assumes "sorted_wrt lt (map fst (xs @ (k, v) # ys))" "\<And>a. \<not> lt a a" "\<And>a b. lt a b \<Longrightarrow> \<not> lt b a"
  shows "lower_bound lt k (xs @ (k, v) # ys) = length xs"
  using assms by (induction xs) auto

lemma lower_bound_absent: "(\<And>e. e \<in> set es \<Longrightarrow> lt (fst e) k) \<Longrightarrow> lower_bound lt k es = length es"
  by (induction es) auto

lemma map_find_present:
  assumes "sorted_wrt (fifo_map_compare ks) (map fst (xs @ (k, v) # ys))"
  shows "map_find (fifo_map_compare ks) k (xs @ (k, v) # ys) = Some (length xs)"
  using lower_bound_present[OF assms] compare_asym by (fastforce simp: map_find_def Let_def)

lemma map_find_absent: "(\<And>e. e \<in> set es \<Longrightarrow> lt (fst e) k) \<Longrightarrow> map_find lt k es = None"
  by (simp add: map_find_def Let_def lower_bound_absent)

lemma fifo_absent_less:
  assumes "fifo_wf m" "k \<notin> fst ` set (m_map m)" "e \<in> set (m_map m)"
  shows "fifo_map_compare (m_keys (add_key k m)) (fst e) k"
proof -
  have k: "m_keys m k = None" "fst e \<noteq> k" using assms by (auto simp: fifo_wf_def domIff)
  have "fst e \<in> dom (m_keys m)" using assms(1,3) by (auto simp: fifo_wf_def)
  then obtain t where "m_keys m (fst e) = Some t" by blast
  with assms(1) k show ?thesis by (auto simp: fifo_wf_def ran_def fifo_map_compare_def add_key_def)
qed

lemma fifo_split:
  assumes "fifo_wf m" "k \<in> fst ` set (m_map m)"
  obtains xs v ys where "m_map m = xs @ (k, v) # ys" "k \<notin> fst ` set xs" "k \<notin> fst ` set ys"
proof -
  obtain v where "(k, v) \<in> set (m_map m)" using assms(2) by force
  then obtain xs ys where m: "m_map m = xs @ (k, v) # ys" by (meson split_list)
  with fifo_wf_distinct[OF assms(1)] that show ?thesis by auto
qed

subsection \<open>Refinement of association lists\<close>

text \<open>The reference: insertion keeps the entry of a key that is there.\<close>

definition insert_new :: "'k \<times> 'v \<Rightarrow> ('k \<times> 'v) list \<Rightarrow> ('k \<times> 'v) list" where
  "insert_new e es = (if fst e \<in> fst ` set es then es else es @ [e])"

lemma fifo_find_refines:
  assumes "fifo_wf m"
  shows "fifo_find m k = map_of (m_map m) k"
proof (cases "k \<in> fst ` set (m_map m)")
  case True
  then obtain xs v ys where m: "m_map m = xs @ (k, v) # ys" "k \<notin> fst ` set xs" using fifo_split[OF assms] by metis
  then have "map_of xs k = None" by (simp add: map_of_eq_None_iff)
  with assms m map_find_present[of "m_keys m" xs k v ys] show ?thesis
    by (simp add: fifo_find_def fifo_wf_def map_add_def)
next
  case False
  then have "m_keys m k = None" "\<And>e. e \<in> set (m_map m) \<Longrightarrow> m_keys m (fst e) \<noteq> None"
    using assms by (auto simp: fifo_wf_def domIff)
  then have "\<And>e. e \<in> set (m_map m) \<Longrightarrow> fifo_map_compare (m_keys m) (fst e) k" by (auto simp: fifo_map_compare_def split: option.splits)
  moreover have "map_of (m_map m) k = None" using False by (simp add: map_of_eq_None_iff)
  ultimately show ?thesis by (simp add: fifo_find_def map_find_absent)
qed

lemma add_key_present: "m_keys m k \<noteq> None \<Longrightarrow> add_key k m = m\<lparr>m_timestamp := Suc (m_timestamp m)\<rparr>"
  by (auto simp: add_key_def)

lemma sorted_keys_cong:
  assumes "sorted_wrt (fifo_map_compare ks) xs" "\<And>a. a \<in> set xs \<Longrightarrow> ks' a = ks a"
  shows "sorted_wrt (fifo_map_compare ks') xs"
  using assms(1) by (rule sorted_wrt_mono_rel[rotated]) (auto simp: fifo_map_compare_def assms(2) split: option.splits)

lemma update_absent: "k \<notin> fst ` set es \<Longrightarrow> AList.update k v es = es @ [(k, v)]"
  by (induction es) auto

lemma update_present: "k \<notin> fst ` set xs \<Longrightarrow> AList.update k v (xs @ (k, w) # ys) = xs @ (k, v) # ys"
  by (induction xs) auto

lemma delete_absent: "k \<notin> fst ` set es \<Longrightarrow> AList.delete k es = es"
  by (induction es) auto

lemma fifo_append_wf:
  assumes "fifo_wf m" "k \<notin> fst ` set (m_map m)"
  shows "fifo_wf ((add_key k m)\<lparr>m_map := m_map m @ [(k, v)]\<rparr>)"
proof -
  have k: "m_keys m k = None" using assms by (auto simp: fifo_wf_def domIff)
  have "sorted_wrt (fifo_map_compare (m_keys (add_key k m))) (map fst (m_map m))"
    by (rule sorted_keys_cong[of "m_keys m"]) (use assms in \<open>auto simp: fifo_wf_def add_key_def\<close>)
  with fifo_absent_less[OF assms] k assms show ?thesis
    by (auto simp: fifo_wf_def sorted_wrt_append add_key_def ran_def)
qed

lemma insert_absent:
  assumes "fifo_wf m" "k \<notin> fst ` set (m_map m)"
  shows "map_find (fifo_map_compare (m_keys (add_key k m))) k (m_map m) = None"
    "lower_bound (fifo_map_compare (m_keys (add_key k m))) k (m_map m) = length (m_map m)"
  using fifo_absent_less[OF assms] by (simp_all add: map_find_absent lower_bound_absent)

lemma m_map_add_key [simp]: "m_map (add_key k m) = m_map m"
  by (simp add: add_key_def)

lemma fifo_set_refines:
  assumes "fifo_wf m"
  shows "m_map (fifo_set k v m) = AList.update k v (m_map m)" "fifo_wf (fifo_set k v m)"
proof -
  have *: "m_map (fifo_set k v m) = AList.update k v (m_map m) \<and> fifo_wf (fifo_set k v m)"
  proof (cases "k \<in> fst ` set (m_map m)")
    case True
    then obtain xs w ys where m: "m_map m = xs @ (k, w) # ys" "k \<notin> fst ` set xs" using fifo_split[OF assms] by metis
    have k: "m_keys m k \<noteq> None" using assms True by (auto simp: fifo_wf_def domIff)
    have "map_find (fifo_map_compare (m_keys m)) k (m_map m) = Some (length xs)"
      using assms m(1) map_find_present[of "m_keys m" xs k w ys] by (simp add: fifo_wf_def)
    then have s: "m_map (fifo_set k v m) = xs @ (k, v) # ys"
      using m(1) by (simp add: fifo_set_def map_assign_def add_key_present[OF k] Let_def)
    moreover have "AList.update k v (xs @ (k, w) # ys) = xs @ (k, v) # ys" using m(2) by (rule update_present)
    moreover have "m_keys (fifo_set k v m) = m_keys m" "m_timestamp (fifo_set k v m) = Suc (m_timestamp m)"
      by (simp_all add: fifo_set_def add_key_present[OF k] Let_def)
    ultimately show ?thesis using assms m(1) by (auto simp: fifo_wf_def)
  next
    case False
    then have "fifo_set k v m = (add_key k m)\<lparr>m_map := m_map m @ [(k, v)]\<rparr>"
      using insert_absent[OF assms] by (simp add: fifo_set_def map_assign_def list_insert_def Let_def)
    then show ?thesis using update_absent[OF False] fifo_append_wf[OF assms False] by simp
  qed
  then show "m_map (fifo_set k v m) = AList.update k v (m_map m)" "fifo_wf (fifo_set k v m)" by auto
qed

lemma fifo_insert_refines:
  assumes "fifo_wf m"
  shows "m_map (fifo_insert e m) = insert_new e (m_map m)" "fifo_wf (fifo_insert e m)"
proof -
  have *: "m_map (fifo_insert e m) = insert_new e (m_map m) \<and> fifo_wf (fifo_insert e m)"
  proof (cases "fst e \<in> fst ` set (m_map m)")
    case True
    then obtain xs w ys where m: "m_map m = xs @ (fst e, w) # ys" using fifo_split[OF assms] by metis
    have k: "m_keys m (fst e) \<noteq> None" using assms True by (auto simp: fifo_wf_def domIff)
    have "map_find (fifo_map_compare (m_keys m)) (fst e) (m_map m) = Some (length xs)"
      using assms m map_find_present[of "m_keys m" xs "fst e" w ys] by (simp add: fifo_wf_def)
    then have "fifo_insert e m = m\<lparr>m_timestamp := Suc (m_timestamp m)\<rparr>"
      by (simp add: fifo_insert_def map_insert_def add_key_present[OF k] Let_def)
    then show ?thesis using assms True by (auto simp: fifo_wf_def insert_new_def)
  next
    case False
    then have "fifo_insert e m = (add_key (fst e) m)\<lparr>m_map := m_map m @ [e]\<rparr>"
      using insert_absent[OF assms] by (simp add: fifo_insert_def map_insert_def list_insert_def Let_def)
    then show ?thesis using False fifo_append_wf[OF assms False, of "snd e"] by (simp add: insert_new_def)
  qed
  then show "m_map (fifo_insert e m) = insert_new e (m_map m)" "fifo_wf (fifo_insert e m)" by auto
qed

lemma fifo_remove_wf:
  assumes "fifo_wf m" "m_map m = xs @ (k, v) # ys"
  shows "fifo_wf (remove_key k (m\<lparr>m_map := xs @ ys\<rparr>))"
proof -
  have nk: "k \<notin> fst ` set (xs @ ys)" using fifo_wf_distinct[OF assms(1)] assms(2) by auto
  have "sorted_wrt (fifo_map_compare (m_keys m)) (map fst (xs @ ys))"
    using assms by (auto simp: fifo_wf_def sorted_wrt_append)
  then have "sorted_wrt (fifo_map_compare ((m_keys m)(k := None))) (map fst (xs @ ys))"
    by (rule sorted_keys_cong) (use nk in auto)
  with nk assms show ?thesis by (auto simp: fifo_wf_def remove_key_def ran_def)
qed

lemma fifo_erase_refines:
  assumes "fifo_wf m"
  shows "m_map (snd (fifo_erase k m)) = AList.delete k (m_map m)" "fifo_wf (snd (fifo_erase k m))"
    "fst (fifo_erase k m) = (if map_of (m_map m) k = None then 0 else 1)"
proof -
  have *: "m_map (snd (fifo_erase k m)) = AList.delete k (m_map m) \<and> fifo_wf (snd (fifo_erase k m)) \<and>
      fst (fifo_erase k m) = (if map_of (m_map m) k = None then 0 else 1)"
  proof (cases "k \<in> fst ` set (m_map m)")
    case True
    then obtain xs v ys where m: "m_map m = xs @ (k, v) # ys" "k \<notin> fst ` set xs" "k \<notin> fst ` set ys"
      using fifo_split[OF assms] by metis
    have "map_find (fifo_map_compare (m_keys m)) k (m_map m) = Some (length xs)"
      using assms m(1) map_find_present[of "m_keys m" xs k v ys] by (simp add: fifo_wf_def)
    then have "fifo_erase k m = (1, remove_key k (m\<lparr>m_map := xs @ ys\<rparr>))"
      using m(1) by (simp add: fifo_erase_def map_erase_def)
    moreover have "AList.delete k (m_map m) = xs @ ys"
      using m(1) delete_absent[OF m(2)] delete_absent[OF m(3)] by (simp add: AList.delete_eq)
    moreover have "map_of (m_map m) k \<noteq> None" using True by (simp add: map_of_eq_None_iff)
    ultimately show ?thesis using fifo_remove_wf[OF assms m(1)] by (simp add: remove_key_def)
  next
    case False
    then have n: "map_of (m_map m) k = None" by (simp add: map_of_eq_None_iff)
    with fifo_find_refines[OF assms, of k] have "map_find (fifo_map_compare (m_keys m)) k (m_map m) = None"
      by (simp add: fifo_find_def)
    then have "fifo_erase k m = (0, m)" by (simp add: fifo_erase_def map_erase_def)
    moreover have "AList.delete k (m_map m) = m_map m" using False by (rule delete_absent)
    ultimately show ?thesis using n assms by simp
  qed
  then show "m_map (snd (fifo_erase k m)) = AList.delete k (m_map m)" "fifo_wf (snd (fifo_erase k m))"
    "fst (fifo_erase k m) = (if map_of (m_map m) k = None then 0 else 1)" by auto
qed

lemma fifo_erase_at_refines:
  assumes "fifo_wf m" "pos < length (m_map m)"
  shows "m_map (fifo_erase_at pos m) = take pos (m_map m) @ drop (Suc pos) (m_map m)" "fifo_wf (fifo_erase_at pos m)"
proof -
  let ?e = "m_map m ! pos"
  have m: "m_map m = take pos (m_map m) @ (fst ?e, snd ?e) # drop (Suc pos) (m_map m)"
    using id_take_nth_drop[OF assms(2)] by simp
  show "m_map (fifo_erase_at pos m) = take pos (m_map m) @ drop (Suc pos) (m_map m)"
    by (simp add: fifo_erase_at_def remove_key_def Let_def)
  show "fifo_wf (fifo_erase_at pos m)"
    using fifo_remove_wf[OF assms(1) m] by (simp add: fifo_wf_def fifo_erase_at_def remove_key_def Let_def)
qed

lemma fifo_clear_refines: "fifo_wf m \<Longrightarrow> fifo_wf (fifo_clear m)" "m_map (fifo_clear m) = []"
  by (simp_all add: fifo_wf_def fifo_clear_def)

lemma insert_all_sorted:
  "sorted_wrt (fifo_map_compare ks) (map fst (xs @ ys)) \<Longrightarrow>
   fold (\<lambda>e. map_insert (fifo_map_compare ks) (fst e) (snd e)) ys xs = xs @ ys"
proof (induction ys arbitrary: xs)
  case (Cons e ys)
  have "\<And>x. x \<in> set xs \<Longrightarrow> fifo_map_compare ks (fst x) (fst e)" using Cons.prems by (auto simp: sorted_wrt_append)
  then have "map_insert (fifo_map_compare ks) (fst e) (snd e) xs = xs @ [e]"
    by (simp add: map_insert_def map_find_absent lower_bound_absent list_insert_def)
  then show ?case using Cons.IH[of "xs @ [e]"] Cons.prems by simp
qed simp

lemma fifo_copy_refines: "fifo_wf m \<Longrightarrow> fifo_copy m = m"
  using insert_all_sorted[of "m_keys m" "[]" "m_map m"] by (simp add: fifo_copy_def fifo_wf_def)

lemma insert_new_prefix: "\<exists>zs. fold insert_new es xs = xs @ zs"
proof (induction es arbitrary: xs)
  case (Cons e es)
  then show ?case using Cons.IH[of xs] Cons.IH[of "xs @ [e]"] by (auto simp: insert_new_def)
qed simp

lemma insert_range_sorted:
  "sorted_wrt (fifo_map_compare ks) (map fst (fold insert_new es xs)) \<Longrightarrow>
   fold (\<lambda>e. map_insert (fifo_map_compare ks) (fst e) (snd e)) es xs = fold insert_new es xs"
proof (induction es arbitrary: xs)
  case (Cons e es)
  obtain zs where "fold insert_new es (insert_new e xs) = insert_new e xs @ zs" using insert_new_prefix by blast
  then have s: "sorted_wrt (fifo_map_compare ks) (map fst (insert_new e xs))"
    using Cons.prems by (simp add: sorted_wrt_append)
  have "map_insert (fifo_map_compare ks) (fst e) (snd e) xs = insert_new e xs"
  proof (cases "fst e \<in> fst ` set xs")
    case True
    then obtain v ys zs where "xs = ys @ (fst e, v) # zs" by (metis imageE prod.collapse split_list)
    with s True map_find_present[of ks ys "fst e" v zs] show ?thesis by (simp add: insert_new_def map_insert_def)
  next
    case False
    with s have "\<And>x. x \<in> set xs \<Longrightarrow> fifo_map_compare ks (fst x) (fst e)"
      by (auto simp: insert_new_def sorted_wrt_append)
    with False show ?thesis
      by (simp add: insert_new_def map_insert_def map_find_absent lower_bound_absent list_insert_def)
  qed
  then show ?case using Cons by simp
qed simp

lemma fifo_inserts_refine:
  "fifo_wf m \<Longrightarrow> m_map (fold fifo_insert es m) = fold insert_new es (m_map m) \<and> fifo_wf (fold fifo_insert es m)"
  by (induction es arbitrary: m) (simp_all add: fifo_insert_refines)

lemma add_key_insert:
  "fold (\<lambda>e. add_key (fst e)) es (m\<lparr>m_map := xs\<rparr>) = (fold fifo_insert es m)\<lparr>m_map := xs\<rparr>"
proof (induction es arbitrary: m)
  case (Cons e es)
  have "add_key (fst e) (m\<lparr>m_map := xs\<rparr>) = (fifo_insert e m)\<lparr>m_map := xs\<rparr>"
    by (simp add: add_key_def fifo_insert_def Let_def)
  with Cons.IH[of "fifo_insert e m"] show ?case by simp
qed simp

lemma fifo_insert_range_refines:
  assumes "fifo_wf m"
  shows "fifo_insert_range es m = fold fifo_insert es m"
proof -
  let ?f = "fold fifo_insert es m"
  have k: "fold (\<lambda>e. add_key (fst e)) es m = ?f\<lparr>m_map := m_map m\<rparr>" using add_key_insert[of es "m_map m" m] by simp
  have f: "m_map ?f = fold insert_new es (m_map m)" "fifo_wf ?f" using fifo_inserts_refine[OF assms] by auto
  have "fold (\<lambda>e. map_insert (fifo_map_compare (m_keys ?f)) (fst e) (snd e)) es (m_map m) = m_map ?f"
    using insert_range_sorted[of "m_keys ?f" es "m_map m"] f by (simp add: fifo_wf_def)
  then show ?thesis by (simp add: fifo_insert_range_def k Let_def)
qed

lemma remove_key_entries: "remove_key k (m\<lparr>m_map := xs\<rparr>) = (remove_key k m)\<lparr>m_map := xs\<rparr>"
  by (simp add: remove_key_def)

lemma remove_key_map: "fold (\<lambda>e. remove_key (fst e)) es (m\<lparr>m_map := xs\<rparr>) = (fold (\<lambda>e. remove_key (fst e)) es m)\<lparr>m_map := xs\<rparr>"
  by (induction es arbitrary: m) (simp_all add: remove_key_entries)

lemma removes_entries [simp]: "m_map (fold (\<lambda>e. remove_key (fst e)) es m) = m_map m"
  by (induction es arbitrary: m) (simp_all add: remove_key_def)

lemma fifo_removes_wf:
  assumes "fifo_wf m" "m_map m = xs @ ys @ zs"
  shows "fifo_wf ((fold (\<lambda>e. remove_key (fst e)) ys m)\<lparr>m_map := xs @ zs\<rparr>)"
  using assms
proof (induction ys arbitrary: m)
  case (Cons y ys)
  have "fifo_wf (remove_key (fst y) (m\<lparr>m_map := xs @ ys @ zs\<rparr>))"
    by (rule fifo_remove_wf[of _ _ _ "snd y"]) (use Cons.prems in simp_all)
  from Cons.IH[OF this] show ?case by (simp add: remove_key_map remove_key_entries)
qed (simp add: fifo_wf_def)

lemma fifo_erase_range_refines:
  assumes "fifo_wf m" "i \<le> j" "j \<le> length (m_map m)"
  shows "m_map (fifo_erase_range i j m) = take i (m_map m) @ drop j (m_map m)" "fifo_wf (fifo_erase_range i j m)"
proof -
  have e: "fifo_erase_range i j m =
      (fold (\<lambda>e. remove_key (fst e)) (take (j - i) (drop i (m_map m))) m)\<lparr>m_map := take i (m_map m) @ drop j (m_map m)\<rparr>"
    by (simp add: fifo_erase_range_def Let_def)
  then show "m_map (fifo_erase_range i j m) = take i (m_map m) @ drop j (m_map m)" by simp
  have "m_map m = take i (m_map m) @ take (j - i) (drop i (m_map m)) @ drop j (m_map m)"
    by (metis append_take_drop_id assms(2) drop_drop le_add_diff_inverse2)
  from fifo_removes_wf[OF assms(1) this] show "fifo_wf (fifo_erase_range i j m)" unfolding e .
qed

lemma upper_bound_present:
  assumes "sorted_wrt (fifo_map_compare ks) (map fst (xs @ (k, v) # ys))"
  shows "upper_bound (fifo_map_compare ks) k (xs @ (k, v) # ys) = Suc (length xs)"
proof -
  have "upper_bound (fifo_map_compare ks) k ys = 0" using assms by (cases ys) (auto simp: sorted_wrt_append)
  with assms show ?thesis by (induction xs) (auto dest: compare_asym)
qed

lemma upper_bound_absent: "(\<And>e. e \<in> set es \<Longrightarrow> fifo_map_compare ks (fst e) k) \<Longrightarrow> upper_bound (fifo_map_compare ks) k es = length es"
  by (induction es) (auto dest: compare_asym)

text \<open>The range of a key is its one entry, or the empty range at the end.\<close>

lemma equal_range_of_key:
  assumes "fifo_wf m"
  shows "case fifo_equal_range m k of (i, j) \<Rightarrow> take (j - i) (drop i (m_map m)) = filter (\<lambda>e. fst e = k) (m_map m)"
proof (cases "k \<in> fst ` set (m_map m)")
  case True
  then obtain xs v ys where m: "m_map m = xs @ (k, v) # ys" "k \<notin> fst ` set xs" "k \<notin> fst ` set ys"
    using fifo_split[OF assms] by metis
  have s: "sorted_wrt (fifo_map_compare (m_keys m)) (map fst (xs @ (k, v) # ys))" using assms m(1) by (simp add: fifo_wf_def)
  have "filter (\<lambda>e. fst e = k) xs = []" "filter (\<lambda>e. fst e = k) ys = []" using m by (auto simp: filter_empty_conv)
  with m(1) lower_bound_present[OF s] upper_bound_present[OF s] compare_asym[of "m_keys m"] show ?thesis
    by (simp add: fifo_equal_range_def)
next
  case False
  then have "m_keys m k = None" "\<And>e. e \<in> set (m_map m) \<Longrightarrow> m_keys m (fst e) \<noteq> None"
    using assms by (auto simp: fifo_wf_def domIff)
  then have "\<And>e. e \<in> set (m_map m) \<Longrightarrow> fifo_map_compare (m_keys m) (fst e) k" by (auto simp: fifo_map_compare_def split: option.splits)
  moreover have "filter (\<lambda>e. fst e = k) (m_map m) = []" using False by (auto simp: filter_empty_conv)
  ultimately show ?thesis by (simp add: fifo_equal_range_def lower_bound_absent upper_bound_absent)
qed

subsection \<open>What a map in insertion order promises\<close>

locale insertion_ordered_map =
  fixes wf :: "'m \<Rightarrow> bool"
    and entries :: "'m \<Rightarrow> ('k \<times> 'v) list"
    and new :: 'm
    and look :: "'m \<Rightarrow> 'k \<Rightarrow> 'v option"
    and put :: "'k \<Rightarrow> 'v \<Rightarrow> 'm \<Rightarrow> 'm"
    and del :: "'k \<Rightarrow> 'm \<Rightarrow> 'm"
  assumes wf_new: "wf new" and entries_new: "entries new = []"
    and wf_put: "wf m \<Longrightarrow> wf (put k v m)" and entries_put: "wf m \<Longrightarrow> entries (put k v m) = AList.update k v (entries m)"
    and wf_del: "wf m \<Longrightarrow> wf (del k m)" and entries_del: "wf m \<Longrightarrow> entries (del k m) = AList.delete k (entries m)"
    and look_entries: "wf m \<Longrightarrow> look m k = map_of (entries m) k"
begin

lemma look_put: "wf m \<Longrightarrow> look (put k v m) = (look m)(k \<mapsto> v)"
  by (simp add: fun_eq_iff look_entries wf_put entries_put update_conv')

lemma put_keeps_order: "wf m \<Longrightarrow> k \<in> fst ` set (entries m) \<Longrightarrow> map fst (entries (put k v m)) = map fst (entries m)"
  by (simp add: entries_put update_keys)

lemma puts_in_order:
  assumes "wf m" "distinct (map fst (entries m @ kvs))"
  shows "entries (fold (\<lambda>(k, v). put k v) kvs m) = entries m @ kvs \<and> wf (fold (\<lambda>(k, v). put k v) kvs m)"
  using assms
proof (induction kvs arbitrary: m)
  case (Cons e kvs)
  obtain k v where e: "e = (k, v)" by (cases e)
  have "k \<notin> fst ` set (entries m)" using Cons.prems(2) e by auto
  then have "entries (put k v m) = entries m @ [(k, v)]"
    using entries_put[OF Cons.prems(1), of k v] update_absent by metis
  then show ?case using Cons.IH[of "put k v m"] Cons.prems wf_put e by simp
qed simp

end

lemma fifo_new_wf: "fifo_wf fifo_new" "m_map fifo_new = []"
  by (simp_all add: fifo_wf_def fifo_new_def)

interpretation fifo: insertion_ordered_map fifo_wf m_map fifo_new fifo_find fifo_set "\<lambda>k m. snd (fifo_erase k m)"
  by unfold_locales (simp_all add: fifo_new_wf fifo_set_refines fifo_erase_refines fifo_find_refines)

text \<open>Objects of the JSON model are the entries of such a map.\<close>

lemma obj_set_update: "obj_set k v kvs = AList.update k v kvs"
  by (induction k v kvs rule: obj_set.induct) auto

lemma fifo_set_obj_set: "fifo_wf m \<Longrightarrow> m_map (fifo_set k v m) = obj_set k v (m_map m)"
  by (simp add: fifo_set_refines obj_set_update)

subsection \<open>Sequences of operations\<close>

datatype ('k, 'v) fifo_op = Assign 'k 'v | Insert 'k 'v | Erase 'k | EraseAt nat | Clear | Copy
  | InsertRange "('k \<times> 'v) list" | EraseRange nat nat

fun run_fifo :: "('k, 'v) fifo_op \<Rightarrow> ('k, 'v) fifo_map \<Rightarrow> ('k, 'v) fifo_map" where
  "run_fifo (Assign k v) m = fifo_set k v m"
| "run_fifo (Insert k v) m = fifo_insert (k, v) m"
| "run_fifo (Erase k) m = snd (fifo_erase k m)"
| "run_fifo (EraseAt i) m = (if i < fifo_size m then fifo_erase_at i m else m)"
| "run_fifo Clear m = fifo_clear m"
| "run_fifo Copy m = fifo_copy m"
| "run_fifo (InsertRange es) m = fifo_insert_range es m"
| "run_fifo (EraseRange i j) m = (if i \<le> j \<and> j \<le> fifo_size m then fifo_erase_range i j m else m)"

fun run_list :: "('k, 'v) fifo_op \<Rightarrow> ('k \<times> 'v) list \<Rightarrow> ('k \<times> 'v) list" where
  "run_list (Assign k v) es = AList.update k v es"
| "run_list (Insert k v) es = insert_new (k, v) es"
| "run_list (Erase k) es = AList.delete k es"
| "run_list (EraseAt i) es = (if i < length es then take i es @ drop (Suc i) es else es)"
| "run_list Clear es = []"
| "run_list Copy es = es"
| "run_list (InsertRange ds) es = fold insert_new ds es"
| "run_list (EraseRange i j) es = (if i \<le> j \<and> j \<le> length es then take i es @ drop j es else es)"

lemma run_fifo_refines:
  assumes "fifo_wf m"
  shows "fifo_wf (run_fifo x m) \<and> m_map (run_fifo x m) = run_list x (m_map m)"
  using assms fifo_erase_at_refines[of m] fifo_erase_range_refines[of m]
  by (cases x) (simp_all add: fifo_insert_range_refines fifo_inserts_refine fifo_set_refines fifo_insert_refines fifo_erase_refines fifo_clear_refines fifo_copy_refines fifo_size_def)

lemma run_fifos_refine:
  "fifo_wf m \<Longrightarrow> fifo_wf (fold run_fifo xs m) \<and> m_map (fold run_fifo xs m) = fold run_list xs (m_map m)"
proof (induction xs arbitrary: m)
  case (Cons x xs)
  then show ?case using run_fifo_refines[OF Cons.prems, of x] by simp
qed simp

lemma fifo_of_range_refines: "m_map (fifo_of_range es) = fold insert_new es []"
  using fifo_inserts_refine[OF fifo_new_wf(1), of es] fifo_new_wf(2) by (metis fifo_of_range_def)

text \<open>
  C16. The container of JSON objects keeps insertion order: after every sequence of assignments,
  insertions of one entry or a range, removals by key, position or range, clearing and copying, iterating over it visits the same
  entries in the same order as the plain association list on which each operation changes an entry in
  place or appends it, and a lookup finds the value of that list.
\<close>

theorem fifo_map_refines_list:
  fixes xs :: "('k, 'v) fifo_op list"
  shows "m_map (fold run_fifo xs fifo_new) = fold run_list xs [] \<and>
     fifo_find (fold run_fifo xs fifo_new) = map_of (fold run_list xs [])"
  using run_fifos_refine[of "fifo_new :: ('k, 'v) fifo_map" xs] fifo_find_refines[of "fold run_fifo xs fifo_new"]
  by (simp add: fifo_new_wf fun_eq_iff)

subsection \<open>Exchanging two maps\<close>

text \<open>
  Two maps with what their comparisons point at. Each map has a table of time stamps, a comparison that
  names a table and holds the next time stamp, and a \<^verbatim>\<open>std::map\<close> that has its own copy of the
  comparison's pointer beside its entries.
\<close>

datatype owner = This | Other

fun the_other :: "owner \<Rightarrow> owner" where
  "the_other This = Other"
| "the_other Other = This"

record ('k, 'v) fifo_pair =
  tables :: "owner \<Rightarrow> 'k \<rightharpoonup> nat"
  compares :: "owner \<Rightarrow> owner \<times> nat"
  maps :: "owner \<Rightarrow> owner \<times> ('k \<times> 'v) list"

definition fifo_pair_of :: "('k, 'v) fifo_map \<Rightarrow> ('k, 'v) fifo_map \<Rightarrow> ('k, 'v) fifo_pair" where
  "fifo_pair_of a b =
     \<lparr>tables = case_owner (m_keys a) (m_keys b),
      compares = case_owner (This, m_timestamp a) (Other, m_timestamp b),
      maps = case_owner (This, m_map a) (Other, m_map b)\<rparr>"

definition fifo_swap :: "('k, 'v) fifo_pair \<Rightarrow> ('k, 'v) fifo_pair" where
  "fifo_swap p =
     (let p1 = p\<lparr>maps := maps p \<circ> the_other\<rparr>;
          p2 = p1\<lparr>compares := compares p1 \<circ> the_other\<rparr>
      in p2\<lparr>tables := tables p2 \<circ> the_other\<rparr>)"

definition fifo_pair_find :: "('k, 'v) fifo_pair \<Rightarrow> owner \<Rightarrow> 'k \<Rightarrow> 'v option" where
  "fifo_pair_find p h key =
     (case maps p h of
        (q, es) \<Rightarrow> map_option (\<lambda>i. snd (es ! i)) (map_find (fifo_map_compare (tables p q)) key es))"

lemma fifo_pair_of_find:
  "fifo_pair_find (fifo_pair_of a b) This = fifo_find a" "fifo_pair_find (fifo_pair_of a b) Other = fifo_find b"
  by (simp_all add: fun_eq_iff fifo_pair_find_def fifo_pair_of_def fifo_find_def)

lemma lower_bound_unknown: "(\<And>e. e \<in> set es \<Longrightarrow> ks (fst e) = None) \<Longrightarrow> lower_bound (fifo_map_compare ks) k es = 0"
  by (cases es) (simp_all add: fifo_map_compare_def)

text \<open>
  Exchanging two maps breaks both: the tables of time stamps change places and so do the pointers to
  them, so that each map afterwards compares its new entries by the time stamps of its old ones. If the
  maps had no key in common, a lookup then gives the value of the first entry for every key that is not
  one of the old ones, and fails for those; iterating over the map still shows the exchanged entries.
\<close>

theorem swap_breaks_lookup:
  assumes "fifo_wf a" "fifo_wf b" "fst ` set (m_map a) \<inter> fst ` set (m_map b) = {}"
  shows "snd (maps (fifo_swap (fifo_pair_of a b)) This) = m_map b \<and>
     fifo_pair_find (fifo_swap (fifo_pair_of a b)) This k =
       (if k \<in> fst ` set (m_map a) \<or> m_map b = [] then None else Some (snd (hd (m_map b))))"
proof -
  have n: "m_keys a (fst e) = None" if "e \<in> set (m_map b)" for e
  proof -
    have "fst e \<notin> dom (m_keys a)" using assms(1,3) that by (auto simp: fifo_wf_def)
    then show ?thesis by (simp add: domIff)
  qed
  have k: "k \<in> fst ` set (m_map a) \<longleftrightarrow> m_keys a k \<noteq> None" using assms(1) by (auto simp: fifo_wf_def domIff)
  have "lower_bound (fifo_map_compare (m_keys a)) k (m_map b) = 0" using n by (rule lower_bound_unknown)
  moreover have "fifo_map_compare (m_keys a) k (fst (m_map b ! 0)) \<longleftrightarrow> k \<in> fst ` set (m_map a)" if "m_map b \<noteq> []"
    using n[of "m_map b ! 0"] k that by (auto simp: fifo_map_compare_def)
  ultimately have "map_find (fifo_map_compare (m_keys a)) k (m_map b) =
      (if k \<in> fst ` set (m_map a) \<or> m_map b = [] then None else Some 0)"
    by (cases "m_map b = []") (simp_all add: map_find_def)
  then show ?thesis by (auto simp: fifo_pair_find_def fifo_swap_def fifo_pair_of_def Let_def hd_conv_nth)
qed

theorem swap_breaks_lookup_witness:
  "fifo_wf (fifo_of_range [(''x'', 1 :: int)]) \<and> fifo_wf (fifo_of_range [(''y'', 2 :: int), (''z'', 3)]) \<and>
   fifo_pair_find (fifo_pair_of (fifo_of_range [(''x'', 1)]) (fifo_of_range [(''y'', 2 :: int), (''z'', 3)])) Other ''z'' = Some 3 \<and>
   fifo_pair_find (fifo_swap (fifo_pair_of (fifo_of_range [(''x'', 1)]) (fifo_of_range [(''y'', 2 :: int), (''z'', 3)]))) This ''z'' = Some 2"
proof -
  let ?a = "fifo_of_range [(''x'', 1 :: int)]" and ?b = "fifo_of_range [(''y'', 2 :: int), (''z'', 3)]"
  have m: "m_map ?a = [(''x'', 1)]" "m_map ?b = [(''y'', 2), (''z'', 3)]"
    by (simp_all add: fifo_of_range_refines insert_new_def)
  have w: "fifo_wf ?a" "fifo_wf ?b" using fifo_inserts_refine[OF fifo_new_wf(1)] by (metis fifo_of_range_def)+
  have "fifo_pair_find (fifo_swap (fifo_pair_of ?a ?b)) This ''z'' = Some 2"
    using swap_breaks_lookup[OF w, of "''z''"] by (simp add: m)
  with w show ?thesis by (simp add: fifo_pair_of_find fifo_find_refines m)
qed

end
