(* ===== verification/Hv_Directories.thy ===== *)
theory Hv_Directories
  imports Hv_Strings
begin

text \<open>
  The rest of the base library's text functions, and its creation and removal of whole directory
  paths (\<^verbatim>\<open>hv_mkdir_p\<close>, \<^verbatim>\<open>hv_rmdir_p\<close> of \<^verbatim>\<open>3rd/Hv/base/hbase.c\<close>). The
  directories that exist are the set of the lists of their names; the system calls make or remove
  one directory at a time and refuse what the C library documents: making a directory that exists
  or whose parent does not, removing one that does not exist or is not empty.
\<close>

subsection \<open>Texts\<close>

definition upper :: "char \<Rightarrow> char" where
  "upper c = (let n = of_char c :: nat in if 97 \<le> n \<and> n \<le> 122 then char_of (n - 32) else c)"

definition strupper :: "string \<Rightarrow> string" where
  "strupper s = map upper s"

definition strcontains :: "string \<Rightarrow> string \<Rightarrow> bool" where
  "strcontains str sub \<longleftrightarrow> find_sub sub str \<noteq> None"

definition hv_suffixname :: "string \<Rightarrow> string" where
  "hv_suffixname file = (case find_last (\<lambda>c. c = CHR ''.'') file of None \<Rightarrow> [] | Some p \<Rightarrow> drop (Suc p) file)"

definition get_executable_file :: "string \<Rightarrow> string \<Rightarrow> nat \<Rightarrow> string result" where
  "get_executable_file filepath buf sz =
     (case find_last is_sep filepath of
        None \<Rightarrow> Inr buf
      | Some pos \<Rightarrow>
          if length (drop (Suc pos) filepath) < sz then Inr (drop (Suc pos) filepath) else Inl (Undefined ''unterminated buffer''))"

fun is_pair :: "char \<Rightarrow> char \<Rightarrow> string \<Rightarrow> bool" where
  "is_pair s e (p # q # pairs) \<longleftrightarrow> s = p \<and> e = q \<or> is_pair s e pairs"
| "is_pair s e _ \<longleftrightarrow> False"

text \<open>The empty text has a NUL at its start, which is in no pair; the length of a text of one character wraps.\<close>

definition trim_pairs :: "string \<Rightarrow> string \<Rightarrow> string" where
  "trim_pairs str pairs =
     (if str \<noteq> [] \<and> is_pair (hd str) (last str) pairs
      then (let n = (of_nat (length str) :: 64 word) - 2 in take (unat n) (drop 1 str))
      else str)"

lemma upper_lower: "upper (lower c) = upper c" "lower (upper c) = lower c"
proof -
  have b: "(of_char c :: nat) < 256" by (rule nat_of_char_less_256)
  have m: "(of_char c - 32) mod 256 = (of_char c - 32 :: nat)" by (rule mod_less) (use b in linarith)
  show "upper (lower c) = upper c" "lower (upper c) = lower c"
    using b by (auto simp: upper_def lower_def Let_def m)
qed

text \<open>
  The two case conversions undo each other up to case, and the part after the last dot is found
  whatever comes before it.
\<close>

theorem case_conversions: "strupper (strlower s) = strupper s \<and> strlower (strupper s) = strlower s"
  by (simp add: strupper_def strlower_def upper_lower)

text \<open>
  Trimming removes one pair of quotes or brackets and nothing else; a text that consists of a single
  quote vanishes, because it is taken for both ends.
\<close>

theorem trim_pairs_removes:
  assumes "is_pair p q pairs" and "length mid + 2 < 2 ^ 64"
  shows "trim_pairs (p # mid @ [q]) pairs = mid \<and> (p = q \<longrightarrow> trim_pairs [p] pairs = [])"
proof -
  have "unat ((of_nat (length mid + 2) :: 64 word) - 2) = length mid"
    using assms(2) by (simp add: unat_of_nat)
  then show ?thesis using assms(1) by (auto simp: trim_pairs_def Let_def add.commute)
qed

theorem trim_pairs_removes_witness:
  "trim_pairs ''[ab]'' ''()[]'' = ''ab'' \<and> trim_pairs [CHR 0x22] [CHR 0x22, CHR 0x22] = []"
  using trim_pairs_removes[of "CHR ''[''" "CHR '']''" "''()[]''" "''ab''"]
    trim_pairs_removes[of "CHR 0x22" "CHR 0x22" "[CHR 0x22, CHR 0x22]" "''''"] by simp

subsection \<open>Directories\<close>

type_synonym dirs = "string list set"

fun path_loop :: "string \<Rightarrow> string \<Rightarrow> string list" where
  "path_loop name [] = (if name = [] then [] else [name])"
| "path_loop name (c # cs) =
     (if is_sep c then (if name = [] then [] else [name]) @ path_loop [] cs else path_loop (name @ [c]) cs)"

text \<open>The names on a path; the empty text is no path.\<close>

definition path_of :: "string \<Rightarrow> string list option" where
  "path_of s = (if s = [] then None else Some (path_loop [] s))"

definition sys_access :: "string \<Rightarrow> dirs \<Rightarrow> bool" where
  "sys_access s D = (case path_of s of None \<Rightarrow> False | Some p \<Rightarrow> p \<in> D)"

definition sys_mkdir :: "string \<Rightarrow> dirs \<Rightarrow> bool \<times> dirs" where
  "sys_mkdir s D =
     (case path_of s of None \<Rightarrow> (False, D)
      | Some p \<Rightarrow> if p \<noteq> [] \<and> p \<notin> D \<and> butlast p \<in> D then (True, insert p D) else (False, D))"

definition sys_rmdir :: "string \<Rightarrow> dirs \<Rightarrow> bool \<times> dirs" where
  "sys_rmdir s D =
     (case path_of s of None \<Rightarrow> (False, D)
      | Some p \<Rightarrow> if p \<noteq> [] \<and> p \<in> D \<and> p \<notin> butlast ` {q \<in> D. q \<noteq> []} then (True, D - {p}) else (False, D))"

definition EPERM :: int where "EPERM = 1"
definition ENOENT :: int where "ENOENT = 2"
definition EEXIST :: int where "EEXIST = 17"

fun mkdir_loop :: "string \<Rightarrow> string \<Rightarrow> dirs \<Rightarrow> dirs" where
  "mkdir_loop pre [] D = D"
| "mkdir_loop pre (c # rest) D = mkdir_loop (pre @ [c]) rest (if is_sep c then snd (sys_mkdir pre D) else D)"

definition hv_mkdir_p :: "string \<Rightarrow> dirs \<Rightarrow> int \<times> dirs" where
  "hv_mkdir_p dir D =
     (if sys_access dir D then (EEXIST, D)
      else let tmp = safe_strncpy dir 260; (ok, D1) = sys_mkdir tmp (mkdir_loop [] tmp D)
           in (if ok then 0 else EPERM, D1))"

fun rmdir_loop :: "string \<Rightarrow> dirs \<Rightarrow> dirs" where
  "rmdir_loop [] D = D"
| "rmdir_loop (c # rpre) D =
     (if is_sep c then (case sys_rmdir (rev rpre) D of (ok, D1) \<Rightarrow> if ok then rmdir_loop rpre D1 else D1)
      else rmdir_loop rpre D)"

definition hv_rmdir_p :: "string \<Rightarrow> dirs \<Rightarrow> int \<times> dirs" where
  "hv_rmdir_p dir D =
     (if \<not> sys_access dir D then (ENOENT, D)
      else case sys_rmdir dir D of (ok, D1) \<Rightarrow>
        if \<not> ok then (EPERM, D1) else (0, rmdir_loop (rev (safe_strncpy dir 260)) D1))"

subsection \<open>Paths made of names\<close>

definition name_ok :: "string \<Rightarrow> bool" where
  "name_ok n \<longleftrightarrow> n \<noteq> [] \<and> (\<forall>c \<in> set n. \<not> is_sep c)"

definition dir_text :: "string list \<Rightarrow> string" where
  "dir_text ns = concat (map (\<lambda>n. n @ ''/'') ns)"

lemma sep_slash [simp]: "is_sep CHR ''/''"
  by (simp add: is_sep_def)

lemma dir_text_simps [simp]: "dir_text [] = []" "dir_text (ns @ [n]) = dir_text ns @ n @ ''/''"
  "dir_text (n # ns) = n @ CHR ''/'' # dir_text ns"
  by (simp_all add: dir_text_def)

lemma path_loop_name: "\<forall>c \<in> set n. \<not> is_sep c \<Longrightarrow> path_loop pre (n @ rest) = path_loop (pre @ n) rest"
  by (induction n arbitrary: pre) auto

lemma path_loop_dirs: "list_all name_ok ns \<Longrightarrow> path_loop [] (dir_text ns @ rest) = ns @ path_loop [] rest"
  by (induction ns) (auto simp: name_ok_def path_loop_name)

lemma path_of_name: "list_all name_ok ns \<Longrightarrow> name_ok n \<Longrightarrow> path_of (dir_text ns @ n) = Some (ns @ [n])"
  using path_loop_dirs[of ns n] path_loop_name[of n "[]" "[]"] by (auto simp: path_of_def name_ok_def)

lemma path_of_dir: "list_all name_ok ns \<Longrightarrow> ns \<noteq> [] \<Longrightarrow> path_of (dir_text ns) = Some ns"
  using path_loop_dirs[of ns "[]"] by (cases ns) (auto simp: path_of_def)

definition tree :: "dirs \<Rightarrow> bool" where
  "tree D \<longleftrightarrow> [] \<in> D \<and> (\<forall>p \<in> D. p \<noteq> [] \<longrightarrow> butlast p \<in> D)"

definition ancestors :: "string list \<Rightarrow> dirs" where
  "ancestors p = (\<lambda>k. take k p) ` {0..length p}"

lemma ancestors_snoc: "ancestors (ns @ [n]) = insert (ns @ [n]) (ancestors ns)"
proof -
  have "{0..length (ns @ [n])} = insert (Suc (length ns)) {0..length ns}" by (auto simp: atLeastAtMostSuc_conv)
  then show ?thesis by (auto simp: ancestors_def)
qed

lemma ancestors_self: "p \<in> ancestors p"
  unfolding ancestors_def by (rule image_eqI[of _ _ "length p"]) simp_all

lemma sys_mkdir_name:
  assumes "list_all name_ok ns" "name_ok n" "ns \<in> D"
  shows "sys_mkdir (dir_text ns @ n) D = (ns @ [n] \<notin> D, insert (ns @ [n]) D)"
  using assms(3) by (auto simp: sys_mkdir_def path_of_name[OF assms(1,2)])

lemma mkdir_loop_name: "\<forall>c \<in> set n. \<not> is_sep c \<Longrightarrow> mkdir_loop pre (n @ rest) D = mkdir_loop (pre @ n) rest D"
  by (induction n arbitrary: pre) auto

lemma mkdir_loop_dirs:
  "list_all name_ok (ns @ ms) \<Longrightarrow> ancestors ns \<subseteq> D \<Longrightarrow>
   mkdir_loop (dir_text ns) (dir_text ms @ rest) D = mkdir_loop (dir_text (ns @ ms)) rest (D \<union> ancestors (ns @ ms))"
proof (induction ms arbitrary: ns D)
  case Nil
  then show ?case by (simp add: Un_absorb2)
next
  case (Cons m ms)
  let ?D = "insert (ns @ [m]) D"
  have ok: "list_all name_ok ns" "name_ok m" using Cons.prems(1) by simp_all
  have "ns \<in> D" using Cons.prems(2) ancestors_self by blast
  from sys_mkdir_name[OF ok this] ok
  have step: "mkdir_loop (dir_text ns) (dir_text (m # ms) @ rest) D = mkdir_loop (dir_text (ns @ [m])) (dir_text ms @ rest) ?D"
    using mkdir_loop_name[of m "dir_text ns" "CHR ''/'' # dir_text ms @ rest" D] by (simp add: name_ok_def)
  have "ancestors (ns @ [m]) \<subseteq> ?D" using Cons.prems(2) by (auto simp: ancestors_snoc)
  with Cons.IH[of "ns @ [m]" ?D] Cons.prems(1) step
  have "mkdir_loop (dir_text ns) (dir_text (m # ms) @ rest) D =
      mkdir_loop (dir_text (ns @ m # ms)) rest (?D \<union> ancestors (ns @ m # ms))" by simp
  moreover have "ns @ [m] \<in> ancestors (ns @ m # ms)"
    unfolding ancestors_def by (rule image_eqI[of _ _ "Suc (length ns)"]) simp_all
  ultimately show ?case by (simp add: insert_absorb)
qed

text \<open>
  Creating a path makes every missing directory on it and reports success. A path that ends with a
  separator is made as well, but reported as an error: the loop makes the last directory, and making it
  once more fails.
\<close>

theorem mkdir_p_creates:
  assumes "list_all name_ok (ns @ [n])" and "tree D" and "ns @ [n] \<notin> D" and "length (dir_text ns @ n) < 259"
  shows "hv_mkdir_p (dir_text ns @ n) D = (0, D \<union> ancestors (ns @ [n])) \<and>
     hv_mkdir_p (dir_text ns @ n @ ''/'') D = (EPERM, D \<union> ancestors (ns @ [n]))"
proof
  let ?p = "ns @ [n]"
  have ok: "list_all name_ok ns" "name_ok n" "list_all name_ok ?p" using assms(1) by simp_all
  have cut: "safe_strncpy (dir_text ns @ n) 260 = dir_text ns @ n" "safe_strncpy (dir_text ?p) 260 = dir_text ?p"
    using assms(4) by (simp_all add: safe_strncpy_spec)
  have root: "ancestors [] \<subseteq> D" using assms(2) by (simp add: ancestors_def tree_def)
  have "mkdir_loop [] (dir_text ns @ n) D = D \<union> ancestors ns"
    using mkdir_loop_dirs[of "[]" ns D n] mkdir_loop_name[of n "dir_text ns" "[]"] ok root by (simp add: name_ok_def)
  moreover have "ns @ [n] \<notin> ancestors ns" by (auto simp: ancestors_def dest: arg_cong[of _ _ length])
  ultimately show "hv_mkdir_p (dir_text ns @ n) D = (0, D \<union> ancestors ?p)"
    using assms(3) sys_mkdir_name[OF ok(1,2), of "D \<union> ancestors ns"] ancestors_self[of ns]
    by (simp add: hv_mkdir_p_def sys_access_def path_of_name[OF ok(1,2)] cut(1) ancestors_snoc Let_def)
  have "mkdir_loop [] (dir_text ?p) D = D \<union> ancestors ?p"
    using mkdir_loop_dirs[of "[]" ?p D "[]"] ok(3) root by simp
  then have "sys_mkdir (dir_text ?p) (mkdir_loop [] (dir_text ?p) D) = (False, D \<union> ancestors ?p)"
    using path_of_dir[OF ok(3)] ancestors_self[of ?p] by (simp add: sys_mkdir_def)
  moreover have "\<not> sys_access (dir_text ?p) D" using assms(3) path_of_dir[OF ok(3)] by (simp add: sys_access_def)
  ultimately have "hv_mkdir_p (dir_text ?p) D = (EPERM, D \<union> ancestors ?p)"
    using cut(2) by (simp add: hv_mkdir_p_def Let_def)
  then show "hv_mkdir_p (dir_text ns @ n @ ''/'') D = (EPERM, D \<union> ancestors ?p)" by simp
qed

lemma root_tree: "tree {[]}"
  by (simp add: tree_def)

theorem mkdir_p_creates_witness:
  "hv_mkdir_p ''a/bc'' {[]} = (0, {[], [''a''], [''a'', ''bc'']}) \<and> fst (hv_mkdir_p ''a/bc/'' {[]}) = EPERM"
  using mkdir_p_creates[OF _ root_tree, of "[''a'']" "''bc''"]
  by (auto simp: name_ok_def is_sep_def ancestors_def atLeastAtMost_upt upt_conv_Cons)

subsection \<open>Removing a path\<close>

fun prune :: "string list \<Rightarrow> dirs \<Rightarrow> dirs" where
  "prune [] D = D"
| "prune (m # rns) D =
     (let p = rev (m # rns)
      in if p \<in> D \<and> p \<notin> butlast ` {q \<in> D. q \<noteq> []} then prune rns (D - {p}) else D)"

lemma rmdir_loop_name: "\<forall>c \<in> set n. \<not> is_sep c \<Longrightarrow> rmdir_loop (n @ rest) D = rmdir_loop rest D"
  by (induction n) auto

lemma rmdir_loop_prune: "list_all name_ok ns \<Longrightarrow> rmdir_loop (rev (dir_text ns)) D = prune (rev ns) D"
proof (induction ns arbitrary: D rule: rev_induct)
  case (snoc m ns)
  then have ok: "list_all name_ok ns" "name_ok m" by simp_all
  have "rmdir_loop (rev m @ rev (dir_text ns)) D' = prune (rev ns) D'" for D'
    using snoc.IH[OF ok(1)] ok(2) by (simp add: rmdir_loop_name name_ok_def)
  then show ?case using path_of_name[OF ok] by (simp add: sys_rmdir_def Let_def)
qed simp

definition dead :: "string list \<Rightarrow> dirs \<Rightarrow> string list \<Rightarrow> bool" where
  "dead p D q \<longleftrightarrow> q \<noteq> [] \<and> prefix q p \<and> (\<forall>r \<in> D. prefix q r \<longrightarrow> prefix r p)"

lemma tree_prefix: "tree D \<Longrightarrow> r \<in> D \<Longrightarrow> prefix q r \<Longrightarrow> q \<in> D"
proof (induction r rule: rev_induct)
  case (snoc x r)
  then have "r \<in> D" by (force simp: tree_def)
  with snoc show ?case by (auto simp: prefix_snoc)
qed simp

lemma leaf_iff:
  assumes "tree D" "p \<in> D"
  shows "p \<notin> butlast ` {q \<in> D. q \<noteq> []} \<longleftrightarrow> (\<forall>r \<in> D. prefix p r \<longrightarrow> r = p)"
proof
  assume l: "p \<notin> butlast ` {q \<in> D. q \<noteq> []}"
  show "\<forall>r \<in> D. prefix p r \<longrightarrow> r = p"
  proof (intro ballI impI, rule ccontr)
    fix r assume r: "r \<in> D" "prefix p r" "r \<noteq> p"
    then obtain x xs where "r = p @ x # xs" by (metis append_Nil2 list.exhaust prefixE)
    then have "p @ [x] \<in> D" using tree_prefix[OF assms(1) r(1)] by simp
    then have "butlast (p @ [x]) \<in> butlast ` {q \<in> D. q \<noteq> []}" by blast
    with l show False by simp
  qed
next
  assume "\<forall>r \<in> D. prefix p r \<longrightarrow> r = p"
  then show "p \<notin> butlast ` {q \<in> D. q \<noteq> []}"
    by (auto simp: prefixeq_butlast dest!: bspec) (metis butlast.simps(1) append_butlast_last_id not_Cons_self2 self_append_conv)
qed

lemma dead_snoc:
  assumes "q \<noteq> ns @ [m]"
  shows "dead (ns @ [m]) D q \<longleftrightarrow> dead ns (D - {ns @ [m]}) q"
  using assms by (auto simp: dead_def)

lemma prune_dead:
  "tree D \<Longrightarrow> ns \<in> D \<Longrightarrow> prune (rev ns) D = {q \<in> D. \<not> dead ns D q}"
proof (induction ns arbitrary: D rule: rev_induct)
  case Nil
  then show ?case by (auto simp: dead_def)
next
  case (snoc m ns)
  let ?p = "ns @ [m]"
  note leaf = leaf_iff[OF snoc.prems]
  show ?case
  proof (cases "\<forall>r \<in> D. prefix ?p r \<longrightarrow> r = ?p")
    case True
    have t: "tree (D - {?p})"
      using snoc.prems(1) True by (auto simp: tree_def) (metis prefixeq_butlast)
    have n: "ns \<in> D - {?p}" using tree_prefix[OF snoc.prems, of ns] by simp
    have "dead ?p D ?p" using True by (auto simp: dead_def)
    with snoc.IH[OF t n] dead_snoc[of _ ns m D] leaf True snoc.prems(2) show ?thesis by (auto simp: Let_def)
  next
    case False
    then obtain r where r: "r \<in> D" "prefix ?p r" "r \<noteq> ?p" by blast
    have "\<not> dead ?p D q" for q
    proof
      assume d: "dead ?p D q"
      then have "prefix q r" using r(2) prefix_order.trans by (auto simp only: dead_def)
      with d r(1) have "prefix r ?p" by (simp only: dead_def)
      with r(2,3) show False using prefix_order.antisym by blast
    qed
    with leaf False show ?thesis by (auto simp: Let_def)
  qed
qed

text \<open>
  Removing a path removes the directory and exactly those directories above it that contain nothing
  off the path; one that does not exist or is not empty is left alone and reported.
\<close>

theorem rmdir_p_removes:
  assumes "list_all name_ok (ns @ [n])" and "tree D" and "length (dir_text ns @ n) < 260"
  shows "hv_rmdir_p (dir_text ns @ n) D =
     (if ns @ [n] \<notin> D then (ENOENT, D)
      else if \<exists>r \<in> D. prefix (ns @ [n]) r \<and> r \<noteq> ns @ [n] then (EPERM, D)
      else (0, {q \<in> D. \<not> dead (ns @ [n]) D q}))"
proof -
  let ?p = "ns @ [n]"
  have ok: "list_all name_ok ns" "name_ok n" using assms(1) by simp_all
  have cut: "safe_strncpy (dir_text ns @ n) 260 = dir_text ns @ n" using assms(3) by (simp add: safe_strncpy_spec)
  have lp: "rmdir_loop (rev (dir_text ns @ n)) D' = prune (rev ns) D'" for D'
    using rmdir_loop_prune[OF ok(1)] ok(2) by (simp add: rmdir_loop_name name_ok_def)
  show ?thesis
  proof (cases "?p \<in> D")
    case True
    have "prune (rev ?p) D = {q \<in> D. \<not> dead ?p D q}" by (rule prune_dead[OF assms(2) True])
    then have "prune (rev ns) (D - {?p}) = {q \<in> D. \<not> dead ?p D q}" if "\<forall>r \<in> D. prefix ?p r \<longrightarrow> r = ?p"
      using that True leaf_iff[OF assms(2) True] by (simp add: Let_def)
    with True leaf_iff[OF assms(2) True] show ?thesis
      by (auto simp: hv_rmdir_p_def sys_access_def sys_rmdir_def path_of_name[OF ok] cut lp simp del: rev_append)
  qed (simp add: hv_rmdir_p_def sys_access_def path_of_name[OF ok])
qed

theorem rmdir_p_removes_witness:
  "hv_rmdir_p ''a/b'' {[], [''a''], [''a'', ''b''], [''c'']} = (0, {[], [''c'']})"
proof -
  let ?D = "{[], [''a''], [''a'', ''b''], [''c'']} :: dirs"
  have "tree ?D" by (auto simp: tree_def)
  from rmdir_p_removes[OF _ this, of "[''a'']" "''b''"] show ?thesis
    by (auto simp: name_ok_def is_sep_def dead_def)
qed

end
