(* ===== verification/Grisu2_Powers.thy ===== *)
theory Grisu2_Powers
  imports Grisu2
begin

text \<open>
  The table of powers of ten of \<^verbatim>\<open>dtoa_impl\<close>: every entry is a power of ten rounded to 64 bits, and for the
  exponents of doubles the lookup finds an entry that brings the product into the range of the digit
  generation.
\<close>

subsection \<open>The entries\<close>

text \<open>\<^verbatim>\<open>p\<close> is five to the power of the amount of the decimal exponent.\<close>

definition entry_ok :: "nat \<Rightarrow> nat \<times> int \<times> int \<Rightarrow> bool" where
  "entry_ok p = (\<lambda>(f, e, k).
     if k < 0 then 2 * \<bar>int f * int p - 2 ^ nat (k - e)\<bar> \<le> int p
     else if k \<le> e then 2 * \<bar>int f * 2 ^ nat (e - k) - int p\<bar> \<le> 2 ^ nat (e - k)
     else f = p * 2 ^ nat (k - e))"

fun chain_ok :: "nat \<Rightarrow> (nat \<times> int \<times> int) list \<Rightarrow> bool" where
  "chain_ok p [] = True"
| "chain_ok p (x # xs) = (entry_ok p x \<and> chain_ok (p * 390625) xs)"

fun rows_ok :: "int \<Rightarrow> (nat \<times> int \<times> int) list \<Rightarrow> bool" where
  "rows_ok k [] = True"
| "rows_ok k ((f, e, k') # xs) =
     (k' = k \<and> 2 ^ 63 \<le> f \<and> f < 2 ^ 64 \<and> k * 2 ^ 18 < (e + 64) * 78913 \<and> (e + 34) * 78913 < (k - 8) * 2 ^ 18 \<and>
      (k < 0 \<longrightarrow> e \<le> k) \<and> rows_ok (k + 8) xs)"

lemma powers_up: "chain_ok 625 (drop 38 kCachedPowers)"
  by (simp add: kCachedPowers_def entry_ok_def)

lemma powers_down: "chain_ok 625 (rev (take 38 kCachedPowers))"
  by (simp add: kCachedPowers_def entry_ok_def)

lemma rows: "rows_ok (- 300) kCachedPowers" "length kCachedPowers = 79"
  by (simp_all add: kCachedPowers_def)

lemma chain_ok_nth: "chain_ok p xs \<Longrightarrow> i < length xs \<Longrightarrow> entry_ok (p * 390625 ^ i) (xs ! i)"
proof (induction xs arbitrary: p i)
  case (Cons x xs)
  then show ?case using Cons.IH[of "p * 390625" "i - 1"] by (cases i) (auto simp: mult.assoc)
qed simp

lemma rows_ok_nth:
  "rows_ok k xs \<Longrightarrow> i < length xs \<Longrightarrow> xs ! i = (f, e, k') \<Longrightarrow>
   k' = k + 8 * int i \<and> 2 ^ 63 \<le> f \<and> f < 2 ^ 64 \<and> k' * 2 ^ 18 < (e + 64) * 78913 \<and> (e + 34) * 78913 < (k' - 8) * 2 ^ 18 \<and>
   (k' < 0 \<longrightarrow> e \<le> k')"
proof (induction k xs arbitrary: i rule: rows_ok.induct)
  case (2 k f e k' xs)
  then show ?case by (cases i) (auto simp: algebra_simps)
qed simp

text \<open>The significand is at most half a unit away from the power of ten.\<close>

lemma near_quotient:
  fixes f P Q :: rat
  assumes "0 < P" "2 * \<bar>f * P - Q\<bar> \<le> P"
  shows "2 * \<bar>f - Q / P\<bar> \<le> 1"
proof -
  have "f - Q / P = (f * P - Q) / P" using assms(1) by (simp add: field_simps)
  then show ?thesis using assms by (simp add: abs_divide field_simps)
qed

lemma near_int: "2 * \<bar>int f * P - Q\<bar> \<le> P \<Longrightarrow> 2 * \<bar>of_nat f * of_int P - of_int Q\<bar> \<le> (of_int P :: rat)"
proof -
  assume "2 * \<bar>int f * P - Q\<bar> \<le> P"
  then have "rat_of_int (2 * \<bar>int f * P - Q\<bar>) \<le> of_int P" by (simp only: of_int_le_iff)
  then show ?thesis by simp
qed

lemma powi_nat: "0 \<le> n \<Longrightarrow> x powi n = (x :: rat) ^ nat n" "n < 0 \<Longrightarrow> x powi n = 1 / x ^ nat (- n)"
  by (simp_all add: power_int_def inverse_eq_divide power_divide)

lemma entry_near:
  assumes "entry_ok (5 ^ nat \<bar>k\<bar>) (f, e, k)" "k < 0 \<longrightarrow> e \<le> k"
  shows "2 * \<bar>of_nat f - 10 powi k * 2 powi (- e)\<bar> \<le> (1 :: rat)"
proof -
  have ten: "(10 :: rat) powi k * 2 powi (- e) = 5 powi k * 2 powi (k - e)"
    using power_int_mult_distrib[of 5 "2 :: rat" k] by (simp add: power_int_diff power_int_minus field_simps)
  consider "k < 0" | "0 \<le> k" "k \<le> e" | "0 \<le> k" "e < k" by linarith
  then show ?thesis
  proof cases
    case 1
    then have "2 * \<bar>of_nat f * 5 ^ nat (- k) - 2 ^ nat (k - e)\<bar> \<le> (5 ^ nat (- k) :: rat)"
      using assms(1) near_int[of f "5 ^ nat (- k)" "2 ^ nat (k - e)"] by (simp add: entry_ok_def)
    from near_quotient[OF _ this] show ?thesis using 1 assms(2) unfolding ten by (simp add: powi_nat)
  next
    case 2
    then have "2 * \<bar>of_nat f * 2 ^ nat (e - k) - 5 ^ nat k\<bar> \<le> (2 ^ nat (e - k) :: rat)"
      using assms(1) near_int[of f "2 ^ nat (e - k)" "5 ^ nat k"] by (simp add: entry_ok_def)
    from near_quotient[OF _ this] show ?thesis using 2 unfolding ten by (cases "k = e") (simp_all add: powi_nat)
  next
    case 3
    then have "f = 5 ^ nat k * 2 ^ nat (k - e)" using assms(1) by (simp add: entry_ok_def)
    with 3 show ?thesis unfolding ten by (simp add: powi_nat)
  qed
qed

lemma table_entry:
  assumes "i < 79" "kCachedPowers ! i = (f, e, k)"
  shows "k = 8 * int i - 300" "2 ^ 63 \<le> f" "f < 2 ^ 64" "k * 2 ^ 18 < (e + 64) * 78913" "(e + 34) * 78913 < (k - 8) * 2 ^ 18"
    "2 * \<bar>of_nat f - 10 powi k * 2 powi (- e)\<bar> \<le> (1 :: rat)"
proof -
  have r: "k = 8 * int i - 300 \<and> 2 ^ 63 \<le> f \<and> f < 2 ^ 64 \<and> k * 2 ^ 18 < (e + 64) * 78913 \<and>
      (e + 34) * 78913 < (k - 8) * 2 ^ 18 \<and> (k < 0 \<longrightarrow> e \<le> k)"
    using rows_ok_nth[OF rows(1), of i f e k] assms by (simp add: rows(2))
  have five: "(625 :: nat) * 390625 ^ j = 5 ^ (4 + 8 * j)" for j by (simp add: power_add power_mult)
  have "entry_ok (5 ^ nat \<bar>k\<bar>) (f, e, k)"
  proof (cases "i < 38")
    case True
    then have "nat \<bar>k\<bar> = 4 + 8 * (37 - i)" using r by simp
    moreover have "rev (take 38 kCachedPowers) ! (37 - i) = (f, e, k)" using True assms(2) by (simp add: rev_nth rows(2))
    ultimately show ?thesis using chain_ok_nth[OF powers_down, of "37 - i"] True by (simp add: five rows(2))
  next
    case False
    then have "nat \<bar>k\<bar> = 4 + 8 * (i - 38)" using r by simp
    moreover have "drop 38 kCachedPowers ! (i - 38) = (f, e, k)" using False assms by (simp add: rows(2))
    ultimately show ?thesis using chain_ok_nth[OF powers_up, of "i - 38"] False assms(1) by (simp add: five rows(2))
  qed
  from entry_near[OF this] r show "2 * \<bar>of_nat f - 10 powi k * 2 powi (- e)\<bar> \<le> (1 :: rat)" by blast
qed (use rows_ok_nth[OF rows(1), of i f e k] assms in \<open>simp_all add: rows(2)\<close>)

subsection \<open>The lookup\<close>

lemma decimal_estimate:
  fixes f :: int
  defines "k \<equiv> c_div (f * 78913) (2 ^ 18) + (if f > 0 then 1 else 0)"
  shows "(k - 1) * 2 ^ 18 \<le> f * 78913" "f * 78913 \<le> k * 2 ^ 18"
proof -
  have "k = (if f > 0 then f * 78913 div 2 ^ 18 + 1 else - (- f * 78913 div 2 ^ 18))"
    by (auto simp: k_def c_div_def sgn_if)
  then show "(k - 1) * 2 ^ 18 \<le> f * 78913" "f * 78913 \<le> k * 2 ^ 18" by (auto split: if_splits)
qed

lemma cached_power:
  assumes "- 1137 \<le> e" "e \<le> 960"
  shows "\<exists>cf ce ck. get_cached_power_for_binary_exponent e = Inr (cf, ce, ck) \<and> 2 ^ 63 \<le> cf \<and> cf < 2 ^ 64 \<and>
     - 60 \<le> ce + e + 64 \<and> ce + e + 64 \<le> - 32 \<and> 2 * \<bar>of_nat cf - 10 powi ck * 2 powi (- ce)\<bar> \<le> (1 :: rat)"
proof -
  let ?f = "kAlpha - e - 1"
  define k where "k = c_div (?f * 78913) (2 ^ 18) + (if ?f > 0 then 1 else 0)"
  note est = decimal_estimate[of ?f, folded k_def]
  have k: "- 307 \<le> k" "k \<le> 324" using est assms by (simp_all add: kAlpha_def)
  define q where "q = (307 + k) div 8"
  have q: "0 \<le> q" "q < 79" "8 * q \<le> 307 + k" "307 + k < 8 * q + 8" using k unfolding q_def by linarith+
  define i where "i = nat q"
  have i: "i < 79" "8 * int i \<le> 307 + k" "307 + k < 8 * int i + 8" using q by (simp_all add: i_def)
  have idx: "c_div (300 + k + (8 - 1)) 8 = int i" using k q(1) by (simp add: c_div_def i_def q_def sgn_if)
  obtain cf ce ck where c: "kCachedPowers ! i = (cf, ce, ck)" by (metis surj_pair)
  note t = table_entry[OF i(1) c]
  have p: "(2 :: int) ^ 18 = 262144" by simp
  have k': "k \<le> ck" "ck - 8 \<le> k - 1" using t(1) i(2,3) by simp_all
  have "?f * 78913 < (ce + 64) * 78913" using t(4)[unfolded p] est(2)[unfolded p] mult_right_mono[OF k'(1), of 262144] by simp
  moreover have "(ce + 34) * 78913 < ?f * 78913" using t(5)[unfolded p] est(1)[unfolded p] mult_right_mono[OF k'(2), of 262144] by simp
  ultimately have r: "kAlpha \<le> ce + e + 64" "ce + e + 64 \<le> kGamma" by (simp_all add: kAlpha_def kGamma_def)
  have "get_cached_power_for_binary_exponent e = Inr (cf, ce, ck)"
    unfolding get_cached_power_for_binary_exponent_def Let_def k_def[symmetric] idx using assms i(1) c r by simp
  with t r show ?thesis by (simp add: kAlpha_def kGamma_def)
qed

end
