(* ===== verification/Json_Utf8.thy ===== *)
theory Json_Utf8
  imports Prelude
begin

text \<open>
  The two decoders of UTF-8 in \<^verbatim>\<open>3rd/nlohmannJson/json.hpp\<close>: the table-driven automaton
  \<^verbatim>\<open>serializer::decode\<close> that checks texts before they are written, and the byte ranges of
  \<^verbatim>\<open>lexer::scan_string\<close> with \<^verbatim>\<open>next_byte_in_range\<close> that check them when they are
  read. They accept the same texts, so that what can be written can be read.

  Texts are lists of bytes. Bits are arithmetic here: the operands of \<^verbatim>\<open>|\<close> have no common bit
  and those of \<^verbatim>\<open>&\<close> are masks of low bits, and a code point has at most 21 of 32 bits.
\<close>

abbreviation byte :: "char \<Rightarrow> nat" where
  "byte c \<equiv> of_char c"

subsection \<open>The table\<close>

text \<open>
  The types of the bytes, one row of 32 or 16 entries of the source after the other with equal
  entries as a \<^verbatim>\<open>replicate\<close>, and then one row of 16 entries for each state.
\<close>

definition utf8d :: "nat list" where
  "utf8d =
     replicate 32 0 @ replicate 32 0 @ replicate 32 0 @ replicate 32 0 @
     replicate 16 1 @ replicate 16 9 @
     replicate 32 7 @
     replicate 2 8 @ replicate 30 2 @
     [0xA, 0x3, 0x3, 0x3, 0x3, 0x3, 0x3, 0x3, 0x3, 0x3, 0x3, 0x3, 0x3, 0x4, 0x3, 0x3] @
     [0xB, 0x6, 0x6, 0x6, 0x5, 0x8, 0x8, 0x8, 0x8, 0x8, 0x8, 0x8, 0x8, 0x8, 0x8, 0x8] @
     [0x0, 0x1, 0x2, 0x3, 0x5, 0x8, 0x7, 0x1, 0x1, 0x1, 0x4, 0x6, 0x1, 0x1, 0x1, 0x1] @
     [1, 1, 1, 1, 1, 1, 1, 1, 1, 1, 1, 1, 1, 1, 1, 1, 1, 0, 1, 1, 1, 1, 1, 0, 1, 0, 1, 1, 1, 1, 1, 1] @
     [1, 2, 1, 1, 1, 1, 1, 2, 1, 2, 1, 1, 1, 1, 1, 1, 1, 1, 1, 1, 1, 1, 1, 2, 1, 1, 1, 1, 1, 1, 1, 1] @
     [1, 2, 1, 1, 1, 1, 1, 1, 1, 2, 1, 1, 1, 1, 1, 1, 1, 1, 1, 1, 1, 1, 1, 3, 1, 3, 1, 1, 1, 1, 1, 1] @
     [1, 3, 1, 1, 1, 1, 1, 3, 1, 3, 1, 1, 1, 1, 1, 1, 1, 3, 1, 1, 1, 1, 1, 1, 1, 1, 1, 1, 1, 1, 1, 1]"

definition UTF8_ACCEPT :: nat where "UTF8_ACCEPT = 0"
definition UTF8_REJECT :: nat where "UTF8_REJECT = 1"

text \<open>The new state and the code point so far\<close>

definition decode :: "nat \<Rightarrow> nat \<Rightarrow> nat \<Rightarrow> nat \<times> nat" where
  "decode state codep b =
     (let type = utf8d ! b;
          codep' = (if state \<noteq> UTF8_ACCEPT then b mod 64 + 64 * codep else b mod 2 ^ (8 - type));
          index = 256 + state * 16 + type
      in (utf8d ! index, codep'))"

subsection \<open>The ranges\<close>

text \<open>
  The cases of the switch in \<^verbatim>\<open>scan_string\<close>: which ranges the bytes after a first byte must be
  in, or none if no character begins with that byte.
\<close>

definition lead_ranges :: "nat \<Rightarrow> (nat \<times> nat) list option" where
  "lead_ranges b =
     (if b \<le> 0x7F then Some []
      else if 0xC2 \<le> b \<and> b \<le> 0xDF then Some [(0x80, 0xBF)]
      else if b = 0xE0 then Some [(0xA0, 0xBF), (0x80, 0xBF)]
      else if 0xE1 \<le> b \<and> b \<le> 0xEC \<or> b = 0xEE \<or> b = 0xEF then Some [(0x80, 0xBF), (0x80, 0xBF)]
      else if b = 0xED then Some [(0x80, 0x9F), (0x80, 0xBF)]
      else if b = 0xF0 then Some [(0x90, 0xBF), (0x80, 0xBF), (0x80, 0xBF)]
      else if 0xF1 \<le> b \<and> b \<le> 0xF3 then Some [(0x80, 0xBF), (0x80, 0xBF), (0x80, 0xBF)]
      else if b = 0xF4 then Some [(0x80, 0x8F), (0x80, 0xBF), (0x80, 0xBF)]
      else None)"

text \<open>The bytes that are added and the rest of the input, which may end too early.\<close>

fun next_byte_in_range :: "(nat \<times> nat) list \<Rightarrow> string \<Rightarrow> (string \<times> string) option" where
  "next_byte_in_range [] cs = Some ([], cs)"
| "next_byte_in_range ((lo, hi) # rs) (c # cs) =
     (if lo \<le> byte c \<and> byte c \<le> hi
      then map_option (\<lambda>(added, rest). (c # added, rest)) (next_byte_in_range rs cs) else None)"
| "next_byte_in_range (r # rs) [] = None"

text \<open>A text of well-formed characters, the ranges that are still open first\<close>

fun utf8_from :: "(nat \<times> nat) list \<Rightarrow> string \<Rightarrow> bool" where
  "utf8_from [] [] = True"
| "utf8_from (r # rs) [] = False"
| "utf8_from [] (c # cs) = (case lead_ranges (byte c) of None \<Rightarrow> False | Some rs \<Rightarrow> utf8_from rs cs)"
| "utf8_from ((lo, hi) # rs) (c # cs) = (lo \<le> byte c \<and> byte c \<le> hi \<and> utf8_from rs cs)"

abbreviation utf8 :: "string \<Rightarrow> bool" where
  "utf8 s \<equiv> utf8_from [] s"

lemma next_byte_in_range_split: "next_byte_in_range rs s = Some (a, r) \<Longrightarrow> s = a @ r \<and> length a = length rs"
  by (induction rs s arbitrary: a rule: next_byte_in_range.induct) (auto split: if_splits)

lemma utf8_from_next:
  "utf8_from rs s \<longleftrightarrow> (case next_byte_in_range rs s of None \<Rightarrow> False | Some (a, r) \<Rightarrow> utf8 r)"
  by (induction rs s rule: next_byte_in_range.induct) (auto split: option.splits)

lemma next_byte_in_range_append:
  "next_byte_in_range rs s = Some (a, r) \<Longrightarrow> next_byte_in_range rs (s @ t) = Some (a, r @ t)"
  by (induction rs s arbitrary: a rule: next_byte_in_range.induct) (auto split: if_splits)

subsection \<open>The automaton by ranges\<close>

definition byte_type :: "nat \<Rightarrow> nat" where
  "byte_type b =
     (if b < 0x80 then 0 else if b < 0x90 then 1 else if b < 0xA0 then 9 else if b < 0xC0 then 7 else if b < 0xC2 then 8
      else if b < 0xE0 then 2 else if b = 0xE0 then 10 else if b = 0xED then 4 else if b < 0xF0 then 3
      else if b = 0xF0 then 11 else if b < 0xF4 then 6 else if b = 0xF4 then 5 else 8)"

lemma utf8d_types: "take 256 utf8d = map byte_type [0..<256]"
  by (simp add: utf8d_def byte_type_def upt_rec numeral_eq_Suc)

lemma utf8d_byte: "b < 256 \<Longrightarrow> utf8d ! b = byte_type b"
  by (metis add_0 diff_zero length_upt nth_map nth_take nth_upt utf8d_types)

text \<open>The ranges that are open in a state\<close>

definition pending :: "nat \<Rightarrow> (nat \<times> nat) list" where
  "pending s =
     (if s = 2 then [(0x80, 0xBF)] else if s = 3 then [(0x80, 0xBF), (0x80, 0xBF)]
      else if s = 4 then [(0xA0, 0xBF), (0x80, 0xBF)] else if s = 5 then [(0x80, 0x9F), (0x80, 0xBF)]
      else if s = 6 then [(0x90, 0xBF), (0x80, 0xBF), (0x80, 0xBF)]
      else if s = 7 then [(0x80, 0xBF), (0x80, 0xBF), (0x80, 0xBF)]
      else if s = 8 then [(0x80, 0x8F), (0x80, 0xBF), (0x80, 0xBF)] else [])"

definition live_state :: "nat \<Rightarrow> bool" where
  "live_state s \<longleftrightarrow> s \<in> {0, 2, 3, 4, 5, 6, 7, 8}"

text \<open>The rows of the states\<close>

lemma utf8d_row: "drop 256 utf8d =
     [0x0, 0x1, 0x2, 0x3, 0x5, 0x8, 0x7, 0x1, 0x1, 0x1, 0x4, 0x6, 0x1, 0x1, 0x1, 0x1] @
     [1, 1, 1, 1, 1, 1, 1, 1, 1, 1, 1, 1, 1, 1, 1, 1, 1, 0, 1, 1, 1, 1, 1, 0, 1, 0, 1, 1, 1, 1, 1, 1] @
     [1, 2, 1, 1, 1, 1, 1, 2, 1, 2, 1, 1, 1, 1, 1, 1, 1, 1, 1, 1, 1, 1, 1, 2, 1, 1, 1, 1, 1, 1, 1, 1] @
     [1, 2, 1, 1, 1, 1, 1, 1, 1, 2, 1, 1, 1, 1, 1, 1, 1, 1, 1, 1, 1, 1, 1, 3, 1, 3, 1, 1, 1, 1, 1, 1] @
     [1, 3, 1, 1, 1, 1, 1, 3, 1, 3, 1, 1, 1, 1, 1, 1, 1, 3, 1, 1, 1, 1, 1, 1, 1, 1, 1, 1, 1, 1, 1, 1]"
  by (simp add: utf8d_def)

lemma utf8d_state: "utf8d ! (256 + i) = drop 256 utf8d ! i"
  by (rule nth_drop[symmetric]) (simp add: utf8d_def)

lemma decode_state: "b < 256 \<Longrightarrow> fst (decode s cp b) = drop 256 utf8d ! (s * 16 + byte_type b)"
  by (simp add: decode_def Let_def utf8d_byte utf8d_state add.assoc)

lemma state_rows:
  "list_all (\<lambda>t. drop 256 utf8d ! (2 * 16 + t) = (if t \<in> {1, 7, 9} then 0 else 1)) [0, 1, 2, 3, 4, 5, 6, 7, 8, 9, 10, 11]"
  "list_all (\<lambda>t. drop 256 utf8d ! (3 * 16 + t) = (if t \<in> {1, 7, 9} then 2 else 1)) [0, 1, 2, 3, 4, 5, 6, 7, 8, 9, 10, 11]"
  "list_all (\<lambda>t. drop 256 utf8d ! (4 * 16 + t) = (if t = 7 then 2 else 1)) [0, 1, 2, 3, 4, 5, 6, 7, 8, 9, 10, 11]"
  "list_all (\<lambda>t. drop 256 utf8d ! (5 * 16 + t) = (if t \<in> {1, 9} then 2 else 1)) [0, 1, 2, 3, 4, 5, 6, 7, 8, 9, 10, 11]"
  "list_all (\<lambda>t. drop 256 utf8d ! (6 * 16 + t) = (if t \<in> {7, 9} then 3 else 1)) [0, 1, 2, 3, 4, 5, 6, 7, 8, 9, 10, 11]"
  "list_all (\<lambda>t. drop 256 utf8d ! (7 * 16 + t) = (if t \<in> {1, 7, 9} then 3 else 1)) [0, 1, 2, 3, 4, 5, 6, 7, 8, 9, 10, 11]"
  "list_all (\<lambda>t. drop 256 utf8d ! (8 * 16 + t) = (if t = 1 then 3 else 1)) [0, 1, 2, 3, 4, 5, 6, 7, 8, 9, 10, 11]"
  by (simp_all add: utf8d_row)

lemma byte_type_in:
  "byte_type b \<in> {1, 7, 9} \<longleftrightarrow> 0x80 \<le> b \<and> b \<le> 0xBF" "byte_type b = 7 \<longleftrightarrow> 0xA0 \<le> b \<and> b \<le> 0xBF"
  "byte_type b \<in> {1, 9} \<longleftrightarrow> 0x80 \<le> b \<and> b \<le> 0x9F" "byte_type b \<in> {7, 9} \<longleftrightarrow> 0x90 \<le> b \<and> b \<le> 0xBF"
  "byte_type b = 1 \<longleftrightarrow> 0x80 \<le> b \<and> b \<le> 0x8F"
  by (simp_all add: byte_type_def)

lemma at_byte_type: "list_all P [0, 1, 2, 3, 4, 5, 6, 7, 8, 9, 10, 11] \<Longrightarrow> P (byte_type b)"
  by (simp add: byte_type_def)

lemma decode_rows:
  assumes "b < 256"
  shows "fst (decode 2 cp b) = (if 0x80 \<le> b \<and> b \<le> 0xBF then 0 else 1)"
    "fst (decode 3 cp b) = (if 0x80 \<le> b \<and> b \<le> 0xBF then 2 else 1)"
    "fst (decode 4 cp b) = (if 0xA0 \<le> b \<and> b \<le> 0xBF then 2 else 1)"
    "fst (decode 5 cp b) = (if 0x80 \<le> b \<and> b \<le> 0x9F then 2 else 1)"
    "fst (decode 6 cp b) = (if 0x90 \<le> b \<and> b \<le> 0xBF then 3 else 1)"
    "fst (decode 7 cp b) = (if 0x80 \<le> b \<and> b \<le> 0xBF then 3 else 1)"
    "fst (decode 8 cp b) = (if 0x80 \<le> b \<and> b \<le> 0x8F then 3 else 1)"
  unfolding decode_state[OF assms] byte_type_in[symmetric] by (fact state_rows[THEN at_byte_type])+

lemma decode_open:
  assumes "b < 256" "pending s = (lo, hi) # rs"
  shows "if lo \<le> b \<and> b \<le> hi then live_state (fst (decode s cp b)) \<and> pending (fst (decode s cp b)) = rs
     else fst (decode s cp b) = UTF8_REJECT"
proof -
  have "s \<in> {2, 3, 4, 5, 6, 7, 8}" using assms(2) by (auto simp: pending_def split: if_splits)
  then show ?thesis
    using assms(2) by (elim insertE emptyE) (simp_all add: decode_rows[OF assms(1)] pending_def live_state_def UTF8_REJECT_def)
qed

lemma accept_row: "list_all (\<lambda>t. drop 256 utf8d ! t = [0, 1, 2, 3, 5, 8, 7, 1, 1, 1, 4, 6] ! t) [0, 1, 2, 3, 4, 5, 6, 7, 8, 9, 10, 11]"
  by (simp add: utf8d_row)

lemma decode_accept: "b < 256 \<Longrightarrow> fst (decode 0 cp b) = [0, 1, 2, 3, 5, 8, 7, 1, 1, 1, 4, 6] ! byte_type b"
  using accept_row[THEN at_byte_type] by (simp add: decode_state)

lemma byte_cases:
  assumes "b < (256 :: nat)"
  obtains "b \<le> 0x7F" | "0x80 \<le> b" "b \<le> 0xC1" | "0xC2 \<le> b" "b \<le> 0xDF" | "b = 0xE0" | "0xE1 \<le> b" "b \<le> 0xEC"
    | "b = 0xED" | "b = 0xEE" | "b = 0xEF" | "b = 0xF0" | "0xF1 \<le> b" "b \<le> 0xF3" | "b = 0xF4" | "0xF5 \<le> b"
  using assms by linarith

lemma decode_closed:
  assumes "b < 256"
  shows "case lead_ranges b of None \<Rightarrow> fst (decode 0 cp b) = UTF8_REJECT
     | Some rs \<Rightarrow> live_state (fst (decode 0 cp b)) \<and> pending (fst (decode 0 cp b)) = rs"
  unfolding decode_accept[OF assms]
  by (rule byte_cases[OF assms]) (simp_all add: lead_ranges_def byte_type_def pending_def live_state_def UTF8_REJECT_def)

text \<open>The code point of a character of several bytes is not one of ASCII.\<close>

definition cp_low :: "nat \<Rightarrow> nat" where
  "cp_low s = (if s = 2 then 2 else if s \<in> {3, 5, 7, 8} then 1 else 0)"

lemma decode_codep:
  "b < 256 \<Longrightarrow> snd (decode s cp b) = (if s = 0 then b mod 2 ^ (8 - byte_type b) else b mod 64 + 64 * cp)"
  by (simp add: decode_def Let_def utf8d_byte UTF8_ACCEPT_def)

lemma decode_ascii: "b \<le> 0x7F \<Longrightarrow> decode 0 cp b = (0, b)"
  using decode_accept[of b cp] decode_codep[of b 0 cp] by (simp add: byte_type_def prod_eq_iff)

lemma mod_from: "k * m \<le> b \<Longrightarrow> b < k * m + m \<Longrightarrow> b mod m = b - k * (m :: nat)"
  by (metis add.commute le_add_diff_inverse less_diff_conv2 mod_less mod_mult_self1)

lemma decode_open_cp:
  assumes "b < 256" "pending s = (lo, hi) # rs" "lo \<le> b" "b \<le> hi" "cp_low s \<le> cp"
  shows "cp_low (fst (decode s cp b)) \<le> snd (decode s cp b) \<and> (rs = [] \<longrightarrow> 0x80 \<le> snd (decode s cp b))"
proof -
  have s: "s \<in> {2, 3, 4, 5, 6, 7, 8}" using assms(2) by (auto simp: pending_def split: if_splits)
  then have b: "128 \<le> b" "b < 192" using assms(2-4) by (auto simp: pending_def split: if_splits)
  have c: "snd (decode s cp b) = b - 128 + 64 * cp" using s b decode_codep[OF assms(1), of s cp] by (auto simp: mod_from[of 2])
  show ?thesis
    unfolding c using s assms(2-5)
    by (elim insertE emptyE) (auto simp: decode_rows[OF assms(1)] pending_def cp_low_def)
qed

lemma decode_lead_cp:
  assumes "b < 256" "lead_ranges b = Some (r # rs)"
  shows "cp_low (fst (decode 0 cp b)) \<le> snd (decode 0 cp b)"
proof -
  have "byte_type b = 2 \<and> b mod 64 \<ge> 2 \<or> byte_type b = 3 \<and> b mod 32 \<ge> 1 \<or> byte_type b = 4 \<and> b mod 16 \<ge> 1 \<or>
      byte_type b = 5 \<and> b mod 8 \<ge> 1 \<or> byte_type b = 6 \<and> b mod 4 \<ge> 1 \<or> byte_type b = 10 \<or> byte_type b = 11"
    by (rule byte_cases[OF assms(1)])
       (use assms(2) in \<open>auto simp: lead_ranges_def byte_type_def mod_from[of 3 64] mod_from[of 7 32] mod_from[of 60 4]\<close>)
  then show ?thesis
    unfolding decode_accept[OF assms(1)] decode_codep[OF assms(1)]
    by (elim disjE) (simp_all add: cp_low_def)
qed

end
