(* ===== verification/Json_Writer.thy ===== *)
theory Json_Writer
  imports Json_Codec Json_Utf8
begin

text \<open>
  The serializer of \<^verbatim>\<open>3rd/nlohmannJson/json.hpp\<close>: escaping of strings, integers, floating-point
  numbers, and the indented and compact layouts. The error handler is the strict one, the
  indentation character a blank, and the locale has a decimal point, as in the calls of the program.
  A write to one of the fixed buffers beyond its end, or a read of the indentation string beyond its
  end, is undefined. The digits of a double come from the parameter \<^verbatim>\<open>dtoa\<close>, which
  \<^verbatim>\<open>Doubles\<close> instantiates with the algorithm.
\<close>

subsection \<open>Strings\<close>

text \<open>\<^verbatim>\<open>%04x\<close>\<close>

definition hex_char :: "nat \<Rightarrow> char" where
  "hex_char d = char_of (if d < 10 then 48 + d else 87 + d)"

definition hex4 :: "nat \<Rightarrow> string" where
  "hex4 n = [hex_char (n div 4096 mod 16), hex_char (n div 256 mod 16), hex_char (n div 16 mod 16), hex_char (n mod 16)]"

text \<open>
  What is written for a code point that ends with the byte \<^verbatim>\<open>c\<close>, and how many bytes of the buffer
  it needs, with the NUL of \<^verbatim>\<open>snprintf\<close>.
\<close>

definition escape :: "bool \<Rightarrow> nat \<Rightarrow> char \<Rightarrow> string \<times> nat" where
  "escape ensure_ascii codepoint c =
     (if codepoint = 0x08 then ([CHR 0x5C, CHR ''b''], 2)
      else if codepoint = 0x09 then ([CHR 0x5C, CHR ''t''], 2)
      else if codepoint = 0x0A then ([CHR 0x5C, CHR ''n''], 2)
      else if codepoint = 0x0C then ([CHR 0x5C, CHR ''f''], 2)
      else if codepoint = 0x0D then ([CHR 0x5C, CHR ''r''], 2)
      else if codepoint = 0x22 then ([CHR 0x5C, CHR 0x22], 2)
      else if codepoint = 0x5C then ([CHR 0x5C, CHR 0x5C], 2)
      else if codepoint \<le> 0x1F \<or> ensure_ascii \<and> codepoint \<ge> 0x7F
      then if codepoint \<le> 0xFFFF
           then ([CHR 0x5C, CHR ''u''] @ hex4 codepoint, 7)
           else ([CHR 0x5C, CHR ''u''] @ hex4 (0xD7C0 + codepoint div 1024) @ [CHR 0x5C, CHR ''u''] @ hex4 (0xDC00 + codepoint mod 1024), 13)
      else ([c], 1))"

text \<open>The loop, with the bytes in \<^verbatim>\<open>string_buffer\<close> and those already written\<close>

fun escape_loop :: "bool \<Rightarrow> string \<Rightarrow> nat \<Rightarrow> nat \<Rightarrow> string \<Rightarrow> string \<Rightarrow> string result" where
  "escape_loop ensure_ascii [] state codepoint buffer written =
     (if state = UTF8_ACCEPT then Inr (written @ buffer) else Inl (StdException ''incomplete UTF-8 string''))"
| "escape_loop ensure_ascii (c # cs) state codepoint buffer written =
     (case decode state codepoint (byte c) of (state', codepoint') \<Rightarrow>
        if state' = UTF8_ACCEPT
        then (case escape ensure_ascii codepoint' c of (text, need) \<Rightarrow>
                if length buffer + need > 512 then Inl (Undefined ''string_buffer'')
                else let buffer' = buffer @ text
                     in if 512 - length buffer' < 13 then escape_loop ensure_ascii cs state' codepoint' [] (written @ buffer')
                        else escape_loop ensure_ascii cs state' codepoint' buffer' written)
        else if state' = UTF8_REJECT then Inl (StdException ''invalid UTF-8 byte'')
        else if ensure_ascii then escape_loop ensure_ascii cs state' codepoint' buffer written
        else if length buffer \<ge> 512 then Inl (Undefined ''string_buffer'')
        else escape_loop ensure_ascii cs state' codepoint' (buffer @ [c]) written)"

definition dump_escaped :: "bool \<Rightarrow> string \<Rightarrow> string result" where
  "dump_escaped ensure_ascii s = escape_loop ensure_ascii s UTF8_ACCEPT 0 [] []"

text \<open>The reference: every byte for itself\<close>

definition escaped :: "string \<Rightarrow> string" where
  "escaped s = concat (map (\<lambda>c. fst (escape False (byte c) c)) s)"

lemma escaped_simps [simp]: "escaped [] = []" "escaped (c # cs) = fst (escape False (byte c) c) @ escaped cs"
  by (simp_all add: escaped_def)

lemma escape_high: "0x80 \<le> cp \<Longrightarrow> escape False cp c = ([c], 1)"
  by (simp add: escape_def)

lemma escape_size: "escape ea cp c = (text, need) \<Longrightarrow> length text \<le> need \<and> need \<le> 13"
  by (auto simp: escape_def hex4_def split: if_splits)

lemma escape_single: "escape ea cp c = (text, need) \<Longrightarrow> \<not> ea \<Longrightarrow> 0x80 \<le> cp \<Longrightarrow> need = 1"
  by (auto simp: escape_high)

lemma pending_length: "length (pending s) \<le> 3"
  by (simp add: pending_def)

lemma pending_0 [simp]: "pending 0 = []"
  by (simp add: pending_def)

lemma pending_Nil: "live_state s \<Longrightarrow> pending s = [] \<longleftrightarrow> s = 0"
  by (auto simp: live_state_def pending_def)

text \<open>What holds at the head of the loop\<close>

definition loop_inv :: "bool \<Rightarrow> nat \<Rightarrow> nat \<Rightarrow> string \<Rightarrow> bool" where
  "loop_inv ea s cp buf \<longleftrightarrow> live_state s \<and> cp_low s \<le> cp \<and>
     (if s = 0 \<or> ea then length buf \<le> 499 else length buf + length (pending s) \<le> 503)"

lemma loop_inv_start: "length buf \<le> 499 \<Longrightarrow> loop_inv ea 0 cp buf"
  by (simp add: loop_inv_def live_state_def cp_low_def)

lemma lead_Nil: "lead_ranges b = Some [] \<longleftrightarrow> b \<le> 0x7F"
  by (simp add: lead_ranges_def)

lemma lead_high: "lead_ranges b = Some (r # rs) \<Longrightarrow> 0x80 \<le> b"
  by (auto simp: lead_ranges_def split: if_splits)

lemma pending_low: "pending s = (lo, hi) # rs \<Longrightarrow> 0x80 \<le> lo"
  by (auto simp: pending_def split: if_splits)

text \<open>One byte: it is rejected, or it is a character of ASCII, begins a longer one, or goes on with it.\<close>

lemma decode_cases:
  assumes "live_state s" "cp_low s \<le> cp" "decode s cp (byte c) = (s', cp')"
  obtains (reject) "s' = UTF8_REJECT" "\<And>cs. \<not> utf8_from (pending s) (c # cs)"
    | (ascii) "s = 0" "s' = 0" "cp' = byte c" "\<And>cs. utf8_from (pending s) (c # cs) = utf8 cs"
    | (lead) "s = 0" "s' \<noteq> 0" "live_state s'" "cp_low s' \<le> cp'" "0x80 \<le> byte c"
        "\<And>cs. utf8_from (pending s) (c # cs) = utf8_from (pending s') cs"
    | (more) "s \<noteq> 0" "live_state s'" "cp_low s' \<le> cp'" "0x80 \<le> byte c" "length (pending s) = Suc (length (pending s'))"
        "s' = 0 \<longrightarrow> 0x80 \<le> cp'" "\<And>cs. utf8_from (pending s) (c # cs) = utf8_from (pending s') cs"
proof (cases "pending s")
  case Nil
  then have s: "s = 0" using assms(1) pending_Nil by blast
  note cl = decode_closed[of "byte c" cp]
  show ?thesis
  proof (cases "lead_ranges (byte c)")
    case None
    with cl assms(3) s show ?thesis by (intro reject) simp_all
  next
    case (Some rs)
    with cl assms(3) s have p: "live_state s'" "pending s' = rs" by simp_all
    show ?thesis
    proof (cases rs)
      case Nil
      then have "decode 0 cp (byte c) = (0, byte c)" using Some lead_Nil by (intro decode_ascii) blast
      with Some Nil assms(3) s show ?thesis by (intro ascii) simp_all
    next
      case (Cons r rs')
      with Some decode_lead_cp[of "byte c" r rs' cp] assms(3) s p lead_high[of "byte c"] pending_Nil[of s']
      show ?thesis by (intro lead) auto
    qed
  qed
next
  case (Cons r rs)
  obtain lo hi where r: "r = (lo, hi)" by (cases r)
  have s: "s \<noteq> 0" using Cons by (metis list.distinct(1) pending_0)
  have o: "if lo \<le> byte c \<and> byte c \<le> hi then live_state s' \<and> pending s' = rs else s' = UTF8_REJECT"
    using decode_open[of "byte c" s lo hi rs cp] Cons r assms(3) by (auto split: if_splits)
  show ?thesis
  proof (cases "lo \<le> byte c \<and> byte c \<le> hi")
    case True
    with o decode_open_cp[of "byte c" s lo hi rs cp] Cons r assms(2,3) s pending_low[of s lo hi rs] pending_Nil[of s'] show ?thesis
      by (intro more) auto
  next
    case False
    with o Cons r show ?thesis by (intro reject) auto
  qed
qed

lemma live_not_reject: "live_state s \<Longrightarrow> s \<noteq> UTF8_REJECT"
  by (auto simp: live_state_def UTF8_REJECT_def)

lemma escape_accept:
  assumes "decode s cp (byte c) = (0, cp')" "escape ea cp' c = (text, need)" "length buf + need \<le> 512"
  shows "\<exists>buf' w'. escape_loop ea (c # cs) s cp buf w = escape_loop ea cs 0 cp' buf' w' \<and> length buf' \<le> 499 \<and> w' @ buf' = w @ buf @ text"
  using assms by (cases "512 - length (buf @ text) < 13") (simp_all add: UTF8_ACCEPT_def Let_def, force+)

lemma escape_loop_correct:
  "loop_inv ea s cp buf \<Longrightarrow>
   if utf8_from (pending s) xs then \<exists>t. escape_loop ea xs s cp buf w = Inr t \<and> (\<not> ea \<longrightarrow> t = w @ buf @ escaped xs)
   else \<exists>m. escape_loop ea xs s cp buf w = Inl (StdException m)"
proof (induction xs arbitrary: s cp buf w)
  case Nil
  then show ?case using pending_Nil[of s] by (cases "pending s") (auto simp: loop_inv_def UTF8_ACCEPT_def)
next
  case (Cons c cs)
  obtain s' cp' where d: "decode s cp (byte c) = (s', cp')" by (meson surj_pair)
  obtain tx need where e: "escape ea cp' c = (tx, need)" by (meson surj_pair)
  have inv: "live_state s" "cp_low s \<le> cp" using Cons.prems by (simp_all add: loop_inv_def)
  have accept: ?case if "s' = 0" "length buf + need \<le> 512" "\<not> ea \<longrightarrow> tx = fst (escape False (byte c) c)"
      "utf8_from (pending s) (c # cs) = utf8 cs"
  proof -
    from escape_accept[OF d[unfolded that(1)] e that(2), of cs w] obtain buf' w' where
      b: "escape_loop ea (c # cs) s cp buf w = escape_loop ea cs 0 cp' buf' w'" "length buf' \<le> 499" "w' @ buf' = w @ buf @ tx" by blast
    have "w' @ buf' @ escaped cs = w @ buf @ tx @ escaped cs" using b(3) by (metis append.assoc)
    with Cons.IH[OF loop_inv_start[OF b(2)], of cp' w'] that(3,4) show ?thesis unfolding b(1) by auto
  qed
  have go_on: ?case if "s' \<noteq> 0" "live_state s'" "cp_low s' \<le> cp'" "0x80 \<le> byte c" "ea \<longrightarrow> length buf \<le> 499"
      "\<not> ea \<longrightarrow> length buf + length (pending s') \<le> 502" "utf8_from (pending s) (c # cs) = utf8_from (pending s') cs"
  proof (cases ea)
    case True
    then have "loop_inv ea s' cp' buf" using that by (simp add: loop_inv_def)
    from Cons.IH[OF this, of w] True that live_not_reject[OF that(2)] d show ?thesis by (auto simp: UTF8_ACCEPT_def split: if_splits)
  next
    case False
    then have "loop_inv ea s' cp' (buf @ [c])" using that by (simp add: loop_inv_def)
    from Cons.IH[OF this, of w] False that live_not_reject[OF that(2)] d escape_high[of "byte c" c] show ?thesis
      by (auto simp: UTF8_ACCEPT_def split: if_splits)
  qed
  from inv d show ?case
  proof (cases rule: decode_cases)
    case reject
    then show ?thesis using d by (simp add: UTF8_REJECT_def UTF8_ACCEPT_def)
  next
    case ascii
    then show ?thesis using Cons.prems escape_size[OF e] e by (intro accept) (auto simp: loop_inv_def)
  next
    case lead
    then show ?thesis using Cons.prems pending_length[of s'] by (intro go_on) (auto simp: loop_inv_def)
  next
    case more
    show ?thesis
    proof (cases "s' = 0")
      case True
      with more Cons.prems escape_size[OF e] e escape_high[of cp' c] escape_high[of "byte c" c] show ?thesis
        by (intro accept; cases ea; auto simp: loop_inv_def)
    next
      case False
      with more Cons.prems show ?thesis by (intro go_on) (auto simp: loop_inv_def)
    qed
  qed
qed

text \<open>
  A string is written exactly if it is UTF-8; the buffer of 512 bytes never overflows. Without
  \<^verbatim>\<open>ensure_ascii\<close> the bytes are copied, except for those that have to be escaped.
\<close>

lemma dump_escaped_total:
  "if utf8 s then \<exists>t. dump_escaped ea s = Inr t else \<exists>m. dump_escaped ea s = Inl (StdException m)"
  using escape_loop_correct[of ea 0 0 "[]" s "[]"] loop_inv_start[of "[]" ea 0] by (auto simp: dump_escaped_def UTF8_ACCEPT_def)

lemma dump_escaped_text: "utf8 s \<Longrightarrow> dump_escaped False s = Inr (escaped s)"
  using escape_loop_correct[of False 0 0 "[]" s "[]"] loop_inv_start[of "[]" False 0] by (simp add: dump_escaped_def UTF8_ACCEPT_def)

subsection \<open>Integers\<close>

fun count_loop :: "nat \<Rightarrow> nat \<Rightarrow> nat" where
  "count_loop n_digits x =
     (if x < 10 then n_digits
      else if x < 100 then n_digits + 1
      else if x < 1000 then n_digits + 2
      else if x < 10000 then n_digits + 3
      else count_loop (n_digits + 4) (x div 10000))"

declare count_loop.simps [simp del]

definition count_digits :: "nat \<Rightarrow> nat" where
  "count_digits x = count_loop 1 x"

definition digits_to_99 :: "nat \<Rightarrow> string" where
  "digits_to_99 i = [digit_char (i div 10), digit_char (i mod 10)]"

definition put_two :: "nat \<Rightarrow> string \<Rightarrow> string \<Rightarrow> string" where
  "put_two ptr d buffer = buffer[ptr - 1 := d ! 1, ptr - 2 := d ! 0]"

text \<open>The loop that fills the buffer from behind, two digits at a time\<close>

fun digit_loop :: "nat \<Rightarrow> nat \<Rightarrow> string \<Rightarrow> string" where
  "digit_loop abs_value ptr buffer =
     (if abs_value \<ge> 100 then digit_loop (abs_value div 100) (ptr - 2) (put_two ptr (digits_to_99 (abs_value mod 100)) buffer)
      else if abs_value \<ge> 10 then put_two ptr (digits_to_99 abs_value) buffer
      else buffer[ptr - 1 := digit_char abs_value])"

declare digit_loop.simps [simp del]

definition remove_sign :: "int \<Rightarrow> nat" where
  "remove_sign x = nat (- (x + 1)) + 1"

definition dump_integer :: "int \<Rightarrow> string" where
  "dump_integer x =
     (if x = 0 then ''0''
      else let number_buffer = replicate 64 (CHR 0x00)
           in if x < 0
              then let abs_value = remove_sign x; n_chars = 1 + count_digits abs_value
                   in take n_chars (digit_loop abs_value n_chars (number_buffer[0 := CHR ''-'']))
              else let abs_value = nat x; n_chars = count_digits abs_value
                   in take n_chars (digit_loop abs_value n_chars number_buffer))"

lemma nat_digits_small: "n < 10 \<Longrightarrow> nat_digits n = [digit_char n]"
  by (subst nat_digits.simps) simp

lemma nat_digits_big: "10 \<le> n \<Longrightarrow> nat_digits n = nat_digits (n div 10) @ [digit_char (n mod 10)]"
  by (subst nat_digits.simps) simp

lemma nat_digits_two: "10 \<le> n \<Longrightarrow> n < 100 \<Longrightarrow> nat_digits n = digits_to_99 n"
  by (simp add: nat_digits_big nat_digits_small digits_to_99_def)

lemma nat_digits_100: "100 \<le> n \<Longrightarrow> nat_digits n = nat_digits (n div 100) @ digits_to_99 (n mod 100)"
proof -
  assume n: "100 \<le> n"
  have "n div 10 mod 10 = n mod 100 div 10" by (simp add: mod_mult2_eq[of n 10 10, simplified])
  moreover have "n mod 10 = n mod 100 mod 10" by (simp add: mod_mult2_eq[of n 10 10, simplified])
  moreover have "n div 10 div 10 = n div 100" by (simp add: div_mult2_eq[symmetric])
  moreover have "10 \<le> n div 10" using div_le_mono[OF n, of 10] by simp
  ultimately show ?thesis using n nat_digits_big[of n] nat_digits_big[of "n div 10"] by (simp add: digits_to_99_def)
qed

lemma count_loop_digits: "1 \<le> k \<Longrightarrow> count_loop k x = k - 1 + length (nat_digits x)"
proof (induction k x rule: count_loop.induct)
  case (1 k x)
  have big: "length (nat_digits x) = 4 + length (nat_digits (x div 10000))" if "10000 \<le> x"
    using that nat_digits_100[of x] nat_digits_100[of "x div 100"]
    by (simp add: digits_to_99_def div_mult2_eq[symmetric])
  have mid: "length (nat_digits x) = 2 + length (nat_digits (x div 100))" if "100 \<le> x"
    using that nat_digits_100[of x] by (simp add: digits_to_99_def)
  show ?case
    using 1 big mid nat_digits_small[of x] nat_digits_two[of x] nat_digits_small[of "x div 100"] nat_digits_two[of "x div 100"]
    by (subst count_loop.simps) (simp add: digits_to_99_def)
qed

lemma count_digits_correct: "count_digits x = length (nat_digits x)"
  by (simp add: count_digits_def count_loop_digits)

lemma put_two_text:
  assumes "2 \<le> ptr" "ptr \<le> length buffer" "length d = 2"
  shows "put_two ptr d buffer = take (ptr - 2) buffer @ d @ drop ptr buffer"
proof -
  have "buffer = take (ptr - 2) buffer @ [buffer ! (ptr - 2), buffer ! (ptr - 1)] @ drop ptr buffer"
    using assms(1,2) id_take_nth_drop[of "ptr - 2" buffer] Cons_nth_drop_Suc[of "ptr - 1" buffer]
    by (simp add: numeral_2_eq_2 Suc_diff_Suc)
  then obtain xs a b ys where b: "buffer = xs @ [a, b] @ ys" "length xs = ptr - 2" "xs = take (ptr - 2) buffer" "ys = drop ptr buffer"
    using assms(2) by (metis length_take min.absorb2 diff_le_self le_trans)
  have d: "d = [d ! 0, d ! 1]" using assms(3) by (cases d; cases "tl d") auto
  have "put_two ptr d buffer = xs @ [d ! 0, d ! 1] @ ys"
  proof -
    have "ptr - 1 = Suc (length xs)" "ptr - 2 = length xs" using b(2) assms(1) by simp_all
    then show ?thesis unfolding put_two_def b(1) by (simp add: list_update_append)
  qed
  with b(3,4) d show ?thesis by metis
qed

lemma digit_loop_text:
  "length (nat_digits a) \<le> ptr \<Longrightarrow> ptr \<le> length buffer \<Longrightarrow>
   digit_loop a ptr buffer = take (ptr - length (nat_digits a)) buffer @ nat_digits a @ drop ptr buffer"
proof (induction a ptr buffer rule: digit_loop.induct)
  case (1 a ptr buffer)
  consider "100 \<le> a" | "10 \<le> a" "a < 100" | "a < 10" by linarith
  then show ?case
  proof cases
    case 1
    let ?b = "put_two ptr (digits_to_99 (a mod 100)) buffer"
    have l: "length (nat_digits a) = length (nat_digits (a div 100)) + 2" using nat_digits_100[OF 1] by (simp add: digits_to_99_def)
    have p: "2 \<le> ptr" "length (nat_digits (a div 100)) \<le> ptr - 2" using "1.prems"(1) l by linarith+
    have b: "?b = take (ptr - 2) buffer @ digits_to_99 (a mod 100) @ drop ptr buffer"
      using p "1.prems"(2) by (intro put_two_text) (simp_all add: digits_to_99_def)
    have "digit_loop a ptr buffer = digit_loop (a div 100) (ptr - 2) ?b" using 1 by (subst digit_loop.simps) simp
    also have "\<dots> = take (ptr - 2 - length (nat_digits (a div 100))) ?b @ nat_digits (a div 100) @ drop (ptr - 2) ?b"
      using "1.IH"[OF 1] p "1.prems"(2) by (simp add: put_two_def)
    finally show ?thesis unfolding b nat_digits_100[OF 1] using p "1.prems"(2) by (simp add: digits_to_99_def)
  next
    case 2
    then have n: "nat_digits a = digits_to_99 a" by (rule nat_digits_two)
    have "digit_loop a ptr buffer = put_two ptr (digits_to_99 a) buffer" using 2 by (subst digit_loop.simps) simp
    with "1.prems" show ?thesis unfolding n by (simp add: put_two_text digits_to_99_def numeral_2_eq_2)
  next
    case 3
    have "digit_loop a ptr buffer = buffer[ptr - 1 := digit_char a]" using 3 by (subst digit_loop.simps) simp
    with "1.prems" 3 show ?thesis by (simp add: nat_digits_small upd_conv_take_nth_drop)
  qed
qed

lemma nat_digits_length: "n < 10 ^ Suc k \<Longrightarrow> length (nat_digits n) \<le> Suc k"
proof (induction k arbitrary: n)
  case 0
  then show ?case by (simp add: nat_digits_small)
next
  case (Suc k)
  show ?case
  proof (cases "n < 10")
    case True
    then show ?thesis by (simp add: nat_digits_small)
  next
    case False
    moreover have "n div 10 < 10 ^ Suc k" using Suc.prems by (simp add: less_mult_imp_div_less)
    ultimately show ?thesis using Suc.IH[of "n div 10"] by (simp add: nat_digits_big)
  qed
qed

text \<open>
  The fast conversion of integers prints the decimal numeral of every signed and unsigned number of 64
  bits, and the buffer of 64 characters is large enough.
\<close>

lemma dump_integer_correct:
  assumes "- (2 ^ 63) \<le> x" "x < 2 ^ 64"
  shows "dump_integer x = QString_number x"
proof -
  have l: "length (nat_digits n) \<le> 20" if "n \<le> 2 ^ 64" for n using nat_digits_length[of n 19] that by simp
  consider "x = 0" | "x < 0" | "0 < x" by linarith
  then show ?thesis
  proof cases
    case 1
    moreover have "digit_char 0 = CHR ''0''" by code_simp
    ultimately show ?thesis by (simp add: dump_integer_def QString_number_def nat_digits_small)
  next
    case 2
    let ?n = "nat (- x)"
    have a: "remove_sign x = ?n" using 2 by (simp add: remove_sign_def)
    have "length (nat_digits ?n) \<le> 20" using l[of ?n] assms(1) by simp
    then have "digit_loop ?n (1 + length (nat_digits ?n)) ((replicate 64 (CHR 0x00))[0 := CHR ''-'']) =
        take 1 ((replicate 64 (CHR 0x00))[0 := CHR ''-'']) @ nat_digits ?n @ drop (1 + length (nat_digits ?n)) ((replicate 64 (CHR 0x00))[0 := CHR ''-''])"
      by (subst digit_loop_text) simp_all
    then show ?thesis using 2 by (simp add: dump_integer_def a count_digits_correct QString_number_def Let_def take_Suc hd_conv_nth)
  next
    case 3
    let ?n = "nat x"
    have "length (nat_digits ?n) \<le> 20" using l[of ?n] assms(2) by simp
    then have "digit_loop ?n (length (nat_digits ?n)) (replicate 64 (CHR 0x00)) =
        nat_digits ?n @ drop (length (nat_digits ?n)) (replicate 64 (CHR 0x00))"
      by (subst digit_loop_text) simp_all
    then show ?thesis using 3 by (simp add: dump_integer_def count_digits_correct QString_number_def Let_def)
  qed
qed

subsection \<open>Floating-point numbers\<close>

definition append_exponent :: "int \<Rightarrow> string" where
  "append_exponent e =
     (let k = nat \<bar>e\<bar>
      in (if e < 0 then ''-'' else ''+'') @
         (if k < 10 then ''0'' @ [digit_char k]
          else if k < 100 then [digit_char (k div 10), digit_char (k mod 10)]
          else [digit_char (k div 100), digit_char (k mod 100 div 10), digit_char (k mod 100 mod 10)]))"

definition format_buffer :: "string \<Rightarrow> int \<Rightarrow> int \<Rightarrow> int \<Rightarrow> string" where
  "format_buffer buf decimal_exponent min_exp max_exp =
     (let k = int (length buf); n = k + decimal_exponent
      in if k \<le> n \<and> n \<le> max_exp then buf @ replicate (nat (n - k)) (CHR ''0'') @ ''.0''
         else if 0 < n \<and> n \<le> max_exp then take (nat n) buf @ ''.'' @ drop (nat n) buf
         else if min_exp < n \<and> n \<le> 0 then ''0.'' @ replicate (nat (- n)) (CHR ''0'') @ buf
         else if k = 1 then buf @ ''e'' @ append_exponent (n - 1)
         else take 1 buf @ ''.'' @ drop 1 buf @ ''e'' @ append_exponent (n - 1))"

text \<open>\<^verbatim>\<open>digits10\<close> of a double is 15.\<close>

definition to_chars :: "(rat \<Rightarrow> string \<times> int) \<Rightarrow> rat \<Rightarrow> string" where
  "to_chars dtoa value =
     (let v = \<bar>value\<bar>;
          text = (if v = 0 then ''0.0'' else case dtoa v of (buf, decimal_exponent) \<Rightarrow> format_buffer buf decimal_exponent (- 4) 15)
      in if value < 0 then CHR ''-'' # text else text)"

subsection \<open>Values\<close>

text \<open>The indentation is a prefix of \<^verbatim>\<open>indent_string\<close>, of which the model has the length.\<close>

definition write_indent :: "nat \<Rightarrow> nat \<Rightarrow> string result" where
  "write_indent len n = (if n \<le> len then Inr (replicate n (CHR '' '')) else Inl (Undefined ''indent_string''))"

definition grow_indent :: "nat \<Rightarrow> nat \<Rightarrow> nat" where
  "grow_indent len new_indent = (if len < new_indent then len * 2 else len)"

text \<open>
  \<^verbatim>\<open>dump\<close> and its loops over the elements of an array and of an object. They return the text and the
  length of \<^verbatim>\<open>indent_string\<close>.
\<close>

fun dump_value ::
    "(rat \<Rightarrow> string \<times> int) \<Rightarrow> bool \<Rightarrow> bool \<Rightarrow> nat \<Rightarrow> nat \<Rightarrow> json \<Rightarrow> nat \<Rightarrow> (string \<times> nat) result"
  and dump_elements ::
    "(rat \<Rightarrow> string \<times> int) \<Rightarrow> bool \<Rightarrow> bool \<Rightarrow> nat \<Rightarrow> nat \<Rightarrow> json list \<Rightarrow> nat \<Rightarrow> (string \<times> nat) result"
  and dump_members ::
    "(rat \<Rightarrow> string \<times> int) \<Rightarrow> bool \<Rightarrow> bool \<Rightarrow> nat \<Rightarrow> nat \<Rightarrow> (string \<times> json) list \<Rightarrow> nat \<Rightarrow> (string \<times> nat) result" where
  "dump_value g pp ea step cur (Object kvs) len =
     (if kvs = [] then Inr (''{}'', len)
      else if pp
      then let new_indent = cur + step
           in bind_result (dump_members g True ea step new_indent kvs (grow_indent len new_indent)) (\<lambda>(body, len').
              bind_result (write_indent len' cur) (\<lambda>ind. Inr (''{'' @ [CHR 0x0A] @ body @ [CHR 0x0A] @ ind @ ''}'', len')))
      else bind_result (dump_members g False ea step cur kvs len) (\<lambda>(body, len'). Inr (''{'' @ body @ ''}'', len')))"
| "dump_value g pp ea step cur (Array js) len =
     (if js = [] then Inr (''[]'', len)
      else if pp
      then let new_indent = cur + step
           in bind_result (dump_elements g True ea step new_indent js (grow_indent len new_indent)) (\<lambda>(body, len').
              bind_result (write_indent len' cur) (\<lambda>ind. Inr (''['' @ [CHR 0x0A] @ body @ [CHR 0x0A] @ ind @ '']'', len')))
      else bind_result (dump_elements g False ea step cur js len) (\<lambda>(body, len'). Inr (''['' @ body @ '']'', len')))"
| "dump_value g pp ea step cur (Str s) len =
     bind_result (dump_escaped ea s) (\<lambda>t. Inr ([CHR 0x22] @ t @ [CHR 0x22], len))"
| "dump_value g pp ea step cur (Boolean b) len = Inr (if b then ''true'' else ''false'', len)"
| "dump_value g pp ea step cur (Integer i) len = Inr (dump_integer i, len)"
| "dump_value g pp ea step cur (Float r) len = Inr (to_chars g r, len)"
| "dump_value g pp ea step cur Null len = Inr (''null'', len)"
| "dump_elements g pp ea step ind [] len = Inr ([], len)"
| "dump_elements g pp ea step ind (j # js) len =
     bind_result (if pp then write_indent len ind else Inr []) (\<lambda>i.
     bind_result (dump_value g pp ea step ind j len) (\<lambda>(t, len1).
     if js = [] then Inr (i @ t, len1)
     else bind_result (dump_elements g pp ea step ind js len1) (\<lambda>(ts, len2).
            Inr (i @ t @ (if pp then '','' @ [CHR 0x0A] else '','') @ ts, len2))))"
| "dump_members g pp ea step ind [] len = Inr ([], len)"
| "dump_members g pp ea step ind ((k, j) # kvs) len =
     bind_result (if pp then write_indent len ind else Inr []) (\<lambda>i.
     bind_result (dump_escaped ea k) (\<lambda>key.
     bind_result (dump_value g pp ea step ind j len) (\<lambda>(t, len1).
     let member = i @ [CHR 0x22] @ key @ [CHR 0x22] @ (if pp then '': '' else '':'') @ t
     in if kvs = [] then Inr (member, len1)
        else bind_result (dump_members g pp ea step ind kvs len1) (\<lambda>(ts, len2).
               Inr (member @ (if pp then '','' @ [CHR 0x0A] else '','') @ ts, len2)))))"

text \<open>\<^verbatim>\<open>j.dump(indent)\<close>\<close>

definition json_dump :: "(rat \<Rightarrow> string \<times> int) \<Rightarrow> int \<Rightarrow> bool \<Rightarrow> json \<Rightarrow> string result" where
  "json_dump dtoa indent ensure_ascii j =
     bind_result
       (if indent \<ge> 0 then dump_value dtoa True ensure_ascii (nat indent) 0 j 512
        else dump_value dtoa False ensure_ascii 0 0 j 512) (\<lambda>(t, len). Inr t)"

subsection \<open>The written text\<close>

text \<open>All strings of a value are UTF-8.\<close>

fun json_utf8 :: "json \<Rightarrow> bool" and all_utf8 :: "json list \<Rightarrow> bool" and members_utf8 :: "(string \<times> json) list \<Rightarrow> bool" where
  "json_utf8 (Object kvs) = members_utf8 kvs"
| "json_utf8 (Array js) = all_utf8 js"
| "json_utf8 (Str s) = utf8 s"
| "json_utf8 _ = True"
| "all_utf8 [] = True"
| "all_utf8 (j # js) = (json_utf8 j \<and> all_utf8 js)"
| "members_utf8 [] = True"
| "members_utf8 ((k, j) # kvs) = (utf8 k \<and> json_utf8 j \<and> members_utf8 kvs)"

text \<open>The layout as a function of the value alone\<close>

definition indentation :: "bool \<Rightarrow> nat \<Rightarrow> string" where
  "indentation pp n = (if pp then replicate n (CHR '' '') else [])"

definition line_end :: "bool \<Rightarrow> string" where
  "line_end pp = (if pp then [CHR 0x0A] else [])"

definition quoted :: "string \<Rightarrow> string" where
  "quoted s = [CHR 0x22] @ escaped s @ [CHR 0x22]"

fun value_text :: "(rat \<Rightarrow> string \<times> int) \<Rightarrow> bool \<Rightarrow> nat \<Rightarrow> nat \<Rightarrow> json \<Rightarrow> string"
  and elements_text :: "(rat \<Rightarrow> string \<times> int) \<Rightarrow> bool \<Rightarrow> nat \<Rightarrow> nat \<Rightarrow> json list \<Rightarrow> string"
  and members_text :: "(rat \<Rightarrow> string \<times> int) \<Rightarrow> bool \<Rightarrow> nat \<Rightarrow> nat \<Rightarrow> (string \<times> json) list \<Rightarrow> string" where
  "value_text g pp step cur (Object kvs) =
     (if kvs = [] then ''{}''
      else ''{'' @ line_end pp @ members_text g pp step (if pp then cur + step else cur) kvs @ line_end pp @ indentation pp cur @ ''}'')"
| "value_text g pp step cur (Array js) =
     (if js = [] then ''[]''
      else ''['' @ line_end pp @ elements_text g pp step (if pp then cur + step else cur) js @ line_end pp @ indentation pp cur @ '']'')"
| "value_text g pp step cur (Str s) = quoted s"
| "value_text g pp step cur (Boolean b) = (if b then ''true'' else ''false'')"
| "value_text g pp step cur (Integer i) = dump_integer i"
| "value_text g pp step cur (Float r) = to_chars g r"
| "value_text g pp step cur Null = ''null''"
| "elements_text g pp step ind [] = []"
| "elements_text g pp step ind (j # js) =
     indentation pp ind @ value_text g pp step ind j @ (if js = [] then [] else '','' @ line_end pp @ elements_text g pp step ind js)"
| "members_text g pp step ind [] = []"
| "members_text g pp step ind ((k, j) # kvs) =
     indentation pp ind @ quoted k @ '':'' @ (if pp then '' '' else []) @ value_text g pp step ind j @
     (if kvs = [] then [] else '','' @ line_end pp @ members_text g pp step ind kvs)"

lemma grow_enough: "cur \<le> len \<Longrightarrow> step \<le> 512 \<Longrightarrow> 512 \<le> len \<Longrightarrow> cur + step \<le> grow_indent len (cur + step) \<and> len \<le> grow_indent len (cur + step)"
  by (simp add: grow_indent_def)

text \<open>
  The outcome of a part of the serializer: the text, with an indentation string that has not become
  shorter, or an exception.
\<close>

definition dumps :: "bool \<Rightarrow> nat \<Rightarrow> bool \<Rightarrow> string \<Rightarrow> (string \<times> nat) result \<Rightarrow> bool" where
  "dumps ea len ok t r \<longleftrightarrow>
     (if ok then \<exists>t' len'. r = Inr (t', len') \<and> len \<le> len' \<and> (\<not> ea \<longrightarrow> t' = t) else \<exists>m. r = Inl (StdException m))"

lemma dumps_Inr [simp]: "dumps ea len True t (Inr (t', len')) \<longleftrightarrow> len \<le> len' \<and> (\<not> ea \<longrightarrow> t' = t)"
  by (simp add: dumps_def)

lemma dumps_bind:
  assumes "dumps ea len ok1 t1 r" "ok \<longrightarrow> ok1"
    and "\<And>t' len'. r = Inr (t', len') \<Longrightarrow> ok1 \<Longrightarrow> len \<le> len' \<Longrightarrow> \<not> ea \<longrightarrow> t' = t1 \<Longrightarrow> dumps ea len ok t (f (t', len'))"
    and "\<not> ok1 \<Longrightarrow> \<not> ok"
  shows "dumps ea len ok t (bind_result r f)"
  using assms by (auto simp: dumps_def split: if_splits)

lemma dumps_escaped:
  assumes "ok \<longrightarrow> utf8 s" "\<And>t'. dump_escaped ea s = Inr t' \<Longrightarrow> utf8 s \<Longrightarrow> \<not> ea \<longrightarrow> t' = escaped s \<Longrightarrow> dumps ea len ok t (f t')"
  shows "dumps ea len ok t (bind_result (dump_escaped ea s) f)"
proof (cases "utf8 s")
  case True
  then obtain t' where t': "dump_escaped ea s = Inr t'" using dump_escaped_total[of s ea] by auto
  moreover have "\<not> ea \<longrightarrow> t' = escaped s" using t' dump_escaped_text[OF True] by (cases ea) auto
  ultimately show ?thesis using assms(2)[OF t' True] by simp
next
  case False
  then show ?thesis using dump_escaped_total[of s ea] assms(1) by (auto simp: dumps_def)
qed

lemma dumps_weaken: "dumps ea len' ok t r \<Longrightarrow> len \<le> len' \<Longrightarrow> dumps ea len ok t r"
  by (auto simp: dumps_def split: if_splits)

lemma dumps_join:
  assumes "dumps ea len ok1 t1 r" "\<And>t' len'. r = Inr (t', len') \<Longrightarrow> len \<le> len' \<Longrightarrow> \<not> fin \<Longrightarrow> dumps ea len ok2 t2 (q len')"
    and "fin \<Longrightarrow> ok2" "\<not> ea \<longrightarrow> p' = p"
  shows "dumps ea len (ok1 \<and> ok2) (p @ t1 @ (if fin then [] else sep @ t2))
    (bind_result r (\<lambda>(t, len1). if fin then Inr (p' @ t, len1)
       else bind_result (q len1) (\<lambda>(ts, len2). Inr (p' @ t @ sep @ ts, len2))))"
proof (rule dumps_bind[OF assms(1)])
  fix t' len'
  assume a: "r = Inr (t', len')" "ok1" "len \<le> len'" "\<not> ea \<longrightarrow> t' = t1"
  show "dumps ea len (ok1 \<and> ok2) (p @ t1 @ (if fin then [] else sep @ t2)) ((\<lambda>(t, len1). if fin then Inr (p' @ t, len1)
       else bind_result (q len1) (\<lambda>(ts, len2). Inr (p' @ t @ sep @ ts, len2))) (t', len'))"
  proof (cases fin)
    case True
    with a assms(3,4) show ?thesis by simp
  next
    case False
    have "dumps ea len (ok1 \<and> ok2) (p @ t1 @ sep @ t2) (bind_result (q len') (\<lambda>(ts, len2). Inr (p' @ t' @ sep @ ts, len2)))"
      by (rule dumps_bind[OF assms(2)[OF a(1,3) False]]) (use a(2,4) assms(4) in auto)
    with False show ?thesis by simp
  qed
qed simp_all

lemma line_sep: "(if pp then '','' @ [CHR 0x0A] else '','') = '','' @ line_end pp"
  by (simp add: line_end_def)

lemma colon_sep: "(if pp then '': '' else '':'') = '':'' @ (if pp then '' '' else [])"
  by simp

lemma indent_written: "pp \<longrightarrow> ind \<le> len \<Longrightarrow> (if pp then write_indent len ind else Inr []) = Inr (indentation pp ind)"
  by (simp add: write_indent_def indentation_def)

text \<open>The brackets around a body that is indented by one step more, if the layout is indented\<close>

lemma dumps_brackets:
  assumes "step \<le> 512" "512 \<le> len" "pp \<longrightarrow> cur \<le> len"
    and "\<And>len. 512 \<le> len \<Longrightarrow> pp \<longrightarrow> cur + step \<le> len \<Longrightarrow> dumps ea len ok t (body (if pp then cur + step else cur) len)"
  shows "dumps ea len ok ([l] @ line_end pp @ t @ line_end pp @ indentation pp cur @ [r])
    (if pp then bind_result (body (cur + step) (grow_indent len (cur + step))) (\<lambda>(b, len').
                bind_result (write_indent len' cur) (\<lambda>ind. Inr ([l] @ [CHR 0x0A] @ b @ [CHR 0x0A] @ ind @ [r], len')))
     else bind_result (body cur len) (\<lambda>(b, len'). Inr ([l] @ b @ [r], len')))"
proof (cases pp)
  case False
  with assms(4)[OF assms(2)] show ?thesis by (auto intro!: dumps_bind simp: line_end_def indentation_def)
next
  case True
  let ?l = "grow_indent len (cur + step)"
  have g: "cur + step \<le> ?l" "len \<le> ?l" using grow_enough[of cur len step] assms(1-3) True by auto
  have "dumps ea ?l ok t (body (cur + step) ?l)" using assms(4)[of ?l] assms(2) g True by auto
  from dumps_weaken[OF this g(2)] True assms(3) show ?thesis
    by (auto intro!: dumps_bind simp: line_end_def indentation_def write_indent_def)
qed

lemma dumps_element:
  assumes "dumps ea len (json_utf8 j) (value_text g pp step ind j) (dump_value g pp ea step ind j len)"
    and "\<And>len'. len \<le> len' \<Longrightarrow> js \<noteq> [] \<Longrightarrow> dumps ea len' (all_utf8 js) (elements_text g pp step ind js) (dump_elements g pp ea step ind js len')"
    and "pp \<longrightarrow> ind \<le> len"
  shows "dumps ea len (all_utf8 (j # js)) (elements_text g pp step ind (j # js)) (dump_elements g pp ea step ind (j # js) len)"
proof -
  have "dumps ea len (json_utf8 j \<and> all_utf8 js)
     (indentation pp ind @ value_text g pp step ind j @ (if js = [] then [] else ('','' @ line_end pp) @ elements_text g pp step ind js))
     (bind_result (dump_value g pp ea step ind j len) (\<lambda>(t, len1). if js = [] then Inr (indentation pp ind @ t, len1)
        else bind_result (dump_elements g pp ea step ind js len1) (\<lambda>(ts, len2). Inr (indentation pp ind @ t @ ('','' @ line_end pp) @ ts, len2))))"
    by (rule dumps_join[OF assms(1)]) (auto intro: dumps_weaken assms(2))
  then show ?thesis
    unfolding dump_elements.simps elements_text.simps all_utf8.simps indent_written[OF assms(3)] bind_result.simps line_sep append_assoc .
qed

lemma dumps_member:
  assumes "dumps ea len (json_utf8 j) (value_text g pp step ind j) (dump_value g pp ea step ind j len)"
    and "\<And>len'. len \<le> len' \<Longrightarrow> kvs \<noteq> [] \<Longrightarrow> dumps ea len' (members_utf8 kvs) (members_text g pp step ind kvs) (dump_members g pp ea step ind kvs len')"
    and "pp \<longrightarrow> ind \<le> len"
  shows "dumps ea len (members_utf8 ((k, j) # kvs)) (members_text g pp step ind ((k, j) # kvs)) (dump_members g pp ea step ind ((k, j) # kvs) len)"
  unfolding dump_members.simps indent_written[OF assms(3)] bind_result.simps
proof (rule dumps_escaped)
  fix key
  assume k: "dump_escaped ea k = Inr key" "utf8 k" "\<not> ea \<longrightarrow> key = escaped k"
  let ?p = "\<lambda>key. indentation pp ind @ [CHR 0x22] @ key @ [CHR 0x22] @ (if pp then '': '' else '':'')"
  have "dumps ea len (json_utf8 j \<and> members_utf8 kvs)
     (?p (escaped k) @ value_text g pp step ind j @ (if kvs = [] then [] else ('','' @ line_end pp) @ members_text g pp step ind kvs))
     (bind_result (dump_value g pp ea step ind j len) (\<lambda>(t, len1). if kvs = [] then Inr (?p key @ t, len1)
        else bind_result (dump_members g pp ea step ind kvs len1) (\<lambda>(ts, len2). Inr (?p key @ t @ ('','' @ line_end pp) @ ts, len2))))"
    by (rule dumps_join[OF assms(1)]) (auto intro: dumps_weaken assms(2) simp: k(3))
  then show "dumps ea len (members_utf8 ((k, j) # kvs)) (members_text g pp step ind ((k, j) # kvs))
     (bind_result (dump_value g pp ea step ind j len) (\<lambda>(t, len1).
      let member = indentation pp ind @ [CHR 0x22] @ key @ [CHR 0x22] @ (if pp then '': '' else '':'') @ t
      in if kvs = [] then Inr (member, len1)
         else bind_result (dump_members g pp ea step ind kvs len1) (\<lambda>(ts, len2).
                Inr (member @ (if pp then '','' @ [CHR 0x0A] else '','') @ ts, len2))))"
    unfolding members_text.simps members_utf8.simps quoted_def colon_sep line_sep Let_def append_assoc by (simp only: k(2) simp_thms)
qed simp

lemma dump_correct:
  "step \<le> 512 \<Longrightarrow> 512 \<le> len \<Longrightarrow> (pp \<longrightarrow> cur \<le> len) \<Longrightarrow>
   dumps ea len (json_utf8 j) (value_text g pp step cur j) (dump_value g pp ea step cur j len)"
  "step \<le> 512 \<Longrightarrow> 512 \<le> len \<Longrightarrow> (pp \<longrightarrow> ind \<le> len) \<Longrightarrow>
   dumps ea len (all_utf8 js) (elements_text g pp step ind js) (dump_elements g pp ea step ind js len)"
  "step \<le> 512 \<Longrightarrow> 512 \<le> len \<Longrightarrow> (pp \<longrightarrow> ind \<le> len) \<Longrightarrow>
   dumps ea len (members_utf8 kvs) (members_text g pp step ind kvs) (dump_members g pp ea step ind kvs len)"
proof (induction g pp step cur j and g pp step ind js and g pp step ind kvs arbitrary: len and len and len
    rule: value_text_elements_text_members_text.induct)
  case (1 g pp step cur kvs)
  show ?case
  proof (cases "kvs = []")
    case False
    with dumps_brackets[OF 1(2-4), of ea "members_utf8 kvs" _ "\<lambda>ind len. dump_members g pp ea step ind kvs len" "CHR ''{''" "CHR ''}''", OF "1.IH"]
    show ?thesis using "1.prems"(1) by (cases pp) (simp_all add: Let_def)
  qed simp
next
  case (2 g pp step cur js)
  show ?case
  proof (cases "js = []")
    case False
    with dumps_brackets[OF 2(2-4), of ea "all_utf8 js" _ "\<lambda>ind len. dump_elements g pp ea step ind js len" "CHR ''[''" "CHR '']''", OF "2.IH"]
    show ?thesis using "2.prems"(1) by (cases pp) (simp_all add: Let_def)
  qed simp
next
  case (3 g pp step cur s)
  show ?case by (auto intro!: dumps_escaped simp: quoted_def)
next
  case (9 g pp step ind j js)
  then show ?case by (intro dumps_element) auto
next
  case (11 g pp step ind k j kvs)
  then show ?case by (intro dumps_member) auto
qed (simp_all add: dumps_def)

text \<open>
  C13. The serializer writes a value exactly if all its strings and keys are UTF-8, and throws
  otherwise. Its fixed buffers are large enough: whatever the depth of the value and the indentation up
  to 512, no byte is written beyond the string buffer and none read beyond the indentation string.
\<close>

theorem dump_succeeds_iff:
  assumes "indent \<le> 512"
  shows "if json_utf8 j then \<exists>t. json_dump g indent ea j = Inr t else \<exists>m. json_dump g indent ea j = Inl (StdException m)"
proof -
  have "nat indent \<le> 512" using assms by simp
  from dump_correct(1)[OF this, of 512 True 0 ea j g] dump_correct(1)[of 0 512 False 0 ea j g] show ?thesis
    by (auto simp: json_dump_def dumps_def split: if_splits)
qed

lemma json_dump_text:
  assumes "json_utf8 j" "0 \<le> indent" "indent \<le> 512"
  shows "json_dump g indent False j = Inr (value_text g True (nat indent) 0 j)"
proof -
  have "nat indent \<le> 512" using assms(3) by simp
  from dump_correct(1)[OF this, of 512 True 0 False j g] assms(1,2) show ?thesis by (auto simp: json_dump_def dumps_def)
qed

theorem dump_succeeds_iff_witness:
  "(\<exists>t. json_dump (\<lambda>r. ([], 0)) 4 False (Array [Str ''a'', Null]) = Inr t) \<and>
   (\<exists>m. json_dump (\<lambda>r. ([], 0)) 4 False (Array [Str [CHR 0xFF]]) = Inl (StdException m))"
  using dump_succeeds_iff[of 4 "Array [Str ''a'', Null]" "\<lambda>r. ([], 0)" False]
    dump_succeeds_iff[of 4 "Array [Str [CHR 0xFF]]" "\<lambda>r. ([], 0)" False]
  by (simp add: lead_ranges_def)

end
