(* ===== verification/Json_Lexer.thy ===== *)
theory Json_Lexer
  imports Json_Writer
begin

text \<open>
  The lexer of \<^verbatim>\<open>3rd/nlohmannJson/json.hpp\<close>. Every function takes the input that is still to be
  read and returns what it scanned with the rest; \<^verbatim>\<open>unget\<close> leaves the character in that
  input. The positions and the copy of the token serve error messages only, and the text of a message
  is its first part. After an error nothing more is read. Comments are not skipped by the calls of the program, so that a slash is
  an error. The locale has a decimal point. The parameter \<^verbatim>\<open>rnd\<close> is the rounding of
  \<^verbatim>\<open>strtod\<close> to a double, with no value for an overflow; \<^verbatim>\<open>Doubles\<close> instantiates it.
\<close>

datatype token_type =
    literal_true | literal_false | literal_null
  | value_string string | value_unsigned int | value_integer int | value_float "rat option"
  | begin_array | begin_object | end_array | end_object | name_separator | value_separator
  | parse_error string | end_of_input

subsection \<open>Strings\<close>

definition hex_value :: "char \<Rightarrow> nat option" where
  "hex_value c =
     (let n = byte c
      in if 0x30 \<le> n \<and> n \<le> 0x39 then Some (n - 0x30)
         else if 0x41 \<le> n \<and> n \<le> 0x46 then Some (n - 0x37)
         else if 0x61 \<le> n \<and> n \<le> 0x66 then Some (n - 0x57) else None)"

fun get_codepoint :: "string \<Rightarrow> (nat \<times> string) option" where
  "get_codepoint (c1 # c2 # c3 # c4 # cs) =
     (case (hex_value c1, hex_value c2, hex_value c3, hex_value c4) of
        (Some d1, Some d2, Some d3, Some d4) \<Rightarrow> Some (d1 * 4096 + d2 * 256 + d3 * 16 + d4, cs)
      | _ \<Rightarrow> None)"
| "get_codepoint _ = None"

definition codepoint_bytes :: "nat \<Rightarrow> string" where
  "codepoint_bytes cp =
     (if cp < 0x80 then [char_of cp]
      else if cp \<le> 0x7FF then [char_of (0xC0 + cp div 64), char_of (0x80 + cp mod 64)]
      else if cp \<le> 0xFFFF
      then [char_of (0xE0 + cp div 4096), char_of (0x80 + cp div 64 mod 64), char_of (0x80 + cp mod 64)]
      else [char_of (0xF0 + cp div 262144), char_of (0x80 + cp div 4096 mod 64), char_of (0x80 + cp div 64 mod 64), char_of (0x80 + cp mod 64)])"

text \<open>After \<^verbatim>\<open>\u\<close>: an error, or the bytes and the rest\<close>

definition scan_unicode :: "string \<Rightarrow> string + string \<times> string" where
  "scan_unicode cs =
     (case get_codepoint cs of
        None \<Rightarrow> Inl ''invalid string: u must be followed by 4 hex digits''
      | Some (codepoint1, r) \<Rightarrow>
          if 0xD800 \<le> codepoint1 \<and> codepoint1 \<le> 0xDBFF
          then (case r of
                  c # u # r' \<Rightarrow>
                    if c = CHR 0x5C \<and> u = CHR ''u''
                    then (case get_codepoint r' of
                            None \<Rightarrow> Inl ''invalid string: u must be followed by 4 hex digits''
                          | Some (codepoint2, r2) \<Rightarrow>
                              if 0xDC00 \<le> codepoint2 \<and> codepoint2 \<le> 0xDFFF
                              then Inr (codepoint_bytes (codepoint1 * 1024 + codepoint2 - 0x35FDC00), r2)
                              else Inl ''invalid string: surrogate'')
                    else Inl ''invalid string: surrogate''
                | _ \<Rightarrow> Inl ''invalid string: surrogate'')
          else if 0xDC00 \<le> codepoint1 \<and> codepoint1 \<le> 0xDFFF then Inl ''invalid string: surrogate''
          else Inr (codepoint_bytes codepoint1, r))"

definition scan_escape :: "string \<Rightarrow> string + string \<times> string" where
  "scan_escape s =
     (case s of
        [] \<Rightarrow> Inl ''invalid string: forbidden character after backslash''
      | c # cs \<Rightarrow>
          if c = CHR 0x22 then Inr ([CHR 0x22], cs)
          else if c = CHR 0x5C then Inr ([CHR 0x5C], cs)
          else if c = CHR ''/'' then Inr (''/'', cs)
          else if c = CHR ''b'' then Inr ([CHR 0x08], cs)
          else if c = CHR ''f'' then Inr ([CHR 0x0C], cs)
          else if c = CHR ''n'' then Inr ([CHR 0x0A], cs)
          else if c = CHR ''r'' then Inr ([CHR 0x0D], cs)
          else if c = CHR ''t'' then Inr ([CHR 0x09], cs)
          else if c = CHR ''u'' then scan_unicode cs
          else Inl ''invalid string: forbidden character after backslash'')"

text \<open>One turn of the loop, for a character that is no quotation mark\<close>

definition scan_char :: "char \<Rightarrow> string \<Rightarrow> string + string \<times> string" where
  "scan_char c cs =
     (if c = CHR 0x5C then scan_escape cs
      else if byte c \<le> 0x1F then Inl ''invalid string: control character must be escaped''
      else (case lead_ranges (byte c) of
              None \<Rightarrow> Inl ''invalid string: ill-formed UTF-8 byte''
            | Some ranges \<Rightarrow>
                (case next_byte_in_range ranges cs of
                   None \<Rightarrow> Inl ''invalid string: ill-formed UTF-8 byte''
                 | Some (added, r) \<Rightarrow> Inr (c # added, r))))"

lemma get_codepoint_shorter: "get_codepoint cs = Some (cp, r) \<Longrightarrow> length r < length cs"
  by (cases cs rule: get_codepoint.cases) (auto split: option.splits)

lemma scan_unicode_shorter: "scan_unicode cs = Inr (a, r) \<Longrightarrow> length r < length cs"
  by (auto simp: scan_unicode_def dest!: get_codepoint_shorter split: option.splits if_splits list.splits)

lemma scan_escape_shorter: "scan_escape cs = Inr (a, r) \<Longrightarrow> length r < length cs"
  by (auto simp: scan_escape_def dest: scan_unicode_shorter split: if_splits list.splits)

lemma scan_char_shorter: "scan_char c cs = Inr (a, r) \<Longrightarrow> length r \<le> length cs"
  by (auto simp: scan_char_def dest!: scan_escape_shorter next_byte_in_range_split split: option.splits if_splits)

function scan_string :: "string \<Rightarrow> string \<Rightarrow> token_type \<times> string" where
  "scan_string token_buffer [] = (parse_error ''invalid string: missing closing quote'', [])"
| "scan_string token_buffer (c # cs) =
     (if c = CHR 0x22 then (value_string token_buffer, cs)
      else (case scan_char c cs of
              Inl message \<Rightarrow> (parse_error message, [])
            | Inr (added, r) \<Rightarrow> scan_string (token_buffer @ added) r))"
  by pat_completeness auto
termination
  by (relation "measure (\<lambda>(b, s). length s)") (auto dest: scan_char_shorter)

lemma scan_string_shorter: "scan_string b s = (t, r) \<Longrightarrow> length r \<le> length s"
proof (induction b s rule: scan_string.induct)
  case (2 b c cs)
  then show ?case by (auto dest!: scan_char_shorter split: if_splits sum.splits prod.splits) force
qed simp

subsection \<open>Numbers\<close>

datatype number_state = state_minus | state_zero | state_any1 | state_decimal1 | state_decimal2 | state_exponent | state_sign | state_any2

datatype number_type = type_unsigned | type_integer | type_float

definition is_digit :: "char \<Rightarrow> bool" where
  "is_digit c \<longleftrightarrow> char_digit c \<noteq> None"

definition is_exponent :: "char \<Rightarrow> bool" where
  "is_exponent c \<longleftrightarrow> c = CHR ''e'' \<or> c = CHR ''E''"

text \<open>What happens at each label if the next character ends the number, or if the input ends\<close>

fun number_done :: "number_state \<Rightarrow> number_type \<Rightarrow> string \<Rightarrow> string \<Rightarrow> string + number_type \<times> string \<times> string" where
  "number_done state_minus ty buf rest = Inl ''invalid number; expected digit after -''"
| "number_done state_decimal1 ty buf rest = Inl ''invalid number; expected digit after .''"
| "number_done state_exponent ty buf rest = Inl ''invalid number; expected +, -, or digit after exponent''"
| "number_done state_sign ty buf rest = Inl ''invalid number; expected digit after exponent sign''"
| "number_done st ty buf rest = Inr (ty, buf, rest)"

text \<open>The next label, and the type that is set there\<close>

fun number_next :: "number_state \<Rightarrow> char \<Rightarrow> number_state option" where
  "number_next state_minus c =
     (if c = CHR ''0'' then Some state_zero else if is_digit c then Some state_any1 else None)"
| "number_next state_zero c =
     (if c = CHR ''.'' then Some state_decimal1 else if is_exponent c then Some state_exponent else None)"
| "number_next state_any1 c =
     (if is_digit c then Some state_any1 else if c = CHR ''.'' then Some state_decimal1
      else if is_exponent c then Some state_exponent else None)"
| "number_next state_decimal1 c = (if is_digit c then Some state_decimal2 else None)"
| "number_next state_decimal2 c =
     (if is_digit c then Some state_decimal2 else if is_exponent c then Some state_exponent else None)"
| "number_next state_exponent c =
     (if c = CHR ''+'' \<or> c = CHR ''-'' then Some state_sign else if is_digit c then Some state_any2 else None)"
| "number_next state_sign c = (if is_digit c then Some state_any2 else None)"
| "number_next state_any2 c = (if is_digit c then Some state_any2 else None)"

definition number_at :: "number_state \<Rightarrow> number_type \<Rightarrow> number_type" where
  "number_at st ty = (if st = state_minus then type_integer else if st \<in> {state_decimal1, state_exponent} then type_float else ty)"

fun number_loop :: "number_state \<Rightarrow> number_type \<Rightarrow> string \<Rightarrow> string \<Rightarrow> string + number_type \<times> string \<times> string" where
  "number_loop st ty buf [] = number_done st (number_at st ty) buf []"
| "number_loop st ty buf (c # cs) =
     (case number_next st c of
        None \<Rightarrow> number_done st (number_at st ty) buf (c # cs)
      | Some st' \<Rightarrow> number_loop st' (number_at st ty) (buf @ [c]) cs)"

text \<open>The value of a numeral, exact; \<^verbatim>\<open>strtoull\<close>, \<^verbatim>\<open>strtoll\<close> and \<^verbatim>\<open>strtod\<close> of a text that the automaton accepted\<close>

definition digits_nat :: "string \<Rightarrow> nat" where
  "digits_nat ds = (case read_digits 0 ds of None \<Rightarrow> 0 | Some n \<Rightarrow> n)"

definition signed_nat :: "string \<Rightarrow> int" where
  "signed_nat s =
     (case s of
        [] \<Rightarrow> 0
      | c # cs \<Rightarrow> if c = CHR ''-'' then - int (digits_nat cs) else if c = CHR ''+'' then int (digits_nat cs) else int (digits_nat s))"

definition decimal_value :: "string \<Rightarrow> rat" where
  "decimal_value s =
     (let neg = (s \<noteq> [] \<and> hd s = CHR ''-'');
          t = (if neg then tl s else s);
          whole = takeWhile is_digit t;
          t1 = dropWhile is_digit t;
          point = (t1 \<noteq> [] \<and> hd t1 = CHR ''.'');
          fraction = (if point then takeWhile is_digit (tl t1) else []);
          t2 = (if point then dropWhile is_digit (tl t1) else t1);
          e = (if t2 \<noteq> [] then signed_nat (tl t2) else 0);
          v = of_nat (digits_nat (whole @ fraction)) * 10 powi (e - int (length fraction))
      in if neg then - v else v)"

definition number_token :: "(rat \<Rightarrow> rat option) \<Rightarrow> number_type \<Rightarrow> string \<Rightarrow> token_type" where
  "number_token rnd ty buf =
     (if ty = type_unsigned \<and> digits_nat buf < 2 ^ 64 then value_unsigned (int (digits_nat buf))
      else if ty = type_integer \<and> - (2 ^ 63) \<le> signed_nat buf \<and> signed_nat buf < 2 ^ 63 then value_integer (signed_nat buf)
      else value_float (rnd (decimal_value buf)))"

definition scan_number :: "(rat \<Rightarrow> rat option) \<Rightarrow> char \<Rightarrow> string \<Rightarrow> token_type \<times> string" where
  "scan_number rnd c cs =
     (case number_loop (if c = CHR ''-'' then state_minus else if c = CHR ''0'' then state_zero else state_any1) type_unsigned [c] cs of
        Inl message \<Rightarrow> (parse_error message, [])
      | Inr (ty, buf, r) \<Rightarrow> (number_token rnd ty buf, r))"

lemma number_loop_shorter: "number_loop st ty buf s = Inr (ty', buf', r) \<Longrightarrow> length r \<le> length s"
proof (induction st ty buf s rule: number_loop.induct)
  case (1 st ty buf)
  then show ?case by (cases st) auto
next
  case (2 st ty buf c cs)
  show ?case
  proof (cases "number_next st c")
    case None
    with 2(2) show ?thesis by (cases st) auto
  next
    case (Some st')
    with 2 show ?thesis by simp
  qed
qed

subsection \<open>Tokens\<close>

fun scan_literal :: "string \<Rightarrow> token_type \<Rightarrow> string \<Rightarrow> token_type \<times> string" where
  "scan_literal [] t cs = (t, cs)"
| "scan_literal (l # ls) t (c # cs) = (if c = l then scan_literal ls t cs else (parse_error ''invalid literal'', []))"
| "scan_literal (l # ls) t [] = (parse_error ''invalid literal'', [])"

definition is_whitespace :: "char \<Rightarrow> bool" where
  "is_whitespace c \<longleftrightarrow> c \<in> {CHR '' '', CHR 0x09, CHR 0x0A, CHR 0x0D}"

definition scan :: "(rat \<Rightarrow> rat option) \<Rightarrow> string \<Rightarrow> token_type \<times> string" where
  "scan rnd s =
     (case dropWhile is_whitespace s of
        [] \<Rightarrow> (end_of_input, [])
      | c # cs \<Rightarrow>
          if c = CHR ''['' then (begin_array, cs)
          else if c = CHR '']'' then (end_array, cs)
          else if c = CHR ''{'' then (begin_object, cs)
          else if c = CHR ''}'' then (end_object, cs)
          else if c = CHR '':'' then (name_separator, cs)
          else if c = CHR '','' then (value_separator, cs)
          else if c = CHR ''t'' then scan_literal ''rue'' literal_true cs
          else if c = CHR ''f'' then scan_literal ''alse'' literal_false cs
          else if c = CHR ''n'' then scan_literal ''ull'' literal_null cs
          else if c = CHR 0x22 then scan_string [] cs
          else if c = CHR ''-'' \<or> is_digit c then scan_number rnd c cs
          else if c = CHR 0x00 then (end_of_input, cs)
          else (parse_error ''invalid literal'', []))"

text \<open>The first call skips a byte order mark.\<close>

definition scan_first :: "(rat \<Rightarrow> rat option) \<Rightarrow> string \<Rightarrow> token_type \<times> string" where
  "scan_first rnd s =
     (if s \<noteq> [] \<and> hd s = CHR 0xEF
      then if length s \<ge> 3 \<and> s ! 1 = CHR 0xBB \<and> s ! 2 = CHR 0xBF then scan rnd (drop 3 s)
           else (parse_error ''invalid BOM'', [])
      else scan rnd s)"

lemma scan_literal_shorter: "scan_literal ls t s = (t', r) \<Longrightarrow> length r \<le> length s"
  by (induction ls t s rule: scan_literal.induct) (auto split: if_splits)

text \<open>A token other than the end of the input takes at least one character.\<close>

lemma scan_consumes:
  assumes "scan rnd s = (t, r)"
  shows "length r + (if t = end_of_input then 0 else 1) \<le> length s"
proof (cases "dropWhile is_whitespace s")
  case Nil
  with assms show ?thesis by (simp add: scan_def)
next
  case (Cons c cs)
  have l: "length cs < length s" using length_dropWhile_le[of is_whitespace s] Cons by simp
  have num: "length r' \<le> length cs" if "scan_number rnd c cs = (t', r')" for t' r'
    using that number_loop_shorter by (fastforce simp: scan_number_def split: sum.splits prod.splits)
  show ?thesis
    using assms Cons l scan_literal_shorter[of _ _ cs t r] scan_string_shorter[of "[]" cs t r] num[of t r]
    by (fastforce simp: scan_def split: if_splits)
qed

end
