(* ===== verification/Json_Parser.thy ===== *)
theory Json_Parser
  imports Json_Lexer
begin

text \<open>
  The parser of \<^verbatim>\<open>3rd/nlohmannJson/json.hpp\<close>: \<^verbatim>\<open>sax_parse_internal\<close> with its stack of
  states, and the handler \<^verbatim>\<open>json_sax_dom_parser\<close> that builds the value. The handler's stack of
  references into the value under construction is a stack of frames, the innermost first: the elements
  of an array so far, or the members of an object with the key whose value comes next. A finished frame
  is stored in the frame below it, where the code has kept it all the time. A failed assertion is undefined.
\<close>

subsection \<open>Building the value\<close>

datatype frame = Array_frame "json list" | Object_frame "(string \<times> json) list" "string option"

record json_sax_dom_parser =
  root :: json
  ref_stack :: "frame list"

fun handle_value :: "json \<Rightarrow> json_sax_dom_parser \<Rightarrow> json_sax_dom_parser result" where
  "handle_value v sdp =
     (case ref_stack sdp of
        [] \<Rightarrow> Inr (sdp\<lparr>root := v\<rparr>)
      | Array_frame js # fs \<Rightarrow> Inr (sdp\<lparr>ref_stack := Array_frame (js @ [v]) # fs\<rparr>)
      | Object_frame kvs (Some k) # fs \<Rightarrow> Inr (sdp\<lparr>ref_stack := Object_frame (obj_set k v kvs) (Some k) # fs\<rparr>)
      | Object_frame kvs None # fs \<Rightarrow> Inl (Undefined ''JSON_ASSERT(object_element)''))"

definition start_object :: "json_sax_dom_parser \<Rightarrow> json_sax_dom_parser" where
  "start_object sdp = sdp\<lparr>ref_stack := Object_frame [] None # ref_stack sdp\<rparr>"

definition start_array :: "json_sax_dom_parser \<Rightarrow> json_sax_dom_parser" where
  "start_array sdp = sdp\<lparr>ref_stack := Array_frame [] # ref_stack sdp\<rparr>"

definition sax_key :: "string \<Rightarrow> json_sax_dom_parser \<Rightarrow> json_sax_dom_parser result" where
  "sax_key k sdp =
     (case ref_stack sdp of
        Object_frame kvs k' # fs \<Rightarrow> Inr (sdp\<lparr>ref_stack := Object_frame kvs (Some k) # fs\<rparr>)
      | _ \<Rightarrow> Inl (Undefined ''JSON_ASSERT(is_object)''))"

definition end_of_object :: "json_sax_dom_parser \<Rightarrow> json_sax_dom_parser result" where
  "end_of_object sdp =
     (case ref_stack sdp of
        Object_frame kvs k # fs \<Rightarrow> handle_value (Object kvs) (sdp\<lparr>ref_stack := fs\<rparr>)
      | _ \<Rightarrow> Inl (Undefined ''JSON_ASSERT(is_object)''))"

definition end_of_array :: "json_sax_dom_parser \<Rightarrow> json_sax_dom_parser result" where
  "end_of_array sdp =
     (case ref_stack sdp of
        Array_frame js # fs \<Rightarrow> handle_value (Array js) (sdp\<lparr>ref_stack := fs\<rparr>)
      | _ \<Rightarrow> Inl (Undefined ''JSON_ASSERT(is_array)''))"

subsection \<open>The loop\<close>

definition unexpected :: "'a result" where
  "unexpected = Inl (StdException ''parse_error.101'')"

text \<open>What is still to be read, with the token in hand\<close>

definition parse_weight :: "token_type \<Rightarrow> string \<Rightarrow> nat" where
  "parse_weight t s = length s + (if t = end_of_input then 0 else 1)"

lemma parse_weight_token: "t \<noteq> end_of_input \<Longrightarrow> parse_weight t s = Suc (length s)"
  by (simp add: parse_weight_def)

lemma parse_weight_scan: "(case scan rnd s of (t, r) \<Rightarrow> 2 * parse_weight t r) \<le> 2 * length s"
  by (cases "scan rnd s") (auto simp: parse_weight_def dest: scan_consumes)

text \<open>
  \<^verbatim>\<open>parse_value\<close> is an iteration with the last token, and \<^verbatim>\<open>parse_state\<close> the evaluation of
  the state after a value; true is an array, false an object.
\<close>

function parse_value ::
    "(rat \<Rightarrow> rat option) \<Rightarrow> bool list \<Rightarrow> json_sax_dom_parser \<Rightarrow> token_type \<Rightarrow> string \<Rightarrow> (json_sax_dom_parser \<times> string) result"
  and parse_state ::
    "(rat \<Rightarrow> rat option) \<Rightarrow> bool list \<Rightarrow> json_sax_dom_parser \<Rightarrow> string \<Rightarrow> (json_sax_dom_parser \<times> string) result" where
  "parse_value rnd states sdp last_token s =
     (case last_token of
        begin_object \<Rightarrow>
          (case scan rnd s of (t1, s1) \<Rightarrow>
             if t1 = end_object
             then bind_result (end_of_object (start_object sdp)) (\<lambda>sdp'. parse_state rnd states sdp' s1)
             else (case t1 of
                     value_string k \<Rightarrow>
                       bind_result (sax_key k (start_object sdp)) (\<lambda>sdp'.
                       (case scan rnd s1 of (t2, s2) \<Rightarrow>
                          if t2 \<noteq> name_separator then unexpected
                          else (case scan rnd s2 of (t3, s3) \<Rightarrow> parse_value rnd (False # states) sdp' t3 s3)))
                   | _ \<Rightarrow> unexpected))
      | begin_array \<Rightarrow>
          (case scan rnd s of (t1, s1) \<Rightarrow>
             if t1 = end_array
             then bind_result (end_of_array (start_array sdp)) (\<lambda>sdp'. parse_state rnd states sdp' s1)
             else parse_value rnd (True # states) (start_array sdp) t1 s1)
      | value_float f \<Rightarrow>
          (case f of
             None \<Rightarrow> Inl (StdException ''out_of_range.406'')
           | Some r \<Rightarrow> bind_result (handle_value (Float r) sdp) (\<lambda>sdp'. parse_state rnd states sdp' s))
      | literal_false \<Rightarrow> bind_result (handle_value (Boolean False) sdp) (\<lambda>sdp'. parse_state rnd states sdp' s)
      | literal_null \<Rightarrow> bind_result (handle_value Null sdp) (\<lambda>sdp'. parse_state rnd states sdp' s)
      | literal_true \<Rightarrow> bind_result (handle_value (Boolean True) sdp) (\<lambda>sdp'. parse_state rnd states sdp' s)
      | value_integer i \<Rightarrow> bind_result (handle_value (Integer i) sdp) (\<lambda>sdp'. parse_state rnd states sdp' s)
      | value_string str \<Rightarrow> bind_result (handle_value (Str str) sdp) (\<lambda>sdp'. parse_state rnd states sdp' s)
      | value_unsigned i \<Rightarrow> bind_result (handle_value (Integer i) sdp) (\<lambda>sdp'. parse_state rnd states sdp' s)
      | parse_error message \<Rightarrow> Inl (StdException message)
      | _ \<Rightarrow> unexpected)"
| "parse_state rnd states sdp s =
     (case states of
        [] \<Rightarrow> Inr (sdp, s)
      | True # states' \<Rightarrow>
          (case scan rnd s of (t1, s1) \<Rightarrow>
             if t1 = value_separator then (case scan rnd s1 of (t2, s2) \<Rightarrow> parse_value rnd states sdp t2 s2)
             else if t1 = end_array then bind_result (end_of_array sdp) (\<lambda>sdp'. parse_state rnd states' sdp' s1)
             else unexpected)
      | False # states' \<Rightarrow>
          (case scan rnd s of (t1, s1) \<Rightarrow>
             if t1 = value_separator
             then (case scan rnd s1 of (t2, s2) \<Rightarrow>
                     (case t2 of
                        value_string k \<Rightarrow>
                          bind_result (sax_key k sdp) (\<lambda>sdp'.
                          (case scan rnd s2 of (t3, s3) \<Rightarrow>
                             if t3 \<noteq> name_separator then unexpected
                             else (case scan rnd s3 of (t4, s4) \<Rightarrow> parse_value rnd states sdp' t4 s4)))
                      | _ \<Rightarrow> unexpected))
             else if t1 = end_object then bind_result (end_of_object sdp) (\<lambda>sdp'. parse_state rnd states' sdp' s1)
             else unexpected))"
  by pat_completeness auto
termination
  by (relation "measure (\<lambda>x. case x of Inl (rnd, states, sdp, t, s) \<Rightarrow> 2 * parse_weight t s | Inr (rnd, states, sdp, s) \<Rightarrow> 2 * length s + 1)")
     (auto simp: parse_weight_token dest!: scan_consumes[OF sym] intro!: le_less_trans[OF parse_weight_scan])

declare parse_value.simps [simp del] parse_state.simps [simp del]

text \<open>\<^verbatim>\<open>operator>>\<close>: the value, and what of the input is not read\<close>

definition json_parse :: "(rat \<Rightarrow> rat option) \<Rightarrow> string \<Rightarrow> (json \<times> string) result" where
  "json_parse rnd text =
     (case scan_first rnd text of (t, s) \<Rightarrow>
        bind_result (parse_value rnd [] \<lparr>root = Null, ref_stack = []\<rparr> t s) (\<lambda>(sdp, rest). Inr (root sdp, rest)))"

subsection \<open>The assertions hold\<close>

text \<open>The two stacks agree, and a value that comes next has a place.\<close>

fun frame_ok :: "bool \<Rightarrow> frame \<Rightarrow> bool" where
  "frame_ok st (Array_frame js) = st"
| "frame_ok st (Object_frame kvs k) = (\<not> st \<and> k \<noteq> None)"

definition stacks_agree :: "bool list \<Rightarrow> json_sax_dom_parser \<Rightarrow> bool" where
  "stacks_agree states sdp \<longleftrightarrow> list_all2 frame_ok states (ref_stack sdp)"

lemma handle_value_ok:
  assumes "stacks_agree states sdp"
  shows "\<exists>sdp'. handle_value v sdp = Inr sdp' \<and> stacks_agree states sdp'"
proof (cases "ref_stack sdp")
  case (Cons f fs)
  then show ?thesis using assms by (cases f) (auto simp: stacks_agree_def list_all2_Cons2)
qed (use assms in \<open>simp add: stacks_agree_def\<close>)

lemma stacks_agree_True: "stacks_agree (True # states) sdp \<longleftrightarrow> (\<exists>js fs. ref_stack sdp = Array_frame js # fs \<and> list_all2 frame_ok states fs)"
  unfolding stacks_agree_def list_all2_Cons1 by (auto elim: frame_ok.elims)

lemma stacks_agree_False:
  "stacks_agree (False # states) sdp \<longleftrightarrow> (\<exists>kvs k fs. ref_stack sdp = Object_frame kvs (Some k) # fs \<and> list_all2 frame_ok states fs)"
  unfolding stacks_agree_def list_all2_Cons1 by (auto elim: frame_ok.elims)

lemma end_of_array_ok: "stacks_agree (True # states) sdp \<Longrightarrow> \<exists>sdp'. end_of_array sdp = Inr sdp' \<and> stacks_agree states sdp'"
  by (auto simp: stacks_agree_True end_of_array_def intro!: handle_value_ok simp del: handle_value.simps) (simp add: stacks_agree_def)

lemma end_of_object_ok: "stacks_agree (False # states) sdp \<Longrightarrow> \<exists>sdp'. end_of_object sdp = Inr sdp' \<and> stacks_agree states sdp'"
  by (auto simp: stacks_agree_False end_of_object_def intro!: handle_value_ok simp del: handle_value.simps) (simp add: stacks_agree_def)

lemma start_array_ok: "stacks_agree states sdp \<Longrightarrow> stacks_agree (True # states) (start_array sdp)"
  by (simp add: stacks_agree_def start_array_def)

lemma empty_object_ok: "stacks_agree states sdp \<Longrightarrow> \<exists>sdp'. end_of_object (start_object sdp) = Inr sdp' \<and> stacks_agree states sdp'"
  by (auto simp: start_object_def end_of_object_def stacks_agree_def intro!: handle_value_ok[unfolded stacks_agree_def] simp del: handle_value.simps)

lemma first_key_ok: "stacks_agree states sdp \<Longrightarrow> \<exists>sdp'. sax_key k (start_object sdp) = Inr sdp' \<and> stacks_agree (False # states) sdp'"
  by (simp add: start_object_def sax_key_def stacks_agree_def)

lemma next_key_ok: "stacks_agree (False # states) sdp \<Longrightarrow> \<exists>sdp'. sax_key k sdp = Inr sdp' \<and> stacks_agree (False # states) sdp'"
  by (auto simp: stacks_agree_False sax_key_def)

definition defined_result :: "'a result \<Rightarrow> bool" where
  "defined_result r \<longleftrightarrow> (case r of Inl e \<Rightarrow> \<exists>m. e = StdException m | Inr x \<Rightarrow> True)"

lemma defined_unexpected [simp]: "defined_result unexpected" "defined_result (Inr x)" "defined_result (Inl (StdException m))"
  by (simp_all add: defined_result_def unexpected_def)

lemma defined_bind: "\<exists>x. r = Inr x \<and> P x \<Longrightarrow> (\<And>x. r = Inr x \<Longrightarrow> P x \<Longrightarrow> defined_result (f x)) \<Longrightarrow> defined_result (bind_result r f)"
  by auto

lemma parse_defined:
  "stacks_agree states sdp \<Longrightarrow> defined_result (parse_value rnd states sdp t s)"
  "stacks_agree states sdp \<Longrightarrow> defined_result (parse_state rnd states sdp s)"
proof (induction rnd states sdp t s and rnd states sdp s rule: parse_value_parse_state.induct)
  case (1 rnd states sdp t s)
  note hv = defined_bind[OF handle_value_ok[OF "1.prems"]]
  note [simp del] = handle_value.simps
  show ?case
  proof (cases t)
    case begin_object
    then show ?thesis
      using 1 unfolding parse_value.simps[of rnd states sdp t s]
      by (auto split: token_type.splits prod.splits intro!: defined_bind[OF empty_object_ok] defined_bind[OF first_key_ok])
  next
    case begin_array
    then show ?thesis
      using 1 start_array_ok[OF "1.prems"] unfolding parse_value.simps[of rnd states sdp t s]
      by (auto split: prod.splits intro!: defined_bind[OF end_of_array_ok])
  next
    case (value_float f)
    then show ?thesis using 1 by (subst parse_value.simps) (auto split: option.splits intro!: hv)
  qed (use 1 in \<open>subst parse_value.simps, auto intro!: hv\<close>)+
next
  case (2 rnd states sdp s)
  then show ?case
    by (subst parse_state.simps)
       (auto simp del: handle_value.simps split: list.splits bool.splits token_type.splits prod.splits
         intro!: defined_bind[OF end_of_object_ok] defined_bind[OF next_key_ok] defined_bind[OF end_of_array_ok])
qed

text \<open>
  C14. Reading is defined for every text: the parser returns a value or throws, it ends on every input,
  and no assertion about its stacks can fail.
\<close>

theorem parser_is_total: "(\<exists>j rest. json_parse rnd s = Inr (j, rest)) \<or> (\<exists>m. json_parse rnd s = Inl (StdException m))"
proof -
  obtain t r where "scan_first rnd s = (t, r)" by (meson surj_pair)
  moreover have "defined_result (parse_value rnd [] \<lparr>root = Null, ref_stack = []\<rparr> t r)"
    by (rule parse_defined) (simp add: stacks_agree_def)
  ultimately show ?thesis by (auto simp: json_parse_def defined_result_def split: sum.splits)
qed

end
