(* ===== verification/Json_Text.thy ===== *)
theory Json_Text
  imports Json_Parser
begin

text \<open>
  The text of JSON values: reading what the serializer wrote gives the value back. The lexer
  recognises the written strings and numbers, and the parser rebuilds arrays and objects.
\<close>

subsection \<open>Strings\<close>

lemma hex_value_char: "d < 16 \<Longrightarrow> hex_value (hex_char d) = Some d"
  by (auto simp: hex_value_def hex_char_def Let_def)

lemma scan_unicode_hex4: "n \<le> 0x7F \<Longrightarrow> scan_unicode (hex4 n @ r) = Inr ([char_of n], r)"
proof -
  assume n: "n \<le> 0x7F"
  have "n div 4096 = 0" "n div 256 = 0" using n by simp_all
  then have "get_codepoint (hex4 n @ r) = Some (n, r)"
    using n by (simp add: hex4_def hex_value_char)
  then show ?thesis using n by (simp add: scan_unicode_def codepoint_bytes_def)
qed

lemma next_byte_high: "list_all (\<lambda>(lo, hi). 0x80 \<le> lo) rs \<Longrightarrow> next_byte_in_range rs s = Some (a, r) \<Longrightarrow> x \<in> set a \<Longrightarrow> 0x80 \<le> byte x"
  by (induction rs s arbitrary: a rule: next_byte_in_range.induct) (auto split: if_splits)

lemma lead_ranges_high: "lead_ranges b = Some rs \<Longrightarrow> list_all (\<lambda>(lo, hi). 0x80 \<le> lo) rs"
  by (auto simp: lead_ranges_def split: if_splits)

lemma escaped_high: "(\<And>x. x \<in> set a \<Longrightarrow> 0x80 \<le> byte x) \<Longrightarrow> escaped (a @ r) = a @ escaped r"
  by (induction a) (simp_all add: escape_high)

lemma next_byte_in_range_prefix: "next_byte_in_range rs (a @ r) = Some (a, r) \<Longrightarrow> next_byte_in_range rs (a @ x) = Some (a, x)"
  by (induction rs a rule: next_byte_in_range.induct) (auto dest: next_byte_in_range_split split: if_splits)

lemma byte_special:
  "byte c = 0x08 \<longleftrightarrow> c = CHR 0x08" "byte c = 0x09 \<longleftrightarrow> c = CHR 0x09" "byte c = 0x0A \<longleftrightarrow> c = CHR 0x0A"
  "byte c = 0x0C \<longleftrightarrow> c = CHR 0x0C" "byte c = 0x0D \<longleftrightarrow> c = CHR 0x0D" "byte c = 0x22 \<longleftrightarrow> c = CHR 0x22" "byte c = 0x5C \<longleftrightarrow> c = CHR 0x5C"
  using of_char_eq_iff[where ?'a = nat, of c "CHR 0x08"] of_char_eq_iff[where ?'a = nat, of c "CHR 0x09"]
    of_char_eq_iff[where ?'a = nat, of c "CHR 0x0A"] of_char_eq_iff[where ?'a = nat, of c "CHR 0x0C"]
    of_char_eq_iff[where ?'a = nat, of c "CHR 0x0D"] of_char_eq_iff[where ?'a = nat, of c "CHR 0x22"]
    of_char_eq_iff[where ?'a = nat, of c "CHR 0x5C"]
  by simp_all

lemma escape_plain:
  "0x20 \<le> byte c \<Longrightarrow> byte c \<noteq> 0x22 \<Longrightarrow> byte c \<noteq> 0x5C \<Longrightarrow> fst (escape False (byte c) c) = [c]"
  by (simp add: escape_def)

lemma scan_char_escape:
  assumes "byte c \<le> 0x7F"
  shows "\<exists>x y. fst (escape False (byte c) c) = x # y \<and> x \<noteq> CHR 0x22 \<and> scan_char x (y @ r) = Inr ([c], r)"
proof -
  consider "byte c \<in> {0x08, 0x09, 0x0A, 0x0C, 0x0D, 0x22, 0x5C}"
    | "byte c \<le> 0x1F" "byte c \<notin> {0x08, 0x09, 0x0A, 0x0C, 0x0D, 0x22, 0x5C}"
    | "0x20 \<le> byte c" "byte c \<noteq> 0x22" "byte c \<noteq> 0x5C" by fastforce
  then show ?thesis
  proof cases
    case 1
    then have "c \<in> {CHR 0x08, CHR 0x09, CHR 0x0A, CHR 0x0C, CHR 0x0D, CHR 0x22, CHR 0x5C}"
      by (simp only: byte_special insert_iff empty_iff)
    then show ?thesis by (auto simp: escape_def scan_char_def scan_escape_def)
  next
    case 2
    then show ?thesis
      using scan_unicode_hex4[of "byte c" r] by (simp add: escape_def scan_char_def scan_escape_def)
  next
    case 3
    then have "c \<noteq> CHR 0x22" "c \<noteq> CHR 0x5C" by auto
    with 3 assms lead_Nil[of "byte c"] show ?thesis by (simp add: escape_plain scan_char_def)
  qed
qed

lemma scan_string_escaped: "utf8 s \<Longrightarrow> scan_string b (escaped s @ CHR 0x22 # r) = (value_string (b @ s), r)"
proof (induction s arbitrary: b rule: length_induct)
  case (1 s)
  show ?case
  proof (cases s)
    case (Cons c cs)
    then obtain rs where rs: "lead_ranges (byte c) = Some rs" "utf8_from rs cs"
      using "1.prems" by (auto split: option.splits)
    show ?thesis
    proof (cases "byte c \<le> 0x7F")
      case True
      with rs have "utf8 cs" using lead_Nil[of "byte c"] by simp
      moreover obtain x y where "fst (escape False (byte c) c) = x # y" "x \<noteq> CHR 0x22"
          "scan_char x (y @ escaped cs @ CHR 0x22 # r) = Inr ([c], escaped cs @ CHR 0x22 # r)"
        using scan_char_escape[OF True] by blast
      ultimately show ?thesis using "1.IH" Cons by simp
    next
      case False
      from rs(2) obtain a r' where a: "next_byte_in_range rs cs = Some (a, r')" "utf8 r'"
        unfolding utf8_from_next[of rs] by (auto split: option.splits)
      then have cs: "cs = a @ r'" using next_byte_in_range_split by blast
      have "escaped s = c # a @ escaped r'"
        using False Cons cs escape_high[of "byte c" c] escaped_high[of a r'] next_byte_high[OF lead_ranges_high[OF rs(1)] a(1)] by simp
      moreover have "scan_char c (a @ escaped r' @ CHR 0x22 # r) = Inr (c # a, escaped r' @ CHR 0x22 # r)"
        using False rs(1) next_byte_in_range_prefix[of rs a r'] a(1) cs by (auto simp: scan_char_def)
      moreover have "c \<noteq> CHR 0x22" using False by auto
      ultimately show ?thesis using "1.IH" Cons a(2) cs by simp
    qed
  qed simp
qed

subsection \<open>Numbers\<close>

text \<open>What may follow a number: nothing that could belong to it\<close>

definition no_number :: "string \<Rightarrow> bool" where
  "no_number r \<longleftrightarrow> r = [] \<or> \<not> is_digit (hd r) \<and> \<not> is_exponent (hd r) \<and> hd r \<noteq> CHR ''.''"

lemma is_digit_digit_char [simp]: "d < 10 \<Longrightarrow> is_digit (digit_char d)"
  by (simp add: is_digit_def)

lemma not_digits [simp]:
  "\<not> is_digit (CHR ''.'')" "\<not> is_digit (CHR ''e'')" "\<not> is_digit (CHR ''+'')" "\<not> is_digit (CHR ''-'')" "is_digit (CHR ''0'')"
  by (simp_all add: is_digit_def char_digit_def)

lemma digit_not_exponent: "is_digit c \<Longrightarrow> \<not> is_exponent c"
  by (auto simp: is_digit_def is_exponent_def char_digit_def)

lemma number_digits:
  "list_all is_digit ds \<Longrightarrow> st \<in> {state_any1, state_decimal2, state_any2} \<Longrightarrow> number_loop st ty buf (ds @ r) = number_loop st ty (buf @ ds) r"
  by (induction ds arbitrary: buf) (auto simp: number_at_def)

lemma number_stop:
  assumes "no_number r" "st \<in> {state_zero, state_any1, state_decimal2, state_any2}"
  shows "number_loop st ty buf r = Inr (ty, buf, r)"
  using assms by (cases r) (auto simp: no_number_def number_at_def)

definition exponent_text :: "int option \<Rightarrow> string" where
  "exponent_text x = (case x of None \<Rightarrow> [] | Some e \<Rightarrow> CHR ''e'' # append_exponent e)"

definition float_text :: "string \<Rightarrow> string \<Rightarrow> int option \<Rightarrow> string" where
  "float_text whole fraction x = whole @ (if fraction = [] then [] else CHR ''.'' # fraction) @ exponent_text x"

definition float_parts :: "string \<Rightarrow> string \<Rightarrow> int option \<Rightarrow> bool" where
  "float_parts whole fraction x \<longleftrightarrow>
     whole \<noteq> [] \<and> list_all is_digit (whole @ fraction) \<and> (hd whole = CHR ''0'' \<longrightarrow> whole = ''0'') \<and>
     (fraction \<noteq> [] \<or> x \<noteq> None) \<and> (\<forall>e. x = Some e \<longrightarrow> \<bar>e\<bar> < 1000)"

definition exponent_digits :: "nat \<Rightarrow> string" where
  "exponent_digits k =
     (if k < 10 then ''0'' @ [digit_char k]
      else if k < 100 then [digit_char (k div 10), digit_char (k mod 10)]
      else [digit_char (k div 100), digit_char (k mod 100 div 10), digit_char (k mod 100 mod 10)])"

lemma append_exponent_parts: "append_exponent e = (if e < 0 then CHR ''-'' else CHR ''+'') # exponent_digits (nat \<bar>e\<bar>)"
  by (simp add: append_exponent_def exponent_digits_def Let_def)

lemma exponent_digits_ok: "k < 1000 \<Longrightarrow> list_all is_digit (exponent_digits k) \<and> exponent_digits k \<noteq> []"
  by (auto simp: exponent_digits_def)

lemma number_exponent:
  assumes "no_number r" "st \<in> {state_zero, state_any1, state_decimal2}" "\<forall>e. x = Some e \<longrightarrow> \<bar>e\<bar> < 1000"
  shows "number_loop st ty buf (exponent_text x @ r) = Inr (if x = None then ty else type_float, buf @ exponent_text x, r)"
proof (cases x)
  case None
  with assms show ?thesis by (auto simp: exponent_text_def number_stop)
next
  case (Some e)
  have "nat \<bar>e\<bar> < 1000" using assms(3) Some by simp
  then obtain d ds where d: "exponent_digits (nat \<bar>e\<bar>) = d # ds" "is_digit d" "list_all is_digit ds"
    using exponent_digits_ok[of "nat \<bar>e\<bar>"] by (cases "exponent_digits (nat \<bar>e\<bar>)") auto
  show ?thesis
    using assms(1,2) Some d number_digits[of ds state_any2 type_float] number_stop[of r state_any2 type_float]
    by (auto simp: exponent_text_def append_exponent_parts is_exponent_def number_at_def)
qed

lemma number_float:
  assumes "float_parts (c # cs) fs x" "no_number r"
  shows "number_loop (if c = CHR ''0'' then state_zero else state_any1) ty [c] (cs @ (if fs = [] then [] else CHR ''.'' # fs) @ exponent_text x @ r) =
     Inr (type_float, float_text (c # cs) fs x, r)"
proof -
  let ?st = "if c = CHR ''0'' then state_zero else state_any1"
  let ?t = "(if fs = [] then [] else CHR ''.'' # fs) @ exponent_text x @ r"
  have p: "list_all is_digit cs" "list_all is_digit fs" "fs \<noteq> [] \<or> x \<noteq> None" "\<forall>e. x = Some e \<longrightarrow> \<bar>e\<bar> < 1000" "c = CHR ''0'' \<longrightarrow> cs = []"
    using assms(1) by (auto simp: float_parts_def)
  have w: "number_loop ?st ty [c] (cs @ ?t) = number_loop ?st ty (c # cs) ?t" using p(1,5) by (auto simp: number_digits)
  show ?thesis
  proof (cases fs)
    case Nil
    with w p number_exponent[OF assms(2), of ?st x ty "c # cs"] show ?thesis by (auto simp: float_text_def)
  next
    case (Cons f fs')
    then have "number_loop ?st ty (c # cs) ?t = number_loop state_decimal2 type_float (c # cs @ CHR ''.'' # fs) (exponent_text x @ r)"
      using p(2) number_digits[of fs' state_decimal2 type_float] by (auto simp: number_at_def)
    with w p number_exponent[OF assms(2), of state_decimal2 x type_float] Cons show ?thesis by (auto simp: float_text_def)
  qed
qed

text \<open>Values\<close>

lemma read_digits_acc: "list_all is_digit ds \<Longrightarrow> read_digits acc ds = Some (acc * 10 ^ length ds + digits_nat ds)"
proof (induction ds arbitrary: acc)
  case (Cons c ds)
  then obtain d where "char_digit c = Some d" by (auto simp: is_digit_def)
  with Cons.IH[of d] Cons.IH[of "10 * acc + d"] Cons.prems show ?case by (simp add: digits_nat_def algebra_simps)
qed (simp add: digits_nat_def)

lemma digits_nat_append:
  assumes "list_all is_digit (xs @ ys)"
  shows "digits_nat (xs @ ys) = digits_nat xs * 10 ^ length ys + digits_nat ys"
proof -
  have "read_digits 0 (xs @ ys) = Some (digits_nat xs * 10 ^ length ys + digits_nat ys)"
    using assms by (simp add: read_digits_append read_digits_acc)
  then show ?thesis by (simp add: digits_nat_def[of "xs @ ys"])
qed

lemma digits_nat_simps [simp]: "digits_nat [] = 0" "d < 10 \<Longrightarrow> digits_nat [digit_char d] = d" "digits_nat ''0'' = 0"
  by (simp_all add: digits_nat_def) (simp add: char_digit_def)

lemma zeros_digits [simp]: "list_all is_digit (replicate k (CHR ''0''))"
  by (simp add: list_all_iff)

lemma digits_nat_zeros [simp]: "digits_nat (replicate k (CHR ''0'')) = 0"
proof (induction k)
  case (Suc k)
  then show ?case using digits_nat_append[of "''0''" "replicate k (CHR ''0'')"] by simp
qed simp

lemma exponent_digits_value: "k < 1000 \<Longrightarrow> digits_nat (exponent_digits k) = k"
proof -
  assume k: "k < 1000"
  consider "k < 10" | "10 \<le> k" "k < 100" | "100 \<le> k" by linarith
  then show ?thesis
  proof cases
    case 1
    then show ?thesis using digits_nat_append[of "''0''" "[digit_char k]"] by (simp add: exponent_digits_def)
  next
    case 2
    then show ?thesis
      using digits_nat_append[of "[digit_char (k div 10)]" "[digit_char (k mod 10)]"] by (simp add: exponent_digits_def)
  next
    case 3
    have "k div 100 < 10" "k mod 100 div 10 < 10" using k by auto
    then show ?thesis
      using 3 digits_nat_append[of "[digit_char (k div 100)]" "[digit_char (k mod 100 div 10), digit_char (k mod 100 mod 10)]"]
        digits_nat_append[of "[digit_char (k mod 100 div 10)]" "[digit_char (k mod 100 mod 10)]"]
      by (simp add: exponent_digits_def)
  qed
qed

lemma signed_exponent: "\<bar>e\<bar> < 1000 \<Longrightarrow> signed_nat (append_exponent e) = e"
  using exponent_digits_value[of "nat \<bar>e\<bar>"] by (simp add: append_exponent_parts signed_nat_def)

definition exponent_value :: "int option \<Rightarrow> int" where
  "exponent_value x = (case x of None \<Rightarrow> 0 | Some e \<Rightarrow> e)"

lemma takeWhile_digits:
  "list_all is_digit ds \<Longrightarrow> r = [] \<or> \<not> is_digit (hd r) \<Longrightarrow> takeWhile is_digit (ds @ r) = ds \<and> dropWhile is_digit (ds @ r) = r"
  by (induction ds) (cases r; auto)+

lemma decimal_value_float:
  assumes "float_parts whole fs x"
  shows "decimal_value (float_text whole fs x) = of_nat (digits_nat (whole @ fs)) * 10 powi (exponent_value x - int (length fs))"
    "decimal_value (CHR ''-'' # float_text whole fs x) = - decimal_value (float_text whole fs x)"
proof -
  let ?f = "if fs = [] then [] else CHR ''.'' # fs"
  have p: "list_all is_digit whole" "list_all is_digit fs" "whole \<noteq> []" "\<forall>e. x = Some e \<longrightarrow> \<bar>e\<bar> < 1000" "is_digit (hd whole)"
    using assms by (auto simp: float_parts_def list_all_iff)
  have x: "exponent_text x = [] \<or> \<not> is_digit (hd (exponent_text x)) \<and> hd (exponent_text x) \<noteq> CHR ''.''"
    "(if exponent_text x \<noteq> [] then signed_nat (tl (exponent_text x)) else 0) = exponent_value x"
    using p(4) signed_exponent by (auto simp: exponent_text_def exponent_value_def split: option.splits)
  have w: "takeWhile is_digit (whole @ ?f @ exponent_text x) = whole" "dropWhile is_digit (whole @ ?f @ exponent_text x) = ?f @ exponent_text x"
    using takeWhile_digits[OF p(1), of "?f @ exponent_text x"] x(1) by auto
  have f: "takeWhile is_digit (fs @ exponent_text x) = fs" "dropWhile is_digit (fs @ exponent_text x) = exponent_text x"
    using takeWhile_digits[OF p(2), of "exponent_text x"] x(1) by auto
  have h: "hd (float_text whole fs x) \<noteq> CHR ''-''" "float_text whole fs x \<noteq> []"
    using p(3,5) by (auto simp: float_text_def)
  show "decimal_value (float_text whole fs x) = of_nat (digits_nat (whole @ fs)) * 10 powi (exponent_value x - int (length fs))"
    using h(1) x f w unfolding decimal_value_def Let_def float_text_def by (cases fs) auto
  show "decimal_value (CHR ''-'' # float_text whole fs x) = - decimal_value (float_text whole fs x)"
    using h by (simp add: decimal_value_def Let_def)
qed

text \<open>The five shapes of \<^verbatim>\<open>format_buffer\<close>\<close>

lemma format_buffer_parts:
  assumes "buf \<noteq> []" "list_all is_digit buf" "hd buf \<noteq> CHR ''0''" "\<bar>int (length buf) + e\<bar> < 999"
  shows "\<exists>whole fs x. float_parts whole fs x \<and> format_buffer buf e (- 4) 15 = float_text whole fs x \<and>
     of_nat (digits_nat (whole @ fs)) * 10 powi (exponent_value x - int (length fs)) = of_nat (digits_nat buf) * (10 powi e :: rat)"
proof -
  let ?k = "int (length buf)" and ?n = "int (length buf) + e"
  have k: "0 < ?k" using assms(1) by simp
  consider "?k \<le> ?n" "?n \<le> 15" | "?n < ?k" "0 < ?n" "?n \<le> 15" | "- 4 < ?n" "?n \<le> 0"
    | "\<not> (- 4 < ?n \<and> ?n \<le> 15)" "length buf = 1" | "\<not> (- 4 < ?n \<and> ?n \<le> 15)" "1 < length buf"
    using k by linarith
  then show ?thesis
  proof cases
    case 1
    let ?z = "replicate (nat e) (CHR ''0'')"
    have "digits_nat ((buf @ ?z) @ ''0'') = digits_nat buf * 10 ^ nat e * 10"
      using assms(2) digits_nat_append[of "buf @ ?z" "''0''"] digits_nat_append[of buf ?z] by simp
    moreover have "(10 powi e :: rat) = 10 ^ nat e" using 1(1) by (simp add: power_int_def)
    moreover have "float_parts (buf @ ?z) ''0'' None" using assms(1-3) by (simp add: float_parts_def)
    moreover have "format_buffer buf e (- 4) 15 = float_text (buf @ ?z) ''0'' None"
      using 1 by (simp add: format_buffer_def float_text_def exponent_text_def)
    ultimately show ?thesis
      by (intro exI[of _ "buf @ ?z"] exI[of _ "''0''"] exI[of _ None]) (simp add: exponent_value_def power_int_minus)
  next
    case 2
    let ?w = "take (nat ?n) buf" and ?f = "drop (nat ?n) buf"
    have "float_parts ?w ?f None"
      using 2 assms(1-3) by (auto simp: float_parts_def list_all_iff dest: in_set_takeD in_set_dropD)
    moreover have "format_buffer buf e (- 4) 15 = float_text ?w ?f None"
      using 2 by (simp add: format_buffer_def float_text_def exponent_text_def Let_def)
    moreover have "int (length ?f) = - e" using 2 by simp
    ultimately show ?thesis by (intro exI[of _ ?w] exI[of _ ?f] exI[of _ None]) (simp add: exponent_value_def)
  next
    case 3
    let ?z = "replicate (nat (- ?n)) (CHR ''0'')"
    have "digits_nat (''0'' @ ?z @ buf) = digits_nat buf"
      using assms(2) digits_nat_append[of "''0'' @ ?z" buf] digits_nat_append[of "''0''" ?z] by simp
    moreover have "float_parts ''0'' (?z @ buf) None" using assms(1,2) by (simp add: float_parts_def)
    moreover have "\<not> 0 \<le> e" using 3 k by linarith
    then have "format_buffer buf e (- 4) 15 = float_text ''0'' (?z @ buf) None"
      using 3 assms(1) by (auto simp: format_buffer_def float_text_def exponent_text_def Let_def)
    moreover have "int (length (?z @ buf)) = - e" using 3 by simp
    ultimately show ?thesis by (intro exI[of _ "''0''"] exI[of _ "?z @ buf"] exI[of _ None]) (simp add: exponent_value_def)
  next
    case 4
    have "float_parts buf [] (Some e)" using 4(2) assms by (cases buf) (auto simp: float_parts_def)
    moreover have "format_buffer buf e (- 4) 15 = float_text buf [] (Some e)"
      using 4 by (auto simp: format_buffer_def float_text_def exponent_text_def Let_def)
    ultimately show ?thesis by (intro exI[of _ buf] exI[of _ "[]"] exI[of _ "Some e"]) (simp add: exponent_value_def)
  next
    case 5
    then obtain c d ds where b: "buf = c # d # ds" by (metis One_nat_def length_Cons less_irrefl list.exhaust list.size(3) assms(1))
    have "float_parts [c] (d # ds) (Some (?n - 1))" using assms b by (auto simp: float_parts_def)
    moreover have "format_buffer buf e (- 4) 15 = float_text [c] (d # ds) (Some (?n - 1))"
      using 5 b by (auto simp: format_buffer_def float_text_def exponent_text_def Let_def)
    ultimately show ?thesis
      by (intro exI[of _ "[c]"] exI[of _ "d # ds"] exI[of _ "Some (?n - 1)"]) (simp add: b exponent_value_def)
  qed
qed

subsection \<open>Tokens\<close>

lemma scan_blank [simp]: "is_whitespace c \<Longrightarrow> scan rnd (c # s) = scan rnd s"
  by (simp add: scan_def)

lemma whitespace_chars [simp]: "is_whitespace (CHR '' '')" "is_whitespace (CHR 0x0A)"
  by (simp_all add: is_whitespace_def)

lemma scan_layout [simp]: "scan rnd (indentation pp n @ s) = scan rnd s" "scan rnd (line_end pp @ s) = scan rnd s"
proof -
  have "scan rnd (replicate n (CHR '' '') @ s) = scan rnd s" by (induction n) simp_all
  then show "scan rnd (indentation pp n @ s) = scan rnd s" by (simp add: indentation_def)
  show "scan rnd (line_end pp @ s) = scan rnd s" by (simp add: line_end_def)
qed

lemma scan_signs [simp]:
  "scan rnd (CHR ''['' # s) = (begin_array, s)" "scan rnd (CHR '']'' # s) = (end_array, s)"
  "scan rnd (CHR ''{'' # s) = (begin_object, s)" "scan rnd (CHR ''}'' # s) = (end_object, s)"
  "scan rnd (CHR '':'' # s) = (name_separator, s)" "scan rnd (CHR '','' # s) = (value_separator, s)"
  by (simp_all add: scan_def is_whitespace_def)

lemma scan_literals [simp]:
  "scan rnd (CHR ''t'' # CHR ''r'' # CHR ''u'' # CHR ''e'' # s) = (literal_true, s)"
  "scan rnd (CHR ''f'' # CHR ''a'' # CHR ''l'' # CHR ''s'' # CHR ''e'' # s) = (literal_false, s)"
  "scan rnd (CHR ''n'' # CHR ''u'' # CHR ''l'' # CHR ''l'' # s) = (literal_null, s)"
  by (simp_all add: scan_def is_whitespace_def)

lemma scan_quoted: "utf8 k \<Longrightarrow> scan rnd (quoted k @ r) = (value_string k, r)"
  by (simp add: quoted_def scan_def is_whitespace_def scan_string_escaped)

lemma digit_no_sign:
  assumes "is_digit c"
  shows "c \<notin> {CHR ''['', CHR '']'', CHR ''{'', CHR ''}'', CHR '':'', CHR '','', CHR ''t'', CHR ''f'', CHR ''n'', CHR 0x22}"
    "\<not> is_whitespace c"
proof -
  have "\<not> is_digit x" if "x \<in> {CHR ''['', CHR '']'', CHR ''{'', CHR ''}'', CHR '':'', CHR '','', CHR ''t'', CHR ''f'', CHR ''n'', CHR 0x22}" for x
    using that by (auto simp: is_digit_def char_digit_def)
  with assms show "c \<notin> {CHR ''['', CHR '']'', CHR ''{'', CHR ''}'', CHR '':'', CHR '','', CHR ''t'', CHR ''f'', CHR ''n'', CHR 0x22}" by blast
  have "\<not> is_digit x" if "is_whitespace x" for x using that by (auto simp: is_whitespace_def is_digit_def char_digit_def)
  with assms show "\<not> is_whitespace c" by blast
qed

lemma scan_digit: "is_digit c \<Longrightarrow> scan rnd (c # s) = scan_number rnd c s" "scan rnd (CHR ''-'' # s) = scan_number rnd (CHR ''-'') s"
  using digit_no_sign[of c] by (simp_all add: scan_def is_whitespace_def)

lemma number_buffer:
  "number_loop st ty (p @ buf) s = (case number_loop st ty buf s of Inl m \<Rightarrow> Inl m | Inr (ty', b, r) \<Rightarrow> Inr (ty', p @ b, r))"
proof (induction st ty buf s rule: number_loop.induct)
  case (1 st ty buf)
  then show ?case by (cases st) auto
next
  case (2 st ty buf c cs)
  show ?case
  proof (cases "number_next st c")
    case None
    then show ?thesis by (cases st) auto
  next
    case (Some st')
    with 2 show ?thesis by simp
  qed
qed

text \<open>A number with a sign: the automaton goes on behind the sign as it would begin.\<close>

lemma number_minus:
  assumes "is_digit c"
  shows "number_loop state_minus ty ''-'' (c # s) =
     (case number_loop (if c = CHR ''0'' then state_zero else state_any1) type_integer [c] s of
        Inl m \<Rightarrow> Inl m | Inr (ty', b, r) \<Rightarrow> Inr (ty', CHR ''-'' # b, r))"
  using assms number_buffer[of _ type_integer "''-''" "[c]" s] by (auto simp: number_at_def split: sum.splits)

lemma nat_digits_ok [simp]: "list_all is_digit (nat_digits n)"
  using nat_digits_chars by (fastforce simp: list_all_iff)

lemma digits_nat_digits [simp]: "digits_nat (nat_digits n) = n"
  by (simp add: digits_nat_def read_nat_digits)

lemma digit_char_zero: "d < 10 \<Longrightarrow> digit_char d = CHR ''0'' \<longleftrightarrow> d = 0"
  using digits_nat_simps(2)[of d] char_of_char[of "CHR ''0''"] by (auto simp: digit_char_def)

lemma nat_digits_hd: "0 < n \<Longrightarrow> hd (nat_digits n) \<noteq> CHR ''0''"
proof (induction n rule: nat_digits.induct)
  case (1 n)
  then show ?case by (cases "n < 10") (simp_all add: nat_digits_small nat_digits_big digit_char_zero)
qed

lemma number_nat:
  assumes "nat_digits n = c # cs" "no_number r"
  shows "number_loop (if c = CHR ''0'' then state_zero else state_any1) ty [c] (cs @ r) = Inr (ty, nat_digits n, r)"
proof (cases "n = 0")
  case True
  with assms show ?thesis by (auto simp: nat_digits_small digit_char_zero number_stop)
next
  case False
  then have "c \<noteq> CHR ''0''" using nat_digits_hd[of n] assms(1) by simp
  moreover have "list_all is_digit cs" using nat_digits_ok[of n] assms(1) by simp
  ultimately show ?thesis using assms number_stop[of r state_any1 ty "c # cs"] by (simp add: number_digits)
qed

lemma scan_integer:
  assumes "- (2 ^ 63) \<le> i" "i < 2 ^ 64" "no_number r"
  shows "scan rnd (dump_integer i @ r) = (if i < 0 then value_integer i else value_unsigned i, r)"
proof -
  let ?n = "nat \<bar>i\<bar>"
  obtain c cs where c: "nat_digits ?n = c # cs" by (cases "nat_digits ?n") auto
  then have d: "is_digit c" "c \<noteq> CHR ''-''" using nat_digits_ok[of ?n] by (auto simp del: nat_digits_ok)
  have v: "digits_nat (c # cs) = ?n" using digits_nat_digits[of ?n] c by simp
  show ?thesis
  proof (cases "i < 0")
    case True
    then have "dump_integer i = CHR ''-'' # c # cs" using assms c by (simp add: dump_integer_correct QString_number_def)
    moreover have "signed_nat (CHR ''-'' # c # cs) = i" using True v by (simp add: signed_nat_def)
    moreover have "number_loop state_minus type_unsigned ''-'' (c # cs @ r) = Inr (type_integer, CHR ''-'' # c # cs, r)"
      unfolding number_minus[OF d(1)] number_nat[OF c assms(3)] by (simp add: c)
    ultimately show ?thesis using True assms(1) by (simp add: scan_digit scan_number_def number_token_def del: number_loop.simps)
  next
    case False
    then have "dump_integer i = c # cs" using assms c by (simp add: dump_integer_correct QString_number_def)
    then show ?thesis using False d assms c v number_nat[OF c assms(3), of type_unsigned]
      by (simp add: scan_digit scan_number_def number_token_def)
  qed
qed

text \<open>
  What the shortest digits of a double promise: a numeral without leading zeros, of at most three digits
  in the exponent, that rounds to the double again.
\<close>

definition reads_back :: "(rat \<Rightarrow> string \<times> int) \<Rightarrow> (rat \<Rightarrow> rat option) \<Rightarrow> rat \<Rightarrow> bool" where
  "reads_back dtoa rnd r \<longleftrightarrow>
     (if r = 0 then rnd 0 = Some 0
      else case dtoa \<bar>r\<bar> of (buf, e) \<Rightarrow>
        buf \<noteq> [] \<and> list_all is_digit buf \<and> hd buf \<noteq> CHR ''0'' \<and> \<bar>int (length buf) + e\<bar> < 999 \<and>
        rnd (sgn r * (of_nat (digits_nat buf) * 10 powi e)) = Some r)"

lemma scan_float_text:
  assumes "float_parts whole fs x" "no_number r"
  shows "scan rnd (float_text whole fs x @ r) = (value_float (rnd (decimal_value (float_text whole fs x))), r)"
    "scan rnd (CHR ''-'' # float_text whole fs x @ r) = (value_float (rnd (decimal_value (CHR ''-'' # float_text whole fs x))), r)"
proof -
  from assms(1) obtain c cs where c: "whole = c # cs" "is_digit c" by (cases whole) (auto simp: float_parts_def)
  then have t: "float_text whole fs x @ r = c # (cs @ (if fs = [] then [] else CHR ''.'' # fs) @ exponent_text x @ r)"
    by (simp add: float_text_def)
  have n: "c \<noteq> CHR ''-''" using c by auto
  note l = number_float[OF assms(1)[unfolded c(1)] assms(2)]
  have m: "number_loop state_minus type_unsigned ''-'' (c # cs @ (if fs = [] then [] else CHR ''.'' # fs) @ exponent_text x @ r) =
     Inr (type_float, CHR ''-'' # float_text whole fs x, r)" unfolding number_minus[OF c(2)] l by (simp add: c(1))
  show "scan rnd (float_text whole fs x @ r) = (value_float (rnd (decimal_value (float_text whole fs x))), r)"
    unfolding t using c n l[of type_unsigned] by (simp add: scan_digit scan_number_def number_token_def)
  show "scan rnd (CHR ''-'' # float_text whole fs x @ r) = (value_float (rnd (decimal_value (CHR ''-'' # float_text whole fs x))), r)"
    using m by (simp add: t scan_digit scan_number_def number_token_def del: number_loop.simps)
qed

lemma zero_parts: "float_parts ''0'' ''0'' None" "float_text ''0'' ''0'' None = ''0.0''"
  by (simp_all add: float_parts_def float_text_def exponent_text_def)

lemma scan_float:
  assumes "reads_back g rnd v" "no_number r"
  shows "scan rnd (to_chars g v @ r) = (value_float (Some v), r)"
proof (cases "v = 0")
  case True
  have "decimal_value ''0.0'' = 0" using decimal_value_float(1)[OF zero_parts(1)] digits_nat_append[of "''0''" "''0''"] by (simp add: zero_parts(2))
  with True scan_float_text(1)[OF zero_parts(1) assms(2), of rnd] assms(1) show ?thesis
    by (simp add: zero_parts(2) to_chars_def reads_back_def)
next
  case False
  obtain buf e where g: "g \<bar>v\<bar> = (buf, e)" by (meson surj_pair)
  with assms(1) False have b: "buf \<noteq> []" "list_all is_digit buf" "hd buf \<noteq> CHR ''0''" "\<bar>int (length buf) + e\<bar> < 999"
      "rnd (sgn v * (of_nat (digits_nat buf) * 10 powi e)) = Some v" by (simp_all add: reads_back_def)
  from format_buffer_parts[OF b(1-4)] obtain whole fs x where f: "float_parts whole fs x"
      "format_buffer buf e (- 4) 15 = float_text whole fs x"
      "of_nat (digits_nat (whole @ fs)) * 10 powi (exponent_value x - int (length fs)) = of_nat (digits_nat buf) * (10 powi e :: rat)" by blast
  have "to_chars g v = (if v < 0 then [CHR ''-''] else []) @ float_text whole fs x" using g False f(2) by (simp add: to_chars_def)
  then show ?thesis
    using scan_float_text[OF f(1) assms(2), of rnd] decimal_value_float[OF f(1)] f(3) b(5) False
    by (cases "v < 0") (simp_all add: sgn_if)
qed

end
