(* ===== verification/Grisu2_Digits.thy ===== *)
theory Grisu2_Digits
  imports Grisu2 Json_Text
begin

text \<open>
  The digit generation of Grisu2: for bounds that share an exponent in the range of the algorithm, all
  assertions hold and no arithmetic wraps around, and the digits are a number between the bounds, without leading zeros and with at most 17 digits.
\<close>

definition good_digits :: "string \<Rightarrow> bool" where
  "good_digits ds \<longleftrightarrow> ds \<noteq> [] \<and> list_all is_digit ds \<and> hd ds \<noteq> CHR ''0''"

lemma digits_nat_snoc: "list_all is_digit ds \<Longrightarrow> d \<le> 9 \<Longrightarrow> digits_nat (ds @ [digit_char d]) = 10 * digits_nat ds + d"
  using digits_nat_append[of ds "[digit_char d]"] by simp

lemma good_digits_snoc: "ds = [] \<and> d \<noteq> 0 \<or> good_digits ds \<Longrightarrow> d \<le> 9 \<Longrightarrow> good_digits (ds @ [digit_char d])"
  by (auto simp: good_digits_def digit_char_zero)

lemma digit_value: "is_digit c \<Longrightarrow> digits_nat [c] \<le> 9 \<and> (c \<noteq> CHR ''0'' \<longrightarrow> 1 \<le> digits_nat [c])"
proof -
  assume "is_digit c"
  then have "48 \<le> (of_char c :: nat)" "(of_char c :: nat) \<le> 57"
    by (auto simp: is_digit_def char_digit_def Let_def split: if_splits)
  moreover have "(of_char c :: nat) \<noteq> 48" if "c \<noteq> CHR ''0''"
    using that of_char_eq_iff[where ?'a = nat, of c "CHR ''0''"] by simp
  ultimately show ?thesis by (auto simp: digits_nat_def char_digit_def Let_def)
qed

lemma digits_nat_bounds:
  assumes "good_digits ds"
  shows "10 ^ (length ds - 1) \<le> digits_nat ds" "digits_nat ds < 10 ^ length ds"
proof -
  obtain c cs where ds: "ds = c # cs" using assms by (cases ds) (auto simp: good_digits_def)
  have up: "digits_nat xs < 10 ^ length xs" if "list_all is_digit xs" for xs
    using that
  proof (induction xs)
    case (Cons x xs)
    then have "digits_nat (x # xs) = digits_nat [x] * 10 ^ length xs + digits_nat xs" using digits_nat_append[of "[x]" xs] by simp
    moreover have "digits_nat [x] * 10 ^ length xs \<le> 9 * 10 ^ length xs" using digit_value[of x] Cons.prems by simp
    moreover have "digits_nat xs < 10 ^ length xs" "10 ^ length (x # xs) = 10 * (10 ^ length xs :: nat)" using Cons by simp_all
    ultimately show ?case by linarith
  qed simp
  then show "digits_nat ds < 10 ^ length ds" using assms by (simp add: good_digits_def)
  have "digits_nat ds = digits_nat [c] * 10 ^ length cs + digits_nat cs"
    using digits_nat_append[of "[c]" cs] assms by (simp add: ds good_digits_def)
  moreover have "1 \<le> digits_nat [c]" using digit_value[of c] assms by (simp add: ds good_digits_def)
  then have "10 ^ length cs \<le> digits_nat [c] * 10 ^ length cs" by (cases "digits_nat [c]") simp_all
  ultimately have "10 ^ length cs \<le> digits_nat ds" by linarith
  then show "10 ^ (length ds - 1) \<le> digits_nat ds" by (simp add: ds)
qed

lemma few_digits: "good_digits ds \<Longrightarrow> digits_nat ds < 10 ^ 16 \<Longrightarrow> length ds \<le> 16"
proof (rule ccontr)
  assume "good_digits ds" "digits_nat ds < 10 ^ 16" "\<not> length ds \<le> 16"
  moreover from this have "(10 :: nat) ^ 16 \<le> 10 ^ (length ds - 1)" by (intro power_increasing) simp_all
  ultimately show False using digits_nat_bounds(1)[of ds] by linarith
qed

subsection \<open>Rounding the last digit\<close>

lemma decrement_last_digit: "d < 9 \<Longrightarrow> decrement_last (b @ [digit_char (Suc d)]) = b @ [digit_char d]"
  by (simp add: decrement_last_def digit_char_def)

lemma round_loop_ok:
  assumes "d \<le> 9" "0 < ten" "rest \<le> delta" "delta < rest + d * ten"
  shows "\<exists>j<d. rest + j * ten \<le> delta \<and> round_loop (b @ [digit_char d]) distance delta rest ten = Inr (b @ [digit_char (d - j)])"
  using assms
proof (induction d arbitrary: rest)
  case (Suc d)
  let ?g = "rest < distance \<and> delta - rest \<ge> ten \<and> (rest + ten < distance \<or> distance - rest > rest + ten - distance)"
  show ?case
  proof (cases ?g)
    case True
    then have r: "rest + ten \<le> delta" using Suc.prems by linarith
    have z: "digit_char (Suc d) \<noteq> CHR ''0''" using Suc.prems(1) digit_char_zero[of "Suc d"] by simp
    obtain j where j: "j < d" "rest + ten + j * ten \<le> delta"
        "round_loop (b @ [digit_char d]) distance delta (rest + ten) ten = Inr (b @ [digit_char (d - j)])"
      using Suc.IH[of "rest + ten"] Suc.prems r by auto
    have "round_loop (b @ [digit_char (Suc d)]) distance delta rest ten = Inr (b @ [digit_char (Suc d - Suc j)])"
      using True Suc.prems z j(3) by (subst round_loop.simps) (simp add: decrement_last_digit)
    with j show ?thesis by (intro exI[of _ "Suc j"]) simp
  next
    case False
    then have "round_loop (b @ [digit_char (Suc d)]) distance delta rest ten = Inr (b @ [digit_char (Suc d)])"
      by (subst round_loop.simps) auto
    with Suc.prems show ?thesis by (intro exI[of _ 0]) simp
  qed
qed simp

text \<open>
  The last step of both loops: \<^verbatim>\<open>tot\<close> is the upper bound in units of which the last digit counts
  \<^verbatim>\<open>u\<close>, and the rest behind the digits is for the first time within \<^verbatim>\<open>delta\<close>.
\<close>

lemma finish:
  assumes "list_all is_digit b" "b = [] \<or> good_digits b" "d \<le> 9" "0 < u" "distance \<le> delta"
    and "tot = (10 * digits_nat b + d) * u + rest" "rest \<le> delta" "delta < rest + d * u"
  shows "\<exists>out. grisu2_round (b @ [digit_char d]) distance delta rest u = Inr out \<and> good_digits out \<and> length out = Suc (length b) \<and>
     tot \<le> digits_nat out * u + delta \<and> digits_nat out * u \<le> tot"
proof -
  obtain j where j: "j < d" "rest + j * u \<le> delta"
      "round_loop (b @ [digit_char d]) distance delta rest u = Inr (b @ [digit_char (d - j)])"
    using round_loop_ok[OF assms(3,4,7,8)] by blast
  have v: "digits_nat (b @ [digit_char (d - j)]) = 10 * digits_nat b + (d - j)" using assms(1,3) by (simp add: digits_nat_snoc)
  have "(10 * digits_nat b + (d - j)) * u + j * u = (10 * digits_nat b + d) * u"
    using j(1) by (simp add: add_mult_distrib[symmetric])
  then have "tot = digits_nat (b @ [digit_char (d - j)]) * u + (rest + j * u)" using assms(6) v by simp
  moreover have "good_digits (b @ [digit_char (d - j)])" using assms(2,3) j(1) by (intro good_digits_snoc) auto
  ultimately show ?thesis using j assms(4,5,7) by (simp add: grisu2_round_def)
qed

subsection \<open>The loops\<close>

text \<open>What the loops deliver: good digits, at most 17, that are between the bounds.\<close>

definition between :: "nat \<Rightarrow> nat \<Rightarrow> nat \<Rightarrow> string \<Rightarrow> int \<Rightarrow> bool" where
  "between s tot delta out x \<longleftrightarrow>
     good_digits out \<and> length out \<le> 17 \<and>
     of_nat tot \<le> of_nat (digits_nat out) * 10 powi x * 2 ^ s + (of_nat delta :: rat) \<and>
     of_nat (digits_nat out) * 10 powi x * 2 ^ s \<le> (of_nat tot :: rat)"

lemma between_fraction:
  assumes "good_digits out" "length out \<le> 17"
    and "tot * 10 ^ m \<le> digits_nat out * 2 ^ s + delta * 10 ^ m" "digits_nat out * 2 ^ s \<le> tot * 10 ^ m"
  shows "between s tot delta out (- int m)"
proof -
  let ?z = "of_nat (digits_nat out) :: rat"
  have "of_nat (tot * 10 ^ m) \<le> (of_nat (digits_nat out * 2 ^ s + delta * 10 ^ m) :: rat)" using assms(3) by (simp only: of_nat_le_iff)
  then have 1: "of_nat tot * 10 ^ m \<le> ?z * 2 ^ s + of_nat delta * 10 ^ m" by simp
  have "(of_nat (digits_nat out * 2 ^ s) :: rat) \<le> of_nat (tot * 10 ^ m)" using assms(4) by (simp only: of_nat_le_iff)
  then have 2: "?z * 2 ^ s \<le> of_nat tot * 10 ^ m" by simp
  have e: "?z * 10 powi (- int m) * 2 ^ s = ?z * 2 ^ s / 10 ^ m" by (simp add: power_int_minus divide_inverse)
  show ?thesis using 1 2 assms(1,2) unfolding between_def e by (simp add: field_simps)
qed

lemma between_integral:
  assumes "good_digits out" "length out \<le> 17"
    and "tot \<le> digits_nat out * (10 ^ n * 2 ^ s) + delta" "digits_nat out * (10 ^ n * 2 ^ s) \<le> tot"
  shows "between s tot delta out (int n)"
proof -
  let ?z = "of_nat (digits_nat out) :: rat"
  have "(of_nat tot :: rat) \<le> of_nat (digits_nat out * (10 ^ n * 2 ^ s) + delta)" using assms(3) by (simp only: of_nat_le_iff)
  moreover have "(of_nat (digits_nat out * (10 ^ n * 2 ^ s)) :: rat) \<le> of_nat tot" using assms(4) by (simp only: of_nat_le_iff)
  ultimately show ?thesis using assms(1,2) by (simp add: between_def mult.assoc)
qed

lemma fraction_step:
  fixes p2 s :: nat
  assumes "s \<le> 60" "p2 < 2 ^ s" "dm < p2"
  shows "p2 \<le> (2 ^ 64 - 1) div 10" "10 * p2 div 2 ^ s \<le> 9" "10 * p2 mod 2 ^ s < 2 ^ s" "u64 (10 * dm) = 10 * dm"
    "10 * p2 = 10 * p2 div 2 ^ s * 2 ^ s + 10 * p2 mod 2 ^ s"
proof -
  have "(2 :: nat) ^ s \<le> 2 ^ 60" using assms(1) by (intro power_increasing) simp_all
  then have p: "p2 < 2 ^ 60" using assms(2) by linarith
  then show "p2 \<le> (2 ^ 64 - 1) div 10" "u64 (10 * dm) = 10 * dm" using assms(3) by simp_all
  have "10 * p2 < 10 * 2 ^ s" using assms(2) by simp
  then have "10 * p2 div 2 ^ s < 10" by (simp add: less_mult_imp_div_less)
  then show "10 * p2 div 2 ^ s \<le> 9" by simp
  show "10 * p2 mod 2 ^ s < 2 ^ s" by simp
  show "10 * p2 = 10 * p2 div 2 ^ s * 2 ^ s + 10 * p2 mod 2 ^ s" by (rule div_mult_mod_eq[symmetric])
qed

text \<open>As long as the loops go on, there are at most 16 digits.\<close>

lemma fraction_length:
  assumes "tot < 10 ^ 16 * delta" "good_digits buf" "tot * 10 ^ m = digits_nat buf * 2 ^ s + p2" "delta * 10 ^ m < 2 ^ s"
  shows "length buf \<le> 16"
proof -
  have "digits_nat buf * 2 ^ s \<le> tot * 10 ^ m" using assms(3) by simp
  also have "\<dots> \<le> 10 ^ 16 * delta * 10 ^ m" using assms(1) by (intro mult_le_mono1) simp
  also have "\<dots> < 10 ^ 16 * 2 ^ s" using assms(4) by simp
  finally show ?thesis using few_digits[OF assms(2)] by simp
qed

lemma integral_length:
  assumes "tot < 10 ^ 16 * delta" "buf = [] \<or> good_digits buf" "digits_nat buf * (10 ^ n * 2 ^ s) \<le> tot"
    "p1 < 10 ^ n" "p2 < 2 ^ s" "delta < p1 * 2 ^ s + p2"
  shows "length buf \<le> 16"
proof (cases "buf = []")
  case False
  have "p1 * 2 ^ s + p2 < (p1 + 1) * 2 ^ s" using assms(5) by simp
  also have "\<dots> \<le> 10 ^ n * 2 ^ s" using assms(4) by (intro mult_le_mono1) simp
  finally have "delta < 10 ^ n * 2 ^ s" using assms(6) by linarith
  then have "10 ^ 16 * delta < 10 ^ 16 * (10 ^ n * 2 ^ s)" by (intro mult_strict_left_mono) simp_all
  then have "digits_nat buf * (10 ^ n * 2 ^ s) < 10 ^ 16 * (10 ^ n * 2 ^ s)" using assms(1,3) by linarith
  then show ?thesis using few_digits[of buf] False assms(2) by simp
qed simp

lemma fraction_loop_ok:
  assumes "s \<le> 60" "tot < 10 ^ 16 * delta" "good_digits buf" "tot * 10 ^ m = digits_nat buf * 2 ^ s + p2" "p2 < 2 ^ s"
    "dm = delta * 10 ^ m" "dm < p2" "distance \<le> dm"
  shows "\<exists>out x. fraction_loop s p2 dm distance m buf dec = Inr (out, dec + x) \<and> between s tot delta out x"
  using assms
proof (induction "card {j. j \<le> s \<and> \<not> 2 ^ j dvd p2}" arbitrary: p2 dm distance m buf rule: less_induct)
  case (less p2 dm distance m buf)
  let ?d = "10 * p2 div 2 ^ s" and ?r = "10 * p2 mod 2 ^ s" and ?dm = "10 * dm" and ?buf = "buf @ [digit_char (10 * p2 div 2 ^ s)]"
  note st = fraction_step[OF less.prems(1,5,7)] fraction_step(4)[of s p2 distance]
  have dm: "u64 (10 * dm) = ?dm" "u64 (10 * distance) = 10 * distance" "10 * distance \<le> ?dm"
    using st less.prems(6-8) fraction_step(4)[OF less.prems(1,5), of distance] by simp_all
  have dm': "?dm = delta * 10 ^ Suc m" using less.prems(6) by simp
  have b: "list_all is_digit buf" using less.prems(3) by (simp add: good_digits_def)
  have tot: "tot * 10 ^ Suc m = (10 * digits_nat buf + ?d) * 2 ^ s + ?r"
    using less.prems(4) st(5) by (simp add: algebra_simps)
  have len: "length buf \<le> 16" using fraction_length[OF less.prems(2-4)] less.prems(5-7) by simp
  show ?case
  proof (cases "?r \<le> ?dm")
    case True
    have "?dm < ?r + ?d * 2 ^ s" using less.prems(6,7) st(5) by simp
    from finish[OF b _ st(2) _ dm(3) tot True this] less.prems(3) obtain out where
      o: "grisu2_round ?buf (10 * distance) ?dm ?r (2 ^ s) = Inr out" "good_digits out" "length out = Suc (length buf)"
        "tot * 10 ^ Suc m \<le> digits_nat out * 2 ^ s + ?dm" "digits_nat out * 2 ^ s \<le> tot * 10 ^ Suc m" by auto
    have "between s tot delta out (- int (Suc m))" using o len dm' by (intro between_fraction) simp_all
    moreover have "fraction_loop s p2 dm distance m buf dec = Inr (out, dec + - int (Suc m))"
      using st True o(1) dm by (subst fraction_loop.simps) (simp add: Let_def)
    ultimately show ?thesis by blast
  next
    case False
    have "\<exists>out x. fraction_loop s ?r ?dm (10 * distance) (Suc m) ?buf dec = Inr (out, dec + x) \<and> between s tot delta out x"
    proof (rule less.hyps)
      show "card {j. j \<le> s \<and> \<not> 2 ^ j dvd ?r} < card {j. j \<le> s \<and> \<not> 2 ^ j dvd p2}" using False by (intro factors_shrink) simp
      show "tot * 10 ^ Suc m = digits_nat ?buf * 2 ^ s + ?r" using tot st(2) b by (simp add: digits_nat_snoc)
      show "good_digits ?buf" using less.prems(3) st(2) by (intro good_digits_snoc) simp_all
    qed (use less.prems st dm dm' False in simp_all)
    moreover have "fraction_loop s p2 dm distance m buf dec = fraction_loop s ?r ?dm (10 * distance) (Suc m) ?buf dec"
      using st False dm by (subst fraction_loop.simps) (simp add: Let_def)
    ultimately show ?thesis by simp
  qed
qed

lemma integral_loop_ok:
  assumes "s \<le> 60" "tot < 10 ^ 16 * delta" "tot < 2 ^ 64" "distance \<le> delta"
    "buf = [] \<and> 0 < n \<and> 10 ^ (n - 1) \<le> p1 \<or> good_digits buf"
    "tot = digits_nat buf * (10 ^ n * 2 ^ s) + p1 * 2 ^ s + p2" "p1 < 10 ^ n" "p2 < 2 ^ s" "n > 0 \<longrightarrow> pow10 = 10 ^ (n - 1)"
    "delta < p1 * 2 ^ s + p2"
  shows "\<exists>out x. integral_loop s p2 delta distance n p1 pow10 buf dec = Inr (out, dec + x) \<and> between s tot delta out x"
  using assms
proof (induction n arbitrary: p1 pow10 buf)
  case 0
  then have "\<exists>out x. fraction_loop s p2 delta distance 0 buf dec = Inr (out, dec + x) \<and> between s tot delta out x"
    by (intro fraction_loop_ok[of s tot delta]) simp_all
  with 0 show ?case by simp
next
  case (Suc n)
  let ?d = "p1 div 10 ^ n" and ?r = "p1 mod 10 ^ n" and ?rest = "p1 mod 10 ^ n * 2 ^ s + p2" and ?buf = "buf @ [digit_char (p1 div 10 ^ n)]"
  let ?u = "10 ^ n * 2 ^ s :: nat"
  have b: "list_all is_digit buf" using Suc.prems(5) by (auto simp: good_digits_def)
  have d: "?d \<le> 9" using Suc.prems(7) less_mult_imp_div_less[of p1 10 "10 ^ n"] by simp
  have "p1 * 2 ^ s = (?d * 10 ^ n + ?r) * 2 ^ s" by (simp only: div_mult_mod_eq)
  then have p1: "p1 * 2 ^ s + p2 = ?d * ?u + ?rest" by (simp only: add_mult_distrib mult.assoc add.assoc)
  have tot: "tot = (10 * digits_nat buf + ?d) * ?u + ?rest" using Suc.prems(6) p1 by (simp add: algebra_simps)
  have r: "?rest < 2 ^ 64" "u64 (u64 (?r * 2 ^ s) + p2) = ?rest" using tot Suc.prems(3) by simp_all
  have len: "length buf \<le> 16" using Suc.prems by (intro integral_length[of tot delta buf "Suc n" s p1 p2]) auto
  have good: "buf = [] \<and> ?d \<noteq> 0 \<or> good_digits buf"
    using Suc.prems(5) div_greater_zero_iff[of p1 "10 ^ n"] by auto
  show ?case
  proof (cases "?rest \<le> delta")
    case True
    have dd: "delta < ?rest + ?d * ?u" using Suc.prems(10) p1 by simp
    then have "?d \<noteq> 0" using True by (cases "?d = 0") simp_all
    then have "?u \<le> ?d * ?u" by simp
    also have "\<dots> \<le> tot" unfolding tot add_mult_distrib by simp
    finally have u: "u64 (10 ^ n * 2 ^ s) = ?u" using Suc.prems(3) by (intro u64_id) linarith
    from finish[OF b _ d _ Suc.prems(4) tot True dd] Suc.prems(5) obtain out where
      o: "grisu2_round ?buf distance delta ?rest ?u = Inr out" "good_digits out" "length out = Suc (length buf)"
        "tot \<le> digits_nat out * ?u + delta" "digits_nat out * ?u \<le> tot" by auto
    have "between s tot delta out (int n)" using o len by (intro between_integral) simp_all
    moreover have "integral_loop s p2 delta distance (Suc n) p1 pow10 buf dec = Inr (out, dec + int n)"
      using d r u True o(1) Suc.prems(9) by (simp add: Let_def)
    ultimately show ?thesis by blast
  next
    case False
    have "\<exists>out x. integral_loop s p2 delta distance n ?r (pow10 div 10) ?buf dec = Inr (out, dec + x) \<and> between s tot delta out x"
    proof (rule Suc.IH)
      show "tot = digits_nat ?buf * ?u + ?r * 2 ^ s + p2" using tot d b by (simp add: digits_nat_snoc)
      show "?buf = [] \<and> 0 < n \<and> 10 ^ (n - 1) \<le> ?r \<or> good_digits ?buf" using good_digits_snoc[OF good d] by simp
      show "n > 0 \<longrightarrow> pow10 div 10 = 10 ^ (n - 1)" using Suc.prems(9) by (cases n) simp_all
    qed (use Suc.prems False in simp_all)
    moreover have "integral_loop s p2 delta distance (Suc n) p1 pow10 buf dec = integral_loop s p2 delta distance n ?r (pow10 div 10) ?buf dec"
      using d r False Suc.prems(9) by (simp add: Let_def)
    ultimately show ?thesis by simp
  qed
qed

lemma largest_pow10:
  assumes "0 < n" "n < 2 ^ 32"
  shows "\<exists>k. find_largest_pow10 n = (k, 10 ^ (k - 1)) \<and> 0 < k \<and> 10 ^ (k - 1) \<le> n \<and> n < 10 ^ k"
  using assms by (auto simp: find_largest_pow10_def)

lemma digit_gen_ok:
  assumes "fp_e Mm = fp_e Mp" "fp_e w = fp_e Mp" "- 60 \<le> fp_e Mp" "fp_e Mp \<le> - 32"
    and "0 < fp_f Mm" "fp_f Mm \<le> fp_f w" "fp_f w \<le> fp_f Mp" "2 ^ 60 \<le> fp_f Mp" "fp_f Mp < 2 ^ 64"
    and "fp_f Mp < 10 ^ 16 * (fp_f Mp - fp_f Mm)"
  shows "\<exists>out x. grisu2_digit_gen dec Mm w Mp = Inr (out, dec + x) \<and> good_digits out \<and> length out \<le> 17 \<and>
     of_nat (fp_f Mm) * 2 powi fp_e Mp \<le> of_nat (digits_nat out) * (10 powi x :: rat) \<and>
     of_nat (digits_nat out) * 10 powi x \<le> of_nat (fp_f Mp) * (2 powi fp_e Mp :: rat)"
proof -
  let ?s = "nat (- fp_e Mp)" and ?M = "fp_f Mp" and ?delta = "fp_f Mp - fp_f Mm" and ?dist = "fp_f Mp - fp_f w"
  let ?p1 = "?M div 2 ^ ?s"
  have s: "32 \<le> ?s" "?s \<le> 60" using assms(3,4) by simp_all
  have pw: "(2 :: nat) ^ ?s \<le> 2 ^ 60" "(2 :: nat) ^ 32 \<le> 2 ^ ?s" using s by (intro power_increasing; simp)+
  have "?M < 2 ^ 32 * 2 ^ ?s" using assms(9) pw(2) mult_le_mono2[OF pw(2), of "2 ^ 32"] by simp
  then have p1: "?p1 < 2 ^ 32" by (simp add: less_mult_imp_div_less)
  have p0: "0 < ?p1" using assms(8) pw(1) by (simp add: div_greater_zero_iff)
  obtain k where k: "find_largest_pow10 ?p1 = (k, 10 ^ (k - 1))" "0 < k" "10 ^ (k - 1) \<le> ?p1" "?p1 < 10 ^ k"
    using largest_pow10[OF p0 p1] by blast
  have "\<exists>out x. integral_loop ?s (?M mod 2 ^ ?s) ?delta ?dist k ?p1 (10 ^ (k - 1)) [] dec = Inr (out, dec + x) \<and> between ?s ?M ?delta out x"
    by (rule integral_loop_ok) (use assms(5-10) s k in \<open>auto simp: div_mult_mod_eq\<close>)
  then obtain out x where o: "integral_loop ?s (?M mod 2 ^ ?s) ?delta ?dist k ?p1 (10 ^ (k - 1)) [] dec = Inr (out, dec + x)"
      "between ?s ?M ?delta out x" by blast
  have "grisu2_digit_gen dec Mm w Mp = Inr (out, dec + x)"
    using o(1) assms(1-4,6,7) k(1) p0 p1 by (simp add: grisu2_digit_gen_def kAlpha_def kGamma_def diyfp_sub_def Let_def)
  moreover have "of_nat (fp_f Mm) \<le> of_nat (digits_nat out) * 10 powi x * (2 ^ ?s :: rat)"
    using o(2) assms(6,7) by (simp add: between_def of_nat_diff)
  moreover have "of_nat (digits_nat out) * 10 powi x * 2 ^ ?s \<le> (of_nat ?M :: rat)" using o(2) by (simp add: between_def)
  moreover have e: "(2 powi fp_e Mp :: rat) = 1 / 2 ^ ?s" using assms(4) by (simp add: power_int_def inverse_eq_divide power_divide)
  ultimately show ?thesis using o(2) unfolding e by (intro exI[of _ out] exI[of _ x]) (simp add: between_def field_simps)
qed

end
