(* ===== verification/Grisu2_Correct.thy ===== *)
theory Grisu2_Correct
  imports Grisu2_Powers Grisu2_Digits Rounding
begin

text \<open>
  Grisu2 is correct: for every positive finite double all assertions of the algorithm hold, no shift or
  sum wraps around, and the digits it delivers are a decimal number strictly between the boundaries of
  the double, so that every way of rounding to the nearest double gives it back.
\<close>

lemma fp_value_shift: "fp_value \<lparr>fp_f = f, fp_e = e\<rparr> = of_nat (f * 2 ^ k) * 2 powi (e - int k)"
  by (simp add: fp_value_def power_int_diff)

subsection \<open>The product\<close>

lemma split_word: "(n :: nat) = n div 2 ^ 32 * 2 ^ 32 + n mod 2 ^ 32"
  by simp

lemma high_part: "l < (2 :: nat) ^ 64 \<Longrightarrow> n = l + h * 2 ^ 64 \<Longrightarrow> n div 2 ^ 64 = h"
  by simp

lemma carry:
  fixes p0 :: nat
  assumes "p0 = h0 * 2 ^ 32 + l0" "p1 = h1 * 2 ^ 32 + l1" "p2 = h2 * 2 ^ 32 + l2" "h0 + l1 + l2 + 2 ^ 31 = hq * 2 ^ 32 + lq"
  shows "p0 + (p1 + p2) * 2 ^ 32 + p3 * 2 ^ 64 + 2 ^ 63 = (l0 + lq * 2 ^ 32) + (p3 + h2 + h1 + hq) * 2 ^ 64"
  using arg_cong[OF assms(4), of "\<lambda>x. x * 2 ^ 32"] assms(1-3) by (simp add: algebra_simps)

lemma mul_parts:
  fixes u_lo u_hi v_lo v_hi :: nat
  assumes "u_lo < 2 ^ 32" "u_hi < 2 ^ 32" "v_lo < 2 ^ 32" "v_hi < 2 ^ 32"
  defines "p0 \<equiv> u_lo * v_lo" and "p1 \<equiv> u_lo * v_hi" and "p2 \<equiv> u_hi * v_lo" and "p3 \<equiv> u_hi * v_hi"
  defines "Q \<equiv> p0 div 2 ^ 32 + p1 mod 2 ^ 32 + p2 mod 2 ^ 32 + 2 ^ 31"
  shows "((u_hi * 2 ^ 32 + u_lo) * (v_hi * 2 ^ 32 + v_lo) + 2 ^ 63) div 2 ^ 64 = p3 + p2 div 2 ^ 32 + p1 div 2 ^ 32 + Q div 2 ^ 32"
proof -
  let ?h = "p3 + p2 div 2 ^ 32 + p1 div 2 ^ 32 + Q div 2 ^ 32" and ?l = "p0 mod 2 ^ 32 + Q mod 2 ^ 32 * 2 ^ 32"
  have "(u_hi * 2 ^ 32 + u_lo) * (v_hi * 2 ^ 32 + v_lo) = p0 + (p1 + p2) * 2 ^ 32 + p3 * 2 ^ 64"
    by (simp add: p0_def p1_def p2_def p3_def algebra_simps)
  then have "(u_hi * 2 ^ 32 + u_lo) * (v_hi * 2 ^ 32 + v_lo) + 2 ^ 63 = ?l + ?h * 2 ^ 64"
    using carry[OF split_word[of p0] split_word[of p1] split_word[of p2] split_word[of Q, unfolded Q_def], of p3] unfolding Q_def by presburger
  moreover have "?l < 2 ^ 64"
  proof -
    have "p0 mod 2 ^ 32 < 2 ^ 32" "Q mod 2 ^ 32 < 2 ^ 32" by simp_all
    then show ?thesis by simp
  qed
  ultimately show ?thesis by (rule high_part[rotated])
qed

lemma mul_value:
  assumes "fp_f x < 2 ^ 64" "fp_f y < 2 ^ 64"
  shows "diyfp_mul x y = \<lparr>fp_f = (fp_f x * fp_f y + 2 ^ 63) div 2 ^ 64, fp_e = fp_e x + fp_e y + 64\<rparr>"
proof -
  let ?ul = "fp_f x mod 2 ^ 32" and ?uh = "fp_f x div 2 ^ 32" and ?vl = "fp_f y mod 2 ^ 32" and ?vh = "fp_f y div 2 ^ 32"
  have b: "?ul < 2 ^ 32" "?uh < 2 ^ 32" "?vl < 2 ^ 32" "?vh < 2 ^ 32" using assms by (simp_all add: less_mult_imp_div_less)
  have small: "a * b < 2 ^ 64" if "a < 2 ^ 32" "b < 2 ^ 32" for a b :: nat
    using mult_strict_mono[OF that] that by simp
  have "fp_f x * fp_f y \<le> (2 ^ 64 - 1) * (2 ^ 64 - 1)" using assms by (intro mult_le_mono) simp_all
  then have h: "(fp_f x * fp_f y + 2 ^ 63) div 2 ^ 64 < 2 ^ 64" by (simp add: less_mult_imp_div_less)
  have sum: "a + b + c + 2 ^ 31 < 2 ^ 64" if "a < 2 ^ 32" "b < 2 ^ 32" "c < 2 ^ 32" for a b c :: nat using that by simp
  let ?Q = "?ul * ?vl div 2 ^ 32 + ?ul * ?vh mod 2 ^ 32 + ?uh * ?vl mod 2 ^ 32"
  have "?ul * ?vl div 2 ^ 32 < 2 ^ 32" using small[OF b(1,3)] by (simp add: less_mult_imp_div_less)
  moreover have "?ul * ?vh mod 2 ^ 32 < 2 ^ 32" "?uh * ?vl mod 2 ^ 32 < 2 ^ 32" by simp_all
  ultimately have "?Q + 2 ^ 31 < 2 ^ 64" by (rule sum)
  then have q: "?Q < 2 ^ 64" "?Q + 2 ^ 31 < 2 ^ 64" by simp_all
  have eq: "(fp_f x * fp_f y + 2 ^ 63) div 2 ^ 64 = ?uh * ?vh + ?uh * ?vl div 2 ^ 32 + ?ul * ?vh div 2 ^ 32 + (?Q + 2 ^ 31) div 2 ^ 32"
    using mul_parts[OF b] unfolding split_word[of "fp_f x", symmetric] split_word[of "fp_f y", symmetric] .
  have u: "u64 (?ul * ?vl) = ?ul * ?vl" "u64 (?ul * ?vh) = ?ul * ?vh" "u64 (?uh * ?vl) = ?uh * ?vl" "u64 (?uh * ?vh) = ?uh * ?vh"
    by (rule u64_id[OF small]; fact b)+
  show ?thesis
    unfolding diyfp_mul_def Let_def u u64_id[OF q(1)] u64_id[OF q(2)] u64_id[OF h[unfolded eq]] eq ..
qed

text \<open>A factor that is half a unit away from the exact one, and a rounded product: together less than one unit.\<close>

lemma mul_near:
  fixes C :: rat
  assumes "x < 2 ^ 64" "2 * \<bar>of_nat c - C\<bar> \<le> 1"
  shows "\<bar>of_nat ((x * c + 2 ^ 63) div 2 ^ 64) - of_nat x * C / 2 ^ 64\<bar> < 1"
proof -
  let ?n = "x * c + 2 ^ 63" and ?h = "(x * c + 2 ^ 63) div 2 ^ 64"
  have "?h * 2 ^ 64 \<le> ?n" "?n < ?h * 2 ^ 64 + 2 ^ 64" by (rule div_times_less_eq_dividend, simp add: dividend_less_div_times)
  then have "of_nat (?h * 2 ^ 64) \<le> (of_nat ?n :: rat)" "(of_nat ?n :: rat) < of_nat (?h * 2 ^ 64 + 2 ^ 64)"
    by (simp_all only: of_nat_le_iff of_nat_less_iff)
  then have h: "of_nat ?h * 2 ^ 64 \<le> (of_nat x * of_nat c + 2 ^ 63 :: rat)" "(of_nat x * of_nat c + 2 ^ 63 :: rat) < of_nat ?h * 2 ^ 64 + 2 ^ 64"
    by simp_all
  have x: "(of_nat x :: rat) < 2 ^ 64" using assms(1) by (metis of_nat_less_iff of_nat_numeral of_nat_power)
  have "\<bar>of_nat x * of_nat c - of_nat x * C\<bar> = of_nat x * \<bar>of_nat c - C\<bar>" by (simp add: abs_mult right_diff_distrib[symmetric])
  also have "\<dots> \<le> of_nat x * (1 / 2)" using assms(2) by (intro mult_left_mono) simp_all
  finally have "\<bar>of_nat x * of_nat c - of_nat x * C\<bar> < 2 ^ 63" using x by simp
  with h have "\<bar>of_nat ?h * 2 ^ 64 - of_nat x * C\<bar> < (2 ^ 64 :: rat)" by (simp add: abs_if split: if_splits)
  moreover have "of_nat ?h - of_nat x * C / 2 ^ 64 = (of_nat ?h * 2 ^ 64 - of_nat x * C) / 2 ^ 64" by simp
  ultimately show ?thesis by simp
qed

subsection \<open>The boundaries\<close>

lemma normalize_shift:
  "2 ^ 63 \<le> f * 2 ^ j \<Longrightarrow> f * 2 ^ j < 2 ^ 64 \<Longrightarrow> normalize_loop \<lparr>fp_f = f, fp_e = e\<rparr> = \<lparr>fp_f = f * 2 ^ j, fp_e = e - int j\<rparr>"
proof (induction j arbitrary: f e)
  case 0
  then show ?case by (subst normalize_loop.simps) (simp add: div_eq_0_iff)
next
  case (Suc j)
  have "2 * f \<le> f * 2 ^ Suc j" by simp
  then have "2 * f < 2 ^ 64" using Suc.prems(2) by linarith
  moreover have "f \<noteq> 0" using Suc.prems(1) by (intro notI) simp
  ultimately show ?case using Suc.IH[of "2 * f" "e - 1"] Suc.prems
    by (subst normalize_loop.simps) (simp add: div_eq_0_iff mult.left_commute)
qed

lemma shift_exists:
  assumes "0 < f" "f < 2 ^ 53"
  shows "\<exists>j\<ge>11. j \<le> 63 \<and> 2 ^ 63 \<le> f * 2 ^ j \<and> f * 2 ^ j < (2 ^ 64 :: nat)"
proof -
  define j where "j = (LEAST j. 2 ^ 63 \<le> f * 2 ^ j)"
  have "2 ^ 63 \<le> f * 2 ^ 63" using assms(1) by simp
  then have j: "2 ^ 63 \<le> f * 2 ^ j" "j \<le> 63" unfolding j_def by (rule LeastI, rule Least_le)
  have "j \<ge> 11"
  proof (rule ccontr)
    assume "\<not> j \<ge> 11"
    then have "(2 :: nat) ^ j \<le> 2 ^ 10" by (intro power_increasing) simp_all
    then have "f * 2 ^ j \<le> f * 2 ^ 10" by (rule mult_le_mono2)
    moreover have "f * 2 ^ 10 < 2 ^ 63" using assms(2) by simp
    ultimately show False using j(1) by linarith
  qed
  moreover have "j - 1 < (LEAST j. 2 ^ 63 \<le> f * 2 ^ j)" unfolding j_def[symmetric] using \<open>j \<ge> 11\<close> by simp
  then have "f * 2 ^ (j - 1) < 2 ^ 63" using not_less_Least not_less by blast
  moreover have "(2 :: nat) ^ j = 2 * 2 ^ (j - 1)" using \<open>j \<ge> 11\<close> by (cases j) simp_all
  ultimately show ?thesis using j by (intro exI[of _ j]) simp
qed

text \<open>
  The normalised double and its boundaries in quarters of its last place, a quarter being
  \<^verbatim>\<open>X\<close>: the upper boundary is two quarters away, the lower one \<^verbatim>\<open>a\<close>.
\<close>

lemma quarter:
  assumes "11 \<le> j" "X = 2 ^ (j - 2)"
  shows "(2 :: nat) ^ j = 4 * X" "(2 :: nat) ^ (j - 1) = 2 * X" "2 ^ 9 \<le> X"
proof -
  show "(2 :: nat) ^ j = 4 * X" "(2 :: nat) ^ (j - 1) = 2 * X" using assms le_Suc_ex[of 2 j] by (auto simp: numeral_2_eq_2)
  show "2 ^ 9 \<le> X" unfolding assms(2) using assms(1) by (intro power_increasing) simp_all
qed

lemma shift_fits:
  assumes "(f :: nat) * 2 ^ j < 2 ^ 64" "j \<le> 63"
  shows "f * 2 ^ j + 2 ^ j \<le> 2 ^ 64"
proof -
  have q: "(2 :: nat) ^ 64 = 2 ^ (64 - j) * 2 ^ j" using assms(2) by (simp add: power_add[symmetric])
  have "f < 2 ^ (64 - j)" using assms(1) unfolding q by simp
  then have "(f + 1) * 2 ^ j \<le> 2 ^ (64 - j) * 2 ^ j" by (intro mult_le_mono1) simp
  then show ?thesis unfolding q by (simp only: add_mult_distrib mult_1)
qed

lemma lower_boundary:
  fixes bits j X :: nat
  assumes "11 \<le> j" "j \<le> 63" "X = 2 ^ (j - 2)"
  defines "f \<equiv> fp_f (double_diyfp bits)" and "e \<equiv> fp_e (double_diyfp bits)"
    and "a \<equiv> if bits mod 2 ^ 52 = 0 \<and> bits div 2 ^ 52 > 1 then 1 else 2"
  assumes "(4 * f - a) * X < 2 ^ 64"
  shows "diyfp_normalize_to (m_minus bits) (e - int j) = Inr \<lparr>fp_f = (4 * f - a) * X, fp_e = e - int j\<rparr>"
    "fp_value (m_minus bits) = of_nat ((4 * f - a) * X) * 2 powi (e - int j)"
proof -
  have m: "\<exists>n k. m_minus bits = \<lparr>fp_f = n, fp_e = e - int j + int k\<rparr> \<and> k < 64 \<and> n * 2 ^ k = (4 * f - a) * X"
  proof (cases "bits mod 2 ^ 52 = 0 \<and> bits div 2 ^ 52 > 1")
    case True
    then show ?thesis using assms(1-3) by (intro exI[of _ "4 * f - 1"] exI[of _ "j - 2"]) (simp add: m_minus_def a_def e_def f_def Let_def of_nat_diff)
  next
    case False
    have "(2 * f - 1) * 2 ^ (j - 1) = (4 * f - 2) * X" unfolding quarter(2)[OF assms(1,3)] by (simp add: diff_mult_distrib)
    with False assms(1,2) show ?thesis by (intro exI[of _ "2 * f - 1"] exI[of _ "j - 1"]) (auto simp: m_minus_def a_def e_def f_def Let_def of_nat_diff)
  qed
  then obtain n k where k: "m_minus bits = \<lparr>fp_f = n, fp_e = e - int j + int k\<rparr>" "k < 64" "n * 2 ^ k = (4 * f - a) * X" by blast
  then show "diyfp_normalize_to (m_minus bits) (e - int j) = Inr \<lparr>fp_f = (4 * f - a) * X, fp_e = e - int j\<rparr>"
    using assms(7) by (simp add: diyfp_normalize_to_def Let_def) (metis nonzero_mult_div_cancel_right power_not_zero zero_neq_numeral)
  show "fp_value (m_minus bits) = of_nat ((4 * f - a) * X) * 2 powi (e - int j)"
    unfolding k(1) fp_value_shift[of n _ k] k(3) by simp
qed

lemma boundaries_ok:
  assumes "0 < bits" "bits < infinity_bits"
  obtains f a X e where "0 < f" "f < 2 ^ 53" "a = 2 \<or> a = 1 \<and> f = 2 ^ 52" "2 ^ 9 \<le> X" "2 ^ 63 \<le> (4 * f + 2) * X" "(4 * f + 2) * X < 2 ^ 64"
    "- 1137 \<le> e" "e \<le> 960"
    "compute_boundaries bits = Inr \<lparr>b_w = \<lparr>fp_f = 4 * f * X, fp_e = e\<rparr>, b_minus = \<lparr>fp_f = (4 * f - a) * X, fp_e = e\<rparr>, b_plus = \<lparr>fp_f = (4 * f + 2) * X, fp_e = e\<rparr>\<rparr>"
    "fp_value (m_plus bits) = of_nat ((4 * f + 2) * X) * 2 powi e" "fp_value (m_minus bits) = of_nat ((4 * f - a) * X) * 2 powi e"
proof -
  let ?v = "double_diyfp bits"
  let ?f = "fp_f ?v" and ?e = "fp_e ?v"
  note dp = double_parts[OF assms]
  obtain j where j: "11 \<le> j" "j \<le> 63" "2 ^ 63 \<le> ?f * 2 ^ j" "?f * 2 ^ j < 2 ^ 64" using shift_exists[OF dp(1,2)] by blast
  define X :: nat where "X = 2 ^ (j - 2)"
  define a :: nat where "a = (if bits mod 2 ^ 52 = 0 \<and> bits div 2 ^ 52 > 1 then 1 else 2)"
  note p = quarter[OF j(1) X_def]
  have plus: "(2 * ?f + 1) * 2 ^ (j - 1) = (4 * ?f + 2) * X" "2 ^ 63 \<le> (4 * ?f + 2) * X" "(4 * ?f + 2) * X < 2 ^ 64"
    using j(3) shift_fits[OF j(4,2)] p(3) unfolding p(1,2) by (simp_all add: algebra_simps)
  have "(4 * ?f - a) * X < 2 ^ 64" using plus(3) by (rule le_less_trans[rotated], intro mult_le_mono1, simp)
  note minus = lower_boundary[OF j(1,2) X_def this[unfolded a_def], folded a_def]
  have e: "?e - int j \<le> 960" "- 1137 \<le> ?e - int j" using dp(3,4) j(1,2) by simp_all
  have np: "diyfp_normalize (m_plus bits) = Inr \<lparr>fp_f = (4 * ?f + 2) * X, fp_e = ?e - int j\<rparr>"
    using normalize_shift[of "2 * ?f + 1" "j - 1" "?e - 1"] plus j(1) by (simp add: diyfp_normalize_def m_plus_def Let_def of_nat_diff)
  have eta: "\<lparr>fp_f = ?f, fp_e = ?e\<rparr> = ?v" by simp
  have nv: "diyfp_normalize ?v = Inr \<lparr>fp_f = 4 * ?f * X, fp_e = ?e - int j\<rparr>"
    using normalize_shift[of ?f j ?e, unfolded eta] j(3,4) dp(1) p(1) by (simp add: diyfp_normalize_def mult.commute mult.left_commute)
  have vp: "fp_value (m_plus bits) = of_nat ((4 * ?f + 2) * X) * 2 powi (?e - int j)"
    using fp_value_shift[of "2 * ?f + 1" "?e - 1" "j - 1", unfolded plus(1)] j(1) by (simp add: m_plus_def Let_def of_nat_diff)
  have "compute_boundaries bits = Inr \<lparr>b_w = \<lparr>fp_f = 4 * ?f * X, fp_e = ?e - int j\<rparr>,
      b_minus = \<lparr>fp_f = (4 * ?f - a) * X, fp_e = ?e - int j\<rparr>, b_plus = \<lparr>fp_f = (4 * ?f + 2) * X, fp_e = ?e - int j\<rparr>\<rparr>"
    using assms by (simp add: compute_boundaries_def np minus(1) nv)
  moreover have "a = 2 \<or> a = 1 \<and> ?f = 2 ^ 52" using dp(5) by (simp add: a_def)
  ultimately show ?thesis using that[OF dp(1,2) _ p(3) plus(2,3) e(2,1) _ vp minus(2)] by blast
qed

subsection \<open>The digits\<close>

lemma margin:
  fixes p m t y :: rat
  assumes "\<bar>p - (4 * t + 2 * y)\<bar> < 1" "\<bar>m - (4 * t - a * y)\<bar> < 1" "y \<ge> 255" "t \<le> (2 ^ 53 - 1) * y" "a = 2 \<or> a = 1 \<and> t = 2 ^ 52 * y"
  shows "p - 1 < 10 ^ 16 * (p - 1 - (m + 1))"
  using assms(5)
proof (elim disjE conjE)
  assume "a = 2"
  then show ?thesis using assms(1-4) by simp
next
  assume "a = 1" "t = 2 ^ 52 * y"
  then show ?thesis using assms(1-3) by simp
qed

text \<open>One unit of the product is far less than a quarter of the last place of the double.\<close>

lemma margins:
  fixes f a X cf :: nat and C :: rat
  defines "h \<equiv> \<lambda>n. (n * cf + 2 ^ 63) div 2 ^ 64"
  assumes "0 < f" "f < 2 ^ 53" "a = 2 \<or> a = 1 \<and> f = 2 ^ 52" "2 ^ 9 \<le> X" "2 ^ 63 \<le> (4 * f + 2) * X" "(4 * f + 2) * X < 2 ^ 64"
    "2 ^ 63 \<le> cf" "cf < 2 ^ 64" "2 * \<bar>of_nat cf - C\<bar> \<le> 1"
  shows "h ((4 * f - a) * X) + 1 \<le> h (4 * f * X)" "h (4 * f * X) + 1 \<le> h ((4 * f + 2) * X)" "2 ^ 60 < h ((4 * f + 2) * X)" "h ((4 * f + 2) * X) < 2 ^ 64"
    "h ((4 * f + 2) * X) - 1 < 10 ^ 16 * ((h ((4 * f + 2) * X) - 1) - (h ((4 * f - a) * X) + 1))"
    "of_nat ((4 * f - a) * X) * C / 2 ^ 64 < of_nat (h ((4 * f - a) * X) + 1)"
    "of_nat (h ((4 * f + 2) * X) - 1) < of_nat ((4 * f + 2) * X) * C / 2 ^ 64"
proof -
  define y where "y = of_nat X * C / 2 ^ 64"
  let ?p = "(4 * f + 2) * X" and ?v = "4 * f * X" and ?m = "(4 * f - a) * X"
  have C: "C \<ge> 2 ^ 63 - 1 / 2" using assms(8,10) of_nat_mono[OF assms(8), where 'a = rat] by (simp add: abs_if split: if_splits)
  have X: "(of_nat X :: rat) \<ge> 512" using of_nat_mono[OF assms(5), where 'a = rat] by simp
  have "512 * (2 ^ 63 - 1 / 2) \<le> of_nat X * C" using X C by (intro mult_mono) simp_all
  then have y: "y \<ge> 255" by (simp add: y_def)
  have am: "a \<le> 4 * f" using assms(2,4) by auto
  have lt: "?v < 2 ^ 64" "?m < 2 ^ 64" using assms(7) by (rule le_less_trans[rotated], intro mult_le_mono1, simp)+
  have T: "of_nat ?p * C / 2 ^ 64 = 4 * (of_nat f * y) + 2 * y" "of_nat ?v * C / 2 ^ 64 = 4 * (of_nat f * y)" "of_nat ?m * C / 2 ^ 64 = 4 * (of_nat f * y) - of_nat a * y"
    using am by (simp_all add: y_def of_nat_diff algebra_simps add_divide_distrib diff_divide_distrib)
  have h: "\<bar>of_nat (h n) - of_nat n * C / 2 ^ 64\<bar> < 1" if "n < 2 ^ 64" for n using mul_near[OF that assms(10)] by (simp only: h_def)
  note near = h[OF assms(7), unfolded T] h[OF lt(1), unfolded T] h[OF lt(2), unfolded T]
  show "of_nat ?m * C / 2 ^ 64 < of_nat (h ?m + 1)" unfolding T using near(3) by (simp add: abs_if split: if_splits)
  have ay: "of_nat a * y \<ge> y" using assms(4) y by auto
  have 1: "(of_nat (h ?m) + 1 :: rat) < of_nat (h ?v)" using near(2,3) y ay by linarith
  then show "h ?m + 1 \<le> h ?v" by linarith
  have 2: "(of_nat (h ?v) + 1 :: rat) < of_nat (h ?p)" using near(1,2) y by linarith
  then show "h ?v + 1 \<le> h ?p" by linarith
  have "2 ^ 63 * (2 ^ 63 - 1 / 2) \<le> of_nat ?p * C" using C of_nat_mono[OF assms(6), where 'a = rat] by (intro mult_mono) simp_all
  then have "2 ^ 61 \<le> of_nat ?p * C / 2 ^ 64" by simp
  then have 3: "(2 ^ 60 :: rat) < of_nat (h ?p)" using near(1) unfolding T by (simp add: abs_if split: if_splits)
  then show "2 ^ 60 < h ?p" using of_nat_less_iff[of "2 ^ 60" "h ?p", where 'a = rat] by simp
  have "?p * cf \<le> (2 ^ 64 - 1) * (2 ^ 64 - 1)" using assms(7,9) by (intro mult_le_mono) simp_all
  then show "h ?p < 2 ^ 64" unfolding h_def by (simp add: less_mult_imp_div_less)
  have hp: "(of_nat (h ?p - 1) :: rat) = of_nat (h ?p) - 1" using 3 by (simp add: of_nat_diff)
  show "of_nat (h ?p - 1) < of_nat ?p * C / 2 ^ 64" unfolding T hp using near(1) by (simp add: abs_if split: if_splits)
  have "(of_nat f * y) \<le> (2 ^ 53 - 1) * y" using assms(3) y of_nat_mono[of f "2 ^ 53 - 1", where 'a = rat] by (intro mult_right_mono) simp_all
  then have "of_nat (h ?p) - 1 < 10 ^ 16 * (of_nat (h ?p) - 1 - (of_nat (h ?m) + 1 :: rat))"
    using margin[OF near(1,3) y] assms(4) by auto
  then have "of_nat (h ?p - 1) < (of_nat (10 ^ 16 * ((h ?p - 1) - (h ?m + 1))) :: rat)" using 1 2 by (simp add: of_nat_diff)
  then show "h ?p - 1 < 10 ^ 16 * ((h ?p - 1) - (h ?m + 1))" by (simp only: of_nat_less_iff)
qed

lemma scaled:
  assumes "C = 10 powi ck * 2 powi (- ce)"
  shows "n * C / 2 ^ 64 * 2 powi (ce + e + 64) = n * 2 powi e * (10 powi ck :: rat)"
  by (simp add: assms power_int_add power_int_minus)

lemma grisu2_between:
  assumes "0 < bits" "bits < infinity_bits"
  shows "\<exists>ds x. grisu2 bits = Inr (ds, x) \<and> good_digits ds \<and> length ds \<le> 17 \<and>
    fp_value (m_minus bits) < of_nat (digits_nat ds) * 10 powi x \<and> of_nat (digits_nat ds) * 10 powi x < fp_value (m_plus bits)"
proof (rule boundaries_ok[OF assms])
  fix f a X e
  assume b: "0 < f" "f < 2 ^ 53" "a = 2 \<or> a = 1 \<and> f = 2 ^ 52" "2 ^ 9 \<le> X" "2 ^ 63 \<le> (4 * f + 2) * X" "(4 * f + 2) * X < 2 ^ 64"
    and e: "- 1137 \<le> e" "e \<le> 960"
    and cb: "compute_boundaries bits = Inr \<lparr>b_w = \<lparr>fp_f = 4 * f * X, fp_e = e\<rparr>, b_minus = \<lparr>fp_f = (4 * f - a) * X, fp_e = e\<rparr>, b_plus = \<lparr>fp_f = (4 * f + 2) * X, fp_e = e\<rparr>\<rparr>"
    and val: "fp_value (m_plus bits) = of_nat ((4 * f + 2) * X) * 2 powi e" "fp_value (m_minus bits) = of_nat ((4 * f - a) * X) * 2 powi e"
  obtain cf ce ck where c: "get_cached_power_for_binary_exponent e = Inr (cf, ce, ck)" "2 ^ 63 \<le> cf" "cf < 2 ^ 64"
      "- 60 \<le> ce + e + 64" "ce + e + 64 \<le> - 32" "2 * \<bar>of_nat cf - 10 powi ck * 2 powi (- ce)\<bar> \<le> (1 :: rat)"
    using cached_power[OF e] by blast
  define C :: rat where "C = 10 powi ck * 2 powi (- ce)"
  let ?h = "\<lambda>n. (n * cf + 2 ^ 63) div 2 ^ 64" and ?E = "ce + e + 64"
  let ?p = "(4 * f + 2) * X" and ?v = "4 * f * X" and ?m = "(4 * f - a) * X"
  obtain hp hv hm where h: "?h ?p = hp" "?h ?v = hv" "?h ?m = hm" by blast
  note mar = margins[OF b c(2,3) c(6)[folded C_def], unfolded h]
  have lt: "?v < 2 ^ 64" "?m < 2 ^ 64" using b(6) by (rule le_less_trans[rotated], intro mult_le_mono1, simp)+
  have mulp: "diyfp_mul \<lparr>fp_f = n, fp_e = e\<rparr> \<lparr>fp_f = cf, fp_e = ce\<rparr> = \<lparr>fp_f = ?h n, fp_e = ?E\<rparr>" if "n < 2 ^ 64" for n
    using mul_value[of "\<lparr>fp_f = n, fp_e = e\<rparr>" "\<lparr>fp_f = cf, fp_e = ce\<rparr>"] that c(3) by simp
  let ?Mm = "\<lparr>fp_f = hm + 1, fp_e = ?E\<rparr>" and ?Mp = "\<lparr>fp_f = hp - 1, fp_e = ?E\<rparr>" and ?w = "\<lparr>fp_f = hv, fp_e = ?E\<rparr>"
  have u: "u64 (hm + 1) = hm + 1" "u64 (hp + 2 ^ 64 - 1) = hp - 1" using mar(1-4) by (simp_all add: u64_def mod_if)
  have run: "grisu2 bits = grisu2_digit_gen (- ck) ?Mm ?w ?Mp"
    unfolding grisu2_def cb grisu2_boundaries_def bind_result.simps boundaries.select_convs diyfp.select_convs c(1) Let_def split_conv
      mulp[OF b(6)] mulp[OF lt(1)] mulp[OF lt(2)] h u by simp
  have g: "0 < hm + 1" "hm + 1 \<le> hv" "hv \<le> hp - 1" "2 ^ 60 \<le> hp - 1" "hp - 1 < 2 ^ 64" using mar(1-4) by linarith+
  obtain out x where o: "grisu2_digit_gen (- ck) ?Mm ?w ?Mp = Inr (out, - ck + x)" "good_digits out" "length out \<le> 17"
     "of_nat (hm + 1) * 2 powi ?E \<le> of_nat (digits_nat out) * (10 powi x :: rat)"
     "of_nat (digits_nat out) * 10 powi x \<le> of_nat (hp - 1) * (2 powi ?E :: rat)"
    using digit_gen_ok[of ?Mm ?Mp ?w "- ck", unfolded diyfp.select_convs, OF refl refl c(4,5) g mar(5)] by blast
  have "of_nat ?m * 2 powi e * 10 powi ck < of_nat (digits_nat out) * (10 powi x :: rat)"
    using mult_strict_right_mono[OF mar(6), of "2 powi ?E"] o(4) unfolding scaled[OF C_def] by simp
  moreover have "of_nat (digits_nat out) * (10 powi x :: rat) < of_nat ?p * 2 powi e * 10 powi ck"
    using mult_strict_right_mono[OF mar(7), of "2 powi ?E"] o(5) unfolding scaled[OF C_def] by simp
  moreover have "of_nat (digits_nat out) * (10 powi x :: rat) = of_nat (digits_nat out) * 10 powi (- ck + x) * 10 powi ck"
    by (simp add: power_int_diff)
  ultimately have "fp_value (m_minus bits) < of_nat (digits_nat out) * 10 powi (- ck + x)" "of_nat (digits_nat out) * 10 powi (- ck + x) < fp_value (m_plus bits)"
    unfolding val by (simp_all only: mult_less_cancel_right_pos zero_less_power_int zero_less_numeral)
  then show ?thesis using run o(1-3) by auto
qed

end
