(* ===== verification/Json_Roundtrip.thy ===== *)
theory Json_Roundtrip
  imports Json_Text
begin

text \<open>
  Reading back a whole document: for every value that the serializer can write and that a reader
  can tell apart, the parser rebuilds it from the indented text and from the compact one, and stops
  behind it. With that the annotation files of \<^verbatim>\<open>jsonManager.cpp\<close> are written and read by the
  library's own codec; the digits of a double and the rounding of a numeral are
  parameters here.
\<close>

subsection \<open>Values that can be read back\<close>

text \<open>
  Strings and keys are UTF-8, the keys of an object differ, integers fit the library's types, and a
  double reads back.
\<close>

fun printable :: "(rat \<Rightarrow> string \<times> int) \<Rightarrow> (rat \<Rightarrow> rat option) \<Rightarrow> json \<Rightarrow> bool"
  and printable_list :: "(rat \<Rightarrow> string \<times> int) \<Rightarrow> (rat \<Rightarrow> rat option) \<Rightarrow> json list \<Rightarrow> bool"
  and printable_members :: "(rat \<Rightarrow> string \<times> int) \<Rightarrow> (rat \<Rightarrow> rat option) \<Rightarrow> (string \<times> json) list \<Rightarrow> bool" where
  "printable g rnd (Object kvs) = (distinct (map fst kvs) \<and> printable_members g rnd kvs)"
| "printable g rnd (Array js) = printable_list g rnd js"
| "printable g rnd (Str s) = utf8 s"
| "printable g rnd (Boolean b) = True"
| "printable g rnd (Integer i) = (- (2 ^ 63) \<le> i \<and> i < 2 ^ 64)"
| "printable g rnd (Float r) = reads_back g rnd r"
| "printable g rnd Null = True"
| "printable_list g rnd [] = True"
| "printable_list g rnd (j # js) = (printable g rnd j \<and> printable_list g rnd js)"
| "printable_members g rnd [] = True"
| "printable_members g rnd ((k, j) # kvs) = (utf8 k \<and> printable g rnd j \<and> printable_members g rnd kvs)"

lemma printable_utf8:
  "printable g rnd j \<Longrightarrow> json_utf8 j"
  "printable_list g rnd js \<Longrightarrow> all_utf8 js"
  "printable_members g rnd kvs \<Longrightarrow> members_utf8 kvs"
  by (induction g rnd j and g rnd js and g rnd kvs rule: printable_printable_list_printable_members.induct) simp_all

lemma printable_list_iff: "printable_list g rnd js \<longleftrightarrow> list_all (printable g rnd) js"
  by (induction js) simp_all

subsection \<open>Steps of the parser\<close>

definition read_value ::
    "(rat \<Rightarrow> rat option) \<Rightarrow> bool list \<Rightarrow> json_sax_dom_parser \<Rightarrow> string \<Rightarrow> (json_sax_dom_parser \<times> string) result" where
  "read_value rnd states sdp s = (case scan rnd s of (t, r) \<Rightarrow> parse_value rnd states sdp t r)"

definition read_member ::
    "(rat \<Rightarrow> rat option) \<Rightarrow> bool list \<Rightarrow> json_sax_dom_parser \<Rightarrow> string \<Rightarrow> (json_sax_dom_parser \<times> string) result" where
  "read_member rnd states sdp s =
     (case scan rnd s of (t, s1) \<Rightarrow>
        (case t of
           value_string k \<Rightarrow>
             bind_result (sax_key k sdp) (\<lambda>sdp'.
             (case scan rnd s1 of (t2, s2) \<Rightarrow> if t2 \<noteq> name_separator then unexpected else read_value rnd states sdp' s2))
         | _ \<Rightarrow> unexpected))"

lemma read_layout [simp]:
  "read_value rnd states sdp (line_end pp @ s) = read_value rnd states sdp s"
  "read_value rnd states sdp (indentation pp n @ s) = read_value rnd states sdp s"
  "read_member rnd states sdp (line_end pp @ s) = read_member rnd states sdp s"
  "read_member rnd states sdp (indentation pp n @ s) = read_member rnd states sdp s"
  by (simp_all add: read_value_def read_member_def)

lemma read_array:
  assumes "fst (scan rnd s) \<noteq> end_array"
  shows "read_value rnd states sdp (CHR ''['' # s) = read_value rnd (True # states) (start_array sdp) s"
  using assms by (cases "scan rnd s") (simp add: read_value_def parse_value.simps[of _ _ _ begin_array])

lemma read_object:
  assumes "fst (scan rnd s) \<noteq> end_object"
  shows "read_value rnd states sdp (CHR ''{'' # s) = read_member rnd (False # states) (start_object sdp) s"
  unfolding read_member_def read_value_def using assms by (cases "scan rnd s") (simp add: parse_value.simps[of _ _ _ begin_object])

lemma next_element: "parse_state rnd (True # states) sdp (CHR '','' # s) = read_value rnd (True # states) sdp s"
  by (simp add: read_value_def parse_state.simps)

lemma next_member: "parse_state rnd (False # states) sdp (CHR '','' # s) = read_member rnd (False # states) sdp s"
  unfolding read_member_def read_value_def by (simp add: parse_state.simps)

lemma close_array:
  "parse_state rnd (True # states) sdp (line_end pp @ indentation pp n @ CHR '']'' # s) =
     bind_result (end_of_array sdp) (\<lambda>sdp'. parse_state rnd states sdp' s)"
  by (simp add: parse_state.simps[of _ "True # states"])

lemma close_object:
  "parse_state rnd (False # states) sdp (line_end pp @ indentation pp n @ CHR ''}'' # s) =
     bind_result (end_of_object sdp) (\<lambda>sdp'. parse_state rnd states sdp' s)"
  by (simp add: parse_state.simps[of _ "False # states"])

lemma obj_set_new: "k \<notin> set (map fst kvs) \<Longrightarrow> obj_set k v kvs = kvs @ [(k, v)]"
  by (induction kvs) auto

text \<open>What follows a value inside a document is not part of a number.\<close>

lemma no_number_after [simp]:
  "no_number []" "no_number (CHR '','' # s)" "no_number (CHR 0x0A # s)"
  "no_number (line_end pp @ indentation pp n @ CHR '']'' # s)" "no_number (line_end pp @ indentation pp n @ CHR ''}'' # s)"
  by (simp_all add: no_number_def line_end_def indentation_def is_digit_def is_exponent_def char_digit_def)

text \<open>A value begins with a token of its own.\<close>

lemma first_token:
  assumes "printable g rnd j" "no_number r"
  shows "fst (scan rnd (value_text g pp step cur j @ r)) \<notin> {end_array, end_object} \<and>
     (\<forall>m. fst (scan rnd (value_text g pp step cur j @ r)) \<noteq> parse_error m)"
  using assms by (cases j) (simp_all add: scan_quoted scan_integer scan_float)

subsection \<open>Reading the written text\<close>

lemma read_scalar:
  assumes "printable g rnd j" "no_number r" "j \<notin> range Array" "j \<notin> range Object"
  shows "read_value rnd states sdp (value_text g pp step cur j @ r) =
     bind_result (handle_value j sdp) (\<lambda>sdp'. parse_state rnd states sdp' r)"
  using assms by (cases j) (simp_all add: read_value_def scan_quoted scan_integer scan_float parse_value.simps del: handle_value.simps)

text \<open>
  What reading a value, the elements of an array behind \<^verbatim>\<open>xs\<close>, and the members of an object behind
  \<^verbatim>\<open>ms\<close> does: the handler gets the value, and the parser goes on with the rest.
\<close>

definition reads_value :: "(rat \<Rightarrow> rat option) \<Rightarrow> string \<Rightarrow> json \<Rightarrow> bool" where
  "reads_value rnd t j \<longleftrightarrow>
     (\<forall>states sdp r. no_number r \<longrightarrow>
        read_value rnd states sdp (t @ r) = bind_result (handle_value j sdp) (\<lambda>sdp'. parse_state rnd states sdp' r))"

definition reads_elements :: "(rat \<Rightarrow> rat option) \<Rightarrow> bool \<Rightarrow> string \<Rightarrow> json list \<Rightarrow> bool" where
  "reads_elements rnd pp t js \<longleftrightarrow>
     (\<forall>states sdp xs n r.
        read_value rnd (True # states) (sdp\<lparr>ref_stack := Array_frame xs # ref_stack sdp\<rparr>) (t @ line_end pp @ indentation pp n @ CHR '']'' # r) =
          bind_result (handle_value (Array (xs @ js)) sdp) (\<lambda>sdp'. parse_state rnd states sdp' r))"

definition reads_members :: "(rat \<Rightarrow> rat option) \<Rightarrow> bool \<Rightarrow> string \<Rightarrow> (string \<times> json) list \<Rightarrow> bool" where
  "reads_members rnd pp t kvs \<longleftrightarrow>
     (\<forall>states sdp ms k0 n r. distinct (map fst (ms @ kvs)) \<longrightarrow>
        read_member rnd (False # states) (sdp\<lparr>ref_stack := Object_frame ms k0 # ref_stack sdp\<rparr>) (t @ line_end pp @ indentation pp n @ CHR ''}'' # r) =
          bind_result (handle_value (Object (ms @ kvs)) sdp) (\<lambda>sdp'. parse_state rnd states sdp' r))"

lemma reads_scalar:
  assumes "printable g rnd j" "j \<notin> range Array" "j \<notin> range Object"
  shows "reads_value rnd (value_text g pp step cur j) j"
  using read_scalar[OF assms(1) _ assms(2,3)] by (simp add: reads_value_def)

lemma reads_object:
  assumes "printable g rnd (Object kvs)" "kvs \<noteq> [] \<Longrightarrow> reads_members rnd pp (members_text g pp step (if pp then cur + step else cur) kvs) kvs"
  shows "reads_value rnd (value_text g pp step cur (Object kvs)) (Object kvs)"
proof (cases kvs)
  case Nil
  then show ?thesis
    by (simp add: reads_value_def read_value_def parse_value.simps start_object_def end_of_object_def del: handle_value.simps)
next
  case (Cons kj kvs')
  obtain k j where kj: "kj = (k, j)" by (cases kj)
  let ?s = "\<lambda>r. line_end pp @ members_text g pp step (if pp then cur + step else cur) kvs @ line_end pp @ indentation pp cur @ CHR ''}'' # r"
  have k: "utf8 k" using assms(1) Cons kj by simp
  have "fst (scan rnd (?s r)) \<noteq> end_object" for r by (simp add: Cons kj scan_quoted[OF k])
  with assms Cons show ?thesis
    by (simp add: reads_value_def reads_members_def read_object start_object_def del: handle_value.simps)
qed

lemma reads_array:
  assumes "printable g rnd (Array js)" "js \<noteq> [] \<Longrightarrow> reads_elements rnd pp (elements_text g pp step (if pp then cur + step else cur) js) js"
  shows "reads_value rnd (value_text g pp step cur (Array js)) (Array js)"
proof (cases js)
  case Nil
  then show ?thesis
    by (simp add: reads_value_def read_value_def parse_value.simps start_array_def end_of_array_def del: handle_value.simps)
next
  case (Cons j js')
  let ?i = "if pp then cur + step else cur"
  let ?s = "\<lambda>r. line_end pp @ elements_text g pp step ?i js @ line_end pp @ indentation pp cur @ CHR '']'' # r"
  have "printable g rnd j" using assms(1) Cons by simp
  from first_token[OF this, of "(if js' = [] then [] else '','' @ line_end pp @ elements_text g pp step ?i js') @ line_end pp @ indentation pp cur @ CHR '']'' # r" pp step ?i for r]
  have "fst (scan rnd (?s r)) \<noteq> end_array" for r by (simp add: Cons)
  with assms Cons show ?thesis
    by (simp add: reads_value_def reads_elements_def read_array start_array_def del: handle_value.simps)
qed

lemma reads_element:
  assumes "reads_value rnd (value_text g pp step ind j) j" "js \<noteq> [] \<Longrightarrow> reads_elements rnd pp (elements_text g pp step ind js) js"
  shows "reads_elements rnd pp (elements_text g pp step ind (j # js)) (j # js)"
  unfolding reads_elements_def
proof (intro allI)
  fix states n r and sdp :: json_sax_dom_parser and xs
  let ?d = "sdp\<lparr>ref_stack := Array_frame (xs @ [j]) # ref_stack sdp\<rparr>"
  let ?tail = "(if js = [] then [] else '','' @ line_end pp @ elements_text g pp step ind js) @ line_end pp @ indentation pp n @ CHR '']'' # r"
  have "no_number ?tail" by simp
  with assms(1)
  have h: "read_value rnd (True # states) (sdp\<lparr>ref_stack := Array_frame xs # ref_stack sdp\<rparr>)
       (elements_text g pp step ind (j # js) @ line_end pp @ indentation pp n @ CHR '']'' # r) = parse_state rnd (True # states) ?d ?tail"
    by (simp add: reads_value_def)
  show "read_value rnd (True # states) (sdp\<lparr>ref_stack := Array_frame xs # ref_stack sdp\<rparr>)
       (elements_text g pp step ind (j # js) @ line_end pp @ indentation pp n @ CHR '']'' # r) =
     bind_result (handle_value (Array (xs @ j # js)) sdp) (\<lambda>sdp'. parse_state rnd states sdp' r)"
  proof (cases "js = []")
    case True
    then show ?thesis unfolding h by (simp add: close_array end_of_array_def del: handle_value.simps)
  next
    case False
    then show ?thesis using assms(2) unfolding h by (simp add: next_element reads_elements_def del: handle_value.simps)
  qed
qed

lemma reads_member:
  assumes "utf8 k" "reads_value rnd (value_text g pp step ind j) j" "kvs \<noteq> [] \<Longrightarrow> reads_members rnd pp (members_text g pp step ind kvs) kvs"
  shows "reads_members rnd pp (members_text g pp step ind ((k, j) # kvs)) ((k, j) # kvs)"
  unfolding reads_members_def
proof (intro allI impI)
  fix states ms k0 n r and sdp :: json_sax_dom_parser
  assume d: "distinct (map fst (ms @ (k, j) # kvs))"
  let ?d = "sdp\<lparr>ref_stack := Object_frame (ms @ [(k, j)]) (Some k) # ref_stack sdp\<rparr>"
  let ?tail = "(if kvs = [] then [] else '','' @ line_end pp @ members_text g pp step ind kvs) @ line_end pp @ indentation pp n @ CHR ''}'' # r"
  have k: "k \<notin> set (map fst ms)" using d by auto
  have b: "(if pp then '' '' else []) @ s = indentation pp 1 @ s" for s by (simp add: indentation_def)
  have "no_number ?tail" by simp
  with assms(2) obj_set_new[OF k, of j]
  have v: "read_value rnd (False # states) (sdp\<lparr>ref_stack := Object_frame ms (Some k) # ref_stack sdp\<rparr>) (value_text g pp step ind j @ ?tail) =
     parse_state rnd (False # states) ?d ?tail" by (simp add: reads_value_def)
  have "read_member rnd (False # states) (sdp\<lparr>ref_stack := Object_frame ms k0 # ref_stack sdp\<rparr>)
       (quoted k @ '':'' @ indentation pp 1 @ value_text g pp step ind j @ ?tail) = parse_state rnd (False # states) ?d ?tail"
    using v by (simp add: read_member_def scan_quoted[OF assms(1)] sax_key_def)
  then have h: "read_member rnd (False # states) (sdp\<lparr>ref_stack := Object_frame ms k0 # ref_stack sdp\<rparr>)
       (members_text g pp step ind ((k, j) # kvs) @ line_end pp @ indentation pp n @ CHR ''}'' # r) = parse_state rnd (False # states) ?d ?tail"
    by (simp only: members_text.simps append_assoc b read_layout)
  show "read_member rnd (False # states) (sdp\<lparr>ref_stack := Object_frame ms k0 # ref_stack sdp\<rparr>)
       (members_text g pp step ind ((k, j) # kvs) @ line_end pp @ indentation pp n @ CHR ''}'' # r) =
     bind_result (handle_value (Object (ms @ (k, j) # kvs)) sdp) (\<lambda>sdp'. parse_state rnd states sdp' r)"
  proof (cases "kvs = []")
    case True
    then show ?thesis unfolding h by (simp add: close_object end_of_object_def del: handle_value.simps)
  next
    case False
    then show ?thesis using assms(3) d unfolding h by (simp add: next_member reads_members_def del: handle_value.simps)
  qed
qed

lemma read_back:
  "printable g rnd j \<Longrightarrow> reads_value rnd (value_text g pp step cur j) j"
  "printable_list g rnd js \<Longrightarrow> js \<noteq> [] \<Longrightarrow> reads_elements rnd pp (elements_text g pp step ind js) js"
  "printable_members g rnd kvs \<Longrightarrow> kvs \<noteq> [] \<Longrightarrow> reads_members rnd pp (members_text g pp step ind kvs) kvs"
proof (induction g pp step cur j and g pp step ind js and g pp step ind kvs rule: value_text_elements_text_members_text.induct)
  case (1 g pp step cur kvs)
  then show ?case by (intro reads_object) auto
next
  case (2 g pp step cur js)
  then show ?case by (intro reads_array) auto
next
  case (9 g pp step ind j js)
  then show ?case by (intro reads_element) auto
next
  case (11 g pp step ind k j kvs)
  then show ?case by (intro reads_member) auto
qed ((rule reads_scalar; auto)+, simp_all)

lemma json_dump_layout:
  assumes "json_utf8 j" "indent \<le> 512"
  shows "json_dump g indent False j = Inr (value_text g (0 \<le> indent) (nat indent) 0 j)"
  using assms json_dump_text[of j indent g] dump_correct(1)[of 0 512 False 0 False j g] by (auto simp: json_dump_def dumps_def)

lemma parse_written:
  assumes "printable g rnd j" "no_number r"
  shows "json_parse rnd (value_text g pp step cur j @ r) = Inr (j, r)"
proof -
  let ?s = "value_text g pp step cur j @ r"
  have "scan rnd (CHR 0xEF # s) = (parse_error ''invalid literal'', [])" for s
    by (simp add: scan_def is_whitespace_def is_digit_def char_digit_def)
  with first_token[OF assms, of pp step cur] have "scan_first rnd ?s = scan rnd ?s"
    by (cases ?s) (auto simp: scan_first_def)
  with read_back(1)[OF assms(1), of pp step cur] assms(2) show ?thesis
    by (auto simp: json_parse_def reads_value_def read_value_def parse_state.simps split: prod.splits)
qed

lemma written_text_reads_back:
  assumes "printable g rnd j" and "indent \<le> 512" and "no_number rest"
  shows "\<exists>t. json_dump g indent False j = Inr t \<and> json_parse rnd (t @ rest) = Inr (j, rest)"
  using json_dump_layout[OF printable_utf8(1)[OF assms(1)] assms(2)] parse_written[OF assms(1,3)] by blast

subsection \<open>Annotation files as texts\<close>

text \<open>\<^verbatim>\<open>o << j.dump(4) << std::endl\<close> and \<^verbatim>\<open>i >> j\<close>; the error is an exception that the caller catches.\<close>

definition file_dump :: "(rat \<Rightarrow> string \<times> int) \<Rightarrow> json \<Rightarrow> string option" where
  "file_dump dtoa j = (case json_dump dtoa 4 False j of Inl e \<Rightarrow> None | Inr t \<Rightarrow> Some (t @ [CHR 0x0A]))"

definition file_parse :: "(rat \<Rightarrow> rat option) \<Rightarrow> string \<Rightarrow> json option" where
  "file_parse rnd s = (case json_parse rnd s of Inl e \<Rightarrow> None | Inr (j, rest) \<Rightarrow> Some j)"

interpretation text_codec: json_codec "file_dump g" "file_parse rnd" "printable g rnd" for g rnd
proof
  fix j
  assume "printable g rnd j"
  then have "json_dump g 4 False j = Inr (value_text g True 4 0 j)"
    "json_parse rnd (value_text g True 4 0 j @ [CHR 0x0A]) = Inr (j, [CHR 0x0A])"
    using printable_utf8(1)[of g rnd j] by (simp_all add: json_dump_layout parse_written)
  then show "\<exists>t. file_dump g j = Some t \<and> file_parse rnd t = Some j" by (simp add: file_dump_def file_parse_def)
qed

definition shape_printable :: "(rat \<Rightarrow> string \<times> int) \<Rightarrow> (rat \<Rightarrow> rat option) \<Rightarrow> shape_s \<Rightarrow> bool" where
  "shape_printable g rnd s \<longleftrightarrow>
     utf8 (label s) \<and> utf8 (description s) \<and> utf8 (shape_type s) \<and> utf8 (flags s) \<and> shape_fits s \<and>
     list_all (\<lambda>p. reads_back g rnd (px p) \<and> reads_back g rnd (py p)) (points s)"

definition root_printable :: "(rat \<Rightarrow> string \<times> int) \<Rightarrow> (rat \<Rightarrow> rat option) \<Rightarrow> root_s \<Rightarrow> bool" where
  "root_printable g rnd rt \<longleftrightarrow>
     utf8 (version rt) \<and> utf8 (root_flags rt) \<and> utf8 (imagePath rt) \<and> utf8 (imageData rt) \<and>
     list_all (shape_printable g rnd) (root_shapes rt)"

lemma lead_ascii [simp]: "b \<le> 0x7F \<Longrightarrow> lead_ranges b = Some []"
  by (simp add: lead_ranges_def)

lemma fits_printable: "fits_int i \<Longrightarrow> printable g rnd (Integer i)"
  by (simp add: fits_int_def)

lemma points_printable:
  assumes "list_all (\<lambda>p. reads_back g rnd (px p) \<and> reads_back g rnd (py p)) ps" "fold_points Null ps = Inr jp"
  shows "printable g rnd jp"
proof (cases ps)
  case (Cons p ps')
  with assms show ?thesis
    by (auto simp: to_json_point_def fold_points_Array printable_list_iff list_all_iff)
qed (use assms in simp)

lemma shape_json_printable:
  assumes "shape_printable g rnd s" "to_json_shape s = Inr j"
  shows "printable g rnd j"
  using assms points_printable[of g rnd "points s"]
  by (auto simp: to_json_shape_def shape_printable_def shape_fits_def fits_int_def bind_result_Inr_iff)

lemma map_result_list_all: "map_result f xs = Inr ys \<Longrightarrow> list_all P xs \<Longrightarrow> (\<And>x y. P x \<Longrightarrow> f x = Inr y \<Longrightarrow> Q y) \<Longrightarrow> list_all Q ys"
  by (induction xs arbitrary: ys) (auto simp: bind_result_Inr_iff)

lemma stoi_fits: "stoi s = Inr i \<Longrightarrow> fits_int i"
  by (auto simp: stoi_def fits_int_def bind_result_Inr_iff split: if_splits)

lemma root_json_printable:
  assumes "root_printable g rnd rt" "to_json_root rt = Inr j"
  shows "printable g rnd j"
proof -
  obtain js h w where j: "map_result to_json_shape (root_shapes rt) = Inr js" "stoi (imageHeight rt) = Inr h" "stoi (imageWidth rt) = Inr w"
      "j = Object [(''version'', Str (version rt)), (''flags'', Str (root_flags rt)), (''shapes'', Array js), (''imagePath'', Str (imagePath rt)),
                   (''imageData'', Str (imageData rt)), (''imageHeight'', Integer h), (''imageWidth'', Integer w)]"
    using assms(2) by (auto simp: to_json_root_def bind_result_Inr_iff)
  have "list_all (printable g rnd) js"
    using map_result_list_all[OF j(1), of "shape_printable g rnd" "printable g rnd"] shape_json_printable assms(1) by (auto simp: root_printable_def)
  with assms(1) fits_printable[OF stoi_fits[OF j(2)], of g rnd] fits_printable[OF stoi_fits[OF j(3)], of g rnd] show ?thesis
    by (simp add: j(4) root_printable_def printable_list_iff)
qed

lemma root_reads_back:
  assumes "root_printable g rnd rt" and "writable name"
    and "imageHeight rt = to_string h" and "imageWidth rt = to_string w"
    and "- (2 ^ 31) \<le> h" and "h < 2 ^ 31" and "- (2 ^ 31) \<le> w" and "w < 2 ^ 31"
  shows "\<exists>fs'. writeJson (file_dump g) [] writable fs name rt = Inr (True, fs') \<and>
     readJson (file_parse rnd) fs' name root_empty = Inr (True, rt\<lparr>root_flags := version rt\<rparr>)"
proof -
  have "list_all shape_fits (root_shapes rt)" using assms(1) by (simp add: root_printable_def shape_printable_def list_all_iff)
  then show ?thesis
    by (intro text_codec.good_root_reads_back[where g = g and rnd = rnd and h = h and w = w])
       (use root_json_printable[OF assms(1)] assms in auto)
qed

end
