(* ===== verification/Doubles.thy ===== *)
theory Doubles
  imports Grisu2_Correct Json_Roundtrip
begin

text \<open>
  Doubles in JSON texts: with the digits of Grisu2 every double is written so that \<^verbatim>\<open>strtod\<close> reads it
  back, and the codec of the library has no parameter left.
\<close>

subsection \<open>The digits of every double read back\<close>

text \<open>
  C9. The digits of a double: for every positive finite double Grisu2 returns, no assertion fails, and it
  delivers at most 17 digits without a leading zero. They stand for a number strictly between the
  boundaries of the double, so that every way of rounding to the nearest double gives the double back,
  and rounding with ties to even gives its very bits.
\<close>

theorem grisu2_correct:
  assumes "0 < bits" and "bits < infinity_bits"
  shows "\<exists>ds x. grisu2 bits = Inr (ds, x) \<and> good_digits ds \<and> length ds \<le> 17 \<and>
    fp_value (m_minus bits) < of_nat (digits_nat ds) * 10 powi x \<and> of_nat (digits_nat ds) * 10 powi x < fp_value (m_plus bits) \<and>
    round_bits (of_nat (digits_nat ds) * 10 powi x) = bits"
  using grisu2_between[OF assms] rounds_to[OF assms] by blast

theorem grisu2_correct_witness:
  "\<exists>ds x. grisu2 0x3FB999999999999A = Inr (ds, x) \<and> good_digits ds \<and> length ds \<le> 17 \<and>
    round_bits (of_nat (digits_nat ds) * 10 powi x) = 0x3FB999999999999A"
  using grisu2_correct[of "0x3FB999999999999A"] by (simp only: infinity_bits_def) auto

text \<open>\<^verbatim>\<open>grisu2(buf, len, decimal_exponent, value)\<close>; the second case does not arise for a positive double.\<close>

definition double_digits :: "rat \<Rightarrow> string \<times> int" where
  "double_digits r = (case grisu2 (round_bits r) of Inr p \<Rightarrow> p | Inl e \<Rightarrow> ([], 0))"

lemma decimal_exponent:
  assumes "good_digits ds" "z = of_nat (digits_nat ds) * 10 powi x"
  shows "10 powi (int (length ds) + x - 1) \<le> (z :: rat)" "z < 10 powi (int (length ds) + x)"
proof -
  obtain n where n: "length ds = Suc n" using assms(1) by (cases ds) (auto simp: good_digits_def)
  have "of_nat (10 ^ n) \<le> (of_nat (digits_nat ds) :: rat)" "of_nat (digits_nat ds) < (of_nat (10 ^ Suc n) :: rat)"
    using digits_nat_bounds[OF assms(1)] unfolding of_nat_le_iff of_nat_less_iff by (simp_all add: n)
  then have "(10 :: rat) ^ n * 10 powi x \<le> z" "z < (10 :: rat) ^ Suc n * 10 powi x" unfolding assms(2)
    by (simp_all add: mult_right_mono)
  moreover have "(10 :: rat) powi (int (length ds) + x - 1) = 10 ^ n * 10 powi x" "(10 :: rat) powi (int (length ds) + x) = 10 ^ Suc n * 10 powi x"
    by (simp_all add: n power_int_add power_int_diff)
  ultimately show "10 powi (int (length ds) + x - 1) \<le> z" "z < 10 powi (int (length ds) + x)" by simp_all
qed

lemma boundary_range:
  assumes "0 < b" "b < infinity_bits"
  shows "10 powi (- 324) < fp_value (m_minus b)" "fp_value (m_plus b) < 10 powi 309"
proof -
  note dp = double_parts[OF assms]
  have "(10 :: rat) powi (- 324) < 2 powi (- 1076)" by simp
  also have "\<dots> \<le> 2 powi (fp_e (double_diyfp b) - 2)" using dp(3) by (intro power_int_increasing) simp_all
  also have "\<dots> \<le> fp_value (m_minus b)"
    using dp(1) by (auto simp: fp_value_def m_minus_def Let_def power_int_diff of_nat_diff field_simps)
  finally show "10 powi (- 324) < fp_value (m_minus b)" .
  have "fp_value (m_plus b) = (2 * of_nat (fp_f (double_diyfp b)) + 1) * 2 powi (fp_e (double_diyfp b) - 1)"
    by (simp add: fp_value_def m_plus_def Let_def)
  also have "\<dots> \<le> 2 ^ 55 * 2 powi 970"
    using dp(2,4) of_nat_mono[of "fp_f (double_diyfp b)" "2 ^ 53", where 'a = rat] by (intro mult_mono power_int_increasing) simp_all
  also have "\<dots> < 10 powi 309" by simp
  finally show "fp_value (m_plus b) < 10 powi 309" .
qed

lemma power_of_ten_less: "10 powi m < (10 powi n :: rat) \<Longrightarrow> m < n"
  using power_int_increasing[of n m "10 :: rat"] by (cases "m < n") auto

lemma double_reads_back:
  assumes "is_double r"
  shows "reads_back double_digits strtod_round r"
proof (cases "r = 0")
  case True
  then show ?thesis by (simp add: reads_back_def strtod_round_def infinity_bits_def)
next
  case False
  obtain b where b: "b < infinity_bits" "\<bar>r\<bar> = double_value b" using assms is_double_iff by blast
  then have b0: "0 < b" using False by (cases b) simp_all
  obtain ds x where g: "grisu2 b = Inr (ds, x)" "good_digits ds" "fp_value (m_minus b) < of_nat (digits_nat ds) * 10 powi x"
      "of_nat (digits_nat ds) * 10 powi x < fp_value (m_plus b)"
    using grisu2_between[OF b0 b(1)] by blast
  let ?z = "of_nat (digits_nat ds) * 10 powi x :: rat"
  note de = decimal_exponent[OF g(2) refl, of x] and br = boundary_range[OF b0 b(1)]
  have "int (length ds) + x - 1 < 309" using de(1) g(4) br(2) by (intro power_of_ten_less) linarith
  moreover have "- 324 < int (length ds) + x" using de(2) g(3) br(1) by (intro power_of_ten_less) linarith
  ultimately have len: "\<bar>int (length ds) + x\<bar> < 999" by linarith
  have z: "0 < ?z" using de(1) by (rule less_le_trans[rotated]) simp
  then have "0 < digits_nat ds" by (intro gr0I) simp
  then have "strtod_round (sgn r * ?z) = Some r"
    using rounds_to[OF b0 b(1) g(3,4)] z b False mult_sgn_abs[of r] by (simp add: strtod_round_def abs_mult sgn_mult)
  then show ?thesis using False g(1,2) len round_bits_exact[OF b(1)] b(2)
    by (simp add: reads_back_def double_digits_def good_digits_def)
qed

lemma reads_back_iff [simp]: "reads_back double_digits strtod_round r \<longleftrightarrow> is_double r"
proof
  assume "reads_back double_digits strtod_round r"
  then obtain s where s: "strtod_round s = Some r"
    by (auto simp: reads_back_def split: if_splits prod.splits)
  then have "round_bits \<bar>s\<bar> < infinity_bits" "\<bar>r\<bar> = \<bar>sgn s\<bar> * double_value (round_bits \<bar>s\<bar>)"
    by (auto simp: strtod_round_def Let_def abs_mult double_value_nonneg split: if_splits)
  then show "is_double r" unfolding is_double_iff by (cases "s = 0") (auto simp: abs_sgn intro: exI[of _ 0])
qed (rule double_reads_back)

subsection \<open>Documents\<close>

text \<open>What the library can write and read: texts in UTF-8, keys that differ, integers of 64 bits, and doubles.\<close>

fun json_plain :: "json \<Rightarrow> bool" and json_plain_list :: "json list \<Rightarrow> bool" and json_plain_members :: "(string \<times> json) list \<Rightarrow> bool" where
  "json_plain (Object kvs) = (distinct (map fst kvs) \<and> json_plain_members kvs)"
| "json_plain (Array js) = json_plain_list js"
| "json_plain (Str s) = utf8 s"
| "json_plain (Boolean b) = True"
| "json_plain (Integer i) = (- (2 ^ 63) \<le> i \<and> i < 2 ^ 64)"
| "json_plain (Float r) = is_double r"
| "json_plain Null = True"
| "json_plain_list [] = True"
| "json_plain_list (j # js) = (json_plain j \<and> json_plain_list js)"
| "json_plain_members [] = True"
| "json_plain_members ((k, j) # kvs) = (utf8 k \<and> json_plain j \<and> json_plain_members kvs)"

lemma printable_plain:
  "printable double_digits strtod_round j \<longleftrightarrow> json_plain j"
  "printable_list double_digits strtod_round js \<longleftrightarrow> json_plain_list js"
  "printable_members double_digits strtod_round kvs \<longleftrightarrow> json_plain_members kvs"
  by (induction j and js and kvs rule: json_plain_json_plain_list_json_plain_members.induct) simp_all

text \<open>
  C8. Documents read back: a value whose strings are UTF-8, whose keys differ, whose integers fit 64 bits
  and whose numbers are doubles is written without an exception, indented or compact, and reading the
  text gives the same value and stops right behind it, whatever follows that could not go on with a
  number. The digits are those of Grisu2, and a numeral is read as the nearest double.
\<close>

theorem json_text_roundtrip:
  assumes "json_plain j" and "indent \<le> 512" and "no_number rest"
  shows "\<exists>t. json_dump double_digits indent False j = Inr t \<and> json_parse strtod_round (t @ rest) = Inr (j, rest)"
  by (rule written_text_reads_back[OF _ assms(2,3)]) (simp add: printable_plain assms(1))

definition sample_json :: json where
  "sample_json = Object [(''a'', Array [Float (25 / 2), Integer (- 3), Null]), (''b'', Str [CHR 0x22, CHR 0xC3, CHR 0xA4])]"

theorem json_text_roundtrip_witness:
  "\<exists>t. json_dump double_digits 4 False sample_json = Inr t \<and> json_parse strtod_round (t @ [CHR 0x0A]) = Inr (sample_json, [CHR 0x0A])"
proof -
  have "json_plain sample_json" using is_double_half[of 25] by (simp add: sample_json_def lead_ranges_def)
  then show ?thesis using json_text_roundtrip[of sample_json 4 "[CHR 0x0A]"] by simp
qed

text \<open>
  C12. A saved annotation file reads back, through the text of the library: for image sizes that fit an
  int, texts in UTF-8, numbers that fit and coordinates that are doubles, writing succeeds, and reading
  the file gives the same shapes, labels, vertices, image and size. Only the flags of the root differ:
  they come back as the version string.
\<close>

theorem annotation_file_roundtrip:
  assumes "utf8 (version rt)" and "utf8 (root_flags rt)" and "utf8 (imagePath rt)" and "utf8 (imageData rt)"
    and "list_all (\<lambda>s. utf8 (label s) \<and> utf8 (description s) \<and> utf8 (shape_type s) \<and> utf8 (flags s) \<and> shape_fits s \<and>
           list_all (\<lambda>p. is_double (px p) \<and> is_double (py p)) (points s)) (root_shapes rt)"
    and "writable name"
    and "imageHeight rt = to_string h" and "imageWidth rt = to_string w"
    and "- (2 ^ 31) \<le> h" and "h < 2 ^ 31" and "- (2 ^ 31) \<le> w" and "w < 2 ^ 31"
  shows "\<exists>fs'. writeJson (file_dump double_digits) [] writable fs name rt = Inr (True, fs') \<and>
     readJson (file_parse strtod_round) fs' name root_empty = Inr (True, rt\<lparr>root_flags := version rt\<rparr>)"
proof -
  have "root_printable double_digits strtod_round rt"
    using assms(1-5) by (simp add: root_printable_def shape_printable_def list_all_iff)
  then show ?thesis using assms(6-12) by (rule root_reads_back)
qed

theorem annotation_file_roundtrip_witness:
  "\<exists>fs'. writeJson (file_dump double_digits) [] (\<lambda>_. True) Map.empty ''a.json'' sample_root = Inr (True, fs') \<and>
     readJson (file_parse strtod_round) fs' ''a.json'' root_empty = Inr (True, sample_root\<lparr>root_flags := ''1.0''\<rparr>)"
  using annotation_file_roundtrip[of sample_root "\<lambda>_. True" "''a.json''" 512 640 Map.empty]
    is_double_nat[of 1] is_double_nat[of 2] is_double_nat[of 3] is_double_nat[of 4]
  by (simp add: sample_root_def shape_fits_def fits_int_def)

end
