(* ===== verification/Annotation_Text.thy ===== *)
theory Annotation_Text
  imports Main_Window Doubles
begin

text \<open>
  The main window with the text codec of the JSON library: saving an annotated image writes the
  indented text of \<^verbatim>\<open>dump(4)\<close> and opening it runs the library's lexer and parser. The platform's
  parameters \<^verbatim>\<open>dump\<close> and \<^verbatim>\<open>parse\<close> are the modelled functions here.
\<close>

definition text_platform :: "string platform \<Rightarrow> string platform" where
  "text_platform P = P\<lparr>dump := file_dump double_digits, parse := file_parse strtod_round, empty_text := []\<rparr>"

text \<open>The texts of a label are UTF-8, and the image coordinates of the vertices are doubles.\<close>

definition shape_texts :: "Shape \<Rightarrow> bool" where
  "shape_texts s \<longleftrightarrow>
     utf8 (lp_label (m_label s)) \<and> utf8 (lp_description (m_label s)) \<and>
     list_all (\<lambda>p. is_double (px p) \<and> is_double (py p)) (m_imgPoints (m_points s))"

lemma mode_name_utf8 [simp]: "utf8 (Shape_drawModeToStr m)"
  by (cases m) simp_all

lemma saved_shape_printable:
  "shape_texts s \<Longrightarrow> fits_int (lp_groupId (m_label s)) \<Longrightarrow> shape_printable double_digits strtod_round (save_shape s)"
  by (simp add: shape_texts_def shape_printable_def save_shape_def shape_fits_def fits_int_def YPolygonPoints_getImgPoints_def)

lemma saved_root_reads:
  assumes "utf8 f" "utf8 (toBase64 P (Some i))" "list_all shape_texts ss" "list_all (on_image i) ss"
  shows "reads_file (text_platform P) (saved_root (image_root P f i) ss)"
proof -
  have "list_all (shape_printable double_digits strtod_round) (map save_shape ss)"
    using assms(3,4) by (auto simp: list_all_iff on_image_def intro: saved_shape_printable)
  then have "root_printable double_digits strtod_round (saved_root (image_root P f i) ss)"
    using assms(1,2) by (simp add: root_printable_def saved_root_def image_root_def APP_VERSION_def)
  from root_json_printable[OF this] text_codec.read_back_good show ?thesis
    by (auto simp: reads_file_def text_platform_def)
qed

text \<open>
  C7. An annotated image survives saving and opening, with the text that is really written: if the path,
  the labels and the encoded image are UTF-8 and the coordinates are doubles, saving
  writes a file, and opening that file gives as many shapes with the same labels, in the same order, all
  closed. Three things differ. A shape without a label comes back as ``unknonw''; every shape comes back
  with the draw mode that is selected, not with its own; and for an odd width or height the vertices are
  moved by half a pixel, because one direction halves the size as a double and the other as an int.
\<close>

theorem save_then_open:
  assumes "list_all shape_texts (shapes (w_canvas w))" and "utf8 f" and "utf8 (toBase64 P (Some i))"
    and "fromBase64 P (toBase64 P (Some i)) = Some i"
    and "m_savePath (w_files w) = path" and "path \<noteq> []" and "getLabelFile (w_files w) = Inr (file, m)"
    and "writable P (path @ ''/'' @ file)" and "\<not> isOpenJsonFile (w_files w)"
    and "getCurrentImageFile (w_files w) = Inr f" and "read_image P f = Some i"
    and "img_w i < 2 ^ 31" and "img_h i < 2 ^ 31"
    and "shapes (w_canvas w) \<noteq> []" and "list_all (on_image i) (shapes (w_canvas w))" and "m_draw (w_canvas w) \<noteq> None_mode"
  shows "\<exists>w1 w2. saveFile (text_platform P) w = (w1, None) \<and> openFile (text_platform P) (path @ ''/'' @ file) w1 = (w2, None) \<and>
     list_all2 (reopened i (m_draw (w_canvas w))) (shapes (w_canvas w)) (shapes (w_canvas w2))"
proof -
  have "image_root (text_platform P) f i = image_root P f i" by (simp add: image_root_def text_platform_def)
  with saved_root_reads[OF assms(2,3,1,15)]
  have "reads_file (text_platform P) (saved_root (image_root (text_platform P) f i) (shapes (w_canvas w)))" by simp
  then show ?thesis
    by (rule saved_file_opens[OF _ _ assms(5-7) _ assms(9,10) _ assms(12-16)]) (use assms(4,8,11) in \<open>simp_all add: text_platform_def\<close>)
qed

definition text_sample :: "QImage \<Rightarrow> string platform" where
  "text_sample i =
     \<lparr>fromHslF = \<lambda>_. color_white, read_image = \<lambda>_. Some i, toBase64 = \<lambda>_. [], fromBase64 = \<lambda>_. Some i, absolutePath = id,
      entryList = \<lambda>_. [''a.png''], chooseDir = \<lambda>_. ''out'', parse = \<lambda>_. None, dump = \<lambda>_. None, empty_text = [],
      writable = \<lambda>_. True, viewSize = \<lparr>sz_width = 640, sz_height = 512\<rparr>, centre = 0, convert = id\<rparr>"

theorem save_then_open_witness:
  "\<exists>w1 w2 s. saveFile (text_platform (text_sample (blank_image 101 100))) (sample_window (blank_image 101 100)) = (w1, None) \<and>
     openFile (text_platform (text_sample (blank_image 101 100))) ''out/a_labels.json'' w1 = (w2, None) \<and>
     shapes (w_canvas w2) = [s] \<and> m_oriPoints (m_points s) = [QPointF (3/2) 2]"
proof -
  let ?i = "blank_image 101 100"
  let ?P = "text_sample ?i" and ?w = "sample_window ?i :: string Window"
  let ?Q = "text_platform ?P"
  let ?s = "Shape_appendPoint (QPointF 1 2) (Shape_setimgWH (img_size ?i) (Shape_new YPolygon Polygon))"
  note defs = Shape_appendPoint_def YPolygonPoints_append_def Shape_setimgWH_def YPolygonPoints_setImgWH_def Shape_new_def
    YPolygonPoints_empty_def img_size_def
  have s: "shapes (w_canvas ?w) = [?s]" by (simp add: sample_window_def shapes_def get_shape_def)
  have m: "getLabelFile (w_files ?w) = Inr (''a_labels.json'', (w_files ?w)\<lparr>labelFile := ''a_labels.json''\<rparr>)"
    by (simp add: sample_window_def FileManager_new_def getLabelFile_def imageFileNameAt_def vec_at_def getBaseName_def getFileName_def FILENAME_DIR_LABEL_def Let_def)
  have "on_image ?i ?s" by (simp add: on_image_def LabelProperty_default_def fits_int_def shape_wf_def views_agree_def defs)
  moreover have "shape_texts ?s"
    using is_double_half[of 103] is_double_nat[of 52] by (simp add: shape_texts_def LabelProperty_default_def plus_QPointF_def defs)
  ultimately have "\<exists>w1 w2. saveFile ?Q ?w = (w1, None) \<and> openFile ?Q (''out'' @ ''/'' @ ''a_labels.json'') w1 = (w2, None) \<and>
     list_all2 (reopened ?i (m_draw (w_canvas ?w))) (shapes (w_canvas ?w)) (shapes (w_canvas w2))"
    using s
    by (intro save_then_open[where f = "''a.png''" and m = "(w_files ?w)\<lparr>labelFile := ''a_labels.json''\<rparr>"])
       (auto simp: m, auto simp: text_sample_def sample_window_def FileManager_new_def getCurrentImageFile_def vec_at_def)
  then obtain w1 w2 s' where "saveFile ?Q ?w = (w1, None)" "openFile ?Q ''out/a_labels.json'' w1 = (w2, None)"
    "shapes (w_canvas w2) = [s']" "reopened ?i (m_draw (w_canvas ?w)) ?s s'"
    unfolding s by (auto simp: list_all2_Cons1)
  then show ?thesis by (auto simp: reopened_def drift_def plus_QPointF_def defs)
qed

end
