(* ===== verification/Spec2Isabelle.thy ===== *)
theory Spec2Isabelle
  imports Program_Run Drawing_Gestures Json_Types Fifo_Map Hv_Directories Annotation_Text
begin

text \<open>
  XY-Annotation: a verification of the image annotation tool under
  \<^verbatim>\<open>src/XY-Annotation-new/src\<close>, a Qt program in which a user opens images, draws closed
  outlines on them, names them, and saves them as JSON.

  \<^bold>\<open>The program.\<close> A shape (\<^verbatim>\<open>annotations/\<close>) has its vertices in canvas and in image
  coordinates, a label, and a class that decides how it is hit and drawn. The canvas
  (\<^verbatim>\<open>canvas/\<close>) shows one image and keeps the list of shapes; its event handlers turn mouse
  and key events into changes of that list, most of them through commands on an undo stack
  (\<^verbatim>\<open>controllers/commands.cpp\<close>) that the view (\<^verbatim>\<open>ui/CanvasView.cpp\<close>) pushes. The
  window (\<^verbatim>\<open>ui/window.cpp\<close>) owns the canvas, the file manager and the lists, asks for labels,
  opens and saves files through \<^verbatim>\<open>controllers/jsonManager.cpp\<close>, and changes the
  configuration, which \<^verbatim>\<open>global/main.cpp\<close> loads at the start and saves at the end with the
  INI parser of \<^verbatim>\<open>3rd/Hv\<close>.

  \<^bold>\<open>Theories and sources.\<close>
  \<^item> \<^verbatim>\<open>Prelude\<close>, \<^verbatim>\<open>Qt_Values\<close>, \<^verbatim>\<open>Qt_Map\<close>: errors and outcomes, checked vectors,
    decimal numerals; points, rectangles, colours, images; the ordered map of Qt.
  \<^item> \<^verbatim>\<open>Polygon_Points\<close>, \<^verbatim>\<open>Geometry\<close>, \<^verbatim>\<open>Labels\<close>, \<^verbatim>\<open>Shapes\<close>,
    \<^verbatim>\<open>Shape_Drawing\<close>: \<^verbatim>\<open>shape.h\<close>, \<^verbatim>\<open>shape.cc\<close>, the five classes of
    shapes with their virtual methods, \<^verbatim>\<open>shapefactory.h\<close>, \<^verbatim>\<open>labelmanager.cpp\<close>.
    Drawing yields the list of the painter calls.
  \<^item> \<^verbatim>\<open>Image_Filter\<close>, \<^verbatim>\<open>Canvas_Base\<close>: \<^verbatim>\<open>canvasbase.cpp\<close>. The record
    \<^verbatim>\<open>CanvasBase\<close> has the fields of the class; shapes live in a store, because the list and the
    undo commands share them, and a \<^verbatim>\<open>ShapePtr\<close> is an index into it.
  \<^item> \<^verbatim>\<open>Undo_Stack\<close>, \<^verbatim>\<open>Undo_Commands\<close>, \<^verbatim>\<open>Undo_Tracking\<close>,
    \<^verbatim>\<open>Canvas_View\<close>: the undo stack of Qt after its documentation, the commands, what every
    command on the stack does to the list of shapes, and the slots of the view.
  \<^item> \<^verbatim>\<open>Canvas_Events\<close>, \<^verbatim>\<open>Event_Safety\<close>, \<^verbatim>\<open>Event_Behaviour\<close>,
    \<^verbatim>\<open>Drawing_Gestures\<close>, \<^verbatim>\<open>Undo_Sessions\<close>: the handlers of
    \<^verbatim>\<open>canvas2d.cpp\<close>, one definition each with every guard and early return; sequences of
    events, undo and redo as a step relation; what single events, whole drawings and undo do.
  \<^item> \<^verbatim>\<open>Json_Codec\<close>, \<^verbatim>\<open>Json_Types\<close>, \<^verbatim>\<open>Fifo_Map\<close>, \<^verbatim>\<open>File_Manager\<close>:
    \<^verbatim>\<open>jsonManager.cpp\<close>, the container \<^verbatim>\<open>fifo_map.hpp\<close> it selects for objects, and
    \<^verbatim>\<open>filemanager.cpp\<close>.
  \<^item> \<^verbatim>\<open>Json_Utf8\<close>, \<^verbatim>\<open>Json_Writer\<close>, \<^verbatim>\<open>Json_Lexer\<close>, \<^verbatim>\<open>Json_Parser\<close>: the
    serializer, the lexer and the parser of \<^verbatim>\<open>json.hpp\<close> that write and read these files as
    text. \<^verbatim>\<open>Json_Text\<close> and \<^verbatim>\<open>Json_Roundtrip\<close> show that tokens and documents read
    back, for any digits of a double that round to it.
  \<^item> \<^verbatim>\<open>Grisu2\<close>: the namespace \<^verbatim>\<open>dtoa_impl\<close> of \<^verbatim>\<open>json.hpp\<close>, which computes the digits
    of a double from its bits. \<^verbatim>\<open>Grisu2_Powers\<close> is about its table of powers of ten,
    \<^verbatim>\<open>Grisu2_Digits\<close> about the loops that generate and round the digits, and
    \<^verbatim>\<open>Grisu2_Correct\<close> about products, boundaries and the whole algorithm.
    \<^verbatim>\<open>Rounding\<close> is about the doubles themselves: the nearest double of a number, which
    \<^verbatim>\<open>strtod\<close>, the arithmetic of the image filter and the conversion of integers give, and its
    error. With it \<^verbatim>\<open>Doubles\<close> shows that documents and annotation files read back with nothing left
    open, and \<^verbatim>\<open>Annotation_Text\<close> that what the window saves can be opened.
  \<^item> \<^verbatim>\<open>List_Widgets\<close>, \<^verbatim>\<open>Main_Window\<close>: \<^verbatim>\<open>customlistwidget.cpp\<close>,
    \<^verbatim>\<open>labeldialog.cpp\<close>, \<^verbatim>\<open>ImageAdj.cpp\<close>, \<^verbatim>\<open>window.cpp\<close>,
    \<^verbatim>\<open>ycommon.cpp\<close>.
  \<^item> \<^verbatim>\<open>Canvas_Frame\<close>, \<^verbatim>\<open>Window_Sessions\<close>: that events leave the image and its
    adjustment alone; events of the canvas, actions of the window, the adjustment of the image, opening
    and saving in any order, from the constructor of the window on.
  \<^item> \<^verbatim>\<open>Ini_Config\<close>, \<^verbatim>\<open>Ini_Roundtrip\<close>, \<^verbatim>\<open>Hv_Strings\<close>,
    \<^verbatim>\<open>Hv_Directories\<close>: \<^verbatim>\<open>iniparser.cpp\<close>, and the functions of
    \<^verbatim>\<open>hstring.cpp\<close> and \<^verbatim>\<open>hbase.c\<close> on texts, paths and directories.
  \<^item> \<^verbatim>\<open>App_Start\<close>, \<^verbatim>\<open>Program_Run\<close>: \<^verbatim>\<open>main.cpp\<close>, first its parts and then
    whole runs of the program, one after the other on the same disk.

  \<^bold>\<open>What is shown.\<close>
  \<^item> Invariants: both views of the vertices agree; names of shapes are unique and the current
    index is valid; label ids are fresh; the file cursor stays in its list. Every sequence of events,
    edits, undo and redo, labels and new images from a canvas with an image keeps the document invariant,
    and no handler lets an exception or a read out of range escape. The same is shown of the whole
    window, from its constructor and the first image on, with all its actions and sliders.
  \<^item> Refinement: the commands implement a list of documents in which undo goes back, and the container of
    JSON objects implements an association list in insertion order; the interfaces between components
    are locales that are interpreted on the definitions of the model. The stack of commands is traced
    through every edit, so that undo and redo are shown to succeed at every moment of a session.
  \<^item> Behaviour: what clicks, keys and double clicks draw; that every outline can be drawn and is
    finished by a key; zooming, fitting, hit tests, moving, geometry, the image filter.
  \<^item> The text of JSON: the serializer writes exactly the values in UTF-8 and stays inside its buffers, the
    parser ends on every text, Grisu2 delivers at most 17 digits that round to the double, without a
    failed assertion or a sum that wraps around, and a document that was written reads back.
  \<^item> Round trips and types: annotation files down to their bytes, labels, settings, undo and redo, image adjustment, and
    the next run of the program, which finds what the last one saved; the reader of annotation files
    accepts exactly the typed values, and shapes have the class and the name that belong to their mode.
  \<^item> Defects are stated as theorems about what the code does: the painter that reads a missing
    corner, the undo that leaves a rectangle closed, the first polyline that cannot be removed, the click
    after reopening, the directory that is saved with the image of an old file, and others.

  \<^bold>\<open>Choices.\<close> The image filter computes in doubles, with one rounding per operation, and integers become
  doubles by rounding; \<^verbatim>\<open>strtod\<close> returns the nearest double, ties to even. Coordinates, scales and
  hues are exact rationals where the code has doubles, so the rounding of geometry is not covered; a
  theorem about files requires the coordinates to be doubles. The two zeros of doubles are one number:
  a negative zero would be written as \<^verbatim>\<open>-0.0\<close> and is not distinguished here. Machine integers are
  \<^verbatim>\<open>int\<close> with the range or the wrap-around written out where a value can leave 32 bits, and bytes of
  images are words. What uninitialised memory holds is a parameter where the program goes on with it: the
  index of a new file manager, and the type of the root that the INI parser makes without a file;
  theorems hold for all its values. All other undefined behaviour (an index out of
  range, a null or dangling pointer, a local variable that is read before it is set, a number that does
  not fit, a double that is converted to an int out of range) is an
  error value of its own that no handler catches. There is no fuel: loops are structural recursions or
  have a termination proof, and the one loop that may run forever is a partial function whose
  termination is characterised. Qt and the system appear as parameters: whether a polygon contains a point,
  decoded images, directory listings, answers of dialogs, the size of the viewport,
  whether a file can be written, the resources of the program, and what the event loop did. What a theorem needs of them is among its hypotheses.

  \<^bold>\<open>Not modelled.\<close> Construction and styling of widgets, docks and icons have no logic of
  their own, and the rectangle of the scene, which \<^verbatim>\<open>loadImage\<close> sets, belongs to the view. \<^verbatim>\<open>labellineedit.cpp\<close> is a second copy of a class in
  \<^verbatim>\<open>labeldialog.cpp\<close>, the old copies in two subdirectories are not built, and
  \<^verbatim>\<open>CYamlParser.cpp\<close> is not used. Logging and the paths of the process are system calls. Of the
  bundled libraries only what the program's own state depends on is modelled: the INI parser with the
  base library it is built with, less memory allocation and formatted printing, the container of
  JSON objects, and the part of the JSON library that writes and reads texts with the options of the
  program. Its binary formats, comments, pointers and patches, and the wording and positions of its
  error messages are left out.
\<close>

end
